(* ===== verification/Prelude.thy ===== *)
theory Prelude
  imports Main "HOL-Library.Word"
begin

text \<open>
  Shared vocabulary of the development: the machine integers of the C sources
  (src/source/types.h), the result type in which every \<open>panic\<close>, undefined access and
  non-terminating loop of the kernel is a value, the sequencing operator of that result
  type with its inversion rules (collection \<open>res_iff\<close>), and generic facts about words
  and lists that several components use.
\<close>

unbundle bit_operations_syntax

section \<open>Machine integers\<close>

type_synonym uchar = "8 word"
type_synonym ushort = "16 word"
type_synonym uint = "32 word"

text \<open>A C \<open>int\<close> is kept as the same 32-bit pattern and read with \<open>sint\<close>.\<close>

type_synonym cint = "32 word"

section \<open>Results\<close>

text \<open>
  \<open>Panic m\<close> is a call of \<open>panic(m)\<close>, which never returns. \<open>Fault m\<close> is an access that C
  leaves undefined (a null dereference, an index out of an array, a division by zero).
  \<open>Diverge\<close> is a loop that does not end (a spin on a lock nobody releases, or a loop bound
  that was exhausted).
\<close>

datatype kerr = Panic string | Fault string | Diverge

type_synonym 'a res = "kerr + 'a"

definition bindE :: "'a res \<Rightarrow> ('a \<Rightarrow> 'b res) \<Rightarrow> 'b res" where
  "bindE m f = (case m of Inl e \<Rightarrow> Inl e | Inr x \<Rightarrow> f x)"

definition guardE :: "bool \<Rightarrow> kerr \<Rightarrow> unit res" where
  "guardE b e = (if b then Inr () else Inl e)"

named_theorems res_iff
named_theorems frame_simps

lemma bindE_Inl [simp]: "bindE (Inl e) f = Inl e"
  by (simp add: bindE_def)

lemma bindE_Inr [simp]: "bindE (Inr x) f = f x"
  by (simp add: bindE_def)

lemma bindE_eq_Inr [res_iff]: "bindE m f = Inr y \<longleftrightarrow> (\<exists>x. m = Inr x \<and> f x = Inr y)"
  by (cases m) auto

lemma bindE_eq_Inl [res_iff]:
  "bindE m f = Inl e \<longleftrightarrow> m = Inl e \<or> (\<exists>x. m = Inr x \<and> f x = Inl e)"
  by (cases m) auto

lemma guardE_True [simp]: "guardE True e = Inr ()"
  by (simp add: guardE_def)

lemma guardE_False [simp]: "guardE False e = Inl e"
  by (simp add: guardE_def)

lemma guardE_eq_Inr [res_iff]: "guardE b e = Inr u \<longleftrightarrow> b"
  by (simp add: guardE_def)

lemma guardE_eq_Inl [res_iff]: "guardE b e = Inl e' \<longleftrightarrow> \<not> b \<and> e' = e"
  by (auto simp: guardE_def)

lemma bindE_assoc: "bindE (bindE m f) g = bindE m (\<lambda>x. bindE (f x) g)"
  by (cases m) auto

lemma bindE_cong [fundef_cong]:
  "m = m' \<Longrightarrow> (\<And>x. m' = Inr x \<Longrightarrow> f x = g x) \<Longrightarrow> bindE m f = bindE m' g"
  by (cases m') auto

text \<open>A result satisfies a postcondition when it returns and the value satisfies it.\<close>

definition returns :: "'a res \<Rightarrow> ('a \<Rightarrow> bool) \<Rightarrow> bool" where
  "returns m P \<longleftrightarrow> (\<exists>x. m = Inr x \<and> P x)"

lemma returnsI [intro?]: "m = Inr x \<Longrightarrow> P x \<Longrightarrow> returns m P"
  by (auto simp: returns_def)

lemma returnsE [elim?]: "returns m P \<Longrightarrow> (\<And>x. m = Inr x \<Longrightarrow> P x \<Longrightarrow> Q) \<Longrightarrow> Q"
  by (auto simp: returns_def)

lemma returns_Inr [simp]: "returns (Inr x) P \<longleftrightarrow> P x"
  by (simp add: returns_def)

lemma returns_Inl [simp]: "\<not> returns (Inl e) P"
  by (simp add: returns_def)

lemma returns_bindE: "returns m Q \<Longrightarrow> (\<And>x. Q x \<Longrightarrow> returns (f x) P) \<Longrightarrow> returns (bindE m f) P"
  by (auto simp: returns_def)

lemma returns_mono: "returns m Q \<Longrightarrow> (\<And>x. Q x \<Longrightarrow> P x) \<Longrightarrow> returns m P"
  by (auto simp: returns_def)

text \<open>A loop over a list that stops at the first error.\<close>

fun foldE :: "('a \<Rightarrow> 's \<Rightarrow> 's res) \<Rightarrow> 'a list \<Rightarrow> 's \<Rightarrow> 's res" where
  "foldE f [] s = Inr s"
| "foldE f (x # xs) s = bindE (f x s) (foldE f xs)"

lemma foldE_append: "foldE f (xs @ ys) s = bindE (foldE f xs s) (foldE f ys)"
  by (induction xs arbitrary: s) (simp_all add: bindE_def split: sum.split)

lemma foldE_upt_Suc: "foldE f [0..<Suc n] s = bindE (foldE f [0..<n] s) (f n)"
  by (simp add: foldE_append bindE_def split: sum.split)

section \<open>Words\<close>

lemma uint_less_iff_unat: "a < b \<longleftrightarrow> unat a < unat (b :: 'a::len word)"
  by (simp add: word_less_nat_alt)

lemma uint_le_iff_unat: "a \<le> b \<longleftrightarrow> unat a \<le> unat (b :: 'a::len word)"
  by (simp add: word_le_nat_alt)

lemma and_not_mask_eq: "a AND NOT (mask n) = push_bit n (drop_bit n (a :: 'a::len word))"
  by (rule bit_word_eqI) (auto simp: bit_simps)

lemma unat_drop_bit: "unat (drop_bit n (a :: 'a::len word)) = unat a div 2 ^ n"
  by (metis drop_bit_eq_div unat_drop_bit_eq)

lemma sint_uint32: "sint (x :: uint) = (if uint x < 2 ^ 31 then uint x else uint x - 2 ^ 32)"
proof -
  have "sint x = signed_take_bit 31 (uint x)" by (simp add: sint_uint)
  moreover have "bit (uint x) 31 \<longleftrightarrow> \<not> uint x < 2 ^ 31"
  proof -
    have "uint x < 2 ^ 32" using uint_lt2p [of x] by simp
    then have "uint x div 2 ^ 31 < 2" by simp
    then have "uint x div 2 ^ 31 = 0 \<or> uint x div 2 ^ 31 = 1"
      using pos_imp_zdiv_nonneg_iff [of "2 ^ 31" "uint x"] by auto
    then show ?thesis
      by (auto simp: bit_iff_odd zdiv_eq_0_iff)
  qed
  moreover have "uint x < 2 ^ 32" "0 \<le> uint x" using uint_lt2p [of x] by auto
  ultimately show ?thesis
    by (simp add: signed_take_bit_eq_take_bit_minus take_bit_eq_mod)
qed

lemma unat_uminus_neg: "sint (x :: uint) < 0 \<Longrightarrow> int (unat (- x)) = - sint x"
proof -
  assume "sint x < 0"
  then have "2 ^ 31 \<le> uint x" "sint x = uint x - 2 ^ 32"
    using uint_ge_0 [of x] by (auto simp: sint_uint32 split: if_splits simp del: uint_ge_0)
  moreover have "uint (- x) = (- uint x) mod 2 ^ 32"
    by (simp add: uint_word_ariths)
  moreover have "(- uint x) mod 2 ^ 32 = 2 ^ 32 - uint x"
    using \<open>2 ^ 31 \<le> uint x\<close> uint_lt2p [of x] by (simp add: zmod_zminus1_eq_if)
  ultimately show ?thesis by simp
qed

lemma unat_nonneg: "0 \<le> sint (x :: uint) \<Longrightarrow> int (unat x) = sint x"
  using uint_lt2p [of x] by (auto simp: sint_uint32 split: if_splits)

end
