(* ===== verification/Mmu.thy ===== *)
theory Mmu
  imports Prelude
begin

text \<open>
  The constants and address macros of src/source/param.h, memlayout.h and mmu.h: sizes of
  the kernel tables, the physical and virtual memory layout, the splitting of a virtual
  address into page directory index, page table index and offset, rounding to page
  boundaries, and the format of page table entries. The lemmas give the arithmetic
  meaning of the bit macros (division and remainder by the page size) and the round trip
  between an address and its indexes.
\<close>

section \<open>param.h\<close>

abbreviation (input) NPROC :: nat where "NPROC \<equiv> 64"
abbreviation (input) KSTACKSIZE :: uint where "KSTACKSIZE \<equiv> 4096"
abbreviation (input) NCPU :: nat where "NCPU \<equiv> 8"
abbreviation (input) NOFILE :: nat where "NOFILE \<equiv> 16"
abbreviation (input) NFILE :: nat where "NFILE \<equiv> 100"
abbreviation (input) NINODE :: nat where "NINODE \<equiv> 50"
abbreviation (input) NDEV :: nat where "NDEV \<equiv> 10"
abbreviation (input) ROOTDEV :: uint where "ROOTDEV \<equiv> 1"
abbreviation (input) MAXARG :: nat where "MAXARG \<equiv> 32"
abbreviation (input) MAXOPBLOCKS :: nat where "MAXOPBLOCKS \<equiv> 10"
abbreviation (input) LOGSIZE :: nat where "LOGSIZE \<equiv> MAXOPBLOCKS * 3"
abbreviation (input) NBUF :: nat where "NBUF \<equiv> MAXOPBLOCKS * 3"
abbreviation (input) FSSIZE :: nat where "FSSIZE \<equiv> 1000"

section \<open>memlayout.h\<close>

abbreviation (input) EXTMEM :: uint where "EXTMEM \<equiv> 0x100000"
abbreviation (input) PHYSTOP :: uint where "PHYSTOP \<equiv> 0xE000000"
abbreviation (input) DEVSPACE :: uint where "DEVSPACE \<equiv> 0xFE000000"
abbreviation (input) KERNBASE :: uint where "KERNBASE \<equiv> 0x80000000"
abbreviation (input) KERNLINK :: uint where "KERNLINK \<equiv> 0x80100000"

definition V2P :: "uint \<Rightarrow> uint" where
  "V2P a = a - KERNBASE"

definition P2V :: "uint \<Rightarrow> uint" where
  "P2V a = a + KERNBASE"

section \<open>mmu.h: addresses and page table entries\<close>

abbreviation (input) NPDENTRIES :: uint where "NPDENTRIES \<equiv> 1024"
abbreviation (input) NPTENTRIES :: uint where "NPTENTRIES \<equiv> 1024"
abbreviation (input) PGSIZE :: uint where "PGSIZE \<equiv> 4096"
abbreviation (input) PGSHIFT :: nat where "PGSHIFT \<equiv> 12"
abbreviation (input) PTXSHIFT :: nat where "PTXSHIFT \<equiv> 12"
abbreviation (input) PDXSHIFT :: nat where "PDXSHIFT \<equiv> 22"

definition PDX :: "uint \<Rightarrow> uint" where
  "PDX va = drop_bit PDXSHIFT va AND 0x3FF"

definition PTX :: "uint \<Rightarrow> uint" where
  "PTX va = drop_bit PTXSHIFT va AND 0x3FF"

definition PGADDR :: "uint \<Rightarrow> uint \<Rightarrow> uint \<Rightarrow> uint" where
  "PGADDR d t off = push_bit PDXSHIFT d OR push_bit PTXSHIFT t OR off"

definition PGROUNDUP :: "uint \<Rightarrow> uint" where
  "PGROUNDUP sz = (sz + PGSIZE - 1) AND NOT (PGSIZE - 1)"

definition PGROUNDDOWN :: "uint \<Rightarrow> uint" where
  "PGROUNDDOWN a = a AND NOT (PGSIZE - 1)"

abbreviation (input) PTE_P :: uint where "PTE_P \<equiv> 0x001"
abbreviation (input) PTE_W :: uint where "PTE_W \<equiv> 0x002"
abbreviation (input) PTE_U :: uint where "PTE_U \<equiv> 0x004"
abbreviation (input) PTE_PS :: uint where "PTE_PS \<equiv> 0x080"

definition PTE_ADDR :: "uint \<Rightarrow> uint" where
  "PTE_ADDR pte = pte AND NOT 0xFFF"

definition PTE_FLAGS :: "uint \<Rightarrow> uint" where
  "PTE_FLAGS pte = pte AND 0xFFF"

text \<open>The tests \<open>*pte & PTE_P\<close>, \<open>& PTE_W\<close>, \<open>& PTE_U\<close> of the code.\<close>

definition has :: "uint \<Rightarrow> uint \<Rightarrow> bool" where
  "has pte flag \<longleftrightarrow> pte AND flag \<noteq> 0"

text \<open>Number of the page frame an address lies in.\<close>

definition pfn :: "uint \<Rightarrow> uint" where
  "pfn pa = drop_bit PGSHIFT pa"

definition page_aligned :: "uint \<Rightarrow> bool" where
  "page_aligned a \<longleftrightarrow> a mod PGSIZE = 0"

section \<open>Arithmetic of the address macros\<close>

lemma P2V_V2P [simp]: "P2V (V2P a) = a"
  by (simp add: P2V_def V2P_def)

lemma V2P_P2V [simp]: "V2P (P2V a) = a"
  by (simp add: P2V_def V2P_def)

lemma V2P_inject [simp]: "V2P a = V2P b \<longleftrightarrow> a = b"
  by (simp add: V2P_def)

lemma mask12: "(4095 :: uint) = mask 12"
  by (simp add: mask_eq_exp_minus_1)

lemma mask10: "(1023 :: uint) = mask 10"
  by (simp add: mask_eq_exp_minus_1)

lemma PGROUNDDOWN_shift: "PGROUNDDOWN a = push_bit 12 (drop_bit 12 a)"
  unfolding PGROUNDDOWN_def using and_not_mask_eq [of a 12] by (simp add: mask12)

lemma PTE_ADDR_shift: "PTE_ADDR p = push_bit 12 (drop_bit 12 p)"
  unfolding PTE_ADDR_def using and_not_mask_eq [of p 12] by (simp add: mask12)

lemma pfn_PTE_ADDR [simp]: "pfn (PTE_ADDR p) = pfn p"
  unfolding PTE_ADDR_shift pfn_def
  by (rule bit_word_eqI) (auto simp: bit_simps dest: bit_imp_le_length)

lemma page_aligned_iff: "page_aligned a \<longleftrightarrow> push_bit 12 (drop_bit 12 a) = a"
proof -
  have "page_aligned a \<longleftrightarrow> take_bit 12 a = 0"
    by (simp add: page_aligned_def take_bit_eq_mod)
  also have "\<dots> \<longleftrightarrow> push_bit 12 (drop_bit 12 a) = a"
    by (metis bits_ident add.right_neutral add_left_cancel)
  finally show ?thesis .
qed

lemma page_aligned_PGROUNDDOWN [simp]: "page_aligned (PGROUNDDOWN a)"
  by (simp add: page_aligned_iff PGROUNDDOWN_shift) (rule bit_word_eqI, auto simp: bit_simps)

lemma page_aligned_PTE_ADDR [simp]: "page_aligned (PTE_ADDR a)"
  by (simp add: page_aligned_iff PTE_ADDR_shift) (rule bit_word_eqI, auto simp: bit_simps)

lemma PGROUNDUP_eq: "PGROUNDUP a = PGROUNDDOWN (a + 4095)"
  by (simp add: PGROUNDUP_def PGROUNDDOWN_def algebra_simps)

lemma page_aligned_PGROUNDUP [simp]: "page_aligned (PGROUNDUP a)"
  by (simp add: PGROUNDUP_eq)

lemma PGROUNDDOWN_aligned [simp]: "page_aligned a \<Longrightarrow> PGROUNDDOWN a = a"
  by (simp add: page_aligned_iff PGROUNDDOWN_shift)

lemma unat_less_2p32: "unat (a :: uint) < 4294967296"
  using unsigned_less [of a, where 'a = nat] by simp

lemma unat_and_1023: "unat (a AND 1023 :: uint) = unat a mod 1024"
proof -
  have "a AND 1023 = a mod 1024"
    by (simp add: mask10 take_bit_eq_mod flip: take_bit_eq_mask)
  then show ?thesis by (simp add: unat_mod)
qed

lemma unat_PDX: "unat (PDX a) = unat a div 4194304"
proof -
  have "unat (PDX a) = unat a div 4194304 mod 1024"
    by (simp add: PDX_def unat_and_1023 unat_drop_bit)
  moreover have "unat a div 4194304 < 1024"
    using unat_less_2p32 [of a] by simp
  ultimately show ?thesis by simp
qed

lemma unat_PTX: "unat (PTX a) = unat a div 4096 mod 1024"
  by (simp add: PTX_def unat_and_1023 unat_drop_bit)

lemma unat_pfn: "unat (pfn a) = unat a div 4096"
  by (simp add: pfn_def unat_drop_bit)

lemma page_aligned_unat: "page_aligned a \<longleftrightarrow> unat a mod 4096 = 0"
proof -
  have "unat (a mod PGSIZE) = unat a mod 4096"
    by (simp add: unat_mod)
  then show ?thesis
    by (metis page_aligned_def unat_0 unat_eq_0)
qed

lemma unat_PGROUNDDOWN: "unat (PGROUNDDOWN a) = unat a div 4096 * 4096"
proof -
  have "unat a div 4096 < 1048576"
    using unat_less_2p32 [of a] by simp
  then show ?thesis
    by (simp add: PGROUNDDOWN_shift push_bit_eq_mult unat_drop_bit unat_word_ariths)
qed

lemma unat_PGROUNDUP:
  "unat a \<le> 4294963200 \<Longrightarrow> unat (PGROUNDUP a) = (unat a + 4095) div 4096 * 4096"
  by (simp add: PGROUNDUP_eq unat_PGROUNDDOWN unat_word_ariths)

lemma PDX_less [simp]: "PDX a < 1024"
  using unat_less_2p32 [of a] by (simp add: uint_less_iff_unat unat_PDX)

lemma PTX_less [simp]: "PTX a < 1024"
  by (simp add: uint_less_iff_unat unat_PTX)

lemma PDX_user_iff: "PDX a < 512 \<longleftrightarrow> a < KERNBASE"
  by (auto simp: uint_less_iff_unat unat_PDX)

lemma va_index_eqI:
  assumes "page_aligned a" "page_aligned b" "PDX a = PDX b" "PTX a = PTX b"
  shows "a = b"
proof -
  have split: "unat x = unat (PDX x) * 4194304 + unat (PTX x) * 4096" if "page_aligned x" for x
  proof -
    define p q r where "p = unat x div 4096" and "q = p div 1024" and "r = p mod 1024"
    have "p = q * 1024 + r" by (simp add: q_def r_def)
    then have "p * 4096 = q * 4194304 + r * 4096" by simp
    moreover have "unat x = p * 4096"
      using that by (simp add: page_aligned_unat mod_eq_0_iff_dvd p_def)
    moreover have "unat (PDX x) = q" "unat (PTX x) = r"
      by (simp_all add: unat_PDX unat_PTX p_def q_def r_def flip: div_mult2_eq)
    ultimately show ?thesis by simp
  qed
  have "unat a = unat b" using split [OF assms(1)] split [OF assms(2)] assms(3,4) by simp
  then show ?thesis by (simp add: word_unat_eq_iff)
qed

lemma pfn_inject:
  assumes "page_aligned a" "page_aligned b" "pfn a = pfn b"
  shows "a = b"
  using assms by (metis page_aligned_iff pfn_def)

lemma page_aligned_add [simp]: "page_aligned a \<Longrightarrow> page_aligned (a + 4096)"
  by (simp add: page_aligned_unat unat_word_ariths mod_mod_cancel)

lemma page_aligned_0 [simp]: "page_aligned 0"
  by (simp add: page_aligned_def)

lemma page_aligned_P2V [simp]: "page_aligned (P2V a) \<longleftrightarrow> page_aligned a"
  using mod_mult_self1 [of "unat a" 524288 4096]
  by (simp add: page_aligned_unat P2V_def unat_word_ariths mod_mod_cancel)

lemma page_aligned_V2P [simp]: "page_aligned (V2P a) \<longleftrightarrow> page_aligned a"
  by (metis P2V_V2P page_aligned_P2V)

text \<open>Composing an entry from an aligned address and flag bits keeps both apart.\<close>

lemma has_or [simp]: "has (a OR b) f \<longleftrightarrow> has a f \<or> has b f"
  by (auto simp: has_def bit.conj_disj_distrib2 or_eq_0_iff)

lemma pfn_or [simp]: "pfn (a OR b) = pfn a OR pfn b"
  by (simp add: pfn_def)

lemma pfn_flags [simp]: "pfn 0 = 0" "pfn 1 = 0" "pfn 2 = 0" "pfn 3 = 0" "pfn 4 = 0" "pfn 6 = 0"  "pfn 7 = 0"
  by (simp_all add: pfn_def)

lemma pfn_PTE_FLAGS [simp]: "pfn (PTE_FLAGS p) = 0"
  unfolding PTE_FLAGS_def pfn_def
  by (rule bit_word_eqI) (auto simp: bit_simps
      simp flip: mask_eq_exp_minus_1 [of 12, simplified])

lemma has_flags [simp]: "has 1 1" "has 2 2" "has 4 4" "\<not> has 1 2" "\<not> has 1 4" "\<not> has 2 1" "\<not> has 2 4"
  "\<not> has 4 1" "\<not> has 4 2" "has 7 1" "has 7 2" "has 7 4" "has 6 2" "has 6 4" "\<not> has 6 1" "has 3 1" "has 3 2" "\<not> has 3 4"
  by (simp_all add: has_def)

lemma has_0 [simp]: "\<not> has 0 f"
  by (simp add: has_def)

lemma aligned_bound: "page_aligned a \<Longrightarrow> unat a \<le> 4294963200"
proof -
  assume "page_aligned a"
  then obtain q where q: "unat a = 4096 * q" by (auto simp: page_aligned_unat)
  then have "q < 1048576" using unat_less_2p32 [of a] by simp
  then show ?thesis using q by simp
qed

lemma PGROUNDDOWN_last: "page_aligned a \<Longrightarrow> PGROUNDDOWN (a + 4095) = a"
proof -
  assume a: "page_aligned a"
  then obtain q where q: "unat a = 4096 * q" by (auto simp: page_aligned_unat)
  have "unat (a + 4095) = unat a + 4095" using aligned_bound [OF a] by (simp add: unat_word_ariths)
  then have "unat (PGROUNDDOWN (a + 4095)) = unat a" by (simp add: unat_PGROUNDDOWN q)
  then show ?thesis by (simp add: word_unat_eq_iff)
qed

text \<open>Stepping through an address space by pages and by page tables.\<close>

lemma PDX_next:
  assumes "unat a + 4096 < 4294967296"
  shows "PDX (a + 4096) = PDX a \<or> PTX (a + 4096) = 0"
proof -
  define p where "p = unat a div 4096"
  have u: "unat (a + 4096) div 4096 = p + 1"
    using assms by (simp add: unat_word_ariths p_def)
  have d: "unat x div 4194304 = unat x div 4096 div 1024" for x :: uint
    by (simp flip: div_mult2_eq)
  have "(p + 1) div 1024 = p div 1024 \<or> (p + 1) mod 1024 = 0"
    using div_Suc [of p 1024] by (auto split: if_splits)
  then show ?thesis
    by (auto simp: word_unat_eq_iff unat_PDX unat_PTX d u p_def)
qed

lemma PTX_0_unat: "page_aligned a \<Longrightarrow> PTX a = 0 \<longleftrightarrow> unat a mod 4194304 = 0"
proof -
  assume "page_aligned a"
  then obtain q where q: "unat a = 4096 * q" by (auto simp: page_aligned_unat)
  have "PTX a = 0 \<longleftrightarrow> q mod 1024 = 0" by (simp add: word_unat_eq_iff unat_PTX q)
  moreover have "(4096 * q) mod (4096 * 1024) = 4096 * (q mod 1024)" by (rule mult_mod_right [symmetric])
  ultimately show ?thesis by (simp add: q)
qed

lemma PDX_block:
  assumes "page_aligned a" "PTX a = 0" "unat a \<le> unat va" "unat va < unat a + 4194304"
  shows "PDX va = PDX a"
proof -
  obtain q where q: "unat a = 4194304 * q" using assms(1,2) by (auto simp: PTX_0_unat)
  have "unat va div 4194304 = q" using assms(3,4) by (intro div_nat_eqI) (simp_all add: q)
  then show ?thesis by (simp add: word_unat_eq_iff unat_PDX q)
qed

lemma aligned_add_4M:
  assumes "page_aligned a" "unat a + 4194304 < 4294967296"
  shows "page_aligned (a + 4194304)" "PTX a = 0 \<Longrightarrow> PTX (a + 4194304) = 0"
proof -
  have u: "unat (a + 4194304) = unat a + 4194304" using assms(2) by (simp add: unat_word_ariths)
  have "(unat a + 4096 * 1024) mod 4096 = unat a mod 4096" by (rule mod_mult_self2)
  then show p: "page_aligned (a + 4194304)" using assms(1) by (simp add: page_aligned_unat u)
  show "PTX (a + 4194304) = 0" if "PTX a = 0"
    using that assms(1) p by (simp add: PTX_0_unat u)
qed

lemma aligned_gap:
  assumes "page_aligned a" "page_aligned b" "a < b"
  shows "a + 4096 \<le> b" "unat (a + 4096) = unat a + 4096"
proof -
  obtain p q where pq: "unat a = 4096 * p" "unat b = 4096 * q"
    using assms(1,2) by (auto simp: page_aligned_unat elim!: dvdE)
  then have "p < q" using assms(3) by (simp add: uint_less_iff_unat)
  then show u: "unat (a + 4096) = unat a + 4096"
    using unat_less_2p32 [of b] pq by (simp add: unat_word_ariths)
  show "a + 4096 \<le> b" using \<open>p < q\<close> by (simp add: uint_le_iff_unat u pq)
qed

text \<open>The flag tests are single bits.\<close>

lemma has_bit: "has e 1 \<longleftrightarrow> bit e 0" "has e 2 \<longleftrightarrow> bit e 1" "has e 4 \<longleftrightarrow> bit e 2"
proof -
  have "has e (push_bit n 1) \<longleftrightarrow> bit e n" for n
    by (simp add: has_def bit_iff_and_push_bit_not_eq_0)
  from this [of 0] this [of 1] this [of 2]
  show "has e 1 \<longleftrightarrow> bit e 0" "has e 2 \<longleftrightarrow> bit e 1" "has e 4 \<longleftrightarrow> bit e 2"
    by simp_all
qed

lemma bit_2: "bit (2 :: uint) n \<longleftrightarrow> n = 1" and bit_4: "bit (4 :: uint) n \<longleftrightarrow> n = 2"
proof -
  have "bit (push_bit k 1 :: uint) n \<longleftrightarrow> n = k" if "k < 32" for k
    using that by (auto simp: bit_simps)
  from this [of 1] this [of 2] show "bit (2 :: uint) n \<longleftrightarrow> n = 1" "bit (4 :: uint) n \<longleftrightarrow> n = 2"
    by simp_all
qed

lemma clear_W:
  "has (e AND NOT 2) 1 = has e 1" "\<not> has (e AND NOT 2) 2" "has (e AND NOT 2) 4 = has e 4"
  "pfn (e AND NOT 2) = pfn e"
proof -
  show "pfn (e AND NOT 2) = pfn e"
    unfolding pfn_def by (rule bit_word_eqI)
      (simp only: bit_drop_bit_eq comp_def bit_and_iff bit_not_iff bit_2, auto dest: bit_imp_le_length)
qed (simp_all add: has_bit bit_and_iff bit_not_iff bit_2)

lemmas clear_W_simps [simp] = clear_W [simplified]

lemma pte_recompose: "has e 1 \<Longrightarrow> PTE_ADDR e OR PTE_FLAGS e OR 1 = e"
  unfolding PTE_ADDR_def PTE_FLAGS_def has_bit
  by (rule bit_word_eqI) (auto simp: bit_simps)

lemma aligned_no_flags:
  assumes "page_aligned a"
  shows "\<not> has a 1" "\<not> has a 2" "\<not> has a 4"
proof -
  have "\<not> bit (push_bit 12 (drop_bit 12 a)) n" if "n < 12" for n using that by (simp add: bit_push_bit_iff)
  then have "\<not> bit a n" if "n < 12" for n using assms that by (simp add: page_aligned_iff)
  then show "\<not> has a 1" "\<not> has a 2" "\<not> has a 4" by (simp_all add: has_bit del: bit_0)
qed

end
