(* ===== verification/Spinlock.thy ===== *)
theory Spinlock
  imports Mmu
begin

text \<open>
  CPUs and spin locks: \<open>struct cpu\<close> (src/source/proc.h), \<open>mycpu\<close> and \<open>cpuid\<close> (proc.c), and
  spinlock.c. The machine record \<open>cpuv\<close> is the bottom layer of the kernel state; every
  other layer extends it, so that the lock operations work on every kernel state.

  The model is the view of one executing CPU. Taking a lock another CPU holds is a spin
  that nothing in this view ends: the value \<open>Diverge\<close>. The interleaving of several CPUs on
  one lock is the step relation of the theory \<open>Mutex\<close>. The debugging fields \<open>pcs\<close> (recorded call
  stacks) are not modelled.
\<close>

section \<open>State\<close>

datatype lockid =
    Lk_kmem            \<comment> \<open>kmem.lock, kalloc.c\<close>
  | Lk_pgref           \<comment> \<open>lock, vm.c\<close>
  | Lk_ptable          \<comment> \<open>ptable.lock, proc.c\<close>
  | Lk_ticks           \<comment> \<open>tickslock, trap.c\<close>
  | Lk_ftable          \<comment> \<open>ftable.lock, file.c\<close>
  | Lk_icache          \<comment> \<open>icache.lock, fs.c\<close>
  | Lk_log             \<comment> \<open>log.lock, log.c\<close>
  | Lk_bcache          \<comment> \<open>bcache.lock, bio.c\<close>
  | Lk_ide             \<comment> \<open>idelock, ide.c\<close>
  | Lk_cons            \<comment> \<open>cons.lock, console.c\<close>
  | Lk_pipe uint       \<comment> \<open>p->lock of the pipe at an address, pipe.c\<close>
  | Lk_buf nat         \<comment> \<open>spin lock inside the sleep lock of a buffer\<close>
  | Lk_inode nat       \<comment> \<open>spin lock inside the sleep lock of an inode\<close>

record spinlock =
  locked :: uint
  lname :: string
  lcpu :: "nat option"

record percpu =
  apicid :: uchar
  ncli :: int
  intena :: bool
  cproc :: "nat option"
  started :: bool

text \<open>
  \<open>lapicid\<close> and \<open>fl_if\<close> are registers of the executing CPU: its APIC id and the interrupt
  flag of its \<open>eflags\<close>.
\<close>

record cpuv =
  lapicid :: uchar
  fl_if :: bool
  cpus :: "nat \<Rightarrow> percpu"
  ncpu :: nat
  locks :: "lockid \<Rightarrow> spinlock"

section \<open>Operations\<close>

text \<open>The search loop of \<open>mycpu\<close>: \<open>k\<close> entries are left, \<open>i\<close> is the loop index.\<close>

fun find_cpu :: "nat \<Rightarrow> nat \<Rightarrow> uchar \<Rightarrow> (nat \<Rightarrow> percpu) \<Rightarrow> nat option" where
  "find_cpu 0 i a cs = None"
| "find_cpu (Suc k) i a cs = (if apicid (cs i) = a then Some i else find_cpu k (Suc i) a cs)"

definition mycpu :: "'z cpuv_scheme \<Rightarrow> nat res" where
  "mycpu s =
     (if fl_if s then Inl (Panic ''mycpu called with interrupts enabled'')
      else case find_cpu (ncpu s) 0 (lapicid s) (cpus s) of
             None \<Rightarrow> Inl (Panic ''unknown apicid'')
           | Some i \<Rightarrow> Inr i)"

definition cpuid :: "'z cpuv_scheme \<Rightarrow> nat res" where
  "cpuid s = mycpu s"

definition cli :: "'z cpuv_scheme \<Rightarrow> 'z cpuv_scheme" where
  "cli s = s\<lparr>fl_if := False\<rparr>"

definition sti :: "'z cpuv_scheme \<Rightarrow> 'z cpuv_scheme" where
  "sti s = s\<lparr>fl_if := True\<rparr>"

definition upd_cpu :: "nat \<Rightarrow> (percpu \<Rightarrow> percpu) \<Rightarrow> 'z cpuv_scheme \<Rightarrow> 'z cpuv_scheme" where
  "upd_cpu c f s = s\<lparr>cpus := (cpus s)(c := f (cpus s c))\<rparr>"

definition upd_lock :: "lockid \<Rightarrow> (spinlock \<Rightarrow> spinlock) \<Rightarrow> 'z cpuv_scheme \<Rightarrow> 'z cpuv_scheme" where
  "upd_lock l f s = s\<lparr>locks := (locks s)(l := f (locks s l))\<rparr>"

definition pushcli :: "'z cpuv_scheme \<Rightarrow> 'z cpuv_scheme res" where
  "pushcli s =
     (let eflags = fl_if s; s = cli s in
      bindE (mycpu s) (\<lambda>c.
        let s = (if ncli (cpus s c) = 0 then upd_cpu c (\<lambda>k. k\<lparr>intena := eflags\<rparr>) s else s) in
        Inr (upd_cpu c (\<lambda>k. k\<lparr>ncli := ncli k + 1\<rparr>) s)))"

definition popcli :: "'z cpuv_scheme \<Rightarrow> 'z cpuv_scheme res" where
  "popcli s =
     (if fl_if s then Inl (Panic ''popcli - interruptible'')
      else bindE (mycpu s) (\<lambda>c.
        let s = upd_cpu c (\<lambda>k. k\<lparr>ncli := ncli k - 1\<rparr>) s in
        if ncli (cpus s c) < 0 then Inl (Panic ''popcli'')
        else if ncli (cpus s c) = 0 \<and> intena (cpus s c) then Inr (sti s)
        else Inr s))"

definition initlock :: "lockid \<Rightarrow> string \<Rightarrow> 'z cpuv_scheme \<Rightarrow> 'z cpuv_scheme" where
  "initlock l name s = upd_lock l (\<lambda>k. k\<lparr>lname := name, locked := 0, lcpu := None\<rparr>) s"

definition holding :: "lockid \<Rightarrow> 'z cpuv_scheme \<Rightarrow> (bool \<times> 'z cpuv_scheme) res" where
  "holding l s =
     bindE (pushcli s) (\<lambda>s.
     bindE (if locked (locks s l) \<noteq> 0
            then bindE (mycpu s) (\<lambda>c. Inr (lcpu (locks s l) = Some c))
            else Inr False) (\<lambda>r.
     bindE (popcli s) (\<lambda>s. Inr (r, s))))"

text \<open>The atomic exchange: the old value, and the state with the new one stored.\<close>

definition xchg_locked :: "lockid \<Rightarrow> uint \<Rightarrow> 'z cpuv_scheme \<Rightarrow> uint \<times> 'z cpuv_scheme" where
  "xchg_locked l newval s = (locked (locks s l), upd_lock l (\<lambda>k. k\<lparr>locked := newval\<rparr>) s)"

definition acquire :: "lockid \<Rightarrow> 'z cpuv_scheme \<Rightarrow> 'z cpuv_scheme res" where
  "acquire l s =
     bindE (pushcli s) (\<lambda>s.
     bindE (holding l s) (\<lambda>(r, s).
     if r then Inl (Panic ''acquire'')
     else case xchg_locked l 1 s of (old, s) \<Rightarrow>
       if old \<noteq> 0 then Inl Diverge
       else bindE (mycpu s) (\<lambda>c. Inr (upd_lock l (\<lambda>k. k\<lparr>lcpu := Some c\<rparr>) s))))"

definition release :: "lockid \<Rightarrow> 'z cpuv_scheme \<Rightarrow> 'z cpuv_scheme res" where
  "release l s =
     bindE (holding l s) (\<lambda>(r, s).
     if \<not> r then Inl (Panic ''release'')
     else let s = upd_lock l (\<lambda>k. k\<lparr>lcpu := None\<rparr>) s;
              s = upd_lock l (\<lambda>k. k\<lparr>locked := 0\<rparr>) s
          in popcli s)"

section \<open>Closed forms\<close>

text \<open>
  \<open>this_cpu s c\<close>: the executing CPU is entry \<open>c\<close> of \<open>cpus\<close>. \<open>cpu_ok\<close> is what holds between
  lock operations: nesting depth not negative, and interrupts off while it is positive.
\<close>

definition this_cpu :: "'z cpuv_scheme \<Rightarrow> nat \<Rightarrow> bool" where
  "this_cpu s c \<longleftrightarrow> find_cpu (ncpu s) 0 (lapicid s) (cpus s) = Some c"

definition cpu_ok :: "'z cpuv_scheme \<Rightarrow> nat \<Rightarrow> bool" where
  "cpu_ok s c \<longleftrightarrow> this_cpu s c \<and> 0 \<le> ncli (cpus s c) \<and> (0 < ncli (cpus s c) \<longrightarrow> \<not> fl_if s)"

definition lk_free :: "'z cpuv_scheme \<Rightarrow> lockid \<Rightarrow> bool" where
  "lk_free s l \<longleftrightarrow> locked (locks s l) = 0 \<and> lcpu (locks s l) = None"

definition lk_held :: "'z cpuv_scheme \<Rightarrow> nat \<Rightarrow> lockid \<Rightarrow> bool" where
  "lk_held s c l \<longleftrightarrow> locked (locks s l) = 1 \<and> lcpu (locks s l) = Some c"

text \<open>What a matched \<open>pushcli\<close>/\<open>popcli\<close> pair leaves behind: \<open>intena\<close> may be refreshed.\<close>

definition touch :: "nat \<Rightarrow> 'z cpuv_scheme \<Rightarrow> 'z cpuv_scheme" where
  "touch c s = upd_cpu c (\<lambda>k. k\<lparr>intena := (if ncli k = 0 then fl_if s else intena k)\<rparr>) s"

lemma find_cpu_upd [simp]:
  "apicid k = apicid (cs c) \<Longrightarrow> find_cpu n i a (cs(c := k)) = find_cpu n i a cs"
  by (induction n arbitrary: i) auto

lemma mycpu_this [simp]: "this_cpu s c \<Longrightarrow> \<not> fl_if s \<Longrightarrow> mycpu s = Inr c"
  by (simp add: mycpu_def this_cpu_def)

definition pushed :: "nat \<Rightarrow> 'z cpuv_scheme \<Rightarrow> 'z cpuv_scheme" where
  "pushed c s = upd_cpu c (\<lambda>k. k\<lparr>intena := (if ncli k = 0 then fl_if s else intena k),
                                ncli := ncli k + 1\<rparr>) (cli s)"

definition popped :: "nat \<Rightarrow> 'z cpuv_scheme \<Rightarrow> 'z cpuv_scheme" where
  "popped c s = upd_cpu c (\<lambda>k. k\<lparr>ncli := ncli k - 1\<rparr>)
                  (s\<lparr>fl_if := (ncli (cpus s c) = 1 \<and> intena (cpus s c))\<rparr>)"

definition acquired :: "nat \<Rightarrow> lockid \<Rightarrow> 'z cpuv_scheme \<Rightarrow> 'z cpuv_scheme" where
  "acquired c l s = upd_lock l (\<lambda>k. k\<lparr>locked := 1, lcpu := Some c\<rparr>) (pushed c s)"

definition released :: "nat \<Rightarrow> lockid \<Rightarrow> 'z cpuv_scheme \<Rightarrow> 'z cpuv_scheme" where
  "released c l s = popped c (upd_lock l (\<lambda>k. k\<lparr>lcpu := None, locked := 0\<rparr>) s)"

lemmas lock_defs = cpu_ok_def this_cpu_def lk_free_def lk_held_def touch_def pushed_def popped_def
  acquired_def released_def upd_cpu_def upd_lock_def cli_def sti_def

lemma pushcli_ok: "this_cpu s c \<Longrightarrow> pushcli s = Inr (pushed c s)"
  by (simp add: pushcli_def mycpu_def lock_defs Let_def)

lemma popcli_ok:
  "this_cpu s c \<Longrightarrow> \<not> fl_if s \<Longrightarrow> 0 < ncli (cpus s c) \<Longrightarrow> popcli s = Inr (popped c s)"
  by (auto simp: popcli_def mycpu_def lock_defs Let_def)

lemma popped_pushed: "cpu_ok s c \<Longrightarrow> popped c (pushed c s) = touch c s"
  by (cases "fl_if s") (auto simp: lock_defs)

lemma holding_ok:
  assumes "cpu_ok s c"
  shows "holding l s = Inr (locked (locks s l) \<noteq> 0 \<and> lcpu (locks s l) = Some c, touch c s)"
proof -
  have cs: "this_cpu s c" "this_cpu (pushed c s) c"
    using assms by (auto simp: lock_defs)
  have "\<not> fl_if (pushed c s)" "0 < ncli (cpus (pushed c s) c)" "locks (pushed c s) = locks s"
    using assms by (auto simp: lock_defs)
  then show ?thesis
    using cs by (auto simp: holding_def pushcli_ok [OF cs(1)] popcli_ok popped_pushed [OF assms])
qed

lemma touch_nested: "0 < ncli (cpus s c) \<Longrightarrow> touch c s = s"
  by (simp add: lock_defs)

lemma cpu_ok_pushed: "cpu_ok s c \<Longrightarrow> cpu_ok (pushed c s) c"
  by (auto simp: lock_defs)

lemma acquire_ok:
  assumes "cpu_ok s c" "lk_free s l"
  shows "acquire l s = Inr (acquired c l s)"
proof -
  have p: "cpu_ok (pushed c s) c" "0 < ncli (cpus (pushed c s) c)"
    using assms(1) by (auto simp: lock_defs)
  have h: "holding l (pushed c s) = Inr (False, pushed c s)"
    using assms(2) by (simp add: holding_ok [OF p(1)] touch_nested [OF p(2)]) (simp add: lock_defs)
  have "this_cpu s c" using assms(1) by (simp add: cpu_ok_def)
  then show ?thesis
    using assms(2) h by (simp add: acquire_def pushcli_ok xchg_locked_def mycpu_def)
      (simp add: lock_defs)
qed

lemma acquire_again:
  assumes "cpu_ok s c" "lk_held s c l"
  shows "acquire l s = Inl (Panic ''acquire'')"
proof -
  have p: "cpu_ok (pushed c s) c" "this_cpu s c"
    using assms(1) by (auto simp: lock_defs)
  have "locks (pushed c s) = locks s" by (simp add: lock_defs)
  then show ?thesis
    using assms(2) by (simp add: acquire_def pushcli_ok [OF p(2)] holding_ok [OF p(1)] lk_held_def)
qed

lemma acquire_busy:
  assumes "cpu_ok s c" "locked (locks s l) \<noteq> 0" "lcpu (locks s l) \<noteq> Some c"
  shows "acquire l s = Inl Diverge"
proof -
  have p: "cpu_ok (pushed c s) c" "this_cpu s c"
    using assms(1) by (auto simp: lock_defs)
  have "locks (pushed c s) = locks s" "locks (touch c (pushed c s)) = locks s"
    by (simp_all add: lock_defs)
  then show ?thesis
    using assms(2,3)
    by (simp add: acquire_def pushcli_ok [OF p(2)] holding_ok [OF p(1)] xchg_locked_def)
qed

lemma release_ok:
  assumes "cpu_ok s c" "lk_held s c l" "0 < ncli (cpus s c)"
  shows "release l s = Inr (released c l s)"
proof -
  let ?s = "upd_lock l (\<lambda>k. k\<lparr>lcpu := None, locked := 0\<rparr>) s"
  have h: "holding l s = Inr (True, s)"
    using assms(2) by (simp add: holding_ok [OF assms(1)] touch_nested [OF assms(3)] lk_held_def)
  have "this_cpu ?s c" "\<not> fl_if ?s" "0 < ncli (cpus ?s c)"
    using assms(1,3) by (auto simp: lock_defs)
  then have "popcli ?s = Inr (popped c ?s)" by (rule popcli_ok)
  then show ?thesis
    by (simp add: release_def h released_def) (simp add: upd_lock_def)
qed

lemma release_unheld:
  assumes "cpu_ok s c" "\<not> (locked (locks s l) \<noteq> 0 \<and> lcpu (locks s l) = Some c)"
  shows "release l s = Inl (Panic ''release'')"
  using assms(2) by (simp add: release_def holding_ok [OF assms(1)])

text \<open>Taking a free lock and giving it back restores every lock and the nesting depth.\<close>

lemma released_acquired:
  assumes "cpu_ok s c" "lk_free s l"
  shows "released c l (acquired c l s) = touch c s"
  using assms by (cases "fl_if s") (auto simp: lock_defs fun_eq_iff intro!: cpuv.equality)

lemma release_acquired:
  assumes "cpu_ok s c" "lk_free s l"
  shows "release l (acquired c l s) = Inr (touch c s)"
proof -
  have "cpu_ok (acquired c l s) c" "lk_held (acquired c l s) c l" "0 < ncli (cpus (acquired c l s) c)"
    using assms(1) by (auto simp: lock_defs)
  then show ?thesis using release_ok released_acquired [OF assms] by metis
qed

text \<open>
  The shape in which clients use a critical section: the body may change any field above
  the CPU layer, and \<open>release\<close> restores the CPU layer to what it was before \<open>acquire\<close>.
\<close>

definition same_cpuv :: "'y cpuv_scheme \<Rightarrow> 'z cpuv_scheme \<Rightarrow> bool" where
  "same_cpuv s t \<longleftrightarrow> lapicid t = lapicid s \<and> fl_if t = fl_if s \<and> cpus t = cpus s \<and> ncpu t = ncpu s
     \<and> locks t = locks s"

lemma same_cpuv_refl [simp]: "same_cpuv s s"
  by (simp add: same_cpuv_def)

lemma same_cpuv_cong:
  assumes "same_cpuv s t"
  shows "cpu_ok t c = cpu_ok s c" "lk_free t l = lk_free s l" "lk_held t c l = lk_held s c l"
  using assms by (simp_all add: same_cpuv_def lock_defs)

lemma release_restores:
  assumes "cpu_ok s c" "lk_free s l" "same_cpuv (acquired c l s) t"
  shows "release l t =
    Inr (t\<lparr>fl_if := fl_if s, cpus := cpus (touch c s), locks := locks s\<rparr>)"
proof -
  have "cpu_ok (acquired c l s) c" "lk_held (acquired c l s) c l" "0 < ncli (cpus (acquired c l s) c)"
    using assms(1) by (auto simp: lock_defs)
  then have "release l t = Inr (released c l t)"
    using assms(3) by (intro release_ok) (auto simp: same_cpuv_cong [OF assms(3)] same_cpuv_def)
  moreover have "cpus t = cpus (acquired c l s)" "locks t = locks (acquired c l s)"
    using assms(3) by (simp_all add: same_cpuv_def)
  moreover have "fl_if (released c l (acquired c l s)) = fl_if s"
    "cpus (released c l (acquired c l s)) = cpus (touch c s)"
    "locks (released c l (acquired c l s)) = locks s"
    using released_acquired [OF assms(1,2)] by (simp_all add: touch_def upd_cpu_def)
  ultimately show ?thesis
    by (simp add: released_def popped_def upd_cpu_def upd_lock_def)
qed

lemma touch_sel [simp]:
  "lapicid (touch c s) = lapicid s" "fl_if (touch c s) = fl_if s" "ncpu (touch c s) = ncpu s"
  "locks (touch c s) = locks s" "cpuv.more (touch c s) = cpuv.more s"
  "ncli (cpus (touch c s) d) = ncli (cpus s d)" "cproc (cpus (touch c s) d) = cproc (cpus s d)"
  "apicid (cpus (touch c s) d) = apicid (cpus s d)"
  by (simp_all add: touch_def upd_cpu_def)

lemma touch_pred [simp]:
  "cpu_ok (touch c s) d = cpu_ok s d" "lk_free (touch c s) l = lk_free s l"
  "lk_held (touch c s) d l = lk_held s d l"
  by (auto simp: lock_defs)

lemma touch_touch [simp]: "touch c (touch c s) = touch c s"
  by (simp add: touch_def upd_cpu_def)

lemma acquired_sel [simp]:
  "cpuv.more (acquired c l s) = cpuv.more s" "lapicid (acquired c l s) = lapicid s"
  "ncpu (acquired c l s) = ncpu s"
  by (simp_all add: lock_defs)

lemma acquired_pred:
  assumes "cpu_ok s c"
  shows "cpu_ok (acquired c l s) c" "lk_held (acquired c l s) c l"
    "l' \<noteq> l \<Longrightarrow> lk_free (acquired c l s) l' = lk_free s l'"
  using assms by (auto simp: lock_defs)

end
