(* ===== verification/Console.thy ===== *)
theory Console
  imports Spinlock
begin

text \<open>
  Console output: \<open>uartputc\<close> (src/source/uart.c) and \<open>printint\<close>, \<open>cprintf\<close>, \<open>cgaputc\<close>,
  \<open>consputc\<close> of console.c. The layer \<open>consv\<close> adds to the machine the serial line (the
  characters sent to it), the CGA text memory with its cursor register, and the two flags
  of console.c. The last section shows that printing cannot fail in a running kernel and
  that what reaches the serial line is the formatted text; \<open>printint\<close> is related to the
  value it prints by reading the digits back.

  \<open>panic\<close> itself is the error value \<open>Panic\<close> of the result type. The busy-wait of
  \<open>uartputc\<close> (at most 128 polls) has no effect on the state and is not represented.
\<close>

section \<open>State\<close>

record consv = cpuv +
  uart :: bool
  uart_out :: "uint list"
  crt :: "nat \<Rightarrow> ushort"
  crt_pos :: nat
  cons_locking :: bool
  panicked :: bool

abbreviation (input) BACKSPACE :: uint where "BACKSPACE \<equiv> 0x100"
abbreviation (input) NEWLINE :: uint where "NEWLINE \<equiv> 10"

section \<open>Characters\<close>

definition uartputc :: "uint \<Rightarrow> 'z consv_scheme \<Rightarrow> 'z consv_scheme" where
  "uartputc c s = (if \<not> uart s then s else s\<lparr>uart_out := uart_out s @ [c AND 0xff]\<rparr>)"

text \<open>
  \<open>memmove(crt, crt+80, sizeof(crt[0])*23*80)\<close> followed, with \<open>pos\<close> already moved up one
  row, by \<open>memset(crt+pos, 0, sizeof(crt[0])*(24*80 - pos))\<close>.
\<close>

definition scroll_up :: "nat \<Rightarrow> (nat \<Rightarrow> ushort) \<Rightarrow> (nat \<Rightarrow> ushort)" where
  "scroll_up pos m =
     (let m1 = (\<lambda>i. if i < 23 * 80 then m (i + 80) else m i)
      in (\<lambda>i. if pos \<le> i \<and> i < 24 * 80 then 0 else m1 i))"

definition cgaputc :: "uint \<Rightarrow> 'z consv_scheme \<Rightarrow> 'z consv_scheme res" where
  "cgaputc c s =
     (let pos = crt_pos s;
          (pos, m) =
            (if c = NEWLINE then (pos + (80 - pos mod 80), crt s)
             else if c = BACKSPACE then (if pos > 0 then pos - 1 else pos, crt s)
             else (pos + 1, (crt s)(pos := (ucast (c AND 0xff) OR 0x0700))))
      in if pos > 25 * 80 then Inl (Panic ''pos under/overflow'')
         else let (pos, m) = (if pos div 80 \<ge> 24 then (pos - 80, scroll_up (pos - 80) m) else (pos, m))
              in Inr (s\<lparr>crt_pos := pos mod 65536, crt := m(pos := 0x0720)\<rparr>))"

definition consputc :: "uint \<Rightarrow> 'z consv_scheme \<Rightarrow> 'z consv_scheme res" where
  "consputc c s =
     (if panicked s then Inl Diverge
      else let s = (if c = BACKSPACE then uartputc 8 (uartputc 32 (uartputc 8 s)) else uartputc c s)
           in cgaputc c s)"

fun consputs :: "uint list \<Rightarrow> 'z consv_scheme \<Rightarrow> 'z consv_scheme res" where
  "consputs [] s = Inr s"
| "consputs (c # cs) s = bindE (consputc c s) (consputs cs)"

definition ccode :: "char \<Rightarrow> uint" where
  "ccode c = of_nat (of_char c)"

section \<open>Numbers\<close>

definition digits :: string where
  "digits = ''0123456789abcdef''"

text \<open>
  The digit loop with its buffer of 16 characters: the first argument is the room left in
  \<open>buf\<close>, the result the characters in the order they are stored (lowest digit first).
\<close>

fun digit_loop :: "nat \<Rightarrow> uint \<Rightarrow> uint \<Rightarrow> string res" where
  "digit_loop 0 x base = Inl (Fault ''printint: buf overflow'')"
| "digit_loop (Suc room) x base =
     (let d = digits ! unat (x mod base); x = x div base in
      if x \<noteq> 0 then bindE (digit_loop room x base) (\<lambda>ds. Inr (d # ds)) else Inr [d])"

definition printint_buf :: "cint \<Rightarrow> uint \<Rightarrow> bool \<Rightarrow> string res" where
  "printint_buf xx base sign =
     (let sign = (sign \<and> sint xx < 0);
          x = (if sign then - xx else xx)
      in bindE (digit_loop 16 x base) (\<lambda>ds.
         if sign then (if length ds < 16 then Inr (ds @ ''-'') else Inl (Fault ''printint: buf overflow''))
         else Inr ds))"

definition printint :: "cint \<Rightarrow> uint \<Rightarrow> bool \<Rightarrow> 'z consv_scheme \<Rightarrow> 'z consv_scheme res" where
  "printint xx base sign s =
     bindE (printint_buf xx base sign) (\<lambda>buf. consputs (map ccode (rev buf)) s)"

section \<open>Formatted output\<close>

text \<open>The variable arguments: a word, or a pointer to a string (\<open>None\<close> is the null pointer).\<close>

datatype carg = CInt uint | CStr "string option"

fun cprintf_loop :: "string \<Rightarrow> carg list \<Rightarrow> 'z consv_scheme \<Rightarrow> 'z consv_scheme res" where
  "cprintf_loop [] args s = Inr s"
| "cprintf_loop (c # fmt) args s =
     (if c \<noteq> CHR ''%'' then bindE (consputc (ccode c) s) (cprintf_loop fmt args)
      else case fmt of
        [] \<Rightarrow> Inr s
      | d # fmt \<Rightarrow>
          if d = CHR ''d'' then
            (case args of CInt x # args \<Rightarrow> bindE (printint x 10 True s) (cprintf_loop fmt args)
                        | _ \<Rightarrow> Inl (Fault ''cprintf: argument''))
          else if d = CHR ''x'' \<or> d = CHR ''p'' then
            (case args of CInt x # args \<Rightarrow> bindE (printint x 16 False s) (cprintf_loop fmt args)
                        | _ \<Rightarrow> Inl (Fault ''cprintf: argument''))
          else if d = CHR ''s'' then
            (case args of
               CStr p # args \<Rightarrow>
                 bindE (consputs (map ccode (case p of None \<Rightarrow> ''(null)'' | Some t \<Rightarrow> t)) s)
                   (cprintf_loop fmt args)
             | _ \<Rightarrow> Inl (Fault ''cprintf: argument''))
          else if d = CHR ''%'' then bindE (consputc (ccode CHR ''%'') s) (cprintf_loop fmt args)
          else bindE (consputc (ccode CHR ''%'') s) (\<lambda>s.
               bindE (consputc (ccode d) s) (cprintf_loop fmt args)))"

definition cprintf :: "string \<Rightarrow> carg list \<Rightarrow> 'z consv_scheme \<Rightarrow> 'z consv_scheme res" where
  "cprintf fmt args s =
     (let locking = cons_locking s in
      bindE (if locking then acquire Lk_cons s else Inr s) (\<lambda>s.
      bindE (cprintf_loop fmt args s) (\<lambda>s.
      if locking then release Lk_cons s else Inr s)))"

section \<open>Printing never fails\<close>

text \<open>\<open>cons_ok\<close>: nobody has panicked and the cursor is in the first 24 rows.\<close>

definition cons_ok :: "'z consv_scheme \<Rightarrow> bool" where
  "cons_ok s \<longleftrightarrow> \<not> panicked s \<and> crt_pos s < 24 * 80"

text \<open>\<open>printed out s s'\<close>: \<open>s'\<close> is \<open>s\<close> after the bytes \<open>out\<close> went to the serial line; only the
  console fields differ.\<close>

definition printed :: "uint list \<Rightarrow> 'z consv_scheme \<Rightarrow> 'z consv_scheme \<Rightarrow> bool" where
  "printed out s s' \<longleftrightarrow> crt_pos s' < 24 * 80 \<and>
     s' = s\<lparr>uart_out := (if uart s then uart_out s @ out else uart_out s),
            crt := crt s', crt_pos := crt_pos s'\<rparr>"

definition uart_bytes :: "uint \<Rightarrow> uint list" where
  "uart_bytes c = (if c = BACKSPACE then [8, 32, 8] else [c AND 0xff])"

lemma printed_refl: "cons_ok s \<Longrightarrow> printed [] s s"
  by (simp add: printed_def cons_ok_def)

lemma printedE:
  assumes "printed out s s'"
  obtains m p where "p < 24 * 80"
    "s' = s\<lparr>uart_out := (if uart s then uart_out s @ out else uart_out s), crt := m, crt_pos := p\<rparr>"
  using assms unfolding printed_def by blast

lemma printedI:
  "p < 24 * 80 \<Longrightarrow>
   printed out s (s\<lparr>uart_out := (if uart s then uart_out s @ out else uart_out s),
     crt := m, crt_pos := p\<rparr>)"
  by (simp add: printed_def)

lemma printed_trans:
  assumes "printed a s s'" "printed b s' s''"
  shows "printed (a @ b) s s''"
  using assms by (elim printedE) (simp add: printed_def)

lemma printed_frame:
  assumes "printed out s s'"
  shows "lapicid s' = lapicid s" "fl_if s' = fl_if s" "cpus s' = cpus s" "ncpu s' = ncpu s"
    "locks s' = locks s" "uart s' = uart s" "cons_locking s' = cons_locking s"
    "panicked s' = panicked s" "cons_ok s' \<longleftrightarrow> \<not> panicked s"
    "uart_out s' = (if uart s then uart_out s @ out else uart_out s)"
  by (rule printedE [OF assms], simp add: cons_ok_def)+

lemma row_end: "m < 80 \<Longrightarrow> d * 80 + m + (80 - m) = (d + 1) * (80 :: nat)"
  by simp

lemma cgaputc_ok:
  assumes "cons_ok s"
  shows "\<exists>m p. p < 24 * 80 \<and> cgaputc c s = Inr (s\<lparr>crt_pos := p, crt := m\<rparr>)"
proof -
  have pos: "crt_pos s < 1920" using assms by (simp add: cons_ok_def)
  let ?q = "crt_pos s"
  have "?q div 80 < 24" using pos by (simp add: div_less_iff_less_mult)
  moreover have "?q + (80 - ?q mod 80) = (?q div 80 + 1) * 80"
    using row_end [of "?q mod 80" "?q div 80"] by simp
  moreover have "(?q div 80 + 1) * 80 \<le> 24 * 80"
    by (rule mult_le_mono1) (use \<open>?q div 80 < 24\<close> in simp)
  ultimately have nl: "?q + (80 - ?q mod 80) \<le> 1920" by simp
  obtain q m where pm: "(if c = NEWLINE then (?q + (80 - ?q mod 80), crt s)
      else if c = BACKSPACE then (if ?q > 0 then ?q - 1 else ?q, crt s)
      else (?q + 1, (crt s)(?q := (ucast (c AND 0xff) OR 0x0700)))) = (q, m)"
    by (cases "(if c = NEWLINE then (?q + (80 - ?q mod 80), crt s)
      else if c = BACKSPACE then (if ?q > 0 then ?q - 1 else ?q, crt s)
      else (?q + 1, (crt s)(?q := (ucast (c AND 0xff) OR 0x0700))))") blast
  have q: "q \<le> 1920" using pm nl pos by (auto split: if_splits)
  show ?thesis
  proof (cases "q div 80 \<ge> 24")
    case True
    then have "cgaputc c s = Inr (s\<lparr>crt_pos := q - 80, crt := (scroll_up (q - 80) m)(q - 80 := 0x0720)\<rparr>)"
      using q by (simp add: cgaputc_def pm)
    moreover have "q - 80 < 24 * 80" using q by simp
    ultimately show ?thesis by blast
  next
    case False
    then have "q < 24 * 80" by (simp add: not_le div_less_iff_less_mult)
    moreover have "cgaputc c s = Inr (s\<lparr>crt_pos := q, crt := m(q := 0x0720)\<rparr>)"
      using q False by (simp add: cgaputc_def pm)
    ultimately show ?thesis by blast
  qed
qed

lemma consputc_ok:
  assumes "cons_ok s"
  shows "\<exists>s'. consputc c s = Inr s' \<and> printed (uart_bytes c) s s'"
proof -
  let ?t = "if c = BACKSPACE then uartputc 8 (uartputc 32 (uartputc 8 s)) else uartputc c s"
  have "cons_ok ?t" using assms by (auto simp: cons_ok_def uartputc_def)
  then obtain m p where "p < 24 * 80" "cgaputc c ?t = Inr (?t\<lparr>crt_pos := p, crt := m\<rparr>)"
    using cgaputc_ok by blast
  moreover have "\<not> panicked s" using assms by (simp add: cons_ok_def)
  ultimately show ?thesis
    by (auto simp: consputc_def printed_def uartputc_def uart_bytes_def)
qed

lemma consputs_ok:
  assumes "cons_ok s"
  shows "\<exists>s'. consputs cs s = Inr s' \<and> printed (concat (map uart_bytes cs)) s s'"
  using assms
proof (induction cs arbitrary: s)
  case Nil
  then show ?case by (simp add: printed_refl)
next
  case (Cons c cs)
  obtain s1 where s1: "consputc c s = Inr s1" "printed (uart_bytes c) s s1"
    using consputc_ok [OF Cons.prems] by blast
  have "cons_ok s1"
    using printed_frame(9) [OF s1(2)] Cons.prems by (simp add: cons_ok_def)
  then obtain s2 where s2: "consputs cs s1 = Inr s2" "printed (concat (map uart_bytes cs)) s1 s2"
    using Cons.IH by blast
  show ?case using s1(1) s2(1) printed_trans [OF s1(2) s2(2)] by simp
qed


text \<open>Digits: the loop stores a representation of \<open>x\<close> in the base, lowest digit first.\<close>

definition digit_val :: "char \<Rightarrow> nat" where
  "digit_val c = (LEAST i. i < 16 \<and> digits ! i = c)"

fun digits_val :: "nat \<Rightarrow> string \<Rightarrow> nat" where
  "digits_val b [] = 0"
| "digits_val b (d # ds) = digit_val d + b * digits_val b ds"

lemma distinct_digits: "distinct digits" and length_digits: "length digits = 16"
  by (simp_all add: digits_def)

lemma digit_val_nth: "i < 16 \<Longrightarrow> digit_val (digits ! i) = i"
  unfolding digit_val_def
  by (rule Least_equality) (auto simp: nth_eq_iff_index_eq [OF distinct_digits] length_digits)

definition stores_digits :: "nat \<Rightarrow> nat \<Rightarrow> string \<Rightarrow> bool" where
  "stores_digits b n ds \<longleftrightarrow> digits_val b ds = n \<and> ds \<noteq> [] \<and> set ds \<subseteq> set (take b digits) \<and>
     (1 < length ds \<longrightarrow> last ds \<noteq> CHR ''0'')"

lemma digit_nth_zero: "i < 16 \<Longrightarrow> digits ! i = CHR ''0'' \<longleftrightarrow> i = 0"
  using nth_eq_iff_index_eq [OF distinct_digits, of i 0] by (simp add: length_digits) (simp add: digits_def)

lemma digit_loop_correct:
  assumes "2 \<le> b" "b \<le> 16" "unat x < b ^ room" "0 < room"
  shows "\<exists>ds. digit_loop room x (of_nat b) = Inr ds \<and> stores_digits b (unat x) ds \<and> length ds \<le> room
           \<and> (length ds = 1 \<longrightarrow> x = 0 \<or> last ds \<noteq> CHR ''0'')"
  using assms(3,4)
proof (induction room arbitrary: x)
  case 0
  then show ?case by simp
next
  case (Suc room)
  have b: "unat (of_nat b :: uint) = b"
    using assms(2) by (simp add: unat_of_nat)
  let ?i = "unat x mod b" and ?y = "x div of_nat b"
  have i: "?i < b" using assms(1) by simp
  then have i16: "?i < 16" using assms(2) by linarith
  have um: "unat (x mod of_nat b) = ?i" and ud: "unat ?y = unat x div b"
    by (simp_all add: unat_mod unat_div b)
  have mem: "digits ! ?i \<in> set (take b digits)"
    using i i16 by (metis length_digits length_take min_less_iff_conj nth_mem nth_take)
  show ?case
  proof (cases "?y = 0")
    case True
    then have "unat x div b = 0" using ud by simp
    then have "unat x < b" using assms(1) by (simp add: div_eq_0_iff)
    then have "?i = unat x" by simp
    with mem i16 have "stores_digits b (unat x) [digits ! unat x]"
      "x = 0 \<or> digits ! unat x \<noteq> CHR ''0''"
      by (auto simp: stores_digits_def digit_val_nth digit_nth_zero unat_eq_0)
    with True um \<open>?i = unat x\<close> show ?thesis by simp
  next
    case False
    have "unat ?y < b ^ room"
      using Suc.prems(1) by (simp add: ud less_mult_imp_div_less mult.commute)
    moreover have "0 < room"
      using calculation False by (cases room) (auto simp: unat_eq_0)
    ultimately obtain ds where ds: "digit_loop room ?y (of_nat b) = Inr ds"
      "stores_digits b (unat ?y) ds" "length ds \<le> room"
      "length ds = 1 \<longrightarrow> ?y = 0 \<or> last ds \<noteq> CHR ''0''"
      using Suc.IH by blast
    moreover have "digit_val (digits ! ?i) + b * (unat x div b) = unat x"
      using i16 by (simp add: digit_val_nth)
    moreover have "last ds \<noteq> CHR ''0''"
      using ds False by (cases "length ds = 1") (auto simp: stores_digits_def Suc_lessI)
    ultimately have "stores_digits b (unat x) (digits ! ?i # ds)" "last (digits ! ?i # ds) \<noteq> CHR ''0''"
      using mem by (auto simp: ud stores_digits_def)
    with False ds um show ?thesis by (simp split: if_splits)
  qed
qed

text \<open>Reading a printed number back, sign first.\<close>

fun text_val :: "nat \<Rightarrow> string \<Rightarrow> int" where
  "text_val b [] = 0"
| "text_val b (c # cs) =
     (if c = CHR ''-'' then - int (digits_val b (rev cs)) else int (digits_val b (rev (c # cs))))"

lemma minus_no_digit: "CHR ''-'' \<notin> set digits"
  by (simp add: digits_def)

lemma stores_text_val:
  assumes "stores_digits b n ds"
  shows "text_val b (rev ds) = int n" "text_val b (rev (ds @ ''-'')) = - int n"
proof -
  obtain c cs where c: "rev ds = c # cs"
    using assms by (cases "rev ds") (auto simp: stores_digits_def)
  then have "c \<in> set ds" by (metis list.set_intros(1) set_rev)
  then have "c \<noteq> CHR ''-''"
    using assms minus_no_digit by (auto simp: stores_digits_def dest: in_set_takeD)
  moreover have "digits_val b (rev (c # cs)) = n"
    using assms c by (metis rev_rev_ident stores_digits_def)
  ultimately show "text_val b (rev ds) = int n" unfolding c by simp
  show "text_val b (rev (ds @ ''-'')) = - int n" using assms by (simp add: stores_digits_def)
qed

lemma digit_loop_Suc: "digit_loop n x b = Inr ds \<Longrightarrow> digit_loop (Suc n) x b = Inr ds"
proof (induction n arbitrary: x ds)
  case (Suc n)
  show ?case
  proof (cases "x div b = 0")
    case True
    with Suc.prems show ?thesis by simp
  next
    case False
    with Suc.prems obtain es where es: "digit_loop n (x div b) b = Inr es"
      "ds = digits ! unat (x mod b) # es"
      by (auto simp: res_iff)
    from Suc.IH [OF es(1)] False es(2) show ?thesis
      by (subst digit_loop.simps) (simp del: digit_loop.simps add: Let_def)
  qed
qed simp

lemma printint_buf_dec:
  "\<exists>buf. printint_buf xx 10 True = Inr buf \<and> text_val 10 (rev buf) = sint xx"
proof -
  let ?x = "if sint xx < 0 then - xx else xx"
  have "unat ?x < 10 ^ 15" by (rule less_trans [OF unat_less_2p32]) simp
  then obtain ds where ds: "digit_loop 15 ?x 10 = Inr ds" "stores_digits 10 (unat ?x) ds" "length ds \<le> 15"
    using digit_loop_correct [of 10 ?x 15] by auto
  have "digit_loop 16 ?x 10 = Inr ds" using digit_loop_Suc [OF ds(1)] by (simp add: eval_nat_numeral)
  with ds(2,3) stores_text_val [OF ds(2)] unat_uminus_neg [of xx] unat_nonneg [of xx]
  show ?thesis by (auto simp: printint_buf_def)
qed

lemma printint_buf_hex:
  "\<exists>buf. printint_buf xx 16 False = Inr buf \<and> text_val 16 (rev buf) = int (unat xx)"
proof -
  have "unat xx < 16 ^ 16" by (rule less_trans [OF unat_less_2p32]) simp
  then obtain ds where "digit_loop 16 xx 16 = Inr ds" "stores_digits 16 (unat xx) ds"
    using digit_loop_correct [of 16 xx 16] by auto
  then show ?thesis using stores_text_val by (auto simp: printint_buf_def)
qed

text \<open>
  The text a format string stands for: the meaning of the directives, given the texts of
  the numbers. \<open>None\<close> when a directive has no argument of its kind.
\<close>

fun fmt_text :: "string \<Rightarrow> carg list \<Rightarrow> string option" where
  "fmt_text [] args = Some []"
| "fmt_text (c # fmt) args =
     (if c \<noteq> CHR ''%'' then map_option (Cons c) (fmt_text fmt args)
      else case fmt of
        [] \<Rightarrow> Some []
      | d # fmt \<Rightarrow>
          if d = CHR ''d'' \<or> d = CHR ''x'' \<or> d = CHR ''p'' then
            (case args of
               CInt x # args \<Rightarrow>
                 (case (if d = CHR ''d'' then printint_buf x 10 True else printint_buf x 16 False) of
                    Inl e \<Rightarrow> None
                  | Inr buf \<Rightarrow> map_option ((@) (rev buf)) (fmt_text fmt args))
             | _ \<Rightarrow> None)
          else if d = CHR ''s'' then
            (case args of
               CStr p # args \<Rightarrow>
                 map_option ((@) (case p of None \<Rightarrow> ''(null)'' | Some t \<Rightarrow> t)) (fmt_text fmt args)
             | _ \<Rightarrow> None)
          else if d = CHR ''%'' then map_option (Cons d) (fmt_text fmt args)
          else map_option (\<lambda>t. CHR ''%'' # d # t) (fmt_text fmt args))"

lemma uart_bytes_ccode: "uart_bytes (ccode c) = [ccode c]"
proof -
  have lt: "of_char c < (256 :: nat)"
    using range_nat_of_char by (metis atLeastLessThan_iff rangeI)
  have "unat (ccode c) = of_char c" unfolding ccode_def
    by (simp add: unat_of_nat) (rule mod_less, use lt in linarith)
  then have "unat (ccode c) < 256" using lt by simp
  then have "ccode c \<noteq> 256" by auto
  moreover have "(ccode c AND 255) = ccode c"
  proof -
    have "ccode c AND 255 = ccode c mod 256"
      using take_bit_eq_mask [of 8 "ccode c"] by (simp add: mask_eq_exp_minus_1 take_bit_eq_mod)
    moreover have "unat (ccode c mod 256) = unat (ccode c)"
      using \<open>unat (ccode c) < 256\<close> by (simp add: unat_mod)
    ultimately show ?thesis by (simp add: word_unat_eq_iff)
  qed
  ultimately show ?thesis by (simp add: uart_bytes_def)
qed

lemma consputs_text:
  "cons_ok s \<Longrightarrow> \<exists>s'. consputs (map ccode t) s = Inr s' \<and> printed (map ccode t) s s' \<and> cons_ok s'"
proof -
  assume ok: "cons_ok s"
  have "concat (map uart_bytes (map ccode t)) = map ccode t"
    by (induction t) (simp_all add: uart_bytes_ccode)
  with consputs_ok [OF ok, of "map ccode t"] printed_frame(9) ok
  show ?thesis unfolding cons_ok_def by metis
qed

lemma consputc_text:
  "cons_ok s \<Longrightarrow> \<exists>s'. consputc (ccode c) s = Inr s' \<and> printed [ccode c] s s' \<and> cons_ok s'"
  using consputs_text [of s "[c]"] by (auto simp: res_iff)

lemma bind_printed:
  assumes "m = Inr s1" "printed a s s1" "\<exists>s'. f s1 = Inr s' \<and> printed b s1 s'"
  shows "\<exists>s'. bindE m f = Inr s' \<and> printed (a @ b) s s'"
  using assms printed_trans by fastforce

lemma cprintf_loop_ok:
  assumes "fmt_text fmt args = Some out" "cons_ok s"
  shows "\<exists>s'. cprintf_loop fmt args s = Inr s' \<and> printed (map ccode out) s s'"
  using assms
proof (induction fmt arbitrary: args s out rule: length_induct)
  case (1 fmt)
  have step: "\<exists>s'. bindE m (cprintf_loop rest as) = Inr s' \<and> printed (map ccode (t @ u)) s s'"
    if "\<exists>s1. m = Inr s1 \<and> printed (map ccode t) s s1 \<and> cons_ok s1" "length rest < length fmt"
      "fmt_text rest as = Some u" for m rest as t u
    using that bind_printed "1.IH" by (metis map_append)
  note txt_ok = consputs_text [OF "1.prems"(2)] consputc_text [OF "1.prems"(2)]
  show ?case
  proof (cases fmt)
    case Nil
    then show ?thesis using "1.prems" by (simp add: printed_refl)
  next
    case (Cons c rest)
    show ?thesis
    proof (cases "c = CHR ''%''")
      case False
      then obtain u where u: "fmt_text rest args = Some u" "out = [c] @ u"
        using "1.prems"(1) Cons by auto
      show ?thesis
        using step [of "consputc (ccode c) s" "[c]" rest args u] txt_ok(2) u False Cons by simp
    next
      case pc: True
      show ?thesis
      proof (cases rest)
        case Nil
        then show ?thesis using "1.prems" Cons pc by (simp add: printed_refl)
      next
        case rest: (Cons d more)
        then have len: "length more < length fmt" using Cons by simp
        consider (num) "d = CHR ''d'' \<or> d = CHR ''x'' \<or> d = CHR ''p''" | (str) "d = CHR ''s''"
          | (pct) "d = CHR ''%''" | (other) "d \<notin> {CHR ''d'', CHR ''x'', CHR ''p'', CHR ''s'', CHR ''%''}"
          by blast
        then show ?thesis
        proof cases
          case num
          then obtain x as buf u where *: "args = CInt x # as"
            "(if d = CHR ''d'' then printint_buf x 10 True else printint_buf x 16 False) = Inr buf"
            "fmt_text more as = Some u" "out = rev buf @ u"
            using "1.prems"(1) Cons pc rest
            by (auto split: list.splits carg.splits sum.splits if_splits)
          have "\<exists>s1. (if d = CHR ''d'' then printint x 10 True s else printint x 16 False s) = Inr s1
                  \<and> printed (map ccode (rev buf)) s s1 \<and> cons_ok s1"
            using * txt_ok(1) [of "rev buf"] by (auto simp: printint_def split: if_splits)
          from step [OF this len *(3)] show ?thesis
            using num * Cons pc rest by (auto split: if_splits)
        next
          case str
          then obtain p as u where *: "args = CStr p # as" "fmt_text more as = Some u"
            "out = (case p of None \<Rightarrow> ''(null)'' | Some t \<Rightarrow> t) @ u"
            using "1.prems"(1) Cons pc rest by (auto split: list.splits carg.splits)
          show ?thesis
            using step [OF txt_ok(1) len *(2)] str *(1,3) Cons pc rest by simp
        next
          case pct
          then obtain u where "fmt_text more args = Some u" "out = [CHR ''%''] @ u"
            using "1.prems"(1) Cons pc rest by auto
          then show ?thesis
            using step [of "consputc (ccode CHR ''%'') s" "''%''" more args u] len txt_ok(2) pct Cons pc rest
            by simp
        next
          case other
          then obtain u where *: "fmt_text more args = Some u" "out = [CHR ''%'', d] @ u"
            using "1.prems"(1) Cons pc rest by auto
          show ?thesis
            using step [OF txt_ok(1) len *(1), of "[CHR ''%'', d]"] other *(2) Cons pc rest
            by (simp add: bindE_assoc)
        qed
      qed
    qed
  qed
qed

lemma cons_touch_sel [simp]:
  "uart (touch c s) = uart s" "uart_out (touch c s) = uart_out s" "crt (touch c s) = crt s"
  "crt_pos (touch c s) = crt_pos s" "cons_locking (touch c s) = cons_locking s"
  "panicked (touch c s) = panicked s" "cons_ok (touch c s) = cons_ok s"
  "consv.more (touch c s) = consv.more s"
  by (simp_all add: touch_def upd_cpu_def cons_ok_def)

lemma cons_acquired_sel [simp]:
  "uart (acquired c l s) = uart s" "uart_out (acquired c l s) = uart_out s"
  "crt (acquired c l s) = crt s" "crt_pos (acquired c l s) = crt_pos s"
  "cons_locking (acquired c l s) = cons_locking s" "panicked (acquired c l s) = panicked s"
  "cons_ok (acquired c l s) = cons_ok s" "consv.more (acquired c l s) = consv.more s"
  by (simp_all add: lock_defs cons_ok_def)

text \<open>The lock is only taken once \<open>consoleinit\<close> has set \<open>cons.locking\<close>.\<close>

definition can_print :: "'z consv_scheme \<Rightarrow> nat \<Rightarrow> bool" where
  "can_print s c \<longleftrightarrow> cons_ok s \<and> (cons_locking s \<longrightarrow> cpu_ok s c \<and> lk_free s Lk_cons)"

definition touch_if :: "bool \<Rightarrow> nat \<Rightarrow> 'z cpuv_scheme \<Rightarrow> 'z cpuv_scheme" where
  "touch_if b c s = (if b then touch c s else s)"

lemma cprintf_ok:
  assumes ft: "fmt_text fmt args = Some out" and can: "can_print s c"
  shows "\<exists>s'. cprintf fmt args s = Inr (touch_if (cons_locking s) c s') \<and> printed (map ccode out) s s'"
proof (cases "cons_locking s")
  case False
  have "cons_ok s" using can by (simp add: can_print_def)
  then obtain t where "cprintf_loop fmt args s = Inr t" "printed (map ccode out) s t"
    using cprintf_loop_ok [OF ft] by blast
  with False show ?thesis by (auto simp: cprintf_def touch_if_def)
next
  case True
  then have cpu: "cpu_ok s c" "lk_free s Lk_cons" and ok: "cons_ok (acquired c Lk_cons s)"
    using can by (auto simp: can_print_def)
  obtain t where t: "cprintf_loop fmt args (acquired c Lk_cons s) = Inr t"
    "printed (map ccode out) (acquired c Lk_cons s) t"
    using cprintf_loop_ok [OF ft ok] by blast
  let ?a = "acquired c Lk_cons s"
  obtain m p where p: "p < 24 * 80" and t_eq: "t = ?a
    \<lparr>uart_out := (if uart ?a then uart_out ?a @ map ccode out else uart_out ?a), crt := m, crt_pos := p\<rparr>"
    using t(2) by (rule printedE)
  let ?s = "s\<lparr>uart_out := (if uart s then uart_out s @ map ccode out else uart_out s), crt := m, crt_pos := p\<rparr>"
  have "same_cpuv (acquired c Lk_cons s) t" unfolding t_eq same_cpuv_def by simp
  from release_restores [OF cpu this] have "release Lk_cons t = Inr (touch c ?s)"
    unfolding t_eq by (cases s) (simp add: lock_defs)
  then have "cprintf fmt args s = Inr (touch c ?s)"
    using True t(1) by (simp add: cprintf_def acquire_ok [OF cpu])
  moreover have "printed (map ccode out) s ?s" using p by (rule printedI)
  ultimately show ?thesis using True by (auto simp: touch_if_def)
qed

end
