(* ===== verification/Kalloc.thy ===== *)
theory Kalloc
  imports Console
begin

text \<open>
  The physical page allocator, src/source/kalloc.c. The layer \<open>kmemv\<close> adds physical memory
  and the struct \<open>kmem\<close>. Memory is a map from page frame number and word index (0 to 1023)
  to the 32-bit word stored there; page tables, page directories and the free list's
  \<open>struct run\<close> are read and written at that grain, as the code does. The linker symbols
  \<open>end\<close> and \<open>data\<close> are fields of the state that no operation changes.

  The free list is the chain of \<open>next\<close> pointers kept in word 0 of each free page. The
  relation \<open>free_chain\<close> reads it as a list of pages, and the locale \<open>page_stack\<close> states the
  allocator's contract over that list; its interpretation at the end discharges the
  contract for \<open>kalloc\<close> and \<open>kfree\<close>.
\<close>

section \<open>State\<close>

record kmemv = consv +
  mem :: "uint \<Rightarrow> uint \<Rightarrow> uint"
  kend :: uint
  kdata :: uint
  freelist :: uint
  use_lock :: bool
  numFreePages :: cint

text \<open>Access through a kernel pointer \<open>v\<close> to the word \<open>i\<close> of the page it points to.\<close>

definition ldw :: "'z kmemv_scheme \<Rightarrow> uint \<Rightarrow> uint \<Rightarrow> uint" where
  "ldw s v i = mem s (pfn (V2P v)) i"

definition stw :: "uint \<Rightarrow> uint \<Rightarrow> uint \<Rightarrow> 'z kmemv_scheme \<Rightarrow> 'z kmemv_scheme" where
  "stw v i w s = s\<lparr>mem := (mem s)(pfn (V2P v) := (mem s (pfn (V2P v)))(i := w))\<rparr>"

text \<open>\<open>memset(v, c, PGSIZE)\<close> on a page: every word becomes the byte \<open>c\<close> repeated four times.\<close>

definition memset_page :: "uint \<Rightarrow> uchar \<Rightarrow> 'z kmemv_scheme \<Rightarrow> 'z kmemv_scheme" where
  "memset_page v c s =
     (let b = ucast c :: uint;
          w = push_bit 24 b OR push_bit 16 b OR push_bit 8 b OR b
      in s\<lparr>mem := (mem s)(pfn (V2P v) := (\<lambda>i. w))\<rparr>)"

text \<open>\<open>memmove(dst, src, PGSIZE)\<close> between two pages.\<close>

definition memmove_page :: "uint \<Rightarrow> uint \<Rightarrow> 'z kmemv_scheme \<Rightarrow> 'z kmemv_scheme" where
  "memmove_page dst src s = s\<lparr>mem := (mem s)(pfn (V2P dst) := mem s (pfn (V2P src)))\<rparr>"

section \<open>Operations\<close>

definition kmem_lock :: "'z kmemv_scheme \<Rightarrow> 'z kmemv_scheme res" where
  "kmem_lock s = (if use_lock s then acquire Lk_kmem s else Inr s)"

definition kmem_unlock :: "'z kmemv_scheme \<Rightarrow> 'z kmemv_scheme res" where
  "kmem_unlock s = (if use_lock s then release Lk_kmem s else Inr s)"

definition kfree :: "uint \<Rightarrow> 'z kmemv_scheme \<Rightarrow> 'z kmemv_scheme res" where
  "kfree v s =
     (let s = s\<lparr>numFreePages := numFreePages s + 1\<rparr> in
      if v mod PGSIZE \<noteq> 0 \<or> v < kend s \<or> V2P v \<ge> PHYSTOP then Inl (Panic ''kfree'')
      else let s = memset_page v 1 s in
        bindE (kmem_lock s) (\<lambda>s.
          let s = stw v 0 (freelist s) s;
              s = s\<lparr>freelist := v\<rparr>
          in kmem_unlock s))"

definition kalloc :: "'z kmemv_scheme \<Rightarrow> (uint \<times> 'z kmemv_scheme) res" where
  "kalloc s =
     (let s = s\<lparr>numFreePages := numFreePages s - 1\<rparr> in
      bindE (kmem_lock s) (\<lambda>s.
        let r = freelist s;
            s = (if r \<noteq> 0 then s\<lparr>freelist := ldw s r 0\<rparr> else s)
        in bindE (kmem_unlock s) (\<lambda>s. Inr (r, s))))"

definition getNumFreePages :: "'z kmemv_scheme \<Rightarrow> (cint \<times> 'z kmemv_scheme) res" where
  "getNumFreePages s =
     bindE (kmem_lock s) (\<lambda>s.
       let r = numFreePages s in bindE (kmem_unlock s) (\<lambda>s. Inr (r, s)))"

text \<open>
  \<open>for(; p + PGSIZE <= vend; p += PGSIZE) kfree(p)\<close>. The first argument bounds the number of
  iterations; \<open>freerange\<close> passes one more than the number of pages in the range.
\<close>

fun freerange_loop :: "nat \<Rightarrow> uint \<Rightarrow> uint \<Rightarrow> 'z kmemv_scheme \<Rightarrow> 'z kmemv_scheme res" where
  "freerange_loop 0 p vend s = Inl Diverge"
| "freerange_loop (Suc n) p vend s =
     (if p + PGSIZE \<le> vend then bindE (kfree p s) (freerange_loop n (p + PGSIZE) vend)
      else Inr s)"

definition freerange :: "uint \<Rightarrow> uint \<Rightarrow> 'z kmemv_scheme \<Rightarrow> 'z kmemv_scheme res" where
  "freerange vstart vend s =
     (let p = PGROUNDUP vstart
      in freerange_loop (Suc ((unat vend - unat p) div 4096)) p vend s)"

definition kinit1 :: "uint \<Rightarrow> uint \<Rightarrow> 'z kmemv_scheme \<Rightarrow> 'z kmemv_scheme res" where
  "kinit1 vstart vend s =
     (let s = initlock Lk_kmem ''kmem'' s;
          s = s\<lparr>use_lock := False\<rparr>
      in bindE (freerange vstart vend s) (\<lambda>s. Inr (s\<lparr>numFreePages := 0\<rparr>)))"

definition kinit2 :: "uint \<Rightarrow> uint \<Rightarrow> 'z kmemv_scheme \<Rightarrow> 'z kmemv_scheme res" where
  "kinit2 vstart vend s = bindE (freerange vstart vend s) (\<lambda>s. Inr (s\<lparr>use_lock := True\<rparr>))"

section \<open>The free list as a list of pages\<close>

text \<open>A page address \<open>kfree\<close> accepts.\<close>

definition valid_page :: "'z kmemv_scheme \<Rightarrow> uint \<Rightarrow> bool" where
  "valid_page s v \<longleftrightarrow> page_aligned v \<and> kend s \<le> v \<and> V2P v < PHYSTOP"

fun free_chain :: "'z kmemv_scheme \<Rightarrow> uint \<Rightarrow> uint list \<Rightarrow> bool" where
  "free_chain s p [] \<longleftrightarrow> p = 0"
| "free_chain s p (v # vs) \<longleftrightarrow> p = v \<and> v \<noteq> 0 \<and> free_chain s (ldw s v 0) vs"

text \<open>
  \<open>kmem_inv s fl\<close>: the free list of \<open>s\<close> is \<open>fl\<close>, pages that \<open>kfree\<close> would accept, none of
  them twice; the kernel image ends above the first megabyte.
\<close>

definition kmem_inv :: "'z kmemv_scheme \<Rightarrow> uint list \<Rightarrow> bool" where
  "kmem_inv s fl \<longleftrightarrow> free_chain s (freelist s) fl \<and> distinct fl \<and> (\<forall>v \<in> set fl. valid_page s v) \<and>
     KERNLINK \<le> kend s"

text \<open>When the allocator's lock can be taken.\<close>

definition can_alloc :: "'z kmemv_scheme \<Rightarrow> nat \<Rightarrow> bool" where
  "can_alloc s c \<longleftrightarrow> (use_lock s \<longrightarrow> cpu_ok s c \<and> lk_free s Lk_kmem)"

lemma kmem_touch_sel [simp]:
  "mem (touch c s) = mem s" "kend (touch c s) = kend s" "kdata (touch c s) = kdata s"
  "freelist (touch c s) = freelist s" "use_lock (touch c s) = use_lock s"
  "numFreePages (touch c s) = numFreePages s" "kmemv.more (touch c s) = kmemv.more s"
  by (simp_all add: touch_def upd_cpu_def)

lemma kmem_acquired_sel [simp]:
  "mem (acquired c l s) = mem s" "kend (acquired c l s) = kend s" "kdata (acquired c l s) = kdata s"
  "freelist (acquired c l s) = freelist s" "use_lock (acquired c l s) = use_lock s"
  "numFreePages (acquired c l s) = numFreePages s" "kmemv.more (acquired c l s) = kmemv.more s"
  by (simp_all add: lock_defs)

lemma can_alloc_upd [simp]:
  "can_alloc (s\<lparr>numFreePages := n\<rparr>) c = can_alloc s c"
  "can_alloc (s\<lparr>mem := m\<rparr>) c = can_alloc s c"
  "can_alloc (s\<lparr>freelist := f\<rparr>) c = can_alloc s c"
  "can_alloc (touch d s) c = can_alloc s c"
  by (auto simp: can_alloc_def lock_defs)

lemma kmem_section:
  assumes "can_alloc s c" "use_lock s" "same_cpuv (acquired c Lk_kmem s) t" "use_lock t"
  shows "kmem_lock s = Inr (acquired c Lk_kmem s)"
    "kmem_unlock t = Inr (t\<lparr>fl_if := fl_if s, cpus := cpus (touch c s), locks := locks s\<rparr>)"
  using assms release_restores [OF _ _ assms(3)]
  by (simp_all add: kmem_lock_def kmem_unlock_def can_alloc_def acquire_ok)

lemma memset_page_1: "memset_page v 1 s = s\<lparr>mem := (mem s)(pfn (V2P v) := (\<lambda>i. 0x01010101))\<rparr>"
  by (simp add: memset_page_def)

lemma memset_page_0: "memset_page v 0 s = s\<lparr>mem := (mem s)(pfn (V2P v) := (\<lambda>i. 0))\<rparr>"
  by (simp add: memset_page_def)

lemma kalloc_eq:
  assumes "can_alloc s c"
  shows "kalloc s = Inr (freelist s, touch_if (use_lock s) c
    (s\<lparr>freelist := (if freelist s \<noteq> 0 then ldw s (freelist s) 0 else freelist s),
       numFreePages := numFreePages s - 1\<rparr>))"
proof (cases "use_lock s")
  case False
  then show ?thesis
    by (cases "freelist s = 0"; cases s)
      (simp_all add: kalloc_def kmem_lock_def kmem_unlock_def touch_if_def ldw_def)
next
  case True
  let ?s = "s\<lparr>numFreePages := numFreePages s - 1\<rparr>"
  let ?a = "acquired c Lk_kmem ?s"
  let ?t = "if freelist s \<noteq> 0 then ?a\<lparr>freelist := ldw ?a (freelist s) 0\<rparr> else ?a"
  have ok: "can_alloc ?s c" "use_lock ?s" "same_cpuv ?a ?t" "use_lock ?t"
    using assms True by (auto simp: same_cpuv_def)
  have "kalloc s = Inr (freelist s, ?t\<lparr>fl_if := fl_if s, cpus := cpus (touch c ?s), locks := locks s\<rparr>)"
    using kmem_section [OF ok] by (cases "freelist s = 0") (simp_all add: kalloc_def Let_def)
  then show ?thesis using True
    by (cases "freelist s = 0"; cases s) (simp_all add: touch_if_def ldw_def lock_defs)
qed

lemma kfree_eq:
  assumes "can_alloc s c" "valid_page s v"
  shows "kfree v s = Inr (touch_if (use_lock s) c
    (s\<lparr>mem := (mem s)(pfn (V2P v) := (\<lambda>i. 0x01010101)(0 := freelist s)),
       freelist := v, numFreePages := numFreePages s + 1\<rparr>))"
proof (cases "use_lock s")
  case False
  then show ?thesis using assms(2)
    by (cases s) (simp add: kfree_def kmem_lock_def kmem_unlock_def touch_if_def stw_def memset_page_1
        valid_page_def page_aligned_def not_less not_le)
next
  case True
  let ?s = "memset_page v 1 (s\<lparr>numFreePages := numFreePages s + 1\<rparr>)"
  let ?a = "acquired c Lk_kmem ?s"
  let ?t = "(stw v 0 (freelist s) ?a)\<lparr>freelist := v\<rparr>"
  have fl: "freelist ?s = freelist s" "use_lock ?s" using True by (simp_all add: memset_page_1)
  have ok: "can_alloc ?s c" "use_lock ?s" "same_cpuv ?a ?t" "use_lock ?t"
    using assms True by (simp_all add: same_cpuv_def memset_page_1 stw_def)
  have "kfree v s = Inr (?t\<lparr>fl_if := fl_if ?s, cpus := cpus (touch c ?s), locks := locks ?s\<rparr>)"
    using kmem_section [OF ok] assms(2) fl
    by (simp add: kfree_def valid_page_def page_aligned_def not_less not_le)
  then show ?thesis using True
    by (cases s) (simp add: touch_if_def stw_def memset_page_1 lock_defs)
qed

lemma free_chain_cong:
  assumes "\<And>v. v \<in> set vs \<Longrightarrow> ldw s' v 0 = ldw s v 0"
  shows "free_chain s' p vs = free_chain s p vs"
  using assms by (induction vs arbitrary: p) auto

lemma valid_page_nonzero: "valid_page s v \<Longrightarrow> KERNLINK \<le> kend s \<Longrightarrow> v \<noteq> 0"
  by (auto simp: valid_page_def)

lemma valid_page_pfn_inject:
  assumes "valid_page s v" "valid_page s' w" "pfn (V2P v) = pfn (V2P w)"
  shows "v = w"
proof -
  have "page_aligned (V2P v)" "page_aligned (V2P w)"
    using assms(1,2) by (auto simp: valid_page_def)
  from pfn_inject [OF this assms(3)] show ?thesis by simp
qed

lemma kalloc_nil:
  assumes "kmem_inv s []" "can_alloc s c"
  shows "kalloc s = Inr (0, touch_if (use_lock s) c (s\<lparr>numFreePages := numFreePages s - 1\<rparr>))"
proof -
  have "freelist s = 0" using assms(1) by (simp add: kmem_inv_def)
  then show ?thesis using kalloc_eq [OF assms(2)] by (cases s) simp
qed

lemma kalloc_cons:
  assumes "kmem_inv s (v # vs)" "can_alloc s c"
  shows "kalloc s = Inr (v, touch_if (use_lock s) c
    (s\<lparr>freelist := ldw s v 0, numFreePages := numFreePages s - 1\<rparr>))"
  using assms(1) kalloc_eq [OF assms(2)] by (simp add: kmem_inv_def)

lemma kmem_inv_pop:
  assumes "kmem_inv s (v # vs)"
  shows "kmem_inv (touch_if b c (s\<lparr>freelist := ldw s v 0, numFreePages := n\<rparr>)) vs"
proof -
  have "free_chain (touch_if b c (s\<lparr>freelist := ldw s v 0, numFreePages := n\<rparr>)) p vs = free_chain s p vs" for p
    by (rule free_chain_cong) (simp add: ldw_def touch_if_def)
  then show ?thesis
    using assms by (auto simp: kmem_inv_def touch_if_def valid_page_def)
qed

lemma kmem_inv_push:
  assumes "kmem_inv s vs" "valid_page s v" "v \<notin> set vs"
  shows "kmem_inv (touch_if b c (s\<lparr>mem := (mem s)(pfn (V2P v) := (\<lambda>i. w)(0 := freelist s)),
     freelist := v, numFreePages := n\<rparr>)) (v # vs)"
    (is "kmem_inv ?t _")
proof -
  have "ldw ?t u 0 = ldw s u 0" if "u \<in> set vs" for u
  proof -
    have "pfn (V2P u) \<noteq> pfn (V2P v)"
      using assms that valid_page_pfn_inject by (metis kmem_inv_def)
    then show ?thesis by (simp add: ldw_def touch_if_def)
  qed
  then have "free_chain ?t p vs = free_chain s p vs" for p by (rule free_chain_cong)
  moreover have "ldw ?t v 0 = freelist s" by (simp add: ldw_def touch_if_def)
  ultimately show ?thesis
    using assms valid_page_nonzero [OF assms(2)]
    by (auto simp: kmem_inv_def touch_if_def valid_page_def)
qed

section \<open>Freeing a range\<close>

fun range_pages :: "nat \<Rightarrow> uint \<Rightarrow> uint list" where
  "range_pages 0 p = []"
| "range_pages (Suc n) p = p # range_pages n (p + PGSIZE)"

lemma length_range_pages [simp]: "length (range_pages n p) = n"
  by (induction n arbitrary: p) auto

lemma range_pages_bound:
  "unat p + 4096 * n < 4294967296 \<Longrightarrow> v \<in> set (range_pages n p) \<Longrightarrow>
     unat p \<le> unat v \<and> unat v + 4096 \<le> unat p + 4096 * n"
proof (induction n arbitrary: p)
  case (Suc n)
  have "unat (p + 4096) = unat p + 4096" using Suc.prems(1) by (simp add: unat_word_ariths)
  with Suc show ?case by force
qed simp

lemma valid_pageI:
  assumes "page_aligned p" "kend s \<le> p" "KERNLINK \<le> kend s" "unat p < unat (P2V PHYSTOP)"
  shows "valid_page s p"
proof -
  have "unat p \<ge> 0x80000000" using assms(2,3) by (simp add: uint_le_iff_unat)
  then have "unat (V2P p) = unat p - 0x80000000"
    using unat_sub [of "0x80000000" p] by (simp add: V2P_def uint_le_iff_unat)
  then show ?thesis using assms by (simp add: valid_page_def P2V_def uint_less_iff_unat)
qed

text \<open>One \<open>kfree\<close> in the terms the range loop needs.\<close>

lemma kfree_push:
  assumes "kmem_inv s fl" "can_alloc s c" "valid_page s v" "v \<notin> set fl"
  obtains s' where "kfree v s = Inr s'" "kmem_inv s' (v # fl)" "can_alloc s' c"
    "numFreePages s' = numFreePages s + 1" "use_lock s' = use_lock s" "kend s' = kend s"
  using kfree_eq [OF assms(2,3)] kmem_inv_push [OF assms(1,3,4)] assms(2)
  by (simp add: touch_if_def)

text \<open>Every page of \<open>[p, vend)\<close> is pushed, the highest last; the counter moves by their number.\<close>

lemma freerange_loop_ok:
  assumes "page_aligned p" "kend s \<le> p" "unat p \<le> unat (P2V PHYSTOP)" "unat vend \<le> unat (P2V PHYSTOP)"
    and "kmem_inv s fl" "can_alloc s c" "n = (unat vend - unat p) div 4096"
    and "set (range_pages n p) \<inter> set fl = {}"
  shows "\<exists>s'. freerange_loop (Suc n) p vend s = Inr s' \<and> kmem_inv s' (rev (range_pages n p) @ fl)
    \<and> can_alloc s' c \<and> numFreePages s' = numFreePages s + of_nat n \<and> use_lock s' = use_lock s
    \<and> kend s' = kend s"
  using assms
proof (induction n arbitrary: p s fl)
  case 0
  have "unat (p + 4096) = unat p + 4096" using 0(3) by (simp add: P2V_def unat_word_ariths)
  moreover have "unat vend < unat p + 4096" using 0(7) by (simp add: div_eq_0_iff)
  ultimately have "\<not> p + 4096 \<le> vend" by (simp add: uint_le_iff_unat)
  then show ?case using 0 by simp
next
  case (Suc n)
  have d: "unat vend \<ge> unat p + 4096"
  proof (rule ccontr)
    assume "\<not> ?thesis"
    then have "unat vend - unat p < 4096" by simp
    then show False using Suc.prems(7) by simp
  qed
  have up: "unat (p + 4096) = unat p + 4096"
    using Suc.prems(3) by (simp add: P2V_def unat_word_ariths)
  have n: "n = (unat vend - unat (p + 4096)) div 4096"
    using Suc.prems(7) d le_div_geq [of 4096 "unat vend - unat p"] by (simp add: up)
  have len: "unat (p + 4096) + 4096 * n < 4294967296"
    using n d up Suc.prems(4) div_times_less_eq_dividend [of "unat vend - unat (p + 4096)" 4096]
    by (simp add: P2V_def)
  have "valid_page s p"
    using Suc.prems d by (intro valid_pageI) (auto simp: kmem_inv_def)
  moreover have "p \<notin> set fl" using Suc.prems(8) by simp
  ultimately obtain s1 where s1: "kfree p s = Inr s1" "kmem_inv s1 (p # fl)" "can_alloc s1 c"
    "numFreePages s1 = numFreePages s + 1" "use_lock s1 = use_lock s" "kend s1 = kend s"
    using kfree_push Suc.prems(5,6) by blast
  have "set (range_pages n (p + 4096)) \<inter> set (p # fl) = {}"
    using Suc.prems(8) range_pages_bound [OF len] up by fastforce
  moreover have "kend s1 \<le> p + 4096"
    using s1(6) Suc.prems(2) up by (simp add: uint_le_iff_unat)
  ultimately obtain s2 where "freerange_loop (Suc n) (p + 4096) vend s1 = Inr s2"
    "kmem_inv s2 (rev (range_pages n (p + 4096)) @ p # fl)" "can_alloc s2 c"
    "numFreePages s2 = numFreePages s1 + of_nat n" "use_lock s2 = use_lock s1" "kend s2 = kend s1"
    using Suc.IH [OF _ _ _ Suc.prems(4) s1(2,3) n] Suc.prems(1,4) up d by auto
  moreover have "p + 4096 \<le> vend" using d up by (simp add: uint_le_iff_unat)
  ultimately show ?case using s1 by simp
qed

lemma freerange_ok:
  assumes "kend s \<le> PGROUNDUP vstart" "PGROUNDUP vstart \<le> P2V PHYSTOP" "vend \<le> P2V PHYSTOP"
    and "kmem_inv s fl" "can_alloc s c" "n = (unat vend - unat (PGROUNDUP vstart)) div 4096"
    and "set (range_pages n (PGROUNDUP vstart)) \<inter> set fl = {}"
  obtains s' where "freerange vstart vend s = Inr s'"
    "kmem_inv s' (rev (range_pages n (PGROUNDUP vstart)) @ fl)" "can_alloc s' c"
    "numFreePages s' = numFreePages s + of_nat n" "use_lock s' = use_lock s" "kend s' = kend s"
  using freerange_loop_ok [OF page_aligned_PGROUNDUP assms(1) _ _ assms(4-7)] assms(2,3,6)
  by (auto simp: freerange_def uint_le_iff_unat)

section \<open>The allocator's contract\<close>

text \<open>
  What vm.c, proc.c and pipe.c rely on: a stack of pages. \<open>inv s vs\<close> reads the state as the
  list \<open>vs\<close> of free pages, \<open>ok\<close> says the calling CPU can enter the allocator.
\<close>

locale page_stack =
  fixes alloc :: "'s \<Rightarrow> (uint \<times> 's) res"
    and free :: "uint \<Rightarrow> 's \<Rightarrow> 's res"
    and inv :: "'s \<Rightarrow> uint list \<Rightarrow> bool"
    and ok :: "'s \<Rightarrow> bool"
    and valid :: "'s \<Rightarrow> uint \<Rightarrow> bool"
  assumes alloc_nil: "inv s [] \<Longrightarrow> ok s \<Longrightarrow> \<exists>s'. alloc s = Inr (0, s') \<and> inv s' [] \<and> ok s'"
    and alloc_cons: "inv s (v # vs) \<Longrightarrow> ok s \<Longrightarrow>
          \<exists>s'. alloc s = Inr (v, s') \<and> inv s' vs \<and> ok s' \<and> (\<forall>u. valid s' u = valid s u)"
    and free_push: "inv s vs \<Longrightarrow> ok s \<Longrightarrow> valid s v \<Longrightarrow> v \<notin> set vs \<Longrightarrow>
          \<exists>s'. free v s = Inr s' \<and> inv s' (v # vs) \<and> ok s' \<and> (\<forall>u. valid s' u = valid s u)"
    and inv_distinct: "inv s vs \<Longrightarrow> distinct vs"
    and inv_valid: "inv s vs \<Longrightarrow> v \<in> set vs \<Longrightarrow> valid s v"
    and inv_nonzero: "inv s vs \<Longrightarrow> 0 \<notin> set vs"
begin

fun alloc_many :: "nat \<Rightarrow> 's \<Rightarrow> (uint list \<times> 's) res" where
  "alloc_many 0 s = Inr ([], s)"
| "alloc_many (Suc n) s =
     bindE (alloc s) (\<lambda>(v, s). bindE (alloc_many n s) (\<lambda>(vs, s). Inr (v # vs, s)))"

lemma alloc_many_take:
  assumes "inv s vs" "ok s" "n \<le> length vs"
  shows "\<exists>s'. alloc_many n s = Inr (take n vs, s') \<and> inv s' (drop n vs) \<and> ok s'"
  using assms
proof (induction n arbitrary: s vs)
  case (Suc n)
  then obtain v us where vs: "vs = v # us" by (cases vs) auto
  obtain s1 where "alloc s = Inr (v, s1)" "inv s1 us" "ok s1"
    using alloc_cons Suc.prems(1,2) vs by blast
  moreover obtain s2 where "alloc_many n s1 = Inr (take n us, s2)" "inv s2 (drop n us)" "ok s2"
    using Suc.IH [OF calculation(2,3)] Suc.prems(3) vs by auto
  ultimately show ?case using vs by simp
qed simp

lemma alloc_many_distinct:
  assumes "inv s vs" "ok s" "n \<le> length vs"
  shows "\<exists>ps s'. alloc_many n s = Inr (ps, s') \<and> distinct ps \<and> 0 \<notin> set ps \<and> length ps = n"
  using alloc_many_take [OF assms] inv_distinct [OF assms(1)] inv_nonzero [OF assms(1)] assms(3)
  by (fastforce dest: in_set_takeD)

lemma free_then_alloc:
  assumes "inv s vs" "ok s" "valid s v" "v \<notin> set vs"
  shows "\<exists>s1 s2. free v s = Inr s1 \<and> alloc s1 = Inr (v, s2) \<and> inv s2 vs \<and> ok s2"
  using free_push [OF assms] alloc_cons by metis

end

interpretation kp: page_stack kalloc kfree kmem_inv "\<lambda>s. can_alloc s c" valid_page for c
proof
  fix s :: "'z kmemv_scheme" and v vs
  show "\<exists>s'. kalloc s = Inr (0, s') \<and> kmem_inv s' [] \<and> can_alloc s' c"
    if "kmem_inv s []" "can_alloc s c"
    using kalloc_nil [OF that] that
    by (auto simp: touch_if_def kmem_inv_def valid_page_def)
  show "\<exists>s'. kalloc s = Inr (v, s') \<and> kmem_inv s' vs \<and> can_alloc s' c \<and> (\<forall>u. valid_page s' u = valid_page s u)"
    if "kmem_inv s (v # vs)" "can_alloc s c"
    using kalloc_cons [OF that] kmem_inv_pop [OF that(1)] that(2)
    by (auto simp: touch_if_def valid_page_def)
  show "\<exists>s'. kfree v s = Inr s' \<and> kmem_inv s' (v # vs) \<and> can_alloc s' c \<and> (\<forall>u. valid_page s' u = valid_page s u)"
    if "kmem_inv s vs" "can_alloc s c" "valid_page s v" "v \<notin> set vs"
    using kfree_eq [OF that(2,3)] kmem_inv_push [OF that(1,3,4)] that(2)
    by (auto simp: touch_if_def valid_page_def)
  show "distinct vs" if "kmem_inv s vs" using that by (simp add: kmem_inv_def)
  show "valid_page s v" if "kmem_inv s vs" "v \<in> set vs" using that by (simp add: kmem_inv_def)
  show "0 \<notin> set vs" if "kmem_inv s vs"
    using that valid_page_nonzero by (force simp: kmem_inv_def)
qed

end
