(* ===== verification/Vm.thy ===== *)
theory Vm
  imports Kalloc
begin

text \<open>
  Virtual memory, src/source/vm.c: page table walks, mapping, growing and shrinking a user
  address space, and the copy-on-write duplication \<open>copyuvm\<close>. (\<open>pagefault\<close> needs the process
  table and is in theory Pagefault, \<open>loaduvm\<close> needs the file system.) The layer \<open>vmv\<close> adds
  the reference counts \<open>pg_refcount\<close>, the kernel page directory and the paging registers:
  \<open>cr3\<close> and the cached translations \<open>tlb\<close>, which a load of \<open>cr3\<close> discards.

  A \<open>pte_t *\<close> is a pair of the page table's kernel address and an index into it. This theory
  holds the operations; theory Vm_Inv has the invariant and what the operations do.
\<close>

section \<open>State\<close>

text \<open>\<open>char pg_refcount[PHYSTOP >> PGSHIFT]\<close>: one signed byte for every page frame.\<close>

record vmv = kmemv +
  pg_refcount :: "uint \<Rightarrow> 8 word"
  kpgdir :: uint
  cr3 :: uint
  tlb :: "uint \<rightharpoonup> uint"

type_synonym pte_ptr = "uint \<times> uint"

abbreviation (input) NREFCOUNT :: uint where "NREFCOUNT \<equiv> 0xE000"

definition lcr3 :: "uint \<Rightarrow> 'z vmv_scheme \<Rightarrow> 'z vmv_scheme" where
  "lcr3 pa s = s\<lparr>cr3 := pa, tlb := Map.empty\<rparr>"

definition rd_refcount :: "uint \<Rightarrow> 'z vmv_scheme \<Rightarrow> 8 word res" where
  "rd_refcount f s =
     (if f < NREFCOUNT then Inr (pg_refcount s f) else Inl (Fault ''pg_refcount''))"

definition add_refcount :: "uint \<Rightarrow> 8 word \<Rightarrow> 'z vmv_scheme \<Rightarrow> 'z vmv_scheme res" where
  "add_refcount f d s =
     bindE (rd_refcount f s) (\<lambda>r. Inr (s\<lparr>pg_refcount := (pg_refcount s)(f := r + d)\<rparr>))"

text \<open>\<open>acquire(&lock); pg_refcount[f] = pg_refcount[f] + d; release(&lock)\<close>\<close>

definition locked_add_refcount :: "uint \<Rightarrow> 8 word \<Rightarrow> 'z vmv_scheme \<Rightarrow> 'z vmv_scheme res" where
  "locked_add_refcount f d s =
     bindE (acquire Lk_pgref s) (\<lambda>s. bindE (add_refcount f d s) (release Lk_pgref))"

section \<open>Bytes of a page\<close>

definition get_byte :: "uint \<Rightarrow> nat \<Rightarrow> uchar" where
  "get_byte w k = ucast (drop_bit (8 * k) w)"

definition set_byte :: "uint \<Rightarrow> nat \<Rightarrow> uchar \<Rightarrow> uint" where
  "set_byte w k b = (w AND NOT (push_bit (8 * k) 0xFF)) OR push_bit (8 * k) (ucast b)"

definition ldb :: "'z kmemv_scheme \<Rightarrow> uint \<Rightarrow> uchar" where
  "ldb s v = get_byte (ldw s v (v mod PGSIZE div 4)) (unat (v mod 4))"

definition stb :: "uint \<Rightarrow> uchar \<Rightarrow> 'z kmemv_scheme \<Rightarrow> 'z kmemv_scheme" where
  "stb v b s =
     (let i = v mod PGSIZE div 4 in stw v i (set_byte (ldw s v i) (unat (v mod 4)) b) s)"

text \<open>\<open>memmove(dst, buf, n)\<close> from a buffer outside the page pool.\<close>

fun memmove_in :: "nat \<Rightarrow> uint \<Rightarrow> (nat \<Rightarrow> uchar) \<Rightarrow> 'z kmemv_scheme \<Rightarrow> 'z kmemv_scheme" where
  "memmove_in 0 dst buf s = s"
| "memmove_in (Suc n) dst buf s = memmove_in n (dst + 1) (buf \<circ> Suc) (stb dst (buf 0) s)"

section \<open>Walking and mapping\<close>

definition walkpgdir ::
  "uint \<Rightarrow> uint \<Rightarrow> bool \<Rightarrow> 'z vmv_scheme \<Rightarrow> (pte_ptr option \<times> 'z vmv_scheme) res" where
  "walkpgdir pgdir va alloc s =
     (let pde = ldw s pgdir (PDX va) in
      if has pde PTE_P then Inr (Some (P2V (PTE_ADDR pde), PTX va), s)
      else if \<not> alloc then Inr (None, s)
      else bindE (kalloc s) (\<lambda>(pgtab, s).
        if pgtab = 0 then Inr (None, s)
        else let s = memset_page pgtab 0 s;
                 s = stw pgdir (PDX va) (V2P pgtab OR PTE_P OR PTE_W OR PTE_U) s
             in Inr (Some (pgtab, PTX va), s)))"

definition ld_pte :: "'z kmemv_scheme \<Rightarrow> pte_ptr \<Rightarrow> uint" where
  "ld_pte s p = ldw s (fst p) (snd p)"

definition st_pte :: "pte_ptr \<Rightarrow> uint \<Rightarrow> 'z kmemv_scheme \<Rightarrow> 'z kmemv_scheme" where
  "st_pte p w s = stw (fst p) (snd p) w s"

text \<open>
  The loop of \<open>mappages\<close>, which ends at the page \<open>last\<close>; the result \<open>False\<close> is the code's -1.
  The bound is the number of pages from \<open>a\<close> up to \<open>last\<close>, counted modulo the address space.
\<close>

fun mappages_loop ::
  "nat \<Rightarrow> uint \<Rightarrow> uint \<Rightarrow> uint \<Rightarrow> uint \<Rightarrow> uint \<Rightarrow> 'z vmv_scheme \<Rightarrow> (bool \<times> 'z vmv_scheme) res"
where
  "mappages_loop 0 pgdir a lastp pa perm s = Inl Diverge"
| "mappages_loop (Suc n) pgdir a lastp pa perm s =
     bindE (walkpgdir pgdir a True s) (\<lambda>(pte, s).
       case pte of
         None \<Rightarrow> Inr (False, s)
       | Some p \<Rightarrow>
           if has (ld_pte s p) PTE_P then Inl (Panic ''remap'')
           else let s = st_pte p (pa OR perm OR PTE_P) s in
                if a = lastp then Inr (True, s)
                else mappages_loop n pgdir (a + PGSIZE) lastp (pa + PGSIZE) perm s)"

definition mappages ::
  "uint \<Rightarrow> uint \<Rightarrow> uint \<Rightarrow> uint \<Rightarrow> uint \<Rightarrow> 'z vmv_scheme \<Rightarrow> (bool \<times> 'z vmv_scheme) res" where
  "mappages pgdir va siz pa perm s =
     (let a = PGROUNDDOWN va;
          lastp = PGROUNDDOWN (va + siz - 1)
      in mappages_loop (Suc (unat (pfn (lastp - a)))) pgdir a lastp pa perm s)"

section \<open>Freeing an address space\<close>

text \<open>
  The body of \<open>deallocuvm\<close>'s loop for a present entry: one reference less, the page freed
  with the last one, the entry cleared.
\<close>

definition drop_page :: "pte_ptr \<Rightarrow> 'z vmv_scheme \<Rightarrow> 'z vmv_scheme res" where
  "drop_page p s =
     (let pa = PTE_ADDR (ld_pte s p) in
      if pa = 0 then Inl (Panic ''kfree'')
      else bindE (acquire Lk_pgref s) (\<lambda>s.
        bindE (add_refcount (pfn pa) (- 1) s) (\<lambda>s.
        bindE (if pg_refcount s (pfn pa) = 0 then kfree (P2V pa) s else Inr s) (\<lambda>s.
        bindE (release Lk_pgref s) (\<lambda>s.
        Inr (st_pte p 0 s))))))"

text \<open>
  \<open>for(; a < oldsz; a += PGSIZE)\<close>. When the page table is missing the code moves \<open>a\<close> by
  \<open>NPTENTRIES - 1\<close> further pages.
\<close>

fun deallocuvm_loop ::
  "nat \<Rightarrow> uint \<Rightarrow> uint \<Rightarrow> uint \<Rightarrow> 'z vmv_scheme \<Rightarrow> 'z vmv_scheme res"
where
  "deallocuvm_loop 0 pgdir a oldsz s = Inl Diverge"
| "deallocuvm_loop (Suc n) pgdir a oldsz s =
     (if \<not> a < oldsz then Inr s
      else bindE (walkpgdir pgdir a False s) (\<lambda>(pte, s).
        case pte of
          None \<Rightarrow> deallocuvm_loop n pgdir (a + (NPTENTRIES - 1) * PGSIZE + PGSIZE) oldsz s
        | Some p \<Rightarrow>
            bindE (if has (ld_pte s p) PTE_P then drop_page p s else Inr s)
              (deallocuvm_loop n pgdir (a + PGSIZE) oldsz)))"

definition deallocuvm ::
  "uint \<Rightarrow> uint \<Rightarrow> uint \<Rightarrow> 'z vmv_scheme \<Rightarrow> (uint \<times> 'z vmv_scheme) res" where
  "deallocuvm pgdir oldsz newsz s =
     (if newsz \<ge> oldsz then Inr (oldsz, s)
      else let a = PGROUNDUP newsz
           in bindE (deallocuvm_loop (Suc (Suc (unat (pfn oldsz)))) pgdir a oldsz s)
                (\<lambda>s. Inr (newsz, s)))"

text \<open>\<open>for(i = 0; i < NPDENTRIES; i++)\<close> of \<open>freevm\<close>: \<open>n\<close> entries from \<open>i\<close> on.\<close>

fun freevm_loop :: "nat \<Rightarrow> uint \<Rightarrow> uint \<Rightarrow> 'z vmv_scheme \<Rightarrow> 'z vmv_scheme res" where
  "freevm_loop 0 pgdir i s = Inr s"
| "freevm_loop (Suc n) pgdir i s =
     bindE (if has (ldw s pgdir i) PTE_P then kfree (P2V (PTE_ADDR (ldw s pgdir i))) s else Inr s)
       (freevm_loop n pgdir (i + 1))"

definition freevm :: "uint \<Rightarrow> 'z vmv_scheme \<Rightarrow> 'z vmv_scheme res" where
  "freevm pgdir s =
     (if pgdir = 0 then Inl (Panic ''freevm: no pgdir'')
      else bindE (deallocuvm pgdir KERNBASE 0 s) (\<lambda>(_, s).
           bindE (freevm_loop 1024 pgdir 0 s) (kfree pgdir)))"

section \<open>The kernel part of an address space\<close>

record kmap_entry =
  virt :: uint
  phys_start :: uint
  phys_end :: uint
  kperm :: uint

definition kmap :: "uint \<Rightarrow> kmap_entry list" where
  "kmap data =
     [\<lparr>virt = KERNBASE, phys_start = 0, phys_end = EXTMEM, kperm = PTE_W\<rparr>,
      \<lparr>virt = KERNLINK, phys_start = V2P KERNLINK, phys_end = V2P data, kperm = 0\<rparr>,
      \<lparr>virt = data, phys_start = V2P data, phys_end = PHYSTOP, kperm = PTE_W\<rparr>,
      \<lparr>virt = DEVSPACE, phys_start = DEVSPACE, phys_end = 0, kperm = PTE_W\<rparr>]"

fun setupkvm_loop ::
  "kmap_entry list \<Rightarrow> uint \<Rightarrow> 'z vmv_scheme \<Rightarrow> (uint \<times> 'z vmv_scheme) res" where
  "setupkvm_loop [] pgdir s = Inr (pgdir, s)"
| "setupkvm_loop (k # ks) pgdir s =
     bindE (mappages pgdir (virt k) (phys_end k - phys_start k) (phys_start k) (kperm k) s)
       (\<lambda>(ok, s). if \<not> ok then bindE (freevm pgdir s) (\<lambda>s. Inr (0, s))
                  else setupkvm_loop ks pgdir s)"

definition setupkvm :: "'z vmv_scheme \<Rightarrow> (uint \<times> 'z vmv_scheme) res" where
  "setupkvm s =
     bindE (kalloc s) (\<lambda>(pgdir, s).
       if pgdir = 0 then Inr (0, s)
       else let s = memset_page pgdir 0 s in
         if P2V PHYSTOP > DEVSPACE then Inl (Panic ''PHYSTOP too high'')
         else setupkvm_loop (kmap (kdata s)) pgdir s)"

definition switchkvm :: "'z vmv_scheme \<Rightarrow> 'z vmv_scheme" where
  "switchkvm s = lcr3 (V2P (kpgdir s)) s"

definition kvmalloc :: "'z vmv_scheme \<Rightarrow> 'z vmv_scheme res" where
  "kvmalloc s = bindE (setupkvm s) (\<lambda>(d, s). Inr (switchkvm (s\<lparr>kpgdir := d\<rparr>)))"

section \<open>User memory\<close>

definition inituvm :: "uint \<Rightarrow> (nat \<Rightarrow> uchar) \<Rightarrow> uint \<Rightarrow> 'z vmv_scheme \<Rightarrow> 'z vmv_scheme res" where
  "inituvm pgdir init sz s =
     bindE (kalloc s) (\<lambda>(pg, s).
     bindE (locked_add_refcount (pfn (V2P pg)) 1 s) (\<lambda>s.
       if sz \<ge> PGSIZE then Inl (Panic ''inituvm: more than a page'')
       else let s = memset_page pg 0 s in
         bindE (mappages pgdir 0 PGSIZE (V2P pg) (PTE_W OR PTE_U) s) (\<lambda>(_, s).
           Inr (memmove_in (unat sz) pg init s))))"

text \<open>
  The loop of \<open>allocuvm\<close>; \<open>oldsz\<close> is the size to fall back to when a page cannot be had.
  The result of \<open>mappages\<close> is not looked at, as in the code.
\<close>

fun allocuvm_loop ::
  "nat \<Rightarrow> uint \<Rightarrow> uint \<Rightarrow> uint \<Rightarrow> uint \<Rightarrow> 'z vmv_scheme \<Rightarrow> (uint \<times> 'z vmv_scheme) res"
where
  "allocuvm_loop 0 pgdir a oldsz newsz s = Inl Diverge"
| "allocuvm_loop (Suc n) pgdir a oldsz newsz s =
     (if \<not> a < newsz then Inr (newsz, s)
      else bindE (kalloc s) (\<lambda>(pg, s).
        if pg = 0 then
          bindE (cprintf (''allocuvm out of memory'' @ [CHR 0x0A]) [] s) (\<lambda>s.
          bindE (deallocuvm pgdir newsz oldsz s) (\<lambda>(_, s). Inr (0, s)))
        else let s = memset_page pg 0 s in
          bindE (mappages pgdir a PGSIZE (V2P pg) (PTE_W OR PTE_U) s) (\<lambda>(_, s).
          bindE (locked_add_refcount (pfn (V2P pg)) 1 s) (\<lambda>s.
            allocuvm_loop n pgdir (a + PGSIZE) oldsz newsz s))))"

definition allocuvm ::
  "uint \<Rightarrow> uint \<Rightarrow> uint \<Rightarrow> 'z vmv_scheme \<Rightarrow> (uint \<times> 'z vmv_scheme) res" where
  "allocuvm pgdir oldsz newsz s =
     (if newsz \<ge> KERNBASE then Inr (0, s)
      else if newsz < oldsz then Inr (oldsz, s)
      else allocuvm_loop (Suc (Suc (unat (pfn newsz)))) pgdir (PGROUNDUP oldsz) oldsz newsz s)"

definition clearpteu :: "uint \<Rightarrow> uint \<Rightarrow> 'z vmv_scheme \<Rightarrow> 'z vmv_scheme res" where
  "clearpteu pgdir uva s =
     bindE (walkpgdir pgdir uva False s) (\<lambda>(pte, s).
       case pte of None \<Rightarrow> Inl (Panic ''clearpteu'')
       | Some p \<Rightarrow> Inr (st_pte p (ld_pte s p AND NOT PTE_U) s))"

section \<open>Copy-on-write duplication\<close>

text \<open>
  The loop of \<open>copyuvm\<close> over the pages of the parent; the result \<open>False\<close> is the jump to
  \<open>bad\<close>. The messages of the two panics are arguments because \<open>cowuvm\<close> repeats the loop with
  another text.
\<close>

fun copyuvm_loop ::
  "string \<Rightarrow> string \<Rightarrow> nat \<Rightarrow> uint \<Rightarrow> uint \<Rightarrow> uint \<Rightarrow> uint \<Rightarrow> 'z vmv_scheme \<Rightarrow> (bool \<times> 'z vmv_scheme) res"
where
  "copyuvm_loop m1 m2 0 pgdir d i sz s = Inl Diverge"
| "copyuvm_loop m1 m2 (Suc n) pgdir d i sz s =
     (if \<not> i < sz then Inr (True, s)
      else bindE (walkpgdir pgdir i False s) (\<lambda>(pte, s).
        case pte of
          None \<Rightarrow> Inl (Panic m1)
        | Some p \<Rightarrow>
            if \<not> has (ld_pte s p) PTE_P then Inl (Panic m2)
            else
              let s = st_pte p (ld_pte s p AND NOT PTE_W) s;
                  pa = PTE_ADDR (ld_pte s p);
                  flags = PTE_FLAGS (ld_pte s p)
              in bindE (mappages d i PGSIZE pa flags s) (\<lambda>(ok, s).
                   if \<not> ok then Inr (False, s)
                   else bindE (locked_add_refcount (pfn pa) 1 s)
                          (copyuvm_loop m1 m2 n pgdir d (i + PGSIZE) sz))))"

definition copyuvm :: "uint \<Rightarrow> uint \<Rightarrow> 'z vmv_scheme \<Rightarrow> (uint \<times> 'z vmv_scheme) res" where
  "copyuvm pgdir sz s =
     bindE (setupkvm s) (\<lambda>(d, s).
       if d = 0 then Inr (0, s)
       else bindE (copyuvm_loop ''copyuvm: pte should exist'' ''copyuvm: page not present''
                     (Suc (Suc (unat (pfn sz)))) pgdir d 0 sz s) (\<lambda>(ok, s).
         if ok then Inr (d, lcr3 (V2P pgdir) s)
         else bindE (freevm d s) (\<lambda>s. Inr (0, lcr3 (V2P pgdir) s))))"

definition cowuvm :: "uint \<Rightarrow> uint \<Rightarrow> 'z vmv_scheme \<Rightarrow> (uint \<times> 'z vmv_scheme) res" where
  "cowuvm pgdir sz s =
     bindE (setupkvm s) (\<lambda>(d, s).
       if d = 0 then Inr (0, s)
       else bindE (copyuvm_loop ''cowuvm: pte should exist'' ''copyuvm: page not present''
                     (Suc (Suc (unat (pfn sz)))) pgdir d 0 sz s) (\<lambda>(ok, s).
         if ok then Inr (d, lcr3 (V2P pgdir) s)
         else bindE (freevm d s) (\<lambda>s. Inr (0, lcr3 (V2P pgdir) s))))"

section \<open>Kernel access to user memory\<close>

definition uva2ka :: "uint \<Rightarrow> uint \<Rightarrow> 'z vmv_scheme \<Rightarrow> uint res" where
  "uva2ka pgdir uva s =
     bindE (walkpgdir pgdir uva False s) (\<lambda>(pte, s).
       case pte of None \<Rightarrow> Inl (Fault ''uva2ka'')
       | Some p \<Rightarrow>
           if \<not> has (ld_pte s p) PTE_P then Inr 0
           else if \<not> has (ld_pte s p) PTE_U then Inr 0
           else Inr (P2V (PTE_ADDR (ld_pte s p))))"

text \<open>\<open>while(len > 0)\<close> of \<open>copyout\<close>: at most one iteration for every byte; \<open>False\<close> is -1.\<close>

fun copyout_loop ::
  "nat \<Rightarrow> uint \<Rightarrow> uint \<Rightarrow> (nat \<Rightarrow> uchar) \<Rightarrow> uint \<Rightarrow> 'z vmv_scheme \<Rightarrow> (bool \<times> 'z vmv_scheme) res"
where
  "copyout_loop 0 pgdir va buf len s = Inl Diverge"
| "copyout_loop (Suc k) pgdir va buf len s =
     (if \<not> len > 0 then Inr (True, s)
      else let va0 = PGROUNDDOWN va in
        bindE (uva2ka pgdir va0 s) (\<lambda>pa0.
          if pa0 = 0 then Inr (False, s)
          else let n = PGSIZE - (va - va0);
                   n = (if n > len then len else n);
                   s = memmove_in (unat n) (pa0 + (va - va0)) buf s
               in copyout_loop k pgdir (va0 + PGSIZE) (\<lambda>j. buf (unat n + j)) (len - n) s))"

definition copyout ::
  "uint \<Rightarrow> uint \<Rightarrow> (nat \<Rightarrow> uchar) \<Rightarrow> uint \<Rightarrow> 'z vmv_scheme \<Rightarrow> (bool \<times> 'z vmv_scheme) res" where
  "copyout pgdir va p len s = copyout_loop (Suc (unat len)) pgdir va p len s"

end
