(* ===== verification/Vm_Inv.thy ===== *)
theory Vm_Inv
  imports Vm
begin

text \<open>
  The invariant of the virtual memory system and how the primitive memory writes of vm.c
  preserve it. An ownership map gives every page frame one role: on the free list, page
  directory, page table of one directory slot, user page, or held by some other kernel
  object. It is not part of the program's state; it states that the roles are disjoint, which
  is what makes the writes of one role invisible to the others.

  The \<open>view\<close> of a state is the function from (directory, virtual page) to page table entry.
  It is the abstract state of the component: the operations are specified as updates of
  the view, and reference counts are counted in it.
\<close>

section \<open>Roles and views\<close>

datatype role = RNone | RFree | RHeld | RDir | RTab uint uint | RUser

definition frame :: "uint \<Rightarrow> uint" where
  "frame v = pfn (V2P v)"

definition kva :: "uint \<Rightarrow> uint" where
  "kva f = P2V (push_bit 12 f)"

definition pte_at :: "'z kmemv_scheme \<Rightarrow> uint \<Rightarrow> uint \<Rightarrow> uint" where
  "pte_at s D va =
     (if has (mem s D (PDX va)) PTE_P then mem s (pfn (mem s D (PDX va))) (PTX va) else 0)"

type_synonym view = "uint \<times> uint \<Rightarrow> uint"

definition view :: "'z kmemv_scheme \<Rightarrow> (uint \<Rightarrow> role) \<Rightarrow> view" where
  "view s own = (\<lambda>(D, va). if own D = RDir \<and> page_aligned va then pte_at s D va else 0)"

text \<open>The user mappings of a frame, and their number.\<close>

definition mapset :: "view \<Rightarrow> uint \<Rightarrow> (uint \<times> uint) set" where
  "mapset V f = {(D, va). va < KERNBASE \<and> has (V (D, va)) PTE_P \<and> pfn (V (D, va)) = f}"

definition refs :: "view \<Rightarrow> uint \<Rightarrow> nat" where
  "refs V f = card (mapset V f)"

section \<open>The invariant\<close>

definition vm_struct :: "'z kmemv_scheme \<Rightarrow> (uint \<Rightarrow> role) \<Rightarrow> uint list \<Rightarrow> bool" where
  "vm_struct s own fl \<longleftrightarrow>
     kmem_inv s fl \<and>
     (\<forall>f. own f = RFree \<longleftrightarrow> f \<in> frame ` set fl) \<and>
     (\<forall>f. own f \<noteq> RNone \<longrightarrow> valid_page s (kva f) \<and> frame (kva f) = f) \<and>
     (\<forall>D i. own D = RDir \<and> i < 1024 \<and> has (mem s D i) PTE_P \<longrightarrow> own (pfn (mem s D i)) = RTab D i) \<and>
     (\<forall>f D i. own f = RTab D i \<longrightarrow>
        own D = RDir \<and> i < 1024 \<and> has (mem s D i) PTE_P \<and> pfn (mem s D i) = f) \<and>
     (\<forall>D va. va < KERNBASE \<and> has (view s own (D, va)) PTE_P \<longrightarrow> own (pfn (view s own (D, va))) = RUser)"

text \<open>
  Reference counts are exact (and fit a signed byte), nothing but user pages is counted, and
  a page somebody may write has one mapping only: the copy-on-write invariant.
\<close>

definition refs_ok :: "view \<Rightarrow> (uint \<Rightarrow> 8 word) \<Rightarrow> (uint \<Rightarrow> role) \<Rightarrow> bool" where
  "refs_ok V rc own \<longleftrightarrow>
     (\<forall>f. own f = RUser \<longrightarrow> unat (rc f) = refs V f \<and> 0 < refs V f \<and> refs V f \<le> 127) \<and>
     (\<forall>f. own f \<noteq> RUser \<longrightarrow> rc f = 0) \<and>
     (\<forall>D va. va < KERNBASE \<and> has (V (D, va)) PTE_P \<and> has (V (D, va)) PTE_W \<longrightarrow>
        refs V (pfn (V (D, va))) = 1)"

definition vm_inv :: "'z vmv_scheme \<Rightarrow> (uint \<Rightarrow> role) \<Rightarrow> uint list \<Rightarrow> bool" where
  "vm_inv s own fl \<longleftrightarrow> vm_struct s own fl \<and> refs_ok (view s own) (pg_refcount s) own"

text \<open>When the executing CPU can take the locks of the allocator and of the reference counts.\<close>

definition vm_ready :: "'z vmv_scheme \<Rightarrow> nat \<Rightarrow> bool" where
  "vm_ready s c \<longleftrightarrow> cpu_ok s c \<and> lk_free s Lk_kmem \<and> lk_free s Lk_pgref"

text \<open>The fields an operation of vm.c may change.\<close>

definition vm_chg :: "nat \<Rightarrow> 'z vmv_scheme \<Rightarrow> 'z vmv_scheme \<Rightarrow> bool" where
  "vm_chg c s s' \<longleftrightarrow>
     s' = s\<lparr>cpus := cpus s', mem := mem s', freelist := freelist s', numFreePages := numFreePages s',
            pg_refcount := pg_refcount s'\<rparr> \<and>
     (cpus s' = cpus s \<or> cpus s' = cpus (touch c s))"

section \<open>Frames and views\<close>

lemma frame_kva_bounded: "f < 0x100000 \<Longrightarrow> frame (kva f) = f"
proof -
  assume "f < 0x100000"
  then have "take_bit 20 f = f" by (simp add: take_bit_eq_mod word_mod_less_divisor mod_word_less)
  moreover have "drop_bit 12 (push_bit 12 f) = take_bit 20 f"
    by (rule bit_word_eqI) (auto simp: bit_simps)
  ultimately show ?thesis by (simp add: frame_def kva_def pfn_def)
qed

lemma kva_frame: "page_aligned v \<Longrightarrow> kva (frame v) = v"
  by (metis P2V_V2P frame_def kva_def page_aligned_V2P page_aligned_iff pfn_def)

lemma frame_eq_iff: "page_aligned u \<Longrightarrow> page_aligned v \<Longrightarrow> frame u = frame v \<longleftrightarrow> u = v"
  by (metis kva_frame)

lemma pte_at_0: "\<not> has (mem s D (PDX va)) PTE_P \<Longrightarrow> pte_at s D va = 0"
  by (simp add: pte_at_def)

lemma view_simp: "view s own (D, va) = (if own D = RDir \<and> page_aligned va then pte_at s D va else 0)"
  by (simp add: view_def)

lemma view_ext: "(\<And>D va. V (D, va) = W (D, va)) \<Longrightarrow> V = (W :: view)"
  by auto

lemma view_cong: "mem s' = mem s \<Longrightarrow> view s' own = view s own"
  by (intro view_ext) (simp add: view_simp pte_at_def)

lemma finite_mapset [simp]: "finite (mapset V f)"
  by simp

lemma in_mapset: "k \<in> mapset V f \<longleftrightarrow> snd k < KERNBASE \<and> has (V k) PTE_P \<and> pfn (V k) = f"
  by (cases k) (simp add: mapset_def)

lemma mapset_upd:
  "mapset (V(k := w)) f =
     (mapset V f - {k}) \<union> (if snd k < KERNBASE \<and> has w PTE_P \<and> pfn w = f then {k} else {})"
  by (rule set_eqI) (simp add: in_mapset)

lemma refs_upd_other:
  assumes "\<not> (has (V k) PTE_P \<and> pfn (V k) = f)" "\<not> (has w PTE_P \<and> pfn w = f)"
  shows "refs (V(k := w)) f = refs V f"
proof -
  have "k \<notin> mapset V f" using assms by (auto simp: in_mapset)
  then show ?thesis using assms by (auto simp: refs_def mapset_upd)
qed

lemma refs_upd_same:
  assumes "has (V k) PTE_P" "has w PTE_P" "pfn w = pfn (V k)"
  shows "refs (V(k := w)) f = refs V f"
proof -
  have "mapset (V(k := w)) f = mapset V f" using assms by (intro set_eqI) (simp add: in_mapset)
  then show ?thesis by (simp add: refs_def)
qed

lemma refs_upd_new:
  assumes "snd k < KERNBASE" "\<not> has (V k) PTE_P" "has w PTE_P" "pfn w = f"
  shows "refs (V(k := w)) f = Suc (refs V f)"
proof -
  have "k \<notin> mapset V f" using assms by (simp add: in_mapset)
  then show ?thesis using assms by (simp add: refs_def mapset_upd)
qed

lemma refs_upd_gone:
  assumes "snd k < KERNBASE" "has (V k) PTE_P" "pfn (V k) = f" "\<not> (has w PTE_P \<and> pfn w = f)"
  shows "Suc (refs (V(k := w)) f) = refs V f"
proof -
  have "k \<in> mapset V f" using assms by (simp add: in_mapset)
  then have "mapset V f = insert k (mapset (V(k := w)) f)" "k \<notin> mapset (V(k := w)) f"
    using assms(4) by (auto simp: mapset_upd)
  then show ?thesis by (simp add: refs_def)
qed

lemma refs_0: "refs V f = 0 \<longleftrightarrow> (\<forall>D va. va < KERNBASE \<and> has (V (D, va)) PTE_P \<longrightarrow> pfn (V (D, va)) \<noteq> f)"
  by (auto simp: refs_def mapset_def)

section \<open>Steps of the abstract reference counts\<close>

lemma refs_okD:
  assumes "refs_ok V rc own"
  shows "own f = RUser \<Longrightarrow> unat (rc f) = refs V f" "own f = RUser \<Longrightarrow> 0 < refs V f"
    "own f = RUser \<Longrightarrow> refs V f \<le> 127" "own f \<noteq> RUser \<Longrightarrow> rc f = 0"
    "va < KERNBASE \<Longrightarrow> has (V (D, va)) PTE_P \<Longrightarrow> has (V (D, va)) PTE_W \<Longrightarrow> refs V (pfn (V (D, va))) = 1"
  using assms unfolding refs_ok_def by blast+

lemma refs_okI:
  assumes "\<And>f. own f = RUser \<Longrightarrow> unat (rc f) = refs V f \<and> 0 < refs V f \<and> refs V f \<le> 127"
    and "\<And>f. own f \<noteq> RUser \<Longrightarrow> rc f = 0"
    and "\<And>D va. va < KERNBASE \<Longrightarrow> has (V (D, va)) PTE_P \<Longrightarrow> has (V (D, va)) PTE_W \<Longrightarrow>
           refs V (pfn (V (D, va))) = 1"
  shows "refs_ok V rc own"
  using assms unfolding refs_ok_def by blast

lemma rc_dec: "unat (r :: 8 word) = Suc n \<Longrightarrow> unat (r - 1) = n"
  by (metis diff_Suc_1 unat_minus_one unat_0 nat.distinct(1))

lemma rc_inc: "unat (r :: 8 word) = n \<Longrightarrow> n < 255 \<Longrightarrow> unat (r + 1) = Suc n"
  by (simp add: unat_word_ariths)

text \<open>One mapping less; the page is free when it was the last one.\<close>

lemma refs_ok_drop:
  assumes ok: "refs_ok V rc own" and k: "va < KERNBASE" "has (V (D, va)) PTE_P"
    and f: "own (pfn (V (D, va))) = RUser" "f = pfn (V (D, va))"
  shows "refs_ok (V((D, va) := 0)) (rc(f := rc f - 1)) (if refs V f = 1 then own(f := RFree) else own)"
proof -
  let ?V = "V((D, va) := 0)"
  have g: "Suc (refs ?V f) = refs V f" using k f(2) by (intro refs_upd_gone) auto
  have o: "refs ?V h = refs V h" if "h \<noteq> f" for h using f(2) that by (intro refs_upd_other) auto
  have r: "unat (rc f - 1) = refs ?V f" using refs_okD(1) [OF ok, of f] f g by (intro rc_dec) simp
  show ?thesis
  proof (rule refs_okI)
    show "unat ((rc(f := rc f - 1)) h) = refs ?V h \<and> 0 < refs ?V h \<and> refs ?V h \<le> 127"
      if "(if refs V f = 1 then own(f := RFree) else own) h = RUser" for h
      using that r g o [of h] refs_okD(1-3) [OF ok, of h] f by (cases "h = f") (auto split: if_splits)
    show "(rc(f := rc f - 1)) h = 0"
      if "(if refs V f = 1 then own(f := RFree) else own) h \<noteq> RUser" for h
      using that r g refs_okD(4) [OF ok, of h] f by (auto split: if_splits simp: unat_eq_0)
    show "refs ?V (pfn (?V (D', a))) = 1"
      if "a < KERNBASE" "has (?V (D', a)) PTE_P" "has (?V (D', a)) PTE_W" for D' a
    proof -
      have ne: "(D', a) \<noteq> (D, va)" using that(2) by auto
      then have one: "refs V (pfn (V (D', a))) = 1" using refs_okD(5) [OF ok that(1)] that(2,3) by auto
      have "pfn (V (D', a)) \<noteq> f"
      proof
        assume "pfn (V (D', a)) = f"
        moreover have "(D', a) \<in> mapset ?V f" using that ne calculation by (auto simp: in_mapset)
        ultimately show False using g one by (auto simp: refs_def)
      qed
      then show ?thesis using one o ne by auto
    qed
  qed
qed

text \<open>A new mapping of a fresh page.\<close>

lemma refs_ok_fresh:
  assumes ok: "refs_ok V rc own" and k: "va < KERNBASE" "\<not> has (V (D, va)) PTE_P" "has w PTE_P"
    and f: "own f \<noteq> RUser" "f = pfn w" "refs V f = 0"
  shows "refs_ok (V((D, va) := w)) (rc(f := rc f + 1)) (own(f := RUser))"
proof -
  let ?V = "V((D, va) := w)"
  have n: "refs ?V f = Suc (refs V f)" using k f by (intro refs_upd_new) auto
  have o: "refs ?V h = refs V h" if "h \<noteq> f" for h using k f(2) that by (intro refs_upd_other) auto
  have r: "unat (rc f + 1) = 1" using refs_okD(4) [OF ok f(1)] by simp
  show ?thesis
  proof (rule refs_okI)
    show "unat ((rc(f := rc f + 1)) h) = refs ?V h \<and> 0 < refs ?V h \<and> refs ?V h \<le> 127"
      if "(own(f := RUser)) h = RUser" for h
      using that r n o [of h] refs_okD(1-3) [OF ok, of h] f(3) by (cases "h = f") auto
    show "(rc(f := rc f + 1)) h = 0" if "(own(f := RUser)) h \<noteq> RUser" for h
      using that refs_okD(4) [OF ok, of h] by (auto split: if_splits)
    show "refs ?V (pfn (?V (D', a))) = 1"
      if "a < KERNBASE" "has (?V (D', a)) PTE_P" "has (?V (D', a)) PTE_W" for D' a
    proof (cases "(D', a) = (D, va)")
      case False
      then have "refs V (pfn (V (D', a))) = 1" using refs_okD(5) [OF ok that(1), of D'] that(2,3) by auto
      moreover have "pfn (V (D', a)) \<noteq> f" using f(3) calculation by auto
      ultimately show ?thesis using o False by auto
    qed (use n f in auto)
  qed
qed

text \<open>A further, read-only mapping of a page that nobody may write.\<close>

lemma refs_ok_share:
  assumes ok: "refs_ok V rc own" and k: "va < KERNBASE" "\<not> has (V (D, va)) PTE_P" "has w PTE_P" "\<not> has w PTE_W"
    and f: "own f = RUser" "f = pfn w" "refs V f < 127"
    and ro: "\<And>D' a. a < KERNBASE \<Longrightarrow> has (V (D', a)) PTE_P \<Longrightarrow> pfn (V (D', a)) = f \<Longrightarrow> \<not> has (V (D', a)) PTE_W"
  shows "refs_ok (V((D, va) := w)) (rc(f := rc f + 1)) own"
proof -
  let ?V = "V((D, va) := w)"
  have n: "refs ?V f = Suc (refs V f)" using k f by (intro refs_upd_new) auto
  have o: "refs ?V h = refs V h" if "h \<noteq> f" for h using k f(2) that by (intro refs_upd_other) auto
  have r: "unat (rc f + 1) = Suc (refs V f)" using refs_okD(1) [OF ok f(1)] f(3) by (intro rc_inc) auto
  show ?thesis
  proof (rule refs_okI)
    show "unat ((rc(f := rc f + 1)) h) = refs ?V h \<and> 0 < refs ?V h \<and> refs ?V h \<le> 127"
      if "own h = RUser" for h
      using that r n o [of h] refs_okD(1-3) [OF ok, of h] f(3) by (cases "h = f") auto
    show "(rc(f := rc f + 1)) h = 0" if "own h \<noteq> RUser" for h
      using that refs_okD(4) [OF ok, of h] f(1) by auto
    show "refs ?V (pfn (?V (D', a))) = 1"
      if "a < KERNBASE" "has (?V (D', a)) PTE_P" "has (?V (D', a)) PTE_W" for D' a
    proof -
      have ne: "(D', a) \<noteq> (D, va)" using that(3) k(4) by auto
      then have "refs V (pfn (V (D', a))) = 1" using refs_okD(5) [OF ok that(1), of D'] that(2,3) by auto
      moreover have "pfn (V (D', a)) \<noteq> f" using ro [OF that(1), of D'] that(2,3) ne by auto
      ultimately show ?thesis using o ne by auto
    qed
  qed
qed

text \<open>Changing flags of an entry without making it writable.\<close>

lemma refs_ok_flags:
  assumes ok: "refs_ok V rc own" and w: "has w PTE_P = has (V (D, va)) PTE_P" "pfn w = pfn (V (D, va))"
    "has w PTE_W \<Longrightarrow> has (V (D, va)) PTE_W \<or> refs V (pfn w) = 1"
  shows "refs_ok (V((D, va) := w)) rc own"
proof -
  let ?V = "V((D, va) := w)"
  have o: "refs ?V h = refs V h" for h
  proof (cases "has (V (D, va)) PTE_P")
    case True then show ?thesis using w by (intro refs_upd_same) auto
  next
    case False then show ?thesis using w by (intro refs_upd_other) auto
  qed
  show ?thesis
    by (rule refs_okI) (use refs_okD [OF ok] w in \<open>auto simp: o split: if_splits\<close>)
qed

section \<open>Consequences of the structural invariant\<close>

lemma vm_structI:
  assumes "kmem_inv s fl" "\<And>f. own f = RFree \<longleftrightarrow> f \<in> frame ` set fl"
    and "\<And>f. own f \<noteq> RNone \<Longrightarrow> valid_page s (kva f) \<and> frame (kva f) = f"
    and "\<And>D i. own D = RDir \<Longrightarrow> i < 1024 \<Longrightarrow> has (mem s D i) PTE_P \<Longrightarrow> own (pfn (mem s D i)) = RTab D i"
    and "\<And>f D i. own f = RTab D i \<Longrightarrow>
           own D = RDir \<and> i < 1024 \<and> has (mem s D i) PTE_P \<and> pfn (mem s D i) = f"
    and "\<And>D va. va < KERNBASE \<Longrightarrow> has (view s own (D, va)) PTE_P \<Longrightarrow>
           own (pfn (view s own (D, va))) = RUser"
  shows "vm_struct s own fl"
  unfolding vm_struct_def by (intro conjI allI impI) (use assms in simp_all)

lemma vs_kmem: "vm_struct s own fl \<Longrightarrow> kmem_inv s fl"
  by (simp add: vm_struct_def)

lemma vs_free: "vm_struct s own fl \<Longrightarrow> own f = RFree \<longleftrightarrow> f \<in> frame ` set fl"
  by (simp add: vm_struct_def)

lemma vs_valid: "vm_struct s own fl \<Longrightarrow> own f \<noteq> RNone \<Longrightarrow> valid_page s (kva f)"
  by (simp add: vm_struct_def)

lemma vs_frame: "vm_struct s own fl \<Longrightarrow> own f \<noteq> RNone \<Longrightarrow> frame (kva f) = f"
  by (simp add: vm_struct_def)

lemma vs_dir:
  "vm_struct s own fl \<Longrightarrow> own D = RDir \<Longrightarrow> i < 1024 \<Longrightarrow> has (mem s D i) PTE_P \<Longrightarrow>
     own (pfn (mem s D i)) = RTab D i"
  by (simp add: vm_struct_def)

lemma vs_tab:
  assumes "vm_struct s own fl" "own f = RTab D i"
  shows "own D = RDir" "i < 1024" "has (mem s D i) PTE_P" "pfn (mem s D i) = f"
  using assms by (simp_all add: vm_struct_def)

lemma vs_user:
  "vm_struct s own fl \<Longrightarrow> va < KERNBASE \<Longrightarrow> has (view s own (D, va)) PTE_P \<Longrightarrow>
     own (pfn (view s own (D, va))) = RUser"
  by (simp add: vm_struct_def)

lemma vs_page:
  assumes "vm_struct s own fl" "v \<in> set fl"
  shows "valid_page s v" "page_aligned v" "kva (frame v) = v" "own (frame v) = RFree"
  using assms vs_kmem [OF assms(1)] vs_free [OF assms(1)] kva_frame
  by (auto simp: kmem_inv_def valid_page_def)

lemma vm_struct_cong:
  assumes "mem s' = mem s" "freelist s' = freelist s" "kend s' = kend s"
  shows "vm_struct s' own fl = vm_struct s own fl" "view s' own = view s own"
proof -
  have "free_chain s' p fl = free_chain s p fl" for p
    by (rule free_chain_cong) (simp add: ldw_def assms)
  moreover show "view s' own = view s own" by (rule view_cong [OF assms(1)])
  ultimately show "vm_struct s' own fl = vm_struct s own fl"
    by (simp add: vm_struct_def kmem_inv_def valid_page_def assms)
qed

text \<open>Only directories and page tables determine the view.\<close>

definition paging :: "role \<Rightarrow> bool" where
  "paging r \<longleftrightarrow> r = RDir \<or> (\<exists>D i. r = RTab D i)"

lemma paging_simps [simp]:
  "paging RDir" "paging (RTab D i)" "\<not> paging RUser" "\<not> paging RHeld" "\<not> paging RFree" "\<not> paging RNone"
  by (auto simp: paging_def)

lemma view_frame:
  assumes "vm_struct s own fl" "\<And>f. paging (own f) \<Longrightarrow> mem s' f = mem s f"
  shows "view s' own = view s own"
proof -
  have "pte_at s' D va = pte_at s D va" if "own D = RDir" for D va
    using vs_dir [OF assms(1) that PDX_less] assms(2) that by (auto simp: pte_at_def)
  then show ?thesis by (intro view_ext) (simp add: view_simp)
qed

text \<open>
  The frame rule: memory of free, paging and list pages is kept, and the roles change in a
  way that keeps the view.
\<close>

lemma kmem_inv_cong:
  assumes "kmem_inv s fl" "freelist s' = freelist s" "kend s' = kend s"
    and "\<And>v. v \<in> set fl \<Longrightarrow> mem s' (frame v) = mem s (frame v)"
  shows "kmem_inv s' fl"
proof -
  have "free_chain s' p fl = free_chain s p fl" for p
    using assms(4) by (intro free_chain_cong) (simp add: ldw_def frame_def)
  then show ?thesis using assms(1-3) by (simp add: kmem_inv_def valid_page_def)
qed

lemma vm_struct_write:
  assumes "vm_struct s own fl" "own F = RHeld \<or> own F = RUser"
    and "mem s' = (mem s)(F := g)" "freelist s' = freelist s" "kend s' = kend s"
  shows "vm_struct s' own fl" "view s' own = view s own"
proof -
  have k: "mem s' f = mem s f" if "paging (own f) \<or> own f = RFree" for f
    using assms(2,3) that by auto
  show v: "view s' own = view s own" using view_frame [OF assms(1)] k by blast
  have ki: "kmem_inv s' fl"
    using k vs_page(4) [OF assms(1)] by (intro kmem_inv_cong [OF vs_kmem [OF assms(1)] assms(4,5)]) auto
  have m: "mem s' D = mem s D" if "own D = RDir" for D using k that by simp
  show "vm_struct s' own fl"
  proof (rule vm_structI [OF ki vs_free [OF assms(1)]])
    show "valid_page s' (kva f) \<and> frame (kva f) = f" if "own f \<noteq> RNone" for f
      using that vs_valid [OF assms(1)] vs_frame [OF assms(1)] by (simp add: valid_page_def assms(5))
    show "own (pfn (mem s' D i)) = RTab D i" if "own D = RDir" "i < 1024" "has (mem s' D i) PTE_P" for D i
      using that vs_dir [OF assms(1)] m by metis
    show "own D = RDir \<and> i < 1024 \<and> has (mem s' D i) PTE_P \<and> pfn (mem s' D i) = f"
      if "own f = RTab D i" for f D i
      using vs_tab [OF assms(1) that] m by metis
    show "own (pfn (view s' own (D, va))) = RUser" if "va < KERNBASE" "has (view s' own (D, va)) PTE_P" for D va
      using that vs_user [OF assms(1)] unfolding v by blast
  qed
qed

text \<open>A page that a caller holds may become a user page, and back when nobody maps it.\<close>

lemma vm_struct_role:
  assumes "vm_struct s own fl" "own F = RHeld \<or> own F = RUser" "r = RHeld \<or> r = RUser"
    and "r = RHeld \<Longrightarrow> refs (view s own) F = 0"
  shows "vm_struct s (own(F := r)) fl" "view s (own(F := r)) = view s own"
proof -
  show v: "view s (own(F := r)) = view s own" using assms(2,3) by (intro view_ext) (auto simp: view_simp)
  have free: "F \<notin> frame ` set fl" using assms(2) vs_free [OF assms(1), of F] by auto
  show "vm_struct s (own(F := r)) fl"
  proof (rule vm_structI [OF vs_kmem [OF assms(1)]])
    show "(own(F := r)) f = RFree \<longleftrightarrow> f \<in> frame ` set fl" for f
      using vs_free [OF assms(1), of f] free assms(3) by auto
    show "valid_page s (kva f) \<and> frame (kva f) = f" if "(own(F := r)) f \<noteq> RNone" for f
      using that vs_valid [OF assms(1)] vs_frame [OF assms(1)] assms(2) by (auto split: if_splits)
    show "(own(F := r)) (pfn (mem s D i)) = RTab D i"
      if "(own(F := r)) D = RDir" "i < 1024" "has (mem s D i) PTE_P" for D i
      using that vs_dir [OF assms(1), of D i] assms(2,3) by (auto split: if_splits)
    show "(own(F := r)) D = RDir \<and> i < 1024 \<and> has (mem s D i) PTE_P \<and> pfn (mem s D i) = f"
      if "(own(F := r)) f = RTab D i" for f D i
      using that vs_tab [OF assms(1), of f D i] assms(2,3) by (auto split: if_splits)
    show "(own(F := r)) (pfn (view s (own(F := r)) (D, va))) = RUser"
      if "va < KERNBASE" "has (view s (own(F := r)) (D, va)) PTE_P" for D va
      using that vs_user [OF assms(1), of va D] assms(3,4) unfolding v by (auto simp: refs_0)
  qed
qed

lemma vm_struct_dir:
  assumes "vm_struct s own fl" "own F = RHeld" "mem s F = (\<lambda>i. 0)"
  shows "vm_struct s (own(F := RDir)) fl" "view s (own(F := RDir)) = view s own"
proof -
  show v: "view s (own(F := RDir)) = view s own"
    using assms(2,3) by (intro view_ext) (auto simp: view_simp pte_at_def)
  have free: "F \<notin> frame ` set fl" using assms(2) vs_free [OF assms(1), of F] by auto
  show "vm_struct s (own(F := RDir)) fl"
  proof (rule vm_structI [OF vs_kmem [OF assms(1)]])
    show "(own(F := RDir)) f = RFree \<longleftrightarrow> f \<in> frame ` set fl" for f
      using vs_free [OF assms(1), of f] free by auto
    show "valid_page s (kva f) \<and> frame (kva f) = f" if "(own(F := RDir)) f \<noteq> RNone" for f
      using that vs_valid [OF assms(1)] vs_frame [OF assms(1)] assms(2) by (auto split: if_splits)
    show "(own(F := RDir)) (pfn (mem s D i)) = RTab D i"
      if "(own(F := RDir)) D = RDir" "i < 1024" "has (mem s D i) PTE_P" for D i
      using that vs_dir [OF assms(1), of D i] assms(2,3) by (auto split: if_splits)
    show "(own(F := RDir)) D = RDir \<and> i < 1024 \<and> has (mem s D i) PTE_P \<and> pfn (mem s D i) = f"
      if "(own(F := RDir)) f = RTab D i" for f D i
      using that vs_tab [OF assms(1), of f D i] by (auto split: if_splits)
    show "(own(F := RDir)) (pfn (view s (own(F := RDir)) (D, va))) = RUser"
      if "va < KERNBASE" "has (view s (own(F := RDir)) (D, va)) PTE_P" for D va
      using that vs_user [OF assms(1), of va D] assms(2) unfolding v by auto
  qed
qed

section \<open>Writes to page tables\<close>

lemma vm_struct_pte:
  assumes st: "vm_struct s own fl" and T: "own T = RTab D (PDX a)" and a: "page_aligned a"
    and m: "mem s' = (mem s)(T := (mem s T)(PTX a := w))"
    and fl: "freelist s' = freelist s" "kend s' = kend s"
    and w: "a < KERNBASE \<Longrightarrow> has w PTE_P \<Longrightarrow> own (pfn w) = RUser"
  shows "vm_struct s' own fl" "view s' own = (view s own)((D, a) := w)"
proof -
  note D = vs_tab [OF st T]
  have dir: "mem s' D' = mem s D'" if "own D' = RDir" for D' using m T that by auto
  have "pte_at s' D' va = (if D' = D \<and> va = a then w else pte_at s D' va)"
    if "own D' = RDir" "page_aligned va" for D' va
  proof (cases "has (mem s D' (PDX va)) PTE_P")
    case True
    have "pfn (mem s D' (PDX va)) = T \<longleftrightarrow> D' = D \<and> PDX va = PDX a"
      using vs_dir [OF st that(1) PDX_less True] T D(4) by (metis role.inject)
    then show ?thesis using va_index_eqI [OF that(2) a] True dir [OF that(1)] by (auto simp: pte_at_def m)
  next
    case False
    then show ?thesis using D dir [OF that(1)] by (auto simp: pte_at_def)
  qed
  then show v: "view s' own = (view s own)((D, a) := w)"
    using D(1) a by (intro view_ext) (auto simp: view_simp)
  have ki: "kmem_inv s' fl"
    using vs_page(4) [OF st] T m by (intro kmem_inv_cong [OF vs_kmem [OF st] fl]) auto
  show "vm_struct s' own fl"
  proof (rule vm_structI [OF ki vs_free [OF st]])
    show "valid_page s' (kva f) \<and> frame (kva f) = f" if "own f \<noteq> RNone" for f
      using that vs_valid [OF st] vs_frame [OF st] by (simp add: valid_page_def fl)
    show "own (pfn (mem s' D i)) = RTab D i" if "own D = RDir" "i < 1024" "has (mem s' D i) PTE_P" for D i
      using that vs_dir [OF st] dir by metis
    show "own D = RDir \<and> i < 1024 \<and> has (mem s' D i) PTE_P \<and> pfn (mem s' D i) = f"
      if "own f = RTab D i" for f D i
      using vs_tab [OF st that] dir by metis
    show "own (pfn (view s' own (D, va))) = RUser" if "va < KERNBASE" "has (view s' own (D, va)) PTE_P" for D va
      using that vs_user [OF st] w unfolding v by (auto split: if_splits)
  qed
qed

text \<open>A new, empty page table in a free slot of a directory.\<close>

lemma vm_struct_tab:
  assumes st: "vm_struct s own fl" and F: "own F = RHeld" and D: "own D = RDir" "i < 1024"
    and none: "\<not> has (mem s D i) PTE_P" and e: "has e PTE_P" "pfn e = F"
    and m: "mem s' = (mem s)(F := (\<lambda>j. 0), D := (mem s D)(i := e))"
    and fl: "freelist s' = freelist s" "kend s' = kend s"
  shows "vm_struct s' (own(F := RTab D i)) fl" "view s' (own(F := RTab D i)) = view s own"
proof -
  let ?o = "own(F := RTab D i)"
  have FD: "F \<noteq> D" using F D by auto
  have free: "F \<notin> frame ` set fl" using F vs_free [OF st, of F] by auto
  have keep: "mem s' f = mem s f" if "f \<noteq> F" "f \<noteq> D" for f using m that by simp
  have tab: "pfn (mem s D' k) \<noteq> F" "pfn (mem s D' k) \<noteq> D"
    if "own D' = RDir" "k < 1024" "has (mem s D' k) PTE_P" for D' k
    using vs_dir [OF st that] F D by auto
  have "pte_at s' D' va = pte_at s D' va" if "own D' = RDir" for D' va
  proof -
    consider "D' = D" "PDX va = i" | "D' = D" "PDX va \<noteq> i" | "D' \<noteq> D" by blast
    then show ?thesis
    proof cases
      case 1 then show ?thesis using m FD none e by (simp add: pte_at_def)
    next
      case 2 then show ?thesis using m FD tab [OF D(1) PDX_less, of va] by (simp add: pte_at_def)
    next
      case 3
      then have "mem s' D' = mem s D'" using that F by (intro keep) auto
      then show ?thesis using tab [OF that PDX_less, of va] keep by (simp add: pte_at_def)
    qed
  qed
  then show v: "view s' ?o = view s own"
    using F by (intro view_ext) (auto simp: view_simp)
  have ki: "kmem_inv s' fl"
    using vs_page(4) [OF st] F D keep by (intro kmem_inv_cong [OF vs_kmem [OF st] fl]) force
  show "vm_struct s' ?o fl"
  proof (rule vm_structI [OF ki])
    show "?o f = RFree \<longleftrightarrow> f \<in> frame ` set fl" for f using vs_free [OF st, of f] free by auto
    show "valid_page s' (kva f) \<and> frame (kva f) = f" if "?o f \<noteq> RNone" for f
      using that vs_valid [OF st] vs_frame [OF st] F by (auto simp: valid_page_def fl split: if_splits)
    show "?o (pfn (mem s' D' k)) = RTab D' k" if "?o D' = RDir" "k < 1024" "has (mem s' D' k) PTE_P" for D' k
      using that vs_dir [OF st, of D' k] tab [of D' k] m FD e F by (auto split: if_splits)
    show "?o D' = RDir \<and> k < 1024 \<and> has (mem s' D' k) PTE_P \<and> pfn (mem s' D' k) = f"
      if "?o f = RTab D' k" for f D' k
      using that vs_tab [OF st, of f D' k] m FD e F D none by (auto split: if_splits)
    show "?o (pfn (view s' ?o (D', va))) = RUser" if "va < KERNBASE" "has (view s' ?o (D', va)) PTE_P" for D' va
      using that vs_user [OF st, of va D'] F unfolding v by auto
  qed
qed

text \<open>
  A directory about to be freed: it and its tables become held pages. Its mappings leave
  the view.
\<close>

definition retire :: "uint \<Rightarrow> (uint \<Rightarrow> role) \<Rightarrow> (uint \<Rightarrow> role)" where
  "retire D own = (\<lambda>f. if f = D \<or> (\<exists>i. own f = RTab D i) then RHeld else own f)"

lemma vm_struct_retire:
  assumes st: "vm_struct s own fl" and D: "own D = RDir"
  shows "vm_struct s (retire D own) fl"
    "view s (retire D own) = (\<lambda>k. if fst k = D then 0 else view s own k)"
proof -
  show v: "view s (retire D own) = (\<lambda>k. if fst k = D then 0 else view s own k)"
    using D by (intro view_ext) (auto simp: view_simp retire_def)
  show "vm_struct s (retire D own) fl"
  proof (rule vm_structI [OF vs_kmem [OF st]])
    show "retire D own f = RFree \<longleftrightarrow> f \<in> frame ` set fl" for f
      using vs_free [OF st, of f] D by (auto simp: retire_def)
    show "valid_page s (kva f) \<and> frame (kva f) = f" if "retire D own f \<noteq> RNone" for f
      using that vs_valid [OF st, of f] vs_frame [OF st, of f] D by (auto simp: retire_def split: if_splits)
    show "retire D own (pfn (mem s D' k)) = RTab D' k"
      if "retire D own D' = RDir" "k < 1024" "has (mem s D' k) PTE_P" for D' k
      using that vs_dir [OF st, of D' k] D by (auto simp: retire_def split: if_splits)
    show "retire D own D' = RDir \<and> k < 1024 \<and> has (mem s D' k) PTE_P \<and> pfn (mem s D' k) = f"
      if "retire D own f = RTab D' k" for f D' k
      using that vs_tab [OF st, of f D' k] by (auto simp: retire_def split: if_splits)
    show "retire D own (pfn (view s (retire D own) (D', va))) = RUser"
      if "va < KERNBASE" "has (view s (retire D own) (D', va)) PTE_P" for D' va
      using that vs_user [OF st, of va D'] D unfolding v by (auto simp: retire_def split: if_splits)
  qed
qed

section \<open>Allocation and release of pages\<close>

lemma vm_struct_pop:
  assumes st: "vm_struct s own (v # vs)"
    and m: "mem s' = mem s" "freelist s' = ldw s v 0" "kend s' = kend s"
  shows "vm_struct s' (own(frame v := RHeld)) vs" "view s' (own(frame v := RHeld)) = view s own"
    "own (frame v) = RFree"
proof -
  let ?o = "own(frame v := RHeld)"
  show F: "own (frame v) = RFree" using vs_page(4) [OF st, of v] by simp
  show v: "view s' ?o = view s own"
    using F m(1) by (intro view_ext) (auto simp: view_simp pte_at_def)
  have ki: "kmem_inv s' vs"
  proof -
    have "free_chain s' p vs = free_chain s p vs" for p
      by (rule free_chain_cong) (simp add: ldw_def m)
    then show ?thesis using vs_kmem [OF st] m by (simp add: kmem_inv_def valid_page_def)
  qed
  have nv: "frame v \<notin> frame ` set vs"
  proof
    assume "frame v \<in> frame ` set vs"
    then obtain u where u: "u \<in> set vs" "frame v = frame u" by auto
    then have "v = u" using frame_eq_iff vs_page(2) [OF st] by (metis list.set_intros)
    then show False using u(1) vs_kmem [OF st] by (simp add: kmem_inv_def)
  qed
  show "vm_struct s' ?o vs"
  proof (rule vm_structI [OF ki])
    show "?o f = RFree \<longleftrightarrow> f \<in> frame ` set vs" for f using vs_free [OF st, of f] nv by auto
    show "valid_page s' (kva f) \<and> frame (kva f) = f" if "?o f \<noteq> RNone" for f
      using that vs_valid [OF st] vs_frame [OF st] F by (auto simp: valid_page_def m split: if_splits)
    show "?o (pfn (mem s' D k)) = RTab D k" if "?o D = RDir" "k < 1024" "has (mem s' D k) PTE_P" for D k
      using that vs_dir [OF st, of D k] F m by (auto split: if_splits)
    show "?o D = RDir \<and> k < 1024 \<and> has (mem s' D k) PTE_P \<and> pfn (mem s' D k) = f"
      if "?o f = RTab D k" for f D k
      using that vs_tab [OF st, of f D k] F m by (auto split: if_splits)
    show "?o (pfn (view s' ?o (D, va))) = RUser" if "va < KERNBASE" "has (view s' ?o (D, va)) PTE_P" for D va
      using that vs_user [OF st, of va D] F unfolding v by auto
  qed
qed

lemma vm_struct_push:
  assumes st: "vm_struct s own fl" and F: "own F = RHeld"
    and m: "mem s' = (mem s)(F := (\<lambda>i. w)(0 := freelist s))" "freelist s' = kva F" "kend s' = kend s"
  shows "vm_struct s' (own(F := RFree)) (kva F # fl)" "view s' (own(F := RFree)) = view s own"
proof -
  let ?o = "own(F := RFree)"
  have fr: "frame (kva F) = F" "valid_page s (kva F)" using vs_frame [OF st] vs_valid [OF st] F by simp_all
  have keep: "mem s' f = mem s f" if "own f \<noteq> RHeld" for f using m(1) F that by auto
  have "pte_at s' D va = pte_at s D va" if "own D = RDir" for D va
    using vs_dir [OF st that PDX_less, of va] keep that by (simp add: pte_at_def)
  then show v: "view s' ?o = view s own" using F by (intro view_ext) (auto simp: view_simp)
  have nF: "kva F \<notin> set fl" using vs_page(4) [OF st, of "kva F"] fr F by auto
  have ki: "kmem_inv s' (kva F # fl)"
  proof -
    have "free_chain s' p fl = free_chain s p fl" for p
      using vs_page(4) [OF st] keep by (intro free_chain_cong) (simp add: ldw_def frame_def)
    moreover have "ldw s' (kva F) 0 = freelist s" using fr(1) m(1) by (simp add: ldw_def frame_def)
    moreover have "kva F \<noteq> 0" using valid_page_nonzero [OF fr(2)] vs_kmem [OF st] by (simp add: kmem_inv_def)
    ultimately show ?thesis
      using vs_kmem [OF st] fr nF m by (simp add: kmem_inv_def valid_page_def)
  qed
  show "vm_struct s' ?o (kva F # fl)"
  proof (rule vm_structI [OF ki])
    show "?o f = RFree \<longleftrightarrow> f \<in> frame ` set (kva F # fl)" for f using vs_free [OF st, of f] fr by auto
    show "valid_page s' (kva f) \<and> frame (kva f) = f" if "?o f \<noteq> RNone" for f
      using that vs_valid [OF st] vs_frame [OF st] F by (auto simp: valid_page_def m split: if_splits)
    show "?o (pfn (mem s' D k)) = RTab D k" if "?o D = RDir" "k < 1024" "has (mem s' D k) PTE_P" for D k
      using that vs_dir [OF st, of D k] F keep [of D] by (auto split: if_splits)
    show "?o D = RDir \<and> k < 1024 \<and> has (mem s' D k) PTE_P \<and> pfn (mem s' D k) = f"
      if "?o f = RTab D k" for f D k
      using that vs_tab [OF st, of f D k] F keep [of D] by (auto split: if_splits)
    show "?o (pfn (view s' ?o (D, va))) = RUser" if "va < KERNBASE" "has (view s' ?o (D, va)) PTE_P" for D va
      using that vs_user [OF st, of va D] F unfolding v by auto
  qed
qed

section \<open>What an operation may change\<close>

lemma vm_chg_refl [simp]: "vm_chg c s s"
  by (simp add: vm_chg_def)

lemma vm_chgE:
  assumes "vm_chg c s s'"
  obtains k m f n r where "k = cpus s \<or> k = cpus (touch c s)"
    "s' = s\<lparr>cpus := k, mem := m, freelist := f, numFreePages := n, pg_refcount := r\<rparr>"
  using assms unfolding vm_chg_def by blast

lemma vm_chg_trans [trans]:
  assumes "vm_chg c s s'" "vm_chg c s' s''"
  shows "vm_chg c s s''"
  using assms by (elim vm_chgE) (auto simp: vm_chg_def touch_def upd_cpu_def)

lemma vm_chg_sel:
  assumes "vm_chg c s s'"
  shows "kend s' = kend s" "kdata s' = kdata s" "use_lock s' = use_lock s" "kpgdir s' = kpgdir s"
    "cr3 s' = cr3 s" "tlb s' = tlb s" "vmv.more s' = vmv.more s" "locks s' = locks s" "fl_if s' = fl_if s"
    "lapicid s' = lapicid s" "ncpu s' = ncpu s" "ncli (cpus s' d) = ncli (cpus s d)"
    "apicid (cpus s' d) = apicid (cpus s d)" "cproc (cpus s' d) = cproc (cpus s d)"
    "uart_out s' = uart_out s"
    "cons_locking s' = cons_locking s" "cons_ok s' = cons_ok s"
  using assms by (auto elim!: vm_chgE simp: cons_ok_def)

lemma find_cpu_cong: "(\<And>i. apicid (cs' i) = apicid (cs i)) \<Longrightarrow> find_cpu n i a cs' = find_cpu n i a cs"
  by (induction n arbitrary: i) auto

lemma vm_chg_ready:
  assumes "vm_chg c s s'" "vm_ready s c"
  shows "vm_ready s' c"
  using assms find_cpu_cong [of "cpus s'" "cpus s"]
  by (simp add: vm_ready_def cpu_ok_def this_cpu_def lk_free_def vm_chg_sel [OF assms(1)])

lemma vm_ready_alloc: "vm_ready s c \<Longrightarrow> can_alloc s c"
  by (simp add: vm_ready_def can_alloc_def)

lemma vm_chgI [intro]:
  "vm_chg c s (s\<lparr>mem := m\<rparr>)" "vm_chg c s (s\<lparr>numFreePages := n\<rparr>)" "vm_chg c s (s\<lparr>pg_refcount := r\<rparr>)"
  "vm_chg c s (s\<lparr>mem := m, pg_refcount := r\<rparr>)"
  "vm_chg c s (touch_if b c (s\<lparr>freelist := f, numFreePages := n\<rparr>))"
  "vm_chg c s (touch_if b c (s\<lparr>numFreePages := n\<rparr>))"
  "vm_chg c s (touch_if b c (s\<lparr>mem := m, freelist := f, numFreePages := n\<rparr>))"
  by (simp_all add: vm_chg_def touch_if_def touch_def upd_cpu_def)

end
