(* ===== verification/Vm_Example.thy ===== *)
theory Vm_Example
  imports Vm_Inv
begin

text \<open>
  A small concrete machine that satisfies the virtual memory invariant: one address space with
  one writable user page, and one free page. The theorems about vm.c are applied to it.
\<close>

definition ex_mem :: "uint \<Rightarrow> uint \<Rightarrow> uint" where
  "ex_mem = (\<lambda>f i. 0)(0x1000 := (\<lambda>i. 0)(0 := 0x1001007), 0x1001 := (\<lambda>i. 0)(0 := 0x1002007),
     0x1002 := (\<lambda>i. 42))"

definition ex_own :: "uint \<Rightarrow> role" where
  "ex_own = (\<lambda>f. RNone)(0x1000 := RDir, 0x1001 := RTab 0x1000 0, 0x1002 := RUser, 0x1003 := RFree)"

definition ex_refcount :: "uint \<Rightarrow> 8 word" where
  "ex_refcount = (\<lambda>f. 0)(0x1002 := 1)"

text \<open>What the example fixes of a kernel state.\<close>

definition ex_vm :: "'z vmv_scheme \<Rightarrow> bool" where
  "ex_vm s \<longleftrightarrow> mem s = ex_mem \<and> freelist s = 0x81003000 \<and> kend s = 0x80800000 \<and>
     kdata s = 0x80200000 \<and> pg_refcount s = ex_refcount"

lemma ex_view:
  assumes "mem s = ex_mem"
  shows "view s ex_own = (\<lambda>k. 0)((0x1000, 0) := 0x1002007)"
proof (rule view_ext)
  fix D va
  show "view s ex_own (D, va) = ((\<lambda>k. 0)((0x1000, 0) := 0x1002007)) (D, va)"
  proof (cases "D = 0x1000 \<and> page_aligned va")
    case True
    have 0: "PDX 0 = 0" "PTX 0 = 0" by (simp_all add: PDX_def PTX_def)
    have va: "va = 0 \<longleftrightarrow> PDX va = 0 \<and> PTX va = 0"
      using va_index_eqI [of va 0] True 0 by auto
    have pde: "mem s D (PDX va) = (if PDX va = 0 then 0x1001007 else 0)"
      and tab: "mem s 0x1001 (PTX va) = (if PTX va = 0 then 0x1002007 else 0)"
      using True by (simp_all add: assms ex_mem_def)
    have "has 0x1001007 1" "pfn 0x1001007 = 0x1001" by (simp_all add: has_def pfn_def)
    then show ?thesis
      using True pde tab va by (auto simp: view_simp ex_own_def pte_at_def)
  next
    case False
    then show ?thesis by (auto simp: view_simp ex_own_def)
  qed
qed

lemma ex_mapset: "mapset ((\<lambda>k. 0)((0x1000, 0) := 0x1002007)) f = (if f = 0x1002 then {(0x1000, 0)} else {})"
proof -
  have "has 0x1002007 1" "pfn 0x1002007 = 0x1002" by (simp_all add: has_def pfn_def)
  then show ?thesis by (intro set_eqI) (auto simp: in_mapset)
qed

lemma ex_kva: "kva 0x1000 = 0x81000000" "kva 0x1001 = 0x81001000" "kva 0x1002 = 0x81002000"
  "kva 0x1003 = 0x81003000" "frame 0x81000000 = 0x1000" "frame 0x81001000 = 0x1001"
  "frame 0x81002000 = 0x1002" "frame 0x81003000 = 0x1003"
  by (simp_all add: kva_def frame_def P2V_def V2P_def pfn_def)

lemma ex_inv:
  assumes "ex_vm s"
  shows "vm_inv s ex_own [0x81003000]"
proof -
  have m: "mem s = ex_mem" "freelist s = 0x81003000" "kend s = 0x80800000" "pg_refcount s = ex_refcount"
    using assms by (simp_all add: ex_vm_def)
  note v = ex_view [OF m(1)]
  have fl: "has 0x1002007 1" "pfn 0x1002007 = 0x1002" "has 0x1001007 1" "pfn 0x1001007 = 0x1001"
    by (simp_all add: has_def pfn_def)
  have ou: "ex_own 0x1002 = RUser" by (simp add: ex_own_def)
  have "vm_struct s ex_own [0x81003000]"
  proof (rule vm_structI)
    show "kmem_inv s [0x81003000]"
      using ex_kva(8) by (simp add: kmem_inv_def m ldw_def frame_def ex_mem_def valid_page_def page_aligned_unat V2P_def)
    show "ex_own f = RFree \<longleftrightarrow> f \<in> frame ` set [0x81003000]" for f
      by (auto simp: ex_own_def ex_kva)
    show "valid_page s (kva f) \<and> frame (kva f) = f" if "ex_own f \<noteq> RNone" for f
      using that by (auto simp: ex_own_def ex_kva valid_page_def m page_aligned_unat V2P_def split: if_splits)
    show "ex_own (pfn (mem s D i)) = RTab D i" if "ex_own D = RDir" "i < 1024" "has (mem s D i) PTE_P" for D i
      using that by (auto simp: ex_own_def m ex_mem_def fl split: if_splits)
    show "ex_own D = RDir \<and> i < 1024 \<and> has (mem s D i) PTE_P \<and> pfn (mem s D i) = f"
      if "ex_own f = RTab D i" for f D i
      using that by (auto simp: ex_own_def m ex_mem_def fl split: if_splits)
    show "ex_own (pfn (view s ex_own (D, va))) = RUser" if "va < KERNBASE" "has (view s ex_own (D, va)) PTE_P" for D va
      using that ou unfolding v by (auto simp: fl split: if_splits)
  qed
  moreover have "refs_ok (view s ex_own) (pg_refcount s) ex_own"
    unfolding v m by (rule refs_okI) (auto simp: ex_own_def ex_refcount_def refs_def ex_mapset fl split: if_splits)
  ultimately show ?thesis by (simp add: vm_inv_def)
qed

text \<open>The rest of the machine: one CPU with interrupts off and all locks free.\<close>

definition ex_cpus :: "nat \<Rightarrow> percpu" where
  "ex_cpus = (\<lambda>i. \<lparr>apicid = of_nat i, ncli = 0, intena = False, cproc = None, started = True\<rparr>)"

definition ex_locks :: "lockid \<Rightarrow> spinlock" where
  "ex_locks = (\<lambda>l. \<lparr>locked = 0, lname = [], lcpu = None\<rparr>)"

definition ex_state :: vmv where
  "ex_state = \<lparr>lapicid = 0, fl_if = False, cpus = ex_cpus, ncpu = 1, locks = ex_locks,
     uart = True, uart_out = [], crt = (\<lambda>i. 0), crt_pos = 0, cons_locking = True, panicked = False,
     mem = ex_mem, kend = 0x80800000, kdata = 0x80200000, freelist = 0x81003000, use_lock = True,
     numFreePages = 1, pg_refcount = ex_refcount, kpgdir = 0, cr3 = 0, tlb = Map.empty\<rparr>"

lemma ex_state_vm: "ex_vm ex_state" "vm_ready ex_state 0"
  by (simp_all add: ex_state_def ex_vm_def vm_ready_def lock_defs ex_cpus_def ex_locks_def)

end
