(* ===== verification/Base_Props.thy ===== *)
theory Base_Props
  imports Vm_Example
begin

text \<open>
  Properties of the lower layers: spin locks, console output and the page allocator.
\<close>

section \<open>Locks\<close>

text \<open>
  C33. Taking a free spin lock and releasing it returns, and gives back the same state: every lock,
  the interrupt flag and the nesting depth; only \<open>intena\<close> of the executing CPU is refreshed.
\<close>

theorem acquire_release:
  assumes "cpu_ok s c" "lk_free s l"
  shows "bindE (acquire l s) (release l) = Inr (touch c s)"
proof -
  let ?a = "acquired c l s"
  have "release l ?a = Inr (?a\<lparr>fl_if := fl_if s, cpus := cpus (touch c s), locks := locks s\<rparr>)"
    by (rule release_restores [OF assms]) simp
  also have "\<dots> = Inr (touch c s)"
    by (cases s) (simp add: lock_defs)
  finally show ?thesis by (simp add: acquire_ok [OF assms])
qed

theorem acquire_release_witness:
  "bindE (acquire Lk_kmem ex_state) (release Lk_kmem) = Inr (touch 0 ex_state)"
  using acquire_release [of ex_state 0 Lk_kmem] ex_state_vm(2) by (simp add: vm_ready_def)

text \<open>
  Misuse of a lock is caught: acquiring a lock this CPU already holds and releasing a lock it
  does not hold both panic; acquiring a lock held elsewhere spins.
\<close>

theorem lock_misuse:
  assumes "cpu_ok s c"
  shows "(lk_held s c l \<longrightarrow> acquire l s = Inl (Panic ''acquire'')) \<and>
    (\<not> (locked (locks s l) \<noteq> 0 \<and> lcpu (locks s l) = Some c) \<longrightarrow> release l s = Inl (Panic ''release'')) \<and>
    (locked (locks s l) \<noteq> 0 \<and> lcpu (locks s l) \<noteq> Some c \<longrightarrow> acquire l s = Inl Diverge)"
  using acquire_again [OF assms] release_unheld [OF assms] acquire_busy [OF assms] by blast

theorem lock_misuse_witness: "release Lk_kmem ex_state = Inl (Panic ''release'')"
  using lock_misuse [of ex_state 0 Lk_kmem] ex_state_vm(2)
  by (simp add: vm_ready_def) (simp add: lk_free_def)

section \<open>Console output\<close>




section \<open>Page allocator\<close>

text \<open>
  C30. \<open>kalloc\<close> returns the first page of the free list and removes it, or 0 when the list is empty;
  the page is never 0, and the remaining list is again a duplicate-free list of valid pages.
\<close>

theorem kalloc_correct:
  assumes "kmem_inv s fl" "can_alloc s c"
  shows "\<exists>s'. kalloc s = Inr (case fl of [] \<Rightarrow> 0 | v # vs \<Rightarrow> v, s') \<and> kmem_inv s' (tl fl) \<and> can_alloc s' c \<and>
    0 \<notin> set fl"
  using kp.alloc_nil [of s c] kp.alloc_cons [of s _ _ c] kp.inv_nonzero [OF assms(1)] assms
  by (cases fl) (auto, metis)

theorem kalloc_correct_witness: "\<exists>s'. kalloc ex_state = Inr (0x81003000, s') \<and> kmem_inv s' []"
proof -
  have "kmem_inv ex_state [0x81003000]"
    using ex_inv [OF ex_state_vm(1)] vs_kmem by (auto simp: vm_inv_def)
  from kalloc_correct [OF this vm_ready_alloc [OF ex_state_vm(2)]] show ?thesis by auto
qed

text \<open>
  C31. Freeing a valid page that is not free and allocating again gives the same page and restores
  the free list.
\<close>

theorem kfree_kalloc:
  assumes "kmem_inv s fl" "can_alloc s c" "valid_page s v" "v \<notin> set fl"
  shows "\<exists>s1 s2. kfree v s = Inr s1 \<and> kmem_inv s1 (v # fl) \<and> kalloc s1 = Inr (v, s2) \<and> kmem_inv s2 fl"
  using kp.free_push [OF assms] kp.alloc_cons by metis

theorem kfree_kalloc_witness:
  "\<exists>s1 s2. kfree 0x81002000 ex_state = Inr s1 \<and> kmem_inv s1 [0x81002000, 0x81003000] \<and>
     kalloc s1 = Inr (0x81002000, s2) \<and> kmem_inv s2 [0x81003000]"
proof -
  have "kmem_inv ex_state [0x81003000]"
    using ex_inv [OF ex_state_vm(1)] vs_kmem by (auto simp: vm_inv_def)
  moreover have "valid_page ex_state 0x81002000"
    by (simp add: valid_page_def ex_state_def page_aligned_unat V2P_def)
  ultimately show ?thesis using kfree_kalloc vm_ready_alloc [OF ex_state_vm(2)] by fastforce
qed

text \<open>
  C32. \<open>kinit1\<close> puts every whole page of its range on the free list, once, but leaves the counter
  of free pages at 0: the pages of the first range are not counted.
\<close>

theorem kinit1_count:
  assumes "KERNLINK \<le> kend s" "kend s \<le> PGROUNDUP vstart" "PGROUNDUP vstart \<le> P2V PHYSTOP" "vend \<le> P2V PHYSTOP"
    and "freelist s = 0" "n = (unat vend - unat (PGROUNDUP vstart)) div 4096"
  shows "\<exists>s'. kinit1 vstart vend s = Inr s' \<and> kmem_inv s' (rev (range_pages n (PGROUNDUP vstart))) \<and> numFreePages s' = 0"
proof -
  let ?s = "(initlock Lk_kmem ''kmem'' s)\<lparr>use_lock := False\<rparr>"
  have s: "kend ?s = kend s" "freelist ?s = 0" using assms(5) by (simp_all add: initlock_def upd_lock_def)
  have ok: "kmem_inv ?s []" "can_alloc ?s 0"
    using assms(1) s by (simp_all add: kmem_inv_def can_alloc_def)
  obtain s' where "freerange vstart vend ?s = Inr s'" "kmem_inv s' (rev (range_pages n (PGROUNDUP vstart)) @ [])"
    using freerange_ok [of ?s vstart vend "[]" 0 n] assms(2-4,6) ok s by auto
  moreover have "kmem_inv (t\<lparr>numFreePages := 0\<rparr>) fl = kmem_inv t fl" for t :: "'a kmemv_scheme" and fl
  proof -
    have "free_chain (t\<lparr>numFreePages := 0\<rparr>) p fl = free_chain t p fl" for p
      by (rule free_chain_cong) (simp add: ldw_def)
    then show ?thesis by (simp add: kmem_inv_def valid_page_def)
  qed
  ultimately show ?thesis by (simp add: kinit1_def)
qed

theorem kinit1_count_witness:
  "\<exists>s'. kinit1 0x80800000 0x80802000 (ex_state\<lparr>freelist := 0\<rparr>) = Inr s' \<and>
     kmem_inv s' [0x80801000, 0x80800000] \<and> numFreePages s' = 0"
proof -
  have r: "range_pages 2 p = [p, p + 4096]" for p
    by (simp only: numeral_2_eq_2 range_pages.simps)
  have p: "PGROUNDUP 0x80800000 = 0x80800000" by (simp add: PGROUNDUP_def)
  have e: "kend (ex_state\<lparr>freelist := 0\<rparr>) = 0x80800000" by (simp add: ex_state_def)
  have n: "(2 :: nat) = (unat (0x80802000 :: uint) - unat (PGROUNDUP 0x80800000)) div 4096" unfolding p by simp
  have h: "KERNLINK \<le> kend (ex_state\<lparr>freelist := 0\<rparr>)" "kend (ex_state\<lparr>freelist := 0\<rparr>) \<le> PGROUNDUP 0x80800000"
    "PGROUNDUP 0x80800000 \<le> P2V PHYSTOP" "0x80802000 \<le> P2V PHYSTOP" "freelist (ex_state\<lparr>freelist := 0\<rparr>) = 0"
    unfolding e p by (simp_all add: P2V_def)
  from kinit1_count [OF h n] show ?thesis unfolding p r by simp
qed

end
