(* ===== verification/Vm_Map.thy ===== *)
theory Vm_Map
  imports Vm_Inv
begin

text \<open>
  What page table walks, \<open>mappages\<close>, \<open>kalloc\<close>, \<open>kfree\<close> and the counter updates of vm.c do to
  the view, the roles and the reference counts.
\<close>

section \<open>Pages in terms of roles\<close>

lemma vs_bounds:
  assumes "vm_struct s own fl" "own f \<noteq> RNone"
  shows "f < NREFCOUNT" "push_bit 12 f \<noteq> (0 :: uint)" "kva f \<noteq> 0" "pfn (push_bit 12 f) = f"
proof -
  have v: "valid_page s (kva f)" and f: "frame (kva f) = f" using vs_valid vs_frame assms by blast+
  have k: "KERNLINK \<le> kend s" using vs_kmem [OF assms(1)] by (simp add: kmem_inv_def)
  have V: "V2P (kva f) = push_bit 12 f" by (simp add: kva_def)
  show pf: "pfn (push_bit 12 f) = f" using f by (simp add: frame_def V)
  have "unat f = unat (push_bit 12 f) div 4096" using unat_pfn [of "push_bit 12 f"] pf by simp
  moreover have "unat (push_bit 12 f) < 0xE000000"
    using v V by (simp add: valid_page_def uint_less_iff_unat)
  ultimately show "f < NREFCOUNT" by (simp add: uint_less_iff_unat less_mult_imp_div_less)
  show "kva f \<noteq> 0" using valid_page_nonzero [OF v k] .
  show "push_bit 12 f \<noteq> (0 :: uint)"
  proof
    assume "push_bit 12 f = (0 :: uint)"
    then have "kva f = KERNBASE" by (simp add: kva_def P2V_def)
    moreover have "KERNLINK \<le> kva f" using v k by (auto simp: valid_page_def)
    ultimately show False by simp
  qed
qed

lemma PTE_ADDR_push: "PTE_ADDR p = push_bit 12 (pfn p)"
  by (simp add: PTE_ADDR_shift pfn_def)

lemma kva_pfn: "P2V (PTE_ADDR e) = kva (pfn e)"
  by (simp add: kva_def PTE_ADDR_push)

lemma ldw_kva: "frame (kva f) = f \<Longrightarrow> ldw s (kva f) i = mem s f i"
  by (simp add: ldw_def frame_def)

lemma stw_kva: "frame (kva f) = f \<Longrightarrow> stw (kva f) i w s = s\<lparr>mem := (mem s)(f := (mem s f)(i := w))\<rparr>"
  by (simp add: stw_def frame_def)

section \<open>kalloc and kfree\<close>

lemma kalloc_vm:
  assumes "vm_struct s own fl" "vm_ready s c"
  obtains (none) s' where "fl = []" "kalloc s = Inr (0, s')" "vm_chg c s s'" "mem s' = mem s"
      "pg_refcount s' = pg_refcount s" "vm_struct s' own []"
  | (some) v vs s' where "fl = v # vs" "v \<noteq> 0" "kalloc s = Inr (v, s')" "vm_chg c s s'" "mem s' = mem s"
      "pg_refcount s' = pg_refcount s" "vm_struct s' (own(frame v := RHeld)) vs"
      "view s' (own(frame v := RHeld)) = view s own" "own (frame v) = RFree" "kva (frame v) = v"
proof (cases fl)
  case Nil
  have k: "kmem_inv s []" using vs_kmem [OF assms(1)] Nil by simp
  let ?s = "touch_if (use_lock s) c (s\<lparr>numFreePages := numFreePages s - 1\<rparr>)"
  have e: "mem ?s = mem s" "freelist ?s = freelist s" "kend ?s = kend s"
    by (simp_all add: touch_if_def)
  show ?thesis
  proof (rule none [of ?s])
    show "kalloc s = Inr (0, ?s)" using kalloc_nil [OF k vm_ready_alloc [OF assms(2)]] .
    show "vm_struct ?s own []" using vm_struct_cong(1) [OF e] assms(1) Nil by simp
    show "pg_refcount ?s = pg_refcount s" by (simp add: touch_if_def touch_def upd_cpu_def)
  qed (use Nil e in auto)
next
  case (Cons v vs)
  have k: "kmem_inv s (v # vs)" using vs_kmem [OF assms(1)] Cons by simp
  have st: "vm_struct s own (v # vs)" using assms(1) Cons by simp
  let ?s = "touch_if (use_lock s) c (s\<lparr>freelist := ldw s v 0, numFreePages := numFreePages s - 1\<rparr>)"
  have e: "mem ?s = mem s" "freelist ?s = ldw s v 0" "kend ?s = kend s"
    by (simp_all add: touch_if_def)
  show ?thesis
  proof (rule some [OF Cons])
    show "v \<noteq> 0" using k valid_page_nonzero by (auto simp: kmem_inv_def)
    show "kalloc s = Inr (v, ?s)" using kalloc_cons [OF k vm_ready_alloc [OF assms(2)]] .
    show "pg_refcount ?s = pg_refcount s" by (simp add: touch_if_def touch_def upd_cpu_def)
    show "kva (frame v) = v" using vs_page(3) [OF st] by simp
  qed (use e vm_struct_pop [OF st e] in auto)
qed

lemma kfree_vm:
  assumes "vm_struct s own fl" "can_alloc s c" "own F = RHeld"
  obtains s' where "kfree (kva F) s = Inr s'" "vm_chg c s s'" "\<forall>f. f \<noteq> F \<longrightarrow> mem s' f = mem s f"
    "pg_refcount s' = pg_refcount s" "vm_struct s' (own(F := RFree)) (kva F # fl)"
    "view s' (own(F := RFree)) = view s own"
proof -
  have v: "valid_page s (kva F)" "pfn (V2P (kva F)) = F"
    using vs_valid [OF assms(1), of F] vs_frame [OF assms(1), of F] assms(3) by (simp_all add: frame_def)
  let ?s = "touch_if (use_lock s) c (s\<lparr>mem := (mem s)(F := (\<lambda>i. 0x01010101)(0 := freelist s)),
       freelist := kva F, numFreePages := numFreePages s + 1\<rparr>)"
  have e: "mem ?s = (mem s)(F := (\<lambda>i. 0x01010101)(0 := freelist s))" "freelist ?s = kva F" "kend ?s = kend s"
    by (simp_all add: touch_if_def)
  show ?thesis
  proof (rule that)
    show "kfree (kva F) s = Inr ?s" using kfree_eq [OF assms(2) v(1)] v(2) by simp
    show "pg_refcount ?s = pg_refcount s" by (simp add: touch_if_def touch_def upd_cpu_def)
  qed (use e vm_struct_push [OF assms(1,3) e] in auto)
qed

section \<open>Reference counts\<close>

lemma locked_add_refcount_vm:
  assumes "vm_ready s c" "f < NREFCOUNT"
  shows "locked_add_refcount f d s =
    Inr (touch c (s\<lparr>pg_refcount := (pg_refcount s)(f := pg_refcount s f + d)\<rparr>))"
proof -
  have l: "cpu_ok s c" "lk_free s Lk_pgref" using assms(1) by (simp_all add: vm_ready_def)
  let ?a = "acquired c Lk_pgref s"
  let ?t = "?a\<lparr>pg_refcount := (pg_refcount ?a)(f := pg_refcount ?a f + d)\<rparr>"
  have "same_cpuv ?a ?t" by (simp add: same_cpuv_def)
  note r = release_restores [OF l this]
  show ?thesis
    using assms(2) acquire_ok [OF l] r
    by (cases s) (simp add: locked_add_refcount_def add_refcount_def rd_refcount_def lock_defs)
qed

section \<open>Walks\<close>

definition grow :: "uint \<Rightarrow> (uint \<Rightarrow> role) \<Rightarrow> (uint \<Rightarrow> role) \<Rightarrow> bool" where
  "grow D own own' \<longleftrightarrow> (\<forall>f. own' f = own f \<or> own f = RFree \<and> (\<exists>i. own' f = RTab D i))"

text \<open>
  \<open>vm_ext\<close>: what a walk or a mapping in directory \<open>D\<close> may do besides its effect on the view:
  free pages become page tables of \<open>D\<close>; user pages and held pages keep their contents.
\<close>

definition vm_ext ::
  "nat \<Rightarrow> uint \<Rightarrow> 'z vmv_scheme \<Rightarrow> (uint \<Rightarrow> role) \<Rightarrow> 'z vmv_scheme \<Rightarrow> (uint \<Rightarrow> role) \<Rightarrow> uint list \<Rightarrow> bool"
where
  "vm_ext c D s own s' own' fl' \<longleftrightarrow> vm_chg c s s' \<and> vm_struct s' own' fl' \<and> grow D own own' \<and>
     pg_refcount s' = pg_refcount s \<and>
     (\<forall>f. own f = RUser \<or> own f = RHeld \<longrightarrow> mem s' f = mem s f)"

lemma grow_refl [simp]: "grow D own own"
  by (simp add: grow_def)

lemma grow_trans: "grow D own own' \<Longrightarrow> grow D own' own'' \<Longrightarrow> grow D own own''"
  unfolding grow_def by metis

lemma grow_keep: "grow D own own' \<Longrightarrow> own f \<noteq> RFree \<Longrightarrow> own' f = own f"
  by (auto simp: grow_def)

lemma vm_ext_refl [simp]: "vm_struct s own fl \<Longrightarrow> vm_ext c D s own s own fl"
  by (simp add: vm_ext_def)

lemma vm_ext_trans:
  assumes "vm_ext c D s own s1 own1 fl1" "vm_ext c D s1 own1 s2 own2 fl2"
  shows "vm_ext c D s own s2 own2 fl2"
  using assms grow_trans vm_chg_trans grow_keep [of D own own1]
  unfolding vm_ext_def by (metis role.distinct(11) role.distinct(17))

lemma vm_extD:
  assumes "vm_ext c D s own s' own' fl'"
  shows "vm_chg c s s'" "vm_struct s' own' fl'" "grow D own own'" "pg_refcount s' = pg_refcount s"
    "own f = RUser \<or> own f = RHeld \<Longrightarrow> mem s' f = mem s f"
  using assms unfolding vm_ext_def by blast+

lemma walk_noalloc:
  assumes "frame (kva D) = D"
  shows "walkpgdir (kva D) va False s =
    Inr (if has (mem s D (PDX va)) PTE_P then Some (kva (pfn (mem s D (PDX va))), PTX va) else None, s)"
  using assms by (simp add: walkpgdir_def ldw_kva kva_pfn)

text \<open>An allocating walk finds or makes the page table of \<open>va\<close>, or runs out of pages.\<close>

lemma walk_alloc:
  assumes st: "vm_struct s own fl" and rd: "vm_ready s c" and D: "own D = RDir"
  obtains (oom) s' where "walkpgdir (kva D) va True s = Inr (None, s')" "vm_ext c D s own s' own []"
      "fl = []" "view s' own = view s own"
  | (found) s' own' fl' F where "walkpgdir (kva D) va True s = Inr (Some (kva F, PTX va), s')"
      "vm_ext c D s own s' own' fl'" "own' F = RTab D (PDX va)" "view s' own' = view s own"
proof -
  have fD: "frame (kva D) = D" using vs_frame [OF st] D by simp
  show ?thesis
  proof (cases "has (mem s D (PDX va)) PTE_P")
    case True
    show ?thesis
      by (rule found [of "pfn (mem s D (PDX va))" s own fl])
        (use True fD st vs_dir [OF st D PDX_less True] in
          \<open>simp_all add: walkpgdir_def ldw_kva kva_pfn\<close>)
  next
    case False
    from st rd show ?thesis
    proof (cases rule: kalloc_vm)
      case (none s')
      show ?thesis
        by (rule oom [of s']) (use none False fD view_cong [OF none(4), of own] in
            \<open>simp_all add: walkpgdir_def ldw_kva vm_ext_def\<close>)
    next
      case (some v vs s1)
      let ?F = "frame v"
      let ?e = "V2P v OR PTE_P OR PTE_W OR PTE_U"
      let ?s = "s1\<lparr>mem := (mem s1)(?F := (\<lambda>j. 0), D := (mem s1 D)(PDX va := ?e))\<rparr>"
      have FD: "?F \<noteq> D" using some(9) D by auto
      let ?o = "own(?F := RTab D (PDX va))"
      have e: "has ?e PTE_P" "pfn ?e = ?F" by (simp_all add: frame_def)
      have D1: "(own(?F := RHeld)) D = RDir" and F1: "(own(?F := RHeld)) ?F = RHeld" using FD D by simp_all
      have none: "\<not> has (mem s1 D (PDX va)) PTE_P" using False some(5) by simp
      have upd: "mem ?s = (mem s1)(?F := (\<lambda>j. 0), D := (mem s1 D)(PDX va := ?e))"
        "freelist ?s = freelist s1" "kend ?s = kend s1" by simp_all
      note tab = vm_struct_tab [OF some(7) F1 D1 PDX_less none e upd, unfolded fun_upd_upd]
      show ?thesis
      proof (rule found [of ?F ?s ?o vs])
        show "walkpgdir (kva D) va True s = Inr (Some (kva ?F, PTX va), ?s)"
          using False fD some(2,3,10) FD
          by (cases s1) (simp add: walkpgdir_def ldw_kva stw_kva memset_page_0 some(5) frame_def)
        have "vm_chg c s ?s" using vm_chg_trans [OF some(4)] by blast
        moreover have "grow D own ?o" using some(9) by (auto simp: grow_def)
        ultimately show "vm_ext c D s own ?s ?o vs"
          using tab some(5,6,9) D by (auto simp: vm_ext_def)
      qed (use tab some(8) in \<open>auto simp: fun_upd_def\<close>)
    qed
  qed
qed

section \<open>Reading and writing entries\<close>

lemma ld_pte_vm:
  assumes "vm_struct s own fl" "own F = RTab D (PDX a)" "page_aligned a"
  shows "ld_pte s (kva F, PTX a) = view s own (D, a)"
  using vs_tab [OF assms(1,2)] vs_frame [OF assms(1), of F] assms(2,3)
  by (simp add: ld_pte_def ldw_kva view_simp pte_at_def)

lemma st_pte_vm:
  assumes "vm_struct s own fl" "own F = RTab D (PDX a)" "page_aligned a"
    and "a < KERNBASE \<Longrightarrow> has w PTE_P \<Longrightarrow> own (pfn w) = RUser"
  shows "vm_ext c D s own (st_pte (kva F, PTX a) w s) own fl"
    "view (st_pte (kva F, PTX a) w s) own = (view s own)((D, a) := w)"
proof -
  let ?s = "s\<lparr>mem := (mem s)(F := (mem s F)(PTX a := w))\<rparr>"
  have s: "st_pte (kva F, PTX a) w s = ?s"
    using vs_frame [OF assms(1), of F] assms(2) by (simp add: st_pte_def stw_kva)
  note p = vm_struct_pte [OF assms(1-3), of ?s w, simplified, OF assms(4)]
  show "vm_ext c D s own (st_pte (kva F, PTX a) w s) own fl"
    unfolding s using p(1) assms(2) by (auto simp: vm_ext_def)
  show "view (st_pte (kva F, PTX a) w s) own = (view s own)((D, a) := w)"
    unfolding s using p(2) by simp
qed

lemma walk_find:
  assumes "vm_struct s own fl" "own D = RDir"
  obtains (absent) "walkpgdir (kva D) a False s = Inr (None, s)" "\<not> has (mem s D (PDX a)) PTE_P"
      "\<And>va. PDX va = PDX a \<Longrightarrow> view s own (D, va) = 0"
  | (found) F where "walkpgdir (kva D) a False s = Inr (Some (kva F, PTX a), s)"
      "own F = RTab D (PDX a)"
  using walk_noalloc [OF vs_frame [OF assms(1)], of D a s] vs_dir [OF assms(1,2) PDX_less, of a] assms(2)
  by (cases "has (mem s D (PDX a)) PTE_P") (auto simp: view_simp pte_at_def)

lemma walk_present:
  assumes "vm_struct s own fl" "own D = RDir" "has (view s own (D, a)) PTE_P"
  obtains F where "walkpgdir (kva D) a False s = Inr (Some (kva F, PTX a), s)" "own F = RTab D (PDX a)"
  using assms(1,2)
proof (cases rule: walk_find [where a = a])
  case absent
  then show ?thesis using assms(3) absent(3) [of a] by simp
next
  case (found F)
  then show ?thesis using that by blast
qed

lemma map_one:
  assumes st: "vm_struct s own fl" "vm_ready s c" "own D = RDir" and a: "page_aligned a"
    and new: "\<not> has (view s own (D, a)) PTE_P"
    and w: "a < KERNBASE \<longrightarrow> own (pfn w) = RUser"
  obtains (oom) s' where "walkpgdir (kva D) a True s = Inr (None, s')" "vm_ext c D s own s' own []"
      "view s' own = view s own"
  | (found) s1 p own' fl' where "walkpgdir (kva D) a True s = Inr (Some p, s1)"
      "\<not> has (ld_pte s1 p) PTE_P" "vm_ext c D s own (st_pte p w s1) own' fl'"
      "view (st_pte p w s1) own' = (view s own)((D, a) := w)"
  using st
proof (cases rule: walk_alloc [where va = a])
  case oom
  then show ?thesis using that(1) by blast
next
  case (found s1 own' fl' F)
  note e = vm_extD [OF found(2)]
  have u: "own' (pfn w) = RUser" if "a < KERNBASE" using grow_keep [OF e(3)] w that by simp
  note sp = st_pte_vm [OF e(2) found(3) a u]
  show ?thesis
  proof (rule that(2) [OF found(1)])
    show "\<not> has (ld_pte s1 (kva F, PTX a)) PTE_P" using ld_pte_vm [OF e(2) found(3) a] new found(4) by simp
  qed (use sp vm_ext_trans [OF found(2)] found(4) in auto)
qed

section \<open>mappages\<close>

fun map_view :: "nat \<Rightarrow> uint \<Rightarrow> uint \<Rightarrow> uint \<Rightarrow> uint \<Rightarrow> view \<Rightarrow> view" where
  "map_view 0 D a pa perm V = V"
| "map_view (Suc n) D a pa perm V =
     map_view n D (a + PGSIZE) (pa + PGSIZE) perm (V((D, a) := pa OR perm OR PTE_P))"

lemma page_step_neq:
  assumes "k < n" "n < 0x100000"
  shows "a + of_nat n * 4096 \<noteq> a + of_nat k * (4096 :: uint)"
proof
  assume "a + of_nat n * 4096 = a + of_nat k * (4096 :: uint)"
  then have "unat (of_nat n * 4096 :: uint) = unat (of_nat k * 4096 :: uint)" by simp
  then show False using assms by (simp add: unat_word_ariths unat_of_nat)
qed

lemma map_view_other:
  "(\<And>k. k < n \<Longrightarrow> va \<noteq> a + of_nat k * 4096) \<Longrightarrow> map_view n D a pa perm V (D, va) = V (D, va)"
proof (induction n arbitrary: a pa V)
  case (Suc n)
  have "va \<noteq> a + 4096 + of_nat k * 4096" if "k < n" for k
    using Suc.prems [of "Suc k"] that by (simp add: algebra_simps)
  moreover have "va \<noteq> a" using Suc.prems [of 0] by simp
  ultimately show ?case using Suc.IH by simp
qed simp

lemma map_view_dir: "D' \<noteq> D \<Longrightarrow> map_view n D a pa perm V (D', va) = V (D', va)"
  by (induction n arbitrary: a pa V) auto

lemma map_view_in:
  assumes "k < n" "n \<le> 0x100000"
  shows "map_view n D a pa perm V (D, a + of_nat k * 4096) = (pa + of_nat k * 4096) OR perm OR PTE_P"
  using assms
proof (induction n arbitrary: a pa V k)
  case (Suc n)
  show ?case
  proof (cases k)
    case 0
    have "a \<noteq> a + 4096 + of_nat j * 4096" if "j < n" for j
      using page_step_neq [of 0 "Suc j" a] that Suc.prems(2) by (simp add: algebra_simps)
    then show ?thesis using 0 map_view_other [of n a] by simp
  next
    case (Suc j)
    then show ?thesis using Suc.IH [of j "a + 4096"] Suc.prems by (simp add: algebra_simps)
  qed
qed simp

text \<open>
  \<open>mappages\<close> maps the whole range, or stops at a page whose table cannot be allocated, with
  the pages before it mapped. It never panics when no page of the range is mapped.
\<close>

lemma mappages_loop_vm:
  assumes "vm_struct s own fl" "vm_ready s c" "own D = RDir" "page_aligned a" "n < 0x100000"
    and "\<And>k. k \<le> n \<Longrightarrow> \<not> has (view s own (D, a + of_nat k * 4096)) PTE_P"
    and "\<And>k. k \<le> n \<Longrightarrow> a + of_nat k * 4096 < KERNBASE \<Longrightarrow>
           own (pfn ((pa + of_nat k * 4096) OR perm OR PTE_P)) = RUser"
  shows "\<exists>ok s' own' fl' m.
    mappages_loop (Suc n) (kva D) a (a + of_nat n * 4096) pa perm s = Inr (ok, s') \<and>
    vm_ext c D s own s' own' fl' \<and> view s' own' = map_view m D a pa perm (view s own) \<and>
    m \<le> Suc n \<and> (ok \<longrightarrow> m = Suc n)"
  using assms
proof (induction n arbitrary: s own fl a pa)
  case (0 s own fl a pa)
  have w: "a < KERNBASE \<longrightarrow> own (pfn (pa OR perm OR PTE_P)) = RUser" using 0(7) [of 0] by simp
  have new: "\<not> has (view s own (D, a)) PTE_P" using 0(6) [of 0] by simp
  from 0(1-4) new w show ?case
  proof (cases rule: map_one)
    case (oom s')
    then have "mappages_loop (Suc 0) (kva D) a (a + of_nat 0 * 4096) pa perm s = Inr (False, s')" by simp
    with oom show ?thesis by (metis map_view.simps(1) le0)
  next
    case (found s1 p own' fl')
    then have "mappages_loop (Suc 0) (kva D) a (a + of_nat 0 * 4096) pa perm s =
      Inr (True, st_pte p (pa OR perm OR PTE_P) s1)" by (simp add: Let_def)
    with found show ?thesis by (metis map_view.simps order_refl)
  qed
next
  case (Suc n s own fl a pa)
  have w: "a < KERNBASE \<longrightarrow> own (pfn (pa OR perm OR PTE_P)) = RUser" using Suc.prems(7) [of 0] by simp
  have new: "\<not> has (view s own (D, a)) PTE_P" using Suc.prems(6) [of 0] by simp
  have neq: "a \<noteq> a + of_nat (Suc k) * 4096" if "k \<le> n" for k
    using page_step_neq [of 0 "Suc k" a] that Suc.prems(5) by simp
  from Suc.prems(1-4) new w show ?case
  proof (cases rule: map_one)
    case (oom s')
    then have "mappages_loop (Suc (Suc n)) (kva D) a (a + of_nat (Suc n) * 4096) pa perm s = Inr (False, s')"
      by simp
    with oom show ?thesis by (metis map_view.simps(1) le0)
  next
    case (found s1 p own1 fl1)
    let ?s = "st_pte p (pa OR perm OR PTE_P) s1"
    note e = vm_extD [OF found(3)]
    have step: "a + 4096 + of_nat k * 4096 = a + of_nat (Suc k) * 4096" for k
      by (simp add: algebra_simps)
    have "\<exists>ok s' own' fl' m.
      mappages_loop (Suc n) (kva D) (a + 4096) (a + 4096 + of_nat n * 4096) (pa + 4096) perm ?s = Inr (ok, s') \<and>
      vm_ext c D ?s own1 s' own' fl' \<and> view s' own' = map_view m D (a + 4096) (pa + 4096) perm (view ?s own1) \<and>
      m \<le> Suc n \<and> (ok \<longrightarrow> m = Suc n)"
    proof (rule Suc.IH)
      show "vm_ready ?s c" using vm_chg_ready [OF e(1)] Suc.prems(2) by simp
      show "own1 D = RDir" using grow_keep [OF e(3)] Suc.prems(3) by simp
      show "\<not> has (view ?s own1 (D, a + 4096 + of_nat k * 4096)) PTE_P" if "k \<le> n" for k
        using Suc.prems(6) [of "Suc k"] that neq [OF that] found(4) unfolding step by simp
      show "own1 (pfn (pa + 4096 + of_nat k * 4096 OR perm OR PTE_P)) = RUser"
        if "k \<le> n" "a + 4096 + of_nat k * 4096 < KERNBASE" for k
        using Suc.prems(7) [of "Suc k"] that grow_keep [OF e(3)] unfolding step by (simp add: algebra_simps)
    qed (use e Suc.prems in simp_all)
    then obtain ok s' own' fl' m where r:
      "mappages_loop (Suc n) (kva D) (a + 4096) (a + 4096 + of_nat n * 4096) (pa + 4096) perm ?s = Inr (ok, s')"
      "vm_ext c D ?s own1 s' own' fl'" "view s' own' = map_view m D (a + 4096) (pa + 4096) perm (view ?s own1)"
      "m \<le> Suc n" "ok \<longrightarrow> m = Suc n" by blast
    have "mappages_loop (Suc (Suc n)) (kva D) a (a + of_nat (Suc n) * 4096) pa perm s = Inr (ok, s')"
      using found(1,2) r(1) neq [of n] unfolding step by (simp add: Let_def)
    moreover have "view s' own' = map_view (Suc m) D a pa perm (view s own)" using r(3) found(4) by simp
    ultimately show ?thesis using vm_ext_trans [OF found(3) r(2)] r(4,5) by blast
  qed
qed

text \<open>The case of one user page.\<close>

lemma mappages_page:
  assumes "vm_struct s own fl" "vm_ready s c" "own D = RDir" "page_aligned a"
    and "\<not> has (view s own (D, a)) PTE_P"
    and "a < KERNBASE \<longrightarrow> own (pfn (pa OR perm OR PTE_P)) = RUser"
  obtains (oom) s' where "mappages (kva D) a PGSIZE pa perm s = Inr (False, s')"
      "vm_ext c D s own s' own []" "view s' own = view s own"
  | (mapped) s' own' fl' where "mappages (kva D) a PGSIZE pa perm s = Inr (True, s')"
      "vm_ext c D s own s' own' fl'" "view s' own' = (view s own)((D, a) := pa OR perm OR PTE_P)"
proof -
  have m: "mappages (kva D) a PGSIZE pa perm s = mappages_loop (Suc 0) (kva D) a a pa perm s"
    using assms(4) by (simp add: mappages_def PGROUNDDOWN_last add.commute [of _ a] del: mappages_loop.simps)
  from assms show ?thesis
  proof (cases rule: map_one)
    case (oom s')
    with that(1) m show ?thesis by simp
  next
    case (found s1 p own' fl')
    with that(2) m show ?thesis by (simp add: Let_def)
  qed
qed

end
