(* ===== verification/Vm_Free.thy ===== *)
theory Vm_Free
  imports Vm_Map
begin

text \<open>
  Releasing user memory: \<open>deallocuvm\<close> takes one reference from every mapped page of a range
  and frees the pages that lost their last one; \<open>freevm\<close> does so for a whole address space
  and then frees its page tables and its directory.
\<close>

section \<open>One page\<close>

lemma drop_page_shared:
  assumes rd: "vm_ready s c" and pa: "PTE_ADDR (ld_pte s p) \<noteq> 0" and f: "f = pfn (ld_pte s p)" "f < NREFCOUNT"
    and r: "pg_refcount s f - 1 \<noteq> 0"
  shows "drop_page p s = Inr (st_pte p 0 (touch c (s\<lparr>pg_refcount := (pg_refcount s)(f := pg_refcount s f - 1)\<rparr>)))"
proof -
  have l: "cpu_ok s c" "lk_free s Lk_pgref" using rd by (simp_all add: vm_ready_def)
  let ?a = "acquired c Lk_pgref s"
  let ?t = "?a\<lparr>pg_refcount := (pg_refcount s)(f := pg_refcount s f - 1)\<rparr>"
  have "same_cpuv ?a ?t" by (simp add: same_cpuv_def)
  note rel = release_restores [OF l this]
  have pr: "pg_refcount ?a = pg_refcount s" by (simp add: lock_defs)
  have "release Lk_pgref ?t = Inr (touch c (s\<lparr>pg_refcount := (pg_refcount s)(f := pg_refcount s f - 1)\<rparr>))"
    unfolding rel by (cases s) (simp add: lock_defs)
  then show ?thesis
    using f pa r by (simp add: drop_page_def acquire_ok [OF l] add_refcount_def rd_refcount_def pr)
qed

lemma drop_page_last:
  assumes rd: "vm_ready s c" and pa: "PTE_ADDR (ld_pte s p) \<noteq> 0" and f: "f = pfn (ld_pte s p)" "f < NREFCOUNT"
    and r: "pg_refcount s f - 1 = 0" and v: "valid_page s (kva f)" "frame (kva f) = f"
  shows "drop_page p s = Inr (st_pte p 0 (touch c
    (s\<lparr>mem := (mem s)(f := (\<lambda>i. 0x01010101)(0 := freelist s)), freelist := kva f,
       numFreePages := numFreePages s + 1, pg_refcount := (pg_refcount s)(f := 0)\<rparr>)))"
proof -
  have l: "cpu_ok s c" "lk_free s Lk_pgref" using rd by (simp_all add: vm_ready_def)
  let ?a = "acquired c Lk_pgref s"
  let ?b = "?a\<lparr>pg_refcount := (pg_refcount s)(f := 0)\<rparr>"
  let ?t = "?b\<lparr>mem := (mem s)(f := (\<lambda>i. 0x01010101)(0 := freelist s)), freelist := kva f,
       numFreePages := numFreePages s + 1\<rparr>"
  have pr: "pg_refcount ?a = pg_refcount s" by (simp add: lock_defs)
  have b: "can_alloc ?b c" "valid_page ?b (kva f)"
    using rd v(1) by (auto simp: can_alloc_def vm_ready_def lock_defs valid_page_def)
  have n: "0 < ncli (cpus ?t c)" using l by (auto simp: lock_defs)
  have "kfree (kva f) ?b = Inr ?t"
    using kfree_eq [OF b] touch_nested [OF n] v(2) by (simp add: touch_if_def frame_def)
  moreover have "same_cpuv ?a ?t" by (simp add: same_cpuv_def)
  note rel = release_restores [OF l this]
  have "release Lk_pgref ?t = Inr (touch c
    (s\<lparr>mem := (mem s)(f := (\<lambda>i. 0x01010101)(0 := freelist s)), freelist := kva f,
       numFreePages := numFreePages s + 1, pg_refcount := (pg_refcount s)(f := 0)\<rparr>))"
    unfolding rel by (cases s) (simp add: lock_defs)
  ultimately show ?thesis
    using f pa r by (simp add: drop_page_def acquire_ok [OF l] add_refcount_def rd_refcount_def pr
        kva_pfn)
qed

text \<open>User pages without a mapping become free.\<close>

definition prune :: "view \<Rightarrow> (uint \<Rightarrow> role) \<Rightarrow> (uint \<Rightarrow> role)" where
  "prune V own = (\<lambda>f. if own f = RUser \<and> refs V f = 0 then RFree else own f)"

lemma prune_same: "refs_ok V rc own \<Longrightarrow> prune V own = own"
  using refs_okD(2) by (fastforce simp: prune_def)

lemma prune_role: "prune V own f = r \<Longrightarrow> r \<noteq> RFree \<Longrightarrow> own f = r"
  by (auto simp: prune_def split: if_splits)

lemma prune_prune:
  assumes "\<And>f. refs V f = 0 \<Longrightarrow> refs W f = 0"
  shows "prune W (prune V own) = prune W own"
  using assms by (auto simp: prune_def)

lemma refs_unmapped:
  assumes "\<And>D va. V' (D, va) = V (D, va) \<or> \<not> has (V' (D, va)) PTE_P" "refs V f = 0"
  shows "refs V' f = 0"
  using assms unfolding refs_0 by metis

text \<open>
  The pages that survive keep their contents, and no directory is written.
\<close>

definition kept :: "(uint \<Rightarrow> role) \<Rightarrow> 'z kmemv_scheme \<Rightarrow> 'z kmemv_scheme \<Rightarrow> bool" where
  "kept own s s' \<longleftrightarrow> (\<forall>g. own g = RUser \<or> own g = RHeld \<or> own g = RDir \<longrightarrow> mem s' g = mem s g)"

lemma kept_refl [simp]: "kept own s s"
  by (simp add: kept_def)

lemma kept_trans:
  "kept (prune V own) s s1 \<Longrightarrow> kept (prune W (prune V own)) s1 s2 \<Longrightarrow>
     kept (prune W (prune V own)) s s2"
  unfolding kept_def by (metis prune_role role.distinct(11) role.distinct(13) role.distinct(17))

lemma kept_except:
  assumes "own F = RTab D i" "\<And>g. g \<noteq> F \<Longrightarrow> mem s' g = mem s g"
  shows "kept own s s'"
  unfolding kept_def
proof (intro allI impI)
  fix g assume "own g = RUser \<or> own g = RHeld \<or> own g = RDir"
  then have "g \<noteq> F" using assms(1) by auto
  then show "mem s' g = mem s g" by (rule assms(2))
qed

lemma drop_page_vm:
  assumes inv: "vm_inv s own fl" and rd: "vm_ready s c" and F: "own F = RTab D (PDX a)"
    and a: "page_aligned a" "a < KERNBASE" and P: "has (view s own (D, a)) PTE_P"
  defines "V \<equiv> (view s own)((D, a) := 0)"
  shows "\<exists>s' fl'. drop_page (kva F, PTX a) s = Inr s' \<and> vm_chg c s s' \<and> vm_inv s' (prune V own) fl' \<and>
    view s' (prune V own) = V \<and> kept (prune V own) s s'"
proof -
  let ?e = "view s own (D, a)" and ?p = "(kva F, PTX a)"
  let ?f = "pfn ?e"
  have st: "vm_struct s own fl" and ok: "refs_ok (view s own) (pg_refcount s) own"
    using inv by (simp_all add: vm_inv_def)
  have u: "own ?f = RUser" using vs_user [OF st a(2) P] .
  have ne: "?f \<noteq> F" using u F by auto
  have ld: "ld_pte s ?p = ?e" using ld_pte_vm [OF st F a(1)] .
  have fF: "frame (kva F) = F" using vs_frame [OF st] F by simp
  note b = vs_bounds [OF st, of ?f] and v = vs_valid [OF st, of ?f] vs_frame [OF st, of ?f]
  have pa: "PTE_ADDR (ld_pte s ?p) \<noteq> 0" using b(2) u by (simp add: ld PTE_ADDR_push)
  note rc = refs_okD(1,2) [OF ok u]
  note ok' = refs_ok_drop [OF ok a(2) P u refl]
  have pr: "prune V own = (if refs (view s own) ?f = 1 then own(?f := RFree) else own)"
  proof -
    have "Suc (refs V ?f) = refs (view s own) ?f"
      unfolding V_def using P a(2) by (intro refs_upd_gone) auto
    moreover have "refs V h = refs (view s own) h" if "h \<noteq> ?f" for h
      unfolding V_def using that by (intro refs_upd_other) auto
    ultimately show ?thesis using refs_okD(2) [OF ok] u unfolding prune_def by (intro ext) force
  qed
  show ?thesis
  proof (cases "refs (view s own) ?f = 1")
    case False
    let ?s = "touch c (s\<lparr>pg_refcount := (pg_refcount s)(?f := pg_refcount s ?f - 1)\<rparr>)"
    have r1: "pg_refcount s ?f - 1 \<noteq> 0"
      using rc rc_dec [of "pg_refcount s ?f"] False by (cases "refs (view s own) ?f") auto
    have d: "drop_page ?p s = Inr (st_pte ?p 0 ?s)"
      using drop_page_shared [OF rd pa _ b(1) r1] u ld by simp
    have st1: "vm_struct ?s own fl" "view ?s own = view s own"
      using vm_struct_cong [of ?s s] st by simp_all
    note sp = st_pte_vm [OF st1(1) F a(1), where w = 0, simplified]
    have ch: "vm_chg c s ?s" by (simp add: vm_chg_def touch_def upd_cpu_def)
    have "mem (st_pte ?p 0 ?s) g = mem s g" if "g \<noteq> F" for g
      using that fF by (simp add: st_pte_def stw_kva)
    then have "kept own s (st_pte ?p 0 ?s)" by (rule kept_except [of own, OF F])
    moreover have "pg_refcount (st_pte ?p 0 ?s) = (pg_refcount s)(?f := pg_refcount s ?f - 1)"
      using vm_extD(4) [OF sp(1)] by (simp add: touch_def upd_cpu_def)
    then have "vm_inv (st_pte ?p 0 ?s) own fl"
      using ok' False st1(2) sp(2) vm_extD(2) [OF sp(1)] by (simp add: vm_inv_def)
    moreover have "vm_chg c s (st_pte ?p 0 ?s)" by (rule vm_chg_trans [OF ch vm_extD(1) [OF sp(1)]])
    moreover have "prune V own = own" using pr False by simp
    ultimately show ?thesis using d sp(2) st1(2) by (auto simp: V_def)
  next
    case True
    let ?t = "s\<lparr>mem := (mem s)(?f := (\<lambda>i. 0x01010101)(0 := freelist s)), freelist := kva ?f,
       numFreePages := numFreePages s + 1, pg_refcount := (pg_refcount s)(?f := 0)\<rparr>"
    let ?s = "st_pte ?p 0 (touch c ?t)"
    let ?s1 = "st_pte ?p 0 s"
    have r0: "pg_refcount s ?f - 1 = 0" using rc True rc_dec [of "pg_refcount s ?f" 0] by (simp add: unat_eq_0)
    have d: "drop_page ?p s = Inr ?s"
      using drop_page_last [OF rd pa _ b(1) r0 v] u ld by simp
    note sp = st_pte_vm [OF st F a(1), where w = 0, simplified]
    have "refs V ?f = 0"
      using True refs_upd_gone [of "(D, a)" "view s own" ?f 0] P a(2) by (simp add: V_def)
    then have st2: "vm_struct ?s1 (own(?f := RHeld)) fl" "view ?s1 (own(?f := RHeld)) = V"
      using vm_struct_role [OF vm_extD(2) [OF sp(1)], of ?f RHeld] u sp(2) by (simp_all add: V_def)
    have m: "mem ?s = (mem ?s1)(?f := (\<lambda>i. 0x01010101)(0 := freelist ?s1))"
      "freelist ?s = kva ?f" "kend ?s = kend ?s1"
      using ne fF by (auto simp: st_pte_def stw_kva fun_eq_iff)
    have "(own(?f := RHeld)) ?f = RHeld" by simp
    note push = vm_struct_push [OF st2(1) this m, unfolded fun_upd_upd]
    have p: "prune V own = own(?f := RFree)" using pr True by simp
    have "vm_chg c s ?s" by (simp add: vm_chg_def touch_def upd_cpu_def st_pte_def stw_def)
    moreover have "kept (own(?f := RFree)) s ?s"
      using F m(1) fF by (auto simp: kept_def st_pte_def stw_kva)
    moreover have "pg_refcount ?s = (pg_refcount s)(?f := pg_refcount s ?f - 1)"
      using r0 by (simp add: st_pte_def stw_def touch_def upd_cpu_def)
    moreover have "view ?s (own(?f := RFree)) = V" using push(2) st2(2) by (simp add: fun_upd_def)
    moreover from this calculation have "vm_inv ?s (own(?f := RFree)) (kva ?f # fl)"
      using ok' True push(1) by (simp add: vm_inv_def V_def)
    ultimately show ?thesis using d unfolding p by blast
  qed
qed

section \<open>deallocuvm\<close>

definition unmap :: "uint \<Rightarrow> uint \<Rightarrow> uint \<Rightarrow> view \<Rightarrow> view" where
  "unmap D a b V =
     (\<lambda>(D', va). if D' = D \<and> a \<le> va \<and> va < b \<and> has (V (D', va)) PTE_P then 0 else V (D', va))"

lemma unmap_empty: "b \<le> a \<Longrightarrow> unmap D a b V = V"
  by (rule view_ext) (auto simp: unmap_def)

lemma refs_unmap: "refs V f = 0 \<Longrightarrow> refs (unmap D a b V) f = 0"
  by (erule refs_unmapped [rotated]) (auto simp: unmap_def)

lemma view_unaligned: "\<not> page_aligned va \<Longrightarrow> view s own (D, va) = 0"
  by (simp add: view_simp)

lemma unmap_skip:
  assumes "\<And>va. a \<le> va \<Longrightarrow> va < b \<Longrightarrow> \<not> a' \<le> va \<Longrightarrow> \<not> has (V (D, va)) PTE_P" "a \<le> a'"
  shows "unmap D a b V = unmap D a' b V"
  using assms by (intro view_ext) (auto simp: unmap_def)

lemma unmap_first:
  assumes "page_aligned a" "a < b" "b \<le> KERNBASE" "has (view s own (D, a)) PTE_P"
  shows "unmap D (a + 4096) b ((view s own)((D, a) := 0)) = unmap D a b (view s own)"
proof (rule view_ext)
  fix D' va
  have "unat a < 2147483648" using assms(2,3) by (auto simp: uint_less_iff_unat uint_le_iff_unat)
  then have "unat (a + 4096) = unat a + 4096" by (simp add: unat_word_ariths)
  then have "a + 4096 \<le> va \<longleftrightarrow> a < va" if "page_aligned va" for va
    using aligned_gap(1) [OF assms(1) that] by (auto simp: uint_le_iff_unat uint_less_iff_unat)
  then show "unmap D (a + 4096) b ((view s own)((D, a) := 0)) (D', va) = unmap D a b (view s own) (D', va)"
    using assms(2,4) view_unaligned [of va s own D']
    by (cases "page_aligned va") (auto simp: unmap_def order_le_less)
qed

text \<open>
  When the loop may skip a page table's worth of addresses: the current address starts a
  table, or its table exists, or nothing is mapped from here on.
\<close>

definition skip_ok :: "'z kmemv_scheme \<Rightarrow> (uint \<Rightarrow> role) \<Rightarrow> uint \<Rightarrow> uint \<Rightarrow> uint \<Rightarrow> bool" where
  "skip_ok s own D a b \<longleftrightarrow> PTX a = 0 \<or> has (mem s D (PDX a)) PTE_P \<or>
     (\<forall>va. a \<le> va \<and> va < b \<longrightarrow> \<not> has (view s own (D, va)) PTE_P)"

lemma skip_ok_next:
  assumes "unat a + 4096 < 4294967296" "mem s' D = mem s D" "has (mem s D (PDX a)) PTE_P"
  shows "skip_ok s' own' D (a + 4096) b"
  using PDX_next [OF assms(1)] assms(2,3) by (auto simp: skip_ok_def)

lemma skip_ok_table:
  assumes "skip_ok s own D a b" "\<not> has (mem s D (PDX a)) PTE_P" "page_aligned a" "unat a < 2147483648"
  shows "skip_ok s own D (a + 4194304) b" "unmap D a b (view s own) = unmap D (a + 4194304) b (view s own)"
proof -
  have u: "unat (a + 4194304) = unat a + 4194304" using assms(4) by (simp add: unat_word_ariths)
  have z: "view s own (D, va) = 0" if "PDX va = PDX a" for va
    using that assms(2) by (simp add: view_simp pte_at_def)
  consider "PTX a = 0" | "\<forall>va. a \<le> va \<and> va < b \<longrightarrow> \<not> has (view s own (D, va)) PTE_P"
    using assms(1,2) by (auto simp: skip_ok_def)
  then have "skip_ok s own D (a + 4194304) b \<and>
    (\<forall>va. a \<le> va \<longrightarrow> va < b \<longrightarrow> \<not> a + 4194304 \<le> va \<longrightarrow> \<not> has (view s own (D, va)) PTE_P)"
  proof cases
    case 1
    have "\<not> has (view s own (D, va)) PTE_P" if "a \<le> va" "\<not> a + 4194304 \<le> va" for va
      using PDX_block [OF assms(3) 1, of va] z that u by (simp add: uint_le_iff_unat)
    then show ?thesis using aligned_add_4M(2) [OF assms(3) _ 1] assms(4) by (simp add: skip_ok_def)
  next
    case 2
    then show ?thesis using u by (auto simp: skip_ok_def uint_le_iff_unat)
  qed
  then show "skip_ok s own D (a + 4194304) b"
    "unmap D a b (view s own) = unmap D (a + 4194304) b (view s own)"
    by (auto intro!: unmap_skip simp: uint_le_iff_unat u)
qed

text \<open>\<open>freed c s own V s'\<close>: from \<open>s\<close> to \<open>s'\<close> the view became \<open>V\<close> and unmapped pages were freed.\<close>

definition freed ::
  "nat \<Rightarrow> 'z vmv_scheme \<Rightarrow> (uint \<Rightarrow> role) \<Rightarrow> view \<Rightarrow> 'z vmv_scheme \<Rightarrow> bool" where
  "freed c s own V s' \<longleftrightarrow> vm_chg c s s' \<and> (\<exists>fl'. vm_inv s' (prune V own) fl') \<and>
     view s' (prune V own) = V \<and> kept (prune V own) s s'"

lemma freed_refl: "vm_inv s own fl \<Longrightarrow> freed c s own (view s own) s"
  using prune_same by (auto simp: freed_def vm_inv_def)

lemma freed_trans:
  assumes "freed c s own V s1" "freed c s1 (prune V own) W s2" "\<And>f. refs V f = 0 \<Longrightarrow> refs W f = 0"
  shows "freed c s own W s2"
proof -
  have p: "prune W (prune V own) = prune W own" by (rule prune_prune [OF assms(3)])
  have "vm_chg c s s2" using assms(1,2) vm_chg_trans unfolding freed_def by blast
  moreover have "kept (prune W own) s s2"
    using assms(1,2) kept_trans [of V own s s1 W s2] unfolding freed_def p by blast
  ultimately show ?thesis using assms(2) unfolding freed_def p by blast
qed

lemma dealloc_loop_vm:
  assumes "vm_inv s own fl" "vm_ready s c" "own D = RDir" "page_aligned a" "b \<le> KERNBASE"
    and "skip_ok s own D a b" "unat b + 4096 \<le> unat a + 4096 * n" "0 < n"
  shows "\<exists>s'. deallocuvm_loop n (kva D) a b s = Inr s' \<and> freed c s own (unmap D a b (view s own)) s'"
  using assms
proof (induction n arbitrary: s own fl a)
  case (Suc n s own fl a)
  have st: "vm_struct s own fl" using Suc.prems(1) by (simp add: vm_inv_def)
  show ?case
  proof (cases "a < b")
    case False
    then show ?thesis
      using freed_refl [OF Suc.prems(1)] unmap_empty [of b a D "view s own"] by (simp add: not_less)
  next
    case True
    have ua: "unat a < 2147483648" using True Suc.prems(5) by (auto simp: uint_less_iff_unat uint_le_iff_unat)
    have u: "unat (a + 4096) = unat a + 4096" "unat (a + 4194304) = unat a + 4194304"
      using ua by (simp_all add: unat_word_ariths)
    have n: "0 < n" "unat b + 4096 \<le> unat (a + 4096) + 4096 * n" "unat b + 4096 \<le> unat (a + 4194304) + 4096 * n"
      using Suc.prems(7) True by (auto simp: u uint_less_iff_unat intro!: gr0I)
    from st Suc.prems(3) show ?thesis
    proof (cases rule: walk_find [where a = a])
      case absent
      note sk = skip_ok_table [OF Suc.prems(6) absent(2) Suc.prems(4) ua]
      have al: "page_aligned (a + 4194304)" using aligned_add_4M(1) [OF Suc.prems(4)] ua by simp
      note Suc.IH [OF Suc.prems(1-3) al Suc.prems(5) sk(1) n(3,1)]
      then show ?thesis using True absent(1) sk(2) by (simp add: add.assoc)
    next
      case (found F)
      have tab: "has (mem s D (PDX a)) PTE_P" using vs_tab(3) [OF st found(2)] .
      note ld = ld_pte_vm [OF st found(2) Suc.prems(4)]
      note next_ok = skip_ok_next [where a = a and b = b, OF _ _ tab]
      have a': "page_aligned (a + 4096)" using Suc.prems(4) by simp
      show ?thesis
      proof (cases "has (view s own (D, a)) PTE_P")
        case False
        have sk: "skip_ok s own D (a + 4096) b" by (rule next_ok) (use ua in simp_all)
        have "unmap D a b (view s own) = unmap D (a + 4096) b (view s own)"
        proof (rule unmap_skip)
          show "\<not> has (view s own (D, va)) PTE_P" if "a \<le> va" "\<not> a + 4096 \<le> va" for va
            using that False aligned_gap(1) [OF Suc.prems(4), of va] view_unaligned [of va s own D]
            by (cases "va = a"; cases "page_aligned va") auto
        qed (simp add: u uint_le_iff_unat)
        then show ?thesis
          using Suc.IH [OF Suc.prems(1-3) a' Suc.prems(5) sk n(2,1)] True found(1) False ld by simp
      next
        case present: True
        have aK: "a < KERNBASE" using True Suc.prems(5) by (rule less_le_trans)
        let ?V = "(view s own)((D, a) := 0)"
        obtain s1 fl1 where d: "drop_page (kva F, PTX a) s = Inr s1" "vm_chg c s s1"
          "vm_inv s1 (prune ?V own) fl1" "view s1 (prune ?V own) = ?V" "kept (prune ?V own) s s1"
          using drop_page_vm [OF Suc.prems(1,2) found(2) Suc.prems(4) aK present] by blast
        have D1: "prune ?V own D = RDir" using Suc.prems(3) by (simp add: prune_def)
        then have "mem s1 D = mem s D" using d(5) by (simp add: kept_def)
        then have sk: "skip_ok s1 (prune ?V own) D (a + 4096) b" by (intro next_ok) (use ua in simp_all)
        obtain s2 where s2: "deallocuvm_loop n (kva D) (a + 4096) b s1 = Inr s2"
          "freed c s1 (prune ?V own) (unmap D (a + 4096) b ?V) s2"
          using Suc.IH [OF d(3) vm_chg_ready [OF d(2) Suc.prems(2)] D1 a' Suc.prems(5) sk n(2,1)]
          unfolding d(4) by blast
        have "freed c s own ?V s1" using d by (auto simp: freed_def)
        then have "freed c s own (unmap D (a + 4096) b ?V) s2"
          using s2(2) refs_unmap by (rule freed_trans)
        then have "freed c s own (unmap D a b (view s own)) s2"
          unfolding unmap_first [OF Suc.prems(4) True Suc.prems(5) present] .
        then show ?thesis using True found(1) ld present d(1) s2(1) by simp
      qed
    qed
  qed
qed simp

lemma deallocuvm_vm:
  assumes "vm_inv s own fl" "vm_ready s c" "own D = RDir" "newsz < oldsz" "oldsz \<le> KERNBASE"
    and "skip_ok s own D (PGROUNDUP newsz) oldsz"
  obtains s' where "deallocuvm (kva D) oldsz newsz s = Inr (newsz, s')"
    "freed c s own (unmap D (PGROUNDUP newsz) oldsz (view s own)) s'"
proof -
  have "unat oldsz < 4096 * (unat oldsz div 4096) + 4096"
    using mod_less_divisor [of 4096 "unat oldsz"] mult_div_mod_eq [of 4096 "unat oldsz"] by linarith
  then have "unat oldsz + 4096 \<le> unat (PGROUNDUP newsz) + 4096 * Suc (Suc (unat (pfn oldsz)))"
    by (simp add: unat_pfn)
  from dealloc_loop_vm [OF assms(1-3) page_aligned_PGROUNDUP assms(5,6) this]
  obtain s' where "deallocuvm_loop (Suc (Suc (unat (pfn oldsz)))) (kva D) (PGROUNDUP newsz) oldsz s = Inr s'"
    "freed c s own (unmap D (PGROUNDUP newsz) oldsz (view s own)) s'" by blast
  then show ?thesis
    using assms(4) by (intro that) (simp_all add: deallocuvm_def not_le [symmetric] del: deallocuvm_loop.simps)
qed

section \<open>freevm\<close>

lemma freevm_loop_vm:
  assumes "vm_struct s own fl" "vm_ready s c" "own D = RHeld" "k + n = 1024"
    and "\<And>j. k \<le> j \<Longrightarrow> j < 1024 \<Longrightarrow> has (mem s D (of_nat j)) PTE_P \<Longrightarrow>
           own (pfn (mem s D (of_nat j))) = RHeld \<and> pfn (mem s D (of_nat j)) \<noteq> D"
    and "\<And>i j. k \<le> i \<Longrightarrow> i < j \<Longrightarrow> j < 1024 \<Longrightarrow> has (mem s D (of_nat i)) PTE_P \<Longrightarrow>
           has (mem s D (of_nat j)) PTE_P \<Longrightarrow> pfn (mem s D (of_nat i)) \<noteq> pfn (mem s D (of_nat j))"
  defines "tab j f \<equiv> has (mem s D (of_nat j)) PTE_P \<and> pfn (mem s D (of_nat j)) = f"
  shows "\<exists>s' fl'. freevm_loop n (kva D) (of_nat k) s = Inr s' \<and> vm_chg c s s' \<and>
    vm_struct s' (\<lambda>f. if \<exists>j. k \<le> j \<and> j < 1024 \<and> tab j f then RFree else own f) fl' \<and>
    view s' (\<lambda>f. if \<exists>j. k \<le> j \<and> j < 1024 \<and> tab j f then RFree else own f) = view s own \<and>
    pg_refcount s' = pg_refcount s \<and>
    (\<forall>f. \<not> (\<exists>j. k \<le> j \<and> j < 1024 \<and> tab j f) \<longrightarrow> mem s' f = mem s f)"
  using assms(1-6) unfolding tab_def
proof (induction n arbitrary: k s own fl)
  case (0 k s own fl)
  have none: "(k \<le> j \<and> j < 1024 \<and> X) = False" for j X using 0(4) by auto
  show ?case unfolding none using 0(1) by auto
next
  case (Suc n k s own fl)
  let ?T = "\<lambda>k f. \<exists>j. k \<le> j \<and> j < 1024 \<and> has (mem s D (of_nat j)) PTE_P \<and> pfn (mem s D (of_nat j)) = f"
  have fD: "frame (kva D) = D" using vs_frame [OF Suc.prems(1)] Suc.prems(3) by simp
  have k: "k < 1024" "of_nat k + 1 = (of_nat (Suc k) :: uint)" using Suc.prems(4) by simp_all
  have split: "?T k f \<longleftrightarrow> has (mem s D (of_nat k)) PTE_P \<and> pfn (mem s D (of_nat k)) = f \<or> ?T (Suc k) f" for f
    using k(1) by (metis Suc_leD Suc_leI le_neq_implies_less order_refl)
  show ?case
  proof (cases "has (mem s D (of_nat k)) PTE_P")
    case False
    then have "?T k f \<longleftrightarrow> ?T (Suc k) f" for f using split by blast
    moreover have "freevm_loop (Suc n) (kva D) (of_nat k) s = freevm_loop n (kva D) (of_nat (Suc k)) s"
      using False by (simp add: ldw_kva [OF fD] add.commute)
    ultimately show ?thesis
      using Suc.IH [OF Suc.prems(1-3), of "Suc k"] Suc.prems(4-6) by simp
  next
    case True
    let ?F = "pfn (mem s D (of_nat k))"
    have F: "own ?F = RHeld" "?F \<noteq> D" using Suc.prems(5) [of k] k True by simp_all
    obtain s1 where s1: "kfree (kva ?F) s = Inr s1" "vm_chg c s s1" "\<forall>f. f \<noteq> ?F \<longrightarrow> mem s1 f = mem s f"
      "pg_refcount s1 = pg_refcount s" "vm_struct s1 (own(?F := RFree)) (kva ?F # fl)"
      "view s1 (own(?F := RFree)) = view s own"
      by (rule kfree_vm [OF Suc.prems(1) vm_ready_alloc [OF Suc.prems(2)] F(1)])
    have mD: "mem s1 D = mem s D" using s1(3) F(2) by simp
    have D1: "(own(?F := RFree)) D = RHeld" using F(2) Suc.prems(3) by simp
    have o: "(\<lambda>f. if ?T (Suc k) f then RFree else (own(?F := RFree)) f) = (\<lambda>f. if ?T k f then RFree else own f)"
      using split True by (intro ext) auto
    have held: "(own(?F := RFree)) (pfn (mem s1 D (of_nat j))) = RHeld \<and> pfn (mem s1 D (of_nat j)) \<noteq> D"
      if "Suc k \<le> j" "j < 1024" "has (mem s1 D (of_nat j)) PTE_P" for j
      using that Suc.prems(5) [of j] Suc.prems(6) [of k j] True mD by auto
    have inj: "pfn (mem s1 D (of_nat i)) \<noteq> pfn (mem s1 D (of_nat j))"
      if "Suc k \<le> i" "i < j" "j < 1024" "has (mem s1 D (of_nat i)) PTE_P" "has (mem s1 D (of_nat j)) PTE_P" for i j
      using that Suc.prems(6) [of i j] mD by simp
    have kn: "Suc k + n = 1024" using Suc.prems(4) by simp
    obtain s2 fl2 where s2: "freevm_loop n (kva D) (of_nat (Suc k)) s1 = Inr s2" "vm_chg c s1 s2"
      "vm_struct s2 (\<lambda>f. if ?T k f then RFree else own f) fl2"
      "view s2 (\<lambda>f. if ?T k f then RFree else own f) = view s1 (own(?F := RFree))"
      "pg_refcount s2 = pg_refcount s1" "\<forall>f. \<not> ?T (Suc k) f \<longrightarrow> mem s2 f = mem s1 f"
      using Suc.IH [OF s1(5) vm_chg_ready [OF s1(2) Suc.prems(2)] D1 kn held inj]
      unfolding mD o by blast
    have "freevm_loop (Suc n) (kva D) (of_nat k) s = Inr s2"
      using s1(1) s2(1) True by (simp add: ldw_kva [OF fD] kva_pfn add.commute)
    moreover have "mem s2 f = mem s f" if "\<not> ?T k f" for f
      using that split [of f] s2(6) s1(3) True by metis
    ultimately show ?thesis using s1(4) s2(3,5) s2(4) [unfolded s1(6)] vm_chg_trans [OF s1(2) s2(2)] by auto
  qed
qed

definition drop_dir :: "uint \<Rightarrow> view \<Rightarrow> view" where
  "drop_dir D V = (\<lambda>k. if fst k = D then 0 else V k)"

definition free_dir :: "uint \<Rightarrow> view \<Rightarrow> (uint \<Rightarrow> role) \<Rightarrow> (uint \<Rightarrow> role)" where
  "free_dir D V own = (\<lambda>f. if f = D \<or> (\<exists>i. own f = RTab D i) then RFree else prune V own f)"

lemma refs_cong:
  assumes "\<And>D va. va < KERNBASE \<Longrightarrow> has (V (D, va)) PTE_P = has (W (D, va)) PTE_P \<and>
    (has (V (D, va)) PTE_P \<longrightarrow> V (D, va) = W (D, va))"
  shows "refs V f = refs W f"
proof -
  have "k \<in> mapset V f \<longleftrightarrow> k \<in> mapset W f" for k
    using assms [of "snd k" "fst k"] unfolding in_mapset prod.collapse by metis
  then have "mapset V f = mapset W f" by blast
  then show ?thesis by (simp add: refs_def)
qed

lemma refs_ok_cong:
  assumes "refs_ok V rc own"
    and vw: "\<And>D va. va < KERNBASE \<Longrightarrow> has (V (D, va)) PTE_P = has (W (D, va)) PTE_P \<and>
      (has (V (D, va)) PTE_P \<longrightarrow> V (D, va) = W (D, va))"
    and own: "\<And>f. own' f = RUser \<longleftrightarrow> own f = RUser"
  shows "refs_ok W rc own'"
proof (rule refs_okI)
  have r: "refs W f = refs V f" for f by (rule refs_cong [of V W, OF vw, symmetric])
  show "unat (rc f) = refs W f \<and> 0 < refs W f \<and> refs W f \<le> 127" if "own' f = RUser" for f
    using that refs_okD(1-3) [OF assms(1), of f] own r by auto
  show "rc f = 0" if "own' f \<noteq> RUser" for f using that refs_okD(4) [OF assms(1), of f] own by auto
  show "refs W (pfn (W (D, va))) = 1" if "va < KERNBASE" "has (W (D, va)) PTE_P" "has (W (D, va)) PTE_W" for D va
    using refs_okD(5) [OF assms(1) that(1), of D] vw [OF that(1), of D] that(2,3) unfolding r by metis
qed

lemma of_nat_1024:
  "j < 1024 \<Longrightarrow> of_nat j < (1024 :: uint)"
  "i < 1024 \<Longrightarrow> j < 1024 \<Longrightarrow> (of_nat i :: uint) = of_nat j \<longleftrightarrow> i = j"
  by (simp_all add: word_less_nat_alt unat_of_nat word_unat_eq_iff)

definition gone_dir :: "uint \<Rightarrow> (uint \<Rightarrow> role) \<Rightarrow> (uint \<Rightarrow> role)" where
  "gone_dir D own = (\<lambda>f. if f = D \<or> (\<exists>i. own f = RTab D i) then RFree else own f)"

lemma free_tables_vm:
  assumes st: "vm_struct s own fl" and rd: "vm_ready s c" and D: "own D = RDir"
  shows "\<exists>s' fl'. bindE (freevm_loop 1024 (kva D) 0 s) (kfree (kva D)) = Inr s' \<and> vm_chg c s s' \<and>
    vm_struct s' (gone_dir D own) fl' \<and> view s' (gone_dir D own) = drop_dir D (view s own) \<and>
    pg_refcount s' = pg_refcount s \<and> (\<forall>f. gone_dir D own f \<noteq> RFree \<longrightarrow> mem s' f = mem s f)"
proof -
  let ?o = "retire D own"
  let ?e = "\<lambda>j :: nat. mem s D (of_nat j)"
  let ?t = "\<lambda>f. \<exists>j. 0 \<le> j \<and> j < 1024 \<and> has (?e j) PTE_P \<and> pfn (?e j) = f"
  note ret = vm_struct_retire [OF st D]
  have role: "own (pfn (?e j)) = RTab D (of_nat j)" if "j < 1024" "has (?e j) PTE_P" for j
    using vs_dir [OF st D] of_nat_1024(1) that by blast
  have held: "?o (pfn (?e j)) = RHeld \<and> pfn (?e j) \<noteq> D" if "0 \<le> j" "j < 1024" "has (?e j) PTE_P" for j
    using role [OF that(2,3)] D by (auto simp: retire_def)
  have inj: "pfn (?e i) \<noteq> pfn (?e j)" if "0 \<le> i" "i < j" "j < 1024" "has (?e i) PTE_P" "has (?e j) PTE_P" for i j
    using role [of i] role [of j] that of_nat_1024(2) [of i j] by auto
  have Do: "?o D = RHeld" by (simp add: retire_def)
  have tab: "?t f \<longleftrightarrow> (\<exists>i. own f = RTab D i)" for f
  proof
    assume "\<exists>i. own f = RTab D i"
    then obtain i where i: "own f = RTab D i" ..
    have "unat i < 1024" using vs_tab(2) [OF st i] by (simp add: uint_less_iff_unat)
    then show "?t f" using vs_tab(3,4) [OF st i] by (intro exI [of _ "unat i"]) simp
  qed (use role in blast)
  let ?o2 = "\<lambda>f. if ?t f then RFree else ?o f"
  obtain s1 fl1 where s1: "freevm_loop 1024 (kva D) (of_nat 0) s = Inr s1" "vm_chg c s s1"
    "vm_struct s1 ?o2 fl1" "view s1 ?o2 = view s ?o" "pg_refcount s1 = pg_refcount s"
    "\<forall>f. \<not> ?t f \<longrightarrow> mem s1 f = mem s f"
    using freevm_loop_vm [OF ret(1) rd Do add_0 held inj] by blast
  have D2: "?o2 D = RHeld" using D tab by (simp add: retire_def)
  obtain s2 where s2: "kfree (kva D) s1 = Inr s2" "vm_chg c s1 s2" "\<forall>f. f \<noteq> D \<longrightarrow> mem s2 f = mem s1 f"
    "pg_refcount s2 = pg_refcount s1" "vm_struct s2 (?o2(D := RFree)) (kva D # fl1)"
    "view s2 (?o2(D := RFree)) = view s1 ?o2"
    by (rule kfree_vm [OF s1(3) vm_ready_alloc [OF vm_chg_ready [OF s1(2) rd]] D2])
  have o: "?o2(D := RFree) = gone_dir D own" using tab by (intro ext) (auto simp: gone_dir_def retire_def)
  have "\<forall>f. gone_dir D own f \<noteq> RFree \<longrightarrow> mem s2 f = mem s f"
    using s1(6) [unfolded tab] s2(3) by (simp add: gone_dir_def)
  moreover have "view s2 (gone_dir D own) = drop_dir D (view s own)"
    using s2(6) s1(4) ret(2) unfolding o drop_dir_def by simp
  ultimately show ?thesis
    using s1(1,5) s2(1,4) s2(5) [unfolded o] vm_chg_trans [OF s1(2) s2(2)] by auto
qed

text \<open>
  \<open>freevm\<close> on a directory gives back its tables, the directory, and every user page that no
  other directory maps; the other address spaces keep their view and their contents.
\<close>

lemma freevm_vm:
  assumes inv: "vm_inv s own fl" and rd: "vm_ready s c" and D: "own D = RDir"
  defines "V \<equiv> drop_dir D (view s own)"
  shows "\<exists>s' fl'. freevm (kva D) s = Inr s' \<and> vm_chg c s s' \<and> vm_inv s' (free_dir D V own) fl' \<and>
    view s' (free_dir D V own) = V \<and>
    (\<forall>f. free_dir D V own f = RUser \<or> free_dir D V own f = RHeld \<longrightarrow> mem s' f = mem s f)"
proof -
  let ?W = "unmap D 0 KERNBASE (view s own)"
  have nz: "kva D \<noteq> 0" using vs_bounds(3) [of s own fl D] inv D by (simp add: vm_inv_def)
  have sk: "skip_ok s own D (PGROUNDUP 0) KERNBASE" by (simp add: skip_ok_def PGROUNDUP_def PTX_def)
  obtain s1 where s1: "deallocuvm (kva D) KERNBASE 0 s = Inr (0, s1)" "freed c s own ?W s1"
    using deallocuvm_vm [OF inv rd D _ _ sk] by (auto simp: PGROUNDUP_def)
  let ?o1 = "prune ?W own"
  obtain fl1 where i1: "vm_struct s1 ?o1 fl1" "refs_ok ?W (pg_refcount s1) ?o1" "view s1 ?o1 = ?W"
    "vm_chg c s s1" "kept ?o1 s s1" using s1(2) by (auto simp: freed_def vm_inv_def)
  have D1: "?o1 D = RDir" using D by (simp add: prune_def)
  obtain s2 fl2 where s2: "bindE (freevm_loop 1024 (kva D) 0 s1) (kfree (kva D)) = Inr s2" "vm_chg c s1 s2"
    "vm_struct s2 (gone_dir D ?o1) fl2" "view s2 (gone_dir D ?o1) = drop_dir D ?W"
    "pg_refcount s2 = pg_refcount s1" "\<forall>f. gone_dir D ?o1 f \<noteq> RFree \<longrightarrow> mem s2 f = mem s1 f"
    using free_tables_vm [OF i1(1) vm_chg_ready [OF i1(4) rd] D1] unfolding i1(3) by blast
  have VW: "drop_dir D ?W = V" unfolding V_def by (rule view_ext) (simp add: drop_dir_def unmap_def)
  have same: "has (?W (D', va)) PTE_P = has (V (D', va)) PTE_P \<and>
      (has (?W (D', va)) PTE_P \<longrightarrow> ?W (D', va) = V (D', va))" if "va < KERNBASE" for D' va
    using that by (simp add: V_def drop_dir_def unmap_def)
  have o: "gone_dir D ?o1 = free_dir D V own"
    using refs_cong [of ?W V, OF same] by (intro ext) (auto simp: gone_dir_def free_dir_def prune_def)
  have "refs_ok V (pg_refcount s2) (free_dir D V own)"
    unfolding s2(5)
  proof (rule refs_ok_cong [OF i1(2) same])
    show "(free_dir D V own f = RUser) = (?o1 f = RUser)" for f
      using D1 by (auto simp: o [symmetric] gone_dir_def)
  qed
  then have "vm_inv s2 (free_dir D V own) fl2" using s2(3,4) by (simp add: vm_inv_def o VW)
  moreover have "freevm (kva D) s = Inr s2" using nz s1(1) s2(1) by (simp add: freevm_def)
  moreover have "\<forall>f. free_dir D V own f = RUser \<or> free_dir D V own f = RHeld \<longrightarrow> mem s2 f = mem s f"
    using s2(6) i1(5) unfolding o [symmetric] gone_dir_def kept_def by auto
  ultimately show ?thesis using vm_chg_trans [OF i1(4) s2(2)] s2(4) o VW by auto
qed

end
