(* ===== verification/Vm_Kern.thy ===== *)
theory Vm_Kern
  imports Vm_Free
begin

text \<open>
  The kernel half of an address space: \<open>setupkvm\<close> builds a directory whose kernel half is the
  table \<open>kmap\<close> of vm.c and whose user half is empty, or gives every page back.
\<close>

section \<open>Ranges of pages\<close>

definition region :: "uint \<Rightarrow> uint \<Rightarrow> nat \<Rightarrow> uint \<Rightarrow> uint \<Rightarrow> view \<Rightarrow> view" where
  "region D vb n pa perm V = (\<lambda>(D', va).
     if D' = D \<and> page_aligned va \<and> unat vb \<le> unat va \<and> unat va < unat vb + 4096 * n
     then (pa + (va - vb)) OR perm OR PTE_P else V (D', va))"

lemma unat_page_index:
  fixes vb :: uint
  assumes "unat vb + 4096 * n \<le> 4294967296" "k < n"
  shows "unat (vb + of_nat k * 4096) = unat vb + 4096 * k"
  using assms by (simp add: unat_word_ariths unat_of_nat)

lemma page_in_range:
  assumes "page_aligned vb" "page_aligned va" "unat vb \<le> unat va" "unat va < unat vb + 4096 * n"
  obtains k where "k < n" "va = vb + of_nat k * 4096"
proof -
  obtain p q where pq: "unat vb = 4096 * p" "unat va = 4096 * q"
    using assms(1,2) by (auto simp: page_aligned_unat elim!: dvdE)
  define k where "k = q - p"
  have k: "k < n" "q = p + k" using assms(3,4) pq by (auto simp: k_def)
  have "unat (vb + of_nat k * 4096) = unat va"
  proof -
    have "4096 * p + 4096 * k < 4294967296" using unat_less_2p32 [of va] pq k(2) by simp
    then show ?thesis using pq k(2) by (simp add: unat_word_ariths unat_of_nat)
  qed
  then show ?thesis using that k(1) by (simp add: word_unat_eq_iff)
qed

lemma page_aligned_index: "page_aligned vb \<Longrightarrow> page_aligned (vb + of_nat k * 4096)"
proof -
  assume v: "page_aligned vb"
  show ?thesis
  proof (induction k)
    case (Suc k)
    have "vb + of_nat (Suc k) * 4096 = vb + of_nat k * 4096 + 4096" by (simp add: algebra_simps)
    then show ?case using page_aligned_add [OF Suc] by metis
  qed (use v in simp)
qed

lemma map_view_region:
  assumes "page_aligned vb" "unat vb + 4096 * n \<le> 4294967296"
  shows "map_view n D vb pa perm V = region D vb n pa perm V"
proof (rule view_ext)
  fix D' va
  show "map_view n D vb pa perm V (D', va) = region D vb n pa perm V (D', va)"
  proof (cases "D' = D \<and> page_aligned va \<and> unat vb \<le> unat va \<and> unat va < unat vb + 4096 * n")
    case True
    then obtain k where k: "k < n" "va = vb + of_nat k * 4096" using page_in_range [OF assms(1)] by blast
    have "n \<le> 0x100000" using assms(2) by simp
    then show ?thesis using map_view_in [OF k(1)] True k by (simp add: region_def)
  next
    case False
    have "va \<noteq> vb + of_nat k * 4096" if "k < n" "D' = D" for k
      using False unat_page_index [OF assms(2) that(1)] page_aligned_index [OF assms(1), of k] that by auto
    then have "map_view n D vb pa perm V (D', va) = V (D', va)"
      using map_view_other [of n va vb D] map_view_dir [of D' D] by (cases "D' = D") auto
    then show ?thesis using False by (auto simp: region_def)
  qed
qed

section \<open>Kernel mappings\<close>

text \<open>The views differ at most in the kernel half of directory \<open>D\<close>.\<close>

definition user_same :: "uint \<Rightarrow> view \<Rightarrow> view \<Rightarrow> bool" where
  "user_same D V W \<longleftrightarrow> (\<forall>D' va. va < KERNBASE \<or> D' \<noteq> D \<longrightarrow> V (D', va) = W (D', va))"

lemma user_same_refl [simp]: "user_same D V V"
  by (simp add: user_same_def)

lemma user_same_trans: "user_same D V W \<Longrightarrow> user_same D W X \<Longrightarrow> user_same D V X"
  by (simp add: user_same_def)

lemma user_same_region:
  "KERNBASE \<le> vb \<Longrightarrow> user_same D V (region D vb n pa perm V)"
  by (auto simp: user_same_def region_def uint_le_iff_unat uint_less_iff_unat)

lemma grow_user:
  assumes "grow D own own'"
  shows "own' f = RUser \<longleftrightarrow> own f = RUser"
proof -
  consider "own' f = own f" | i where "own f = RFree" "own' f = RTab D i"
    using assms unfolding grow_def by blast
  then show ?thesis by cases auto
qed

lemma vm_inv_ext:
  assumes "vm_inv s own fl" "vm_ext c D s own s' own' fl'" "user_same D (view s own) (view s' own')"
  shows "vm_inv s' own' fl'"
proof -
  note e = vm_extD [OF assms(2)]
  have "refs_ok (view s own) (pg_refcount s) own" using assms(1) by (simp add: vm_inv_def)
  then have "refs_ok (view s' own') (pg_refcount s) own'"
    by (rule refs_ok_cong) (use assms(3) grow_user [OF e(3)] in \<open>auto simp: user_same_def\<close>)
  then show ?thesis using e by (simp add: vm_inv_def)
qed

lemma mappages_kern:
  assumes inv: "vm_inv s own fl" and rd: "vm_ready s c" and D: "own D = RDir"
    and v: "page_aligned vb" "KERNBASE \<le> vb" "unat vb + 4096 * n \<le> 4294967296" "0 < n"
    and siz: "siz = of_nat n * 4096"
    and new: "\<And>va. page_aligned va \<Longrightarrow> unat vb \<le> unat va \<Longrightarrow> unat va < unat vb + 4096 * n \<Longrightarrow>
      \<not> has (view s own (D, va)) PTE_P"
  shows "\<exists>ok s' own' fl'. mappages (kva D) vb siz pa perm s = Inr (ok, s') \<and>
    vm_ext c D s own s' own' fl' \<and> vm_inv s' own' fl' \<and> user_same D (view s own) (view s' own') \<and>
    (ok \<longrightarrow> view s' own' = region D vb n pa perm (view s own))"
proof -
  have st: "vm_struct s own fl" using inv by (simp add: vm_inv_def)
  obtain m where m: "n = Suc m" using v(4) by (cases n) auto
  let ?last = "vb + of_nat m * 4096"
  have idx: "unat (vb + of_nat k * 4096) = unat vb + 4096 * k" if "k \<le> m" for k
    using unat_page_index [OF v(3), of k] that m by simp
  have "vb + siz - 1 = ?last + 4095" by (simp add: siz m algebra_simps)
  then have l: "PGROUNDDOWN (vb + siz - 1) = ?last"
    using PGROUNDDOWN_last [OF page_aligned_index [OF v(1)]] by metis
  have "unat (pfn (?last - vb)) = m"
    using v(3) m by (simp add: unat_pfn unat_word_ariths unat_of_nat)
  then have mp: "mappages (kva D) vb siz pa perm s = mappages_loop (Suc m) (kva D) vb ?last pa perm s"
    using v(1) by (simp add: mappages_def l del: mappages_loop.simps)
  have n1: "\<not> has (view s own (D, vb + of_nat k * 4096)) PTE_P" if "k \<le> m" for k
    using new [of "vb + of_nat k * 4096"] idx [OF that] page_aligned_index [OF v(1)] that m by simp
  have n2: "own (pfn ((pa + of_nat k * 4096) OR perm OR PTE_P)) = RUser"
    if "k \<le> m" "vb + of_nat k * 4096 < KERNBASE" for k
    using idx [OF that(1)] that(2) v(2) by (simp add: uint_le_iff_unat uint_less_iff_unat)
  have m20: "m < 0x100000" using v(3) m by simp
  obtain ok s' own' fl' j where r: "mappages_loop (Suc m) (kva D) vb ?last pa perm s = Inr (ok, s')"
    "vm_ext c D s own s' own' fl'" "view s' own' = map_view j D vb pa perm (view s own)"
    "j \<le> Suc m" "ok \<longrightarrow> j = Suc m"
    using mappages_loop_vm [OF st rd D v(1) m20 n1 n2] by blast
  have vr: "view s' own' = region D vb j pa perm (view s own)"
    using map_view_region [OF v(1), of j] r(3,4) v(3) m by simp
  then have us: "user_same D (view s own) (view s' own')" using user_same_region [OF v(2)] by simp
  have "ok \<longrightarrow> view s' own' = region D vb n pa perm (view s own)" using vr r(5) m by simp
  then show ?thesis using mp r(1,2) us vm_inv_ext [OF inv r(2) us] by metis
qed

section \<open>setupkvm\<close>

text \<open>A line of \<open>kmap\<close> together with its number of pages.\<close>

definition kent :: "kmap_entry \<Rightarrow> nat \<Rightarrow> bool" where
  "kent k n \<longleftrightarrow> page_aligned (virt k) \<and> KERNBASE \<le> virt k \<and> unat (virt k) + 4096 * n \<le> 4294967296 \<and>
     0 < n \<and> phys_end k - phys_start k = of_nat n * 4096"

definition kfresh :: "view \<Rightarrow> uint \<Rightarrow> kmap_entry \<Rightarrow> nat \<Rightarrow> bool" where
  "kfresh V D k n \<longleftrightarrow> (\<forall>va. page_aligned va \<and> unat (virt k) \<le> unat va \<and>
     unat va < unat (virt k) + 4096 * n \<longrightarrow> \<not> has (V (D, va)) PTE_P)"

fun kregions :: "uint \<Rightarrow> (kmap_entry \<times> nat) list \<Rightarrow> view \<Rightarrow> view" where
  "kregions D [] V = V"
| "kregions D ((k, n) # ks) V = kregions D ks (region D (virt k) n (phys_start k) (kperm k) V)"

lemma setupkvm_loop_vm:
  assumes "vm_inv s own fl" "vm_ready s c" "own D = RDir" "\<forall>(k, n) \<in> set ks. kent k n"
    and "\<forall>(k, n) \<in> set ks. kfresh (view s own) D k n"
    and "sorted_wrt (\<lambda>(k, n) (k', n'). unat (virt k) + 4096 * n \<le> unat (virt k')) ks"
  shows "\<exists>s' own' fl'. vm_ext c D s own s' own' fl' \<and> vm_inv s' own' fl' \<and>
    user_same D (view s own) (view s' own') \<and>
    (setupkvm_loop (map fst ks) (kva D) s = Inr (kva D, s') \<and> view s' own' = kregions D ks (view s own) \<or>
     setupkvm_loop (map fst ks) (kva D) s = bindE (freevm (kva D) s') (\<lambda>s. Inr (0, s)))"
  using assms
proof (induction ks arbitrary: s own fl)
  case Nil
  then show ?case using vm_ext_refl by (fastforce simp: vm_inv_def)
next
  case (Cons kn ks s own fl)
  obtain k n where kn: "kn = (k, n)" by fastforce
  have ke: "page_aligned (virt k)" "KERNBASE \<le> virt k" "unat (virt k) + 4096 * n \<le> 4294967296" "0 < n"
    "phys_end k - phys_start k = of_nat n * 4096"
    using Cons.prems(4) by (simp_all add: kn kent_def)
  have fresh: "\<not> has (view s own (D, va)) PTE_P"
    if "page_aligned va" "unat (virt k) \<le> unat va" "unat va < unat (virt k) + 4096 * n" for va
    using Cons.prems(5) that by (simp add: kn kfresh_def)
  obtain ok s1 own1 fl1 where m:
    "mappages (kva D) (virt k) (phys_end k - phys_start k) (phys_start k) (kperm k) s = Inr (ok, s1)"
    "vm_ext c D s own s1 own1 fl1" "vm_inv s1 own1 fl1" "user_same D (view s own) (view s1 own1)"
    "ok \<longrightarrow> view s1 own1 = region D (virt k) n (phys_start k) (kperm k) (view s own)"
    using mappages_kern [OF Cons.prems(1-3) ke fresh, where pa = "phys_start k" and perm = "kperm k"] by blast
  note e = vm_extD [OF m(2)]
  show ?case
  proof (cases ok)
    case False
    then have "setupkvm_loop (map fst (kn # ks)) (kva D) s = bindE (freevm (kva D) s1) (\<lambda>s. Inr (0, s))"
      using m(1) by (simp add: kn)
    then show ?thesis using m(2-4) by blast
  next
    case True
    have D1: "own1 D = RDir" using grow_keep [OF e(3)] Cons.prems(3) by simp
    have new: "\<forall>(k', n') \<in> set ks. kfresh (view s1 own1) D k' n'"
    proof (clarify, goal_cases)
      case (1 k' n')
      have "unat (virt k) + 4096 * n \<le> unat (virt k')" using Cons.prems(6) 1 by (auto simp: kn)
      moreover have "kfresh (view s own) D k' n'" using Cons.prems(5) 1 by auto
      ultimately show ?case using m(5) True by (simp add: region_def kfresh_def)
    qed
    have rest: "\<forall>(k, n) \<in> set ks. kent k n"
      "sorted_wrt (\<lambda>(k, n) (k', n'). unat (virt k) + 4096 * n \<le> unat (virt k')) ks"
      using Cons.prems(4,6) by simp_all
    obtain s2 own2 fl2 where r: "vm_ext c D s1 own1 s2 own2 fl2" "vm_inv s2 own2 fl2"
      "user_same D (view s1 own1) (view s2 own2)"
      "setupkvm_loop (map fst ks) (kva D) s1 = Inr (kva D, s2) \<and> view s2 own2 = kregions D ks (view s1 own1) \<or>
       setupkvm_loop (map fst ks) (kva D) s1 = bindE (freevm (kva D) s2) (\<lambda>s. Inr (0, s))"
      using Cons.IH [OF m(3) vm_chg_ready [OF e(1) Cons.prems(2)] D1 rest(1) new rest(2)] by blast
    have "setupkvm_loop (map fst (kn # ks)) (kva D) s = setupkvm_loop (map fst ks) (kva D) s1"
      using m(1) True by (simp add: kn)
    moreover have "kregions D (kn # ks) (view s own) = kregions D ks (view s1 own1)" using m(5) True by (simp add: kn)
    ultimately show ?thesis
      using r vm_ext_trans [OF m(2) r(1)] user_same_trans [OF m(4) r(3)] by metis
  qed
qed

text \<open>Where the linker script puts \<open>data\<close>: on a page boundary between the kernel's text and \<open>PHYSTOP\<close>.\<close>

definition kdata_ok :: "uint \<Rightarrow> bool" where
  "kdata_ok data \<longleftrightarrow> page_aligned data \<and> KERNLINK < data \<and> data < P2V PHYSTOP"

text \<open>The layout described in the comment above \<open>kmap\<close>.\<close>

definition kern_pte :: "uint \<Rightarrow> uint \<Rightarrow> uint" where
  "kern_pte data va =
     (if va < KERNBASE then 0
      else if va < KERNLINK then V2P va OR PTE_W OR PTE_P
      else if va < data then V2P va OR PTE_P
      else if va < P2V PHYSTOP then V2P va OR PTE_W OR PTE_P
      else if va < DEVSPACE then 0
      else va OR PTE_W OR PTE_P)"

definition kern_view :: "uint \<Rightarrow> uint \<Rightarrow> view \<Rightarrow> view" where
  "kern_view data D V = (\<lambda>(D', va). if D' = D then if page_aligned va then kern_pte data va else 0 else V (D', va))"

definition kmap_pages :: "uint \<Rightarrow> (kmap_entry \<times> nat) list" where
  "kmap_pages data = zip (kmap data) [256, (unat data - 0x80100000) div 4096, (0x8E000000 - unat data) div 4096, 8192]"

lemma kdata_pages:
  assumes "kdata_ok data"
  obtains k r where "unat data = 0x80100000 + 4096 * k" "0 < k" "0 < r" "k + r = 0xDF00"
    "data = 0x80100000 + of_nat k * 4096" "of_nat k + of_nat r = (0xDF00 :: uint)"
proof -
  obtain q where q: "unat data = 4096 * q" using assms by (auto simp: kdata_ok_def page_aligned_unat)
  define k r where "k = q - 0x80100" and "r = 0x8E000 - q"
  have "0x80100 < q" "q < 0x8E000"
    using assms q by (auto simp: kdata_ok_def P2V_def uint_less_iff_unat)
  then have k: "q = 0x80100 + k" "0 < k" "0 < r" "k + r = 0xDF00" by (simp_all add: k_def r_def)
  have "of_nat k + of_nat r = (of_nat 0xDF00 :: uint)" unfolding k(4) [symmetric] by simp
  moreover have u: "unat data = 0x80100000 + 4096 * k" using q k(1) by simp
  moreover have "data = of_nat (unat data)" by simp
  then have "data = 0x80100000 + of_nat k * 4096" unfolding u by (simp add: mult.commute)
  ultimately show ?thesis using that k(2-4) by simp
qed

lemma kmap_pages_fst: "map fst (kmap_pages data) = kmap data"
  by (simp add: kmap_pages_def kmap_def)

lemma kmap_pages_ok:
  assumes "kdata_ok data"
  shows "\<forall>(k, n) \<in> set (kmap_pages data). kent k n"
    "sorted_wrt (\<lambda>(k, n) (k', n'). unat (virt k) + 4096 * n \<le> unat (virt k')) (kmap_pages data)"
proof -
  obtain k r where d: "unat data = 0x80100000 + 4096 * k" "0 < k" "0 < r" "k + r = 0xDF00"
    "data = 0x80100000 + of_nat k * 4096" "of_nat k + of_nat r = (0xDF00 :: uint)"
    using kdata_pages [OF assms] .
  have al: "page_aligned data" using assms by (simp add: kdata_ok_def)
  have al': "page_aligned 0x80000000" "page_aligned 0x80100000" "page_aligned 0xFE000000"
    by (simp_all add: page_aligned_unat)
  have n2: "(unat data - 0x80100000) div 4096 = k" using d(1) by simp
  have "0x8E000000 - unat data = 4096 * r" using d(1,4) by simp
  then have n3: "(0x8E000000 - unat data) div 4096 = r" by simp
  have r: "of_nat r = (0xDF00 :: uint) - of_nat k" using d(6) by (simp add: eq_diff_eq add.commute)
  show "sorted_wrt (\<lambda>(k, n) (k', n'). unat (virt k) + 4096 * n \<le> unat (virt k')) (kmap_pages data)"
    using d(1,4) unfolding kmap_pages_def kmap_def n2 n3 by simp
  have "PHYSTOP - V2P data = of_nat r * 4096"
    unfolding r d(5) by (simp add: V2P_def algebra_simps)
  moreover have "V2P data - V2P KERNLINK = of_nat k * 4096"
    unfolding d(5) by (simp add: V2P_def algebra_simps)
  moreover have "0x80000000 \<le> data" using d(1) by (simp add: uint_le_iff_unat)
  ultimately show "\<forall>(k, n) \<in> set (kmap_pages data). kent k n"
    using d(1-4) al al' unfolding kmap_pages_def kmap_def n2 n3 by (simp add: kent_def)
qed

lemma kregions_kern:
  assumes "kdata_ok data" "\<And>va. V (D, va) = 0"
  shows "kregions D (kmap_pages data) V = kern_view data D V"
proof (rule view_ext)
  fix D' va
  obtain k r where d: "unat data = 0x80100000 + 4096 * k" "0 < k" "0 < r" "k + r = 0xDF00"
    using kdata_pages [OF assms(1)] .
  have n2: "(unat data - 0x80100000) div 4096 = k" using d(1) by simp
  have "0x8E000000 - unat data = 4096 * r" using d(1,4) by simp
  then have n3: "(0x8E000000 - unat data) div 4096 = r" by simp
  have ends: "0x80100000 + 4096 * k = unat data" "unat data + 4096 * r = 0x8E000000" using d by simp_all
  show "kregions D (kmap_pages data) V (D', va) = kern_view data D V (D', va)"
  proof (cases "D' = D \<and> page_aligned va")
    case True
    have dl: "0x80100000 < unat data" "unat data < 0x8E000000" using d by simp_all
    have pa: "va - KERNBASE = V2P va" "V2P KERNLINK + (va - KERNLINK) = V2P va"
      "V2P data + (va - data) = V2P va" "DEVSPACE + (va - DEVSPACE) = va"
      by (simp_all add: V2P_def)
    show ?thesis using assms(2) True dl unat_less_2p32 [of va]
      unfolding kmap_pages_def kmap_def n2 n3
      by (simp add: region_def pa ends kern_view_def kern_pte_def uint_less_iff_unat P2V_def)
  next
    case False
    then show ?thesis using assms(2)
      unfolding kmap_pages_def kmap_def by (auto simp: region_def kern_view_def)
  qed
qed

text \<open>A new, empty directory.\<close>

lemma new_dir:
  assumes inv: "vm_inv s own fl" and rd: "vm_ready s c"
  obtains (none) s' where "kalloc s = Inr (0, s')" "vm_chg c s s'" "vm_inv s' own []"
      "view s' own = view s own" "mem s' = mem s"
  | (some) D s1 vs where "kalloc s = Inr (kva D, s1)" "kva D \<noteq> 0" "own D = RFree"
      "vm_chg c s (memset_page (kva D) 0 s1)" "vm_inv (memset_page (kva D) 0 s1) (own(D := RDir)) vs"
      "view (memset_page (kva D) 0 s1) (own(D := RDir)) = view s own"
      "\<forall>f. f \<noteq> D \<longrightarrow> mem (memset_page (kva D) 0 s1) f = mem s f"
proof -
  have st: "vm_struct s own fl" and ok: "refs_ok (view s own) (pg_refcount s) own"
    using inv by (simp_all add: vm_inv_def)
  from st rd show ?thesis
  proof (cases rule: kalloc_vm)
    case (none s')
    then show ?thesis
      using that(1) ok view_cong [OF none(4)] by (simp add: vm_inv_def)
  next
    case (some v vs s1)
    let ?D = "frame v"
    let ?s = "memset_page v 0 s1"
    have m: "mem ?s = (mem s1)(?D := (\<lambda>i. 0))" "freelist ?s = freelist s1" "kend ?s = kend s1"
      "pg_refcount ?s = pg_refcount s" using some(6) by (simp_all add: memset_page_0 frame_def)
    have "(own(?D := RHeld)) ?D = RHeld \<or> (own(?D := RHeld)) ?D = RUser" by simp
    note w = vm_struct_write [OF some(7) this m(1-3)]
    have h: "(own(?D := RHeld)) ?D = RHeld" "mem ?s ?D = (\<lambda>i. 0)" using m(1) by simp_all
    note dir = vm_struct_dir [OF w(1) h, unfolded fun_upd_upd]
    have vw: "view ?s (own(?D := RDir)) = view s own" using dir(2) w(2) some(8) by (simp add: fun_upd_def)
    have "refs_ok (view s own) (pg_refcount s) (own(?D := RDir))"
      by (rule refs_ok_cong [OF ok]) (use some(9) in auto)
    then have "vm_inv ?s (own(?D := RDir)) vs" using dir(1) vw m(4) by (simp add: vm_inv_def)
    moreover have "vm_chg c s ?s"
      by (rule vm_chg_trans [OF some(4)]) (auto simp: memset_page_0)
    ultimately show ?thesis
      using that(2) [of ?D s1 vs] some(2,3,5,9,10) vw m(1) by simp
  qed
qed

lemma free_dir_undo:
  assumes st: "vm_struct s own fl" and D: "own D = RFree" and g: "grow D (own(D := RDir)) own'"
    and ok: "\<And>f. own' f = RUser \<Longrightarrow> refs V f \<noteq> 0"
  shows "free_dir D V own' = own"
proof
  fix f
  have nt: "own f \<noteq> RTab D i" for i using vs_tab(1) [OF st, of f D i] D by auto
  have p: "prune V own' f = own' f" using ok [of f] by (auto simp: prune_def)
  have "own' f = (own(D := RDir)) f \<or> (own(D := RDir)) f = RFree \<and> (\<exists>i. own' f = RTab D i)"
    using g by (simp add: grow_def)
  then show "free_dir D V own' f = own f"
    using p nt D unfolding free_dir_def by (metis fun_upd_apply)
qed

definition content_same :: "(uint \<Rightarrow> role) \<Rightarrow> 'z kmemv_scheme \<Rightarrow> 'z kmemv_scheme \<Rightarrow> bool" where
  "content_same own s s' \<longleftrightarrow> (\<forall>f. own f = RUser \<or> own f = RHeld \<longrightarrow> mem s' f = mem s f)"

lemma setupkvm_vm:
  assumes inv: "vm_inv s own fl" and rd: "vm_ready s c" and kd: "kdata_ok (kdata s)"
  obtains (fail) s' fl' where "setupkvm s = Inr (0, s')" "vm_chg c s s'" "vm_inv s' own fl'"
      "view s' own = view s own" "content_same own s s'"
  | (ok) D s' own' fl' where "setupkvm s = Inr (kva D, s')" "kva D \<noteq> 0" "vm_chg c s s'" "vm_inv s' own' fl'"
      "own D = RFree" "grow D (own(D := RDir)) own'" "view s' own' = kern_view (kdata s) D (view s own)"
      "content_same own s s'"
  using inv rd
proof (cases rule: new_dir)
  case (none s')
  then show ?thesis using fail by (simp add: setupkvm_def content_same_def)
next
  case (some D s1 vs)
  let ?s = "memset_page (kva D) 0 s1" and ?o = "own(D := RDir)"
  let ?d = "kdata s"
  have st: "vm_struct s own fl" using inv by (simp add: vm_inv_def)
  have kdd: "kdata ?s = ?d" using vm_chg_sel(2) [OF some(4)] .
  have z: "view s own (D, va) = 0" for va using some(3) by (simp add: view_simp)
  have fr: "\<forall>(k, n) \<in> set (kmap_pages ?d). kfresh (view ?s ?o) D k n"
    by (auto simp: kfresh_def some(6) z)
  have oD: "?o D = RDir" by simp
  have sk: "setupkvm s = setupkvm_loop (map fst (kmap_pages ?d)) (kva D) ?s"
    using some(1,2) kdd by (simp add: setupkvm_def kmap_pages_fst P2V_def)
  obtain s2 own2 fl2 where r: "vm_ext c D ?s ?o s2 own2 fl2" "vm_inv s2 own2 fl2"
    "user_same D (view ?s ?o) (view s2 own2)"
    "setupkvm_loop (map fst (kmap_pages ?d)) (kva D) ?s = Inr (kva D, s2) \<and>
       view s2 own2 = kregions D (kmap_pages ?d) (view ?s ?o) \<or>
     setupkvm_loop (map fst (kmap_pages ?d)) (kva D) ?s = bindE (freevm (kva D) s2) (\<lambda>s. Inr (0, s))"
    using setupkvm_loop_vm [OF some(5) vm_chg_ready [OF some(4) rd] oD kmap_pages_ok(1) [OF kd] fr
        kmap_pages_ok(2) [OF kd]] by blast
  note e = vm_extD [OF r(1)]
  have ch: "vm_chg c s s2" by (rule vm_chg_trans [OF some(4) e(1)])
  have cs: "content_same own s s2" unfolding content_same_def
  proof (intro allI impI)
    fix f assume f: "own f = RUser \<or> own f = RHeld"
    then have "f \<noteq> D" using some(3) by auto
    then show "mem s2 f = mem s f" using e(5) [of f] f some(7) by simp
  qed
  from r(4) show ?thesis
  proof
    assume "setupkvm_loop (map fst (kmap_pages ?d)) (kva D) ?s = Inr (kva D, s2) \<and>
       view s2 own2 = kregions D (kmap_pages ?d) (view ?s ?o)"
    then show ?thesis
      using ok [of D s2 own2 fl2] sk some(2,3,6) ch r(2) e(3) kregions_kern [OF kd, of "view s own" D] z cs by simp
  next
    assume l: "setupkvm_loop (map fst (kmap_pages ?d)) (kva D) ?s = bindE (freevm (kva D) s2) (\<lambda>s. Inr (0, s))"
    have D2: "own2 D = RDir" using grow_keep [OF e(3), of D] by simp
    let ?V = "drop_dir D (view s2 own2)"
    have V: "?V = view s own"
      using r(3) z some(6) by (intro view_ext) (auto simp: drop_dir_def user_same_def)
    have "refs_ok ?V (pg_refcount s2) own2"
    proof -
      have "refs_ok (view s2 own2) (pg_refcount s2) own2" using r(2) by (simp add: vm_inv_def)
      then show ?thesis
        by (rule refs_ok_cong) (use r(3) z some(6) V in \<open>auto simp: user_same_def\<close>)
    qed
    then have "own2 f = RUser \<Longrightarrow> refs ?V f \<noteq> 0" for f using refs_okD(2) by fastforce
    then have u: "free_dir D ?V own2 = own" using free_dir_undo [OF st some(3) e(3)] by blast
    obtain s3 fl3 where f: "freevm (kva D) s2 = Inr s3" "vm_chg c s2 s3" "vm_inv s3 own fl3" "view s3 own = ?V"
      "\<forall>f. own f = RUser \<or> own f = RHeld \<longrightarrow> mem s3 f = mem s2 f"
      using freevm_vm [OF r(2) vm_chg_ready [OF ch rd] D2] unfolding u by blast
    show ?thesis
      using fail [of s3 fl3] sk l f V vm_chg_trans [OF ch f(2)] cs by (simp add: content_same_def)
  qed
qed

end
