(* ===== verification/Vm_Copy.thy ===== *)
theory Vm_Copy
  imports Vm_Kern
begin

text \<open>
  Copy-on-write duplication: \<open>copyuvm\<close> gives the child the parent's pages, all mappings read-only,
  and counts one reference more for each; when it runs out of memory it gives back what it took.
\<close>

section \<open>One page\<close>

lemma vm_inv_touch:
  assumes "vm_struct s own fl" "refs_ok (view s own) r own"
  shows "vm_inv (touch c (s\<lparr>pg_refcount := r\<rparr>)) own fl" "view (touch c (s\<lparr>pg_refcount := r\<rparr>)) own = view s own"
    "vm_chg c s (touch c (s\<lparr>pg_refcount := r\<rparr>))" "mem (touch c (s\<lparr>pg_refcount := r\<rparr>)) = mem s"
proof -
  let ?t = "touch c (s\<lparr>pg_refcount := r\<rparr>)"
  have m: "mem ?t = mem s" "freelist ?t = freelist s" "kend ?t = kend s" by simp_all
  have r: "pg_refcount ?t = r" by (simp add: touch_def upd_cpu_def)
  show "view ?t own = view s own" using vm_struct_cong(2) [OF m] .
  then show "vm_inv ?t own fl" using vm_struct_cong(1) [OF m] assms r by (simp add: vm_inv_def)
  show "vm_chg c s ?t" by (simp add: vm_chg_def touch_def upd_cpu_def)
  show "mem ?t = mem s" by simp
qed

text \<open>Clearing \<open>PTE_W\<close> in the parent's entry.\<close>

lemma clear_parent:
  assumes inv: "vm_inv s own fl" and F: "own F = RTab Q (PDX i)" and i: "page_aligned i" "i < KERNBASE"
    and P: "has (view s own (Q, i)) PTE_P"
  defines "e \<equiv> view s own (Q, i) AND NOT PTE_W"
  defines "s1 \<equiv> st_pte (kva F, PTX i) e s"
  shows "vm_chg c s s1" "vm_inv s1 own fl" "view s1 own = (view s own)((Q, i) := e)" "content_same own s s1"
    "ld_pte s1 (kva F, PTX i) = e"
proof -
  have st: "vm_struct s own fl" and ok: "refs_ok (view s own) (pg_refcount s) own"
    using inv by (simp_all add: vm_inv_def)
  have u: "own (pfn e) = RUser" using vs_user [OF st i(2) P] by (simp add: e_def)
  note sp = st_pte_vm [OF st F i(1), where w = e, folded s1_def, OF u]
  note x = vm_extD [OF sp(1)]
  show "vm_chg c s s1" "view s1 own = (view s own)((Q, i) := e)" using x(1) sp(2) by auto
  have "refs_ok ((view s own)((Q, i) := e)) (pg_refcount s) own"
    by (rule refs_ok_flags [OF ok]) (simp_all add: e_def)
  then show "vm_inv s1 own fl" using x(2,4) sp(2) by (simp add: vm_inv_def)
  show "content_same own s s1" using x(5) by (simp add: content_same_def)
  show "ld_pte s1 (kva F, PTX i) = e" using ld_pte_vm [OF x(2) F i(1)] sp(2) by simp
qed

text \<open>Mapping the page in the child and counting the reference.\<close>

lemma share_child:
  assumes inv: "vm_inv s own fl" and rd: "vm_ready s c" and D: "own D = RDir" and i: "page_aligned i" "i < KERNBASE"
    and new: "\<not> has (view s own (D, i)) PTE_P"
    and e: "has e PTE_P" "\<not> has e PTE_W" "own (pfn e) = RUser" "refs (view s own) (pfn e) < 127"
    and ro: "\<forall>D' a. a < KERNBASE \<longrightarrow> has (view s own (D', a)) PTE_P \<longrightarrow> pfn (view s own (D', a)) = pfn e \<longrightarrow>
      \<not> has (view s own (D', a)) PTE_W"
  obtains (oom) s' where "mappages (kva D) i PGSIZE (PTE_ADDR e) (PTE_FLAGS e) s = Inr (False, s')"
      "vm_chg c s s'" "vm_inv s' own []" "view s' own = view s own" "content_same own s s'"
  | (mapped) s1 s' own' fl' where "mappages (kva D) i PGSIZE (PTE_ADDR e) (PTE_FLAGS e) s = Inr (True, s1)"
      "locked_add_refcount (pfn (PTE_ADDR e)) 1 s1 = Inr s'" "vm_chg c s s'" "vm_inv s' own' fl'"
      "grow D own own'" "view s' own' = (view s own)((D, i) := e)" "content_same own s s'"
proof -
  have st: "vm_struct s own fl" and ok: "refs_ok (view s own) (pg_refcount s) own"
    using inv by (simp_all add: vm_inv_def)
  have w: "PTE_ADDR e OR PTE_FLAGS e OR PTE_P = e" using pte_recompose [OF e(1)] .
  have u: "i < KERNBASE \<longrightarrow> own (pfn (PTE_ADDR e OR PTE_FLAGS e OR PTE_P)) = RUser"
    unfolding w using e(3) by simp
  from st rd D i(1) new u show ?thesis
  proof (cases rule: mappages_page)
    case (oom s')
    note x = vm_extD [OF oom(2)]
    show ?thesis
      by (rule that(1) [OF oom(1) x(1)]) (use x ok oom(3) in \<open>auto simp: vm_inv_def content_same_def\<close>)
  next
    case (mapped s1 own' fl')
    note x = vm_extD [OF mapped(2)]
    let ?f = "pfn e"
    let ?r = "(pg_refcount s1)(?f := pg_refcount s1 ?f + 1)"
    have v: "view s1 own' = (view s own)((D, i) := e)" using mapped(3) unfolding w .
    have "refs_ok ((view s own)((D, i) := e)) ((pg_refcount s)(?f := pg_refcount s ?f + 1)) own"
      by (rule refs_ok_share [OF ok i(2) new e(1,2,3) refl e(4)]) (use ro in blast)
    then have ok': "refs_ok (view s1 own') ?r own'"
      unfolding v x(4) by (rule refs_ok_cong) (use grow_user [OF x(3)] in auto)
    note t = vm_inv_touch [OF x(2) ok', of c]
    have "own' ?f = RUser" using e(3) grow_user [OF x(3)] by blast
    then have b: "?f < NREFCOUNT" using vs_bounds(1) [OF x(2)] by simp
    show ?thesis
    proof (rule that(2) [OF mapped(1) _ vm_chg_trans [OF x(1) t(3)] t(1) x(3)])
      show "locked_add_refcount (pfn (PTE_ADDR e)) 1 s1 = Inr (touch c (s1\<lparr>pg_refcount := ?r\<rparr>))"
        using locked_add_refcount_vm [OF vm_chg_ready [OF x(1) rd] b] by simp
    qed (use t(2,4) v x(5) in \<open>simp_all add: content_same_def\<close>)
  qed
qed

section \<open>The loop\<close>

definition share :: "uint \<Rightarrow> uint \<Rightarrow> uint \<Rightarrow> uint \<Rightarrow> view \<Rightarrow> view" where
  "share Q D i b V = (\<lambda>(D', va).
     if page_aligned va \<and> i \<le> va \<and> va < b \<and> (D' = Q \<or> D' = D) then V (Q, va) AND NOT PTE_W else V (D', va))"

text \<open>References of a frame once the pages of \<open>Q\<close> from \<open>i\<close> to \<open>b\<close> have been shared.\<close>

definition pages_of :: "view \<Rightarrow> uint \<Rightarrow> uint \<Rightarrow> uint \<Rightarrow> uint \<Rightarrow> uint set" where
  "pages_of V Q i b f = {va. page_aligned va \<and> i \<le> va \<and> va < b \<and> pfn (V (Q, va)) = f}"

definition room :: "view \<Rightarrow> uint \<Rightarrow> uint \<Rightarrow> uint \<Rightarrow> uint \<Rightarrow> nat" where
  "room V Q i b f = refs V f + card (pages_of V Q i b f)"

lemma aligned_step:
  assumes "page_aligned i" "i < b" "b \<le> KERNBASE" "page_aligned va"
  shows "i + 4096 \<le> va \<longleftrightarrow> i < va"
proof -
  have "unat i < 2147483648" using assms(2,3) by (auto simp: uint_less_iff_unat uint_le_iff_unat)
  then have "unat (i + 4096) = unat i + 4096" by (simp add: unat_word_ariths)
  then show ?thesis using aligned_gap(1) [OF assms(1,4)] by (auto simp: uint_le_iff_unat uint_less_iff_unat)
qed

lemma share_empty: "b \<le> i \<Longrightarrow> share Q D i b V = V"
  by (rule view_ext) (auto simp: share_def)

lemma share_first:
  assumes Q: "Q \<noteq> D" and i: "page_aligned i" "i < b" "b \<le> KERNBASE" and j: "j \<le> b" "i < j"
  shows "share Q D (i + 4096) j (V((Q, i) := V (Q, i) AND NOT PTE_W, (D, i) := V (Q, i) AND NOT PTE_W)) = share Q D i j V"
proof (rule view_ext)
  fix D' va
  show "share Q D (i + 4096) j (V((Q, i) := V (Q, i) AND NOT PTE_W, (D, i) := V (Q, i) AND NOT PTE_W)) (D', va) =
    share Q D i j V (D', va)"
    using aligned_step [OF i, of va] Q j i(1) by (cases "va = i") (auto simp: share_def)
qed

lemma pages_of_first:
  assumes "Q \<noteq> D" and i: "page_aligned i" "i < b" "b \<le> KERNBASE" and "W = V((Q, i) := w, (D, i) := w')"
  shows "pages_of V Q i b f = pages_of W Q (i + 4096) b f \<union> (if pfn (V (Q, i)) = f then {i} else {})"
    "i \<notin> pages_of W Q (i + 4096) b f"
  using aligned_step [OF i] assms by (auto simp: pages_of_def)

text \<open>Sharing one page keeps the room of every frame.\<close>

lemma room_first:
  assumes Q: "Q \<noteq> D" and i: "page_aligned i" "i < b" "b \<le> KERNBASE"
    and P: "has (V (Q, i)) PTE_P" "\<not> has (V (D, i)) PTE_P"
  defines "e \<equiv> V (Q, i) AND NOT PTE_W"
  shows "room (V((Q, i) := e, (D, i) := e)) Q (i + 4096) b f = room V Q i b f"
    "refs (V((Q, i) := e)) f = refs V f" "refs V (pfn e) < room V Q i b (pfn e)"
proof -
  let ?V1 = "V((Q, i) := e)" and ?V2 = "V((Q, i) := e, (D, i) := e)"
  have e: "has e PTE_P" "pfn e = pfn (V (Q, i))" using P(1) by (simp_all add: e_def)
  show r1: "refs ?V1 f = refs V f" for f using P(1) e by (intro refs_upd_same) auto
  have iK: "i < KERNBASE" using i(2,3) by (rule less_le_trans)
  have r2: "refs ?V2 f = (if f = pfn e then Suc (refs V f) else refs V f)"
  proof (cases "f = pfn e")
    case True
    then have "refs ?V2 f = Suc (refs ?V1 f)" using iK P(2) Q e by (intro refs_upd_new) auto
    then show ?thesis using True r1 by simp
  next
    case False
    then have "refs ?V2 f = refs ?V1 f" using P(2) Q by (intro refs_upd_other) auto
    then show ?thesis using False r1 by simp
  qed
  note pg = pages_of_first [OF Q i, of ?V2 V e e]
  have "card (pages_of V Q i b f) = card (pages_of ?V2 Q (i + 4096) b f) + (if f = pfn e then 1 else 0)"
    using pg(2) [of f] unfolding pg(1) [OF refl] e(2) by auto
  then show "room ?V2 Q (i + 4096) b f = room V Q i b f" by (simp add: room_def r2)
  have "i \<in> pages_of V Q i b (pfn e)" using i e(2) by (simp add: pages_of_def)
  then have "card (pages_of V Q i b (pfn e)) > 0" by (auto simp: card_gt_0_iff)
  then show "refs V (pfn e) < room V Q i b (pfn e)" by (simp add: room_def)
qed

text \<open>A page that is mapped by the parent is written by nobody once the parent's entry is read-only.\<close>

lemma ro_after_clear:
  assumes ok: "refs_ok V rc own" and P: "has (V (Q, i)) PTE_P" "i < KERNBASE"
    and a: "a < KERNBASE" "has ((V((Q, i) := e)) (D', a)) PTE_P" "pfn ((V((Q, i) := e)) (D', a)) = pfn (V (Q, i))"
    and e: "\<not> has e PTE_W"
  shows "\<not> has ((V((Q, i) := e)) (D', a)) PTE_W"
proof
  assume w: "has ((V((Q, i) := e)) (D', a)) PTE_W"
  then have ne: "(D', a) \<noteq> (Q, i)" using e by auto
  then have "has (V (D', a)) PTE_P" "has (V (D', a)) PTE_W" "pfn (V (D', a)) = pfn (V (Q, i))" using a w by auto
  then have "card (mapset V (pfn (V (Q, i)))) = 1" using refs_okD(5) [OF ok a(1), of D'] by (simp add: refs_def)
  moreover have "(D', a) \<in> mapset V (pfn (V (Q, i)))" "(Q, i) \<in> mapset V (pfn (V (Q, i)))"
    using a P ne \<open>pfn (V (D', a)) = _\<close> by (auto simp: in_mapset)
  ultimately show False using ne by (auto simp: card_1_singleton_iff)
qed

lemma content_same_trans:
  "content_same own s s1 \<Longrightarrow> grow D own own1 \<Longrightarrow> content_same own1 s1 s2 \<Longrightarrow> content_same own s s2"
  unfolding content_same_def using grow_keep [of D own own1]
  by (metis role.distinct(11) role.distinct(17))

lemma copyuvm_loop_vm:
  assumes "vm_inv s own fl" "vm_ready s c" "own Q = RDir" "own D = RDir" "Q \<noteq> D" "page_aligned i" "b \<le> KERNBASE"
    and "\<And>va. page_aligned va \<Longrightarrow> i \<le> va \<Longrightarrow> va < b \<Longrightarrow>
      has (view s own (Q, va)) PTE_P \<and> \<not> has (view s own (D, va)) PTE_P"
    and "\<And>f. own f = RUser \<Longrightarrow> room (view s own) Q i b f \<le> 127"
    and "unat b + 4096 \<le> unat i + 4096 * n" "0 < n"
  shows "\<exists>ok s' own' fl'. copyuvm_loop m1 m2 n (kva Q) (kva D) i b s = Inr (ok, s') \<and>
    vm_chg c s s' \<and> vm_inv s' own' fl' \<and> grow D own own' \<and> content_same own s s' \<and>
    (if ok then view s' own' = share Q D i b (view s own)
     else \<exists>j. page_aligned j \<and> i \<le> j \<and> j < b \<and>
       view s' own' = (share Q D i j (view s own))((Q, j) := view s own (Q, j) AND NOT PTE_W))"
  using assms
proof (induction n arbitrary: s own fl i)
  case (Suc n s own fl i)
  let ?V = "view s own"
  have st: "vm_struct s own fl" and ok: "refs_ok ?V (pg_refcount s) own"
    using Suc.prems(1) by (simp_all add: vm_inv_def)
  show ?case
  proof (cases "i < b")
    case False
    then have "copyuvm_loop m1 m2 (Suc n) (kva Q) (kva D) i b s = Inr (True, s)" by simp
    moreover have "view s own = share Q D i b ?V" using False share_empty [of b i] by (simp add: not_less)
    ultimately show ?thesis using Suc.prems(1) vm_chg_refl grow_refl
      by (intro exI [of _ True] exI [of _ s] exI [of _ own] exI [of _ fl]) (simp add: content_same_def)
  next
    case True
    have iK: "i < KERNBASE" using True Suc.prems(7) by (rule less_le_trans)
    have P: "has (?V (Q, i)) PTE_P" "\<not> has (?V (D, i)) PTE_P" using Suc.prems(8) [of i] Suc.prems(6) True by auto
    let ?e = "?V (Q, i) AND NOT PTE_W"
    note rm = room_first [OF Suc.prems(5,6) True Suc.prems(7) P]
    obtain F where F: "walkpgdir (kva Q) i False s = Inr (Some (kva F, PTX i), s)" "own F = RTab Q (PDX i)"
      using walk_present [OF st Suc.prems(3) P(1)] .
    note ld = ld_pte_vm [OF st F(2) Suc.prems(6)]
    define s1 where "s1 = st_pte (kva F, PTX i) ?e s"
    note cp = clear_parent [OF Suc.prems(1) F(2) Suc.prems(6) iK P(1), folded s1_def]
    have u: "own (pfn ?e) = RUser" using vs_user [OF st iK P(1)] by simp
    have new: "\<not> has (view s1 own (D, i)) PTE_P" using P(2) Suc.prems(5) cp(3) by simp
    have e: "has ?e PTE_P" "\<not> has ?e PTE_W" "refs (view s1 own) (pfn ?e) < 127"
      using P(1) rm(2,3) Suc.prems(9) [OF u] unfolding cp(3) by simp_all
    have ro: "\<forall>D' a. a < KERNBASE \<longrightarrow> has (view s1 own (D', a)) PTE_P \<longrightarrow>
      pfn (view s1 own (D', a)) = pfn ?e \<longrightarrow> \<not> has (view s1 own (D', a)) PTE_W"
      using ro_after_clear [OF ok P(1) iK, where e = ?e] e(2) unfolding cp(3) clear_W(4) by blast
    have step: "copyuvm_loop m1 m2 (Suc n) (kva Q) (kva D) i b s =
      bindE (mappages (kva D) i PGSIZE (PTE_ADDR ?e) (PTE_FLAGS ?e) s1) (\<lambda>(ok, s).
        if \<not> ok then Inr (False, s)
        else bindE (locked_add_refcount (pfn (PTE_ADDR ?e)) 1 s) (copyuvm_loop m1 m2 n (kva Q) (kva D) (i + PGSIZE) b))"
      using True F(1) ld P(1) cp(5) by (simp add: s1_def Let_def cong: if_cong)
    from cp(2) vm_chg_ready [OF cp(1) Suc.prems(2)] Suc.prems(4,6) iK new e(1,2) u e(3) ro
    show ?thesis
    proof (cases rule: share_child)
      case (oom s')
      have "copyuvm_loop m1 m2 (Suc n) (kva Q) (kva D) i b s = Inr (False, s')" using step oom(1) by simp
      moreover have "view s' own = (share Q D i i ?V)((Q, i) := ?e)"
        using oom(4) cp(3) share_empty [of i i] by simp
      moreover have "content_same own s s'" using cp(4) oom(5) by (simp add: content_same_def)
      ultimately show ?thesis using oom(3) vm_chg_trans [OF cp(1) oom(2)] grow_refl Suc.prems(6) True
        by (intro exI [of _ False] exI [of _ s'] exI [of _ own] exI [of _ "[]"]) auto
    next
      case (mapped s2 s3 own3 fl3)
      have V3: "view s3 own3 = ?V((Q, i) := ?e, (D, i) := ?e)" using mapped(6) cp(3) by simp
      have ui: "unat (i + 4096) = unat i + 4096"
        using iK by (simp add: unat_word_ariths uint_less_iff_unat)
      have fuel: "unat b + 4096 \<le> unat (i + 4096) + 4096 * n" "0 < n"
        using Suc.prems(10) True by (auto simp: ui uint_less_iff_unat intro!: gr0I)
      have "\<exists>ok s' own' fl'. copyuvm_loop m1 m2 n (kva Q) (kva D) (i + 4096) b s3 = Inr (ok, s') \<and>
        vm_chg c s3 s' \<and> vm_inv s' own' fl' \<and> grow D own3 own' \<and> content_same own3 s3 s' \<and>
        (if ok then view s' own' = share Q D (i + 4096) b (view s3 own3)
         else \<exists>j. page_aligned j \<and> i + 4096 \<le> j \<and> j < b \<and>
           view s' own' = (share Q D (i + 4096) j (view s3 own3))((Q, j) := view s3 own3 (Q, j) AND NOT PTE_W))"
      proof (rule Suc.IH [OF mapped(4)])
        show "vm_ready s3 c" using vm_chg_ready [OF mapped(3)] vm_chg_ready [OF cp(1) Suc.prems(2)] by blast
        show "own3 Q = RDir" "own3 D = RDir" using grow_keep [OF mapped(5)] Suc.prems(3,4) by simp_all
        show "page_aligned (i + 4096)" using Suc.prems(6) by simp
        show "has (view s3 own3 (Q, va)) PTE_P \<and> \<not> has (view s3 own3 (D, va)) PTE_P"
          if "page_aligned va" "i + 4096 \<le> va" "va < b" for va
          using Suc.prems(8) [OF that(1) _ that(3)] aligned_step [OF Suc.prems(6) True Suc.prems(7) that(1)] that(2)
          unfolding V3 by simp
        show "room (view s3 own3) Q (i + 4096) b f \<le> 127" if "own3 f = RUser" for f
          using rm(1) [of f] Suc.prems(9) [of f] that grow_user [OF mapped(5)] unfolding V3 by simp
      qed (use Suc.prems(5,7) fuel in simp_all)
      then obtain ok s' own' fl' where r: "copyuvm_loop m1 m2 n (kva Q) (kva D) (i + 4096) b s3 = Inr (ok, s')"
        "vm_chg c s3 s'" "vm_inv s' own' fl'" "grow D own3 own'" "content_same own3 s3 s'"
        "if ok then view s' own' = share Q D (i + 4096) b (view s3 own3)
         else \<exists>j. page_aligned j \<and> i + 4096 \<le> j \<and> j < b \<and>
           view s' own' = (share Q D (i + 4096) j (view s3 own3))((Q, j) := view s3 own3 (Q, j) AND NOT PTE_W)"
        by blast
      have cs: "content_same own s s'"
        using cp(4) mapped(7) content_same_trans [OF _ mapped(5) r(5), of s] by (simp add: content_same_def)
      have res: "if ok then view s' own' = share Q D i b ?V
        else \<exists>j. page_aligned j \<and> i \<le> j \<and> j < b \<and>
          view s' own' = (share Q D i j ?V)((Q, j) := ?V (Q, j) AND NOT PTE_W)"
      proof (cases ok)
        case True
        then show ?thesis using r(6) share_first [OF Suc.prems(5,6) \<open>i < b\<close> Suc.prems(7) order_refl \<open>i < b\<close>]
          unfolding V3 by simp
      next
        case False
        then obtain j where j: "page_aligned j" "i + 4096 \<le> j" "j < b"
          "view s' own' = (share Q D (i + 4096) j (view s3 own3))((Q, j) := view s3 own3 (Q, j) AND NOT PTE_W)"
          using r(6) by auto
        have ij: "i < j" using aligned_step [OF Suc.prems(6) \<open>i < b\<close> Suc.prems(7) j(1)] j(2) by simp
        have "view s' own' = (share Q D i j ?V)((Q, j) := ?V (Q, j) AND NOT PTE_W)"
          using j(4) ij share_first [OF Suc.prems(5,6) \<open>i < b\<close> Suc.prems(7) order.strict_implies_order [OF j(3)] ij]
          unfolding V3 by simp
        then show ?thesis using j(1,3) ij False by (auto intro!: exI [of _ j])
      qed
      have "copyuvm_loop m1 m2 (Suc n) (kva Q) (kva D) i b s = Inr (ok, s')"
        using step mapped(1,2) r(1) by simp
      then show ?thesis
        using r(3) cs res vm_chg_trans [OF cp(1) vm_chg_trans [OF mapped(3) r(2)]] grow_trans [OF mapped(5) r(4)]
        by blast
    qed
  qed
qed simp

section \<open>copyuvm\<close>

text \<open>Entries that differ at most in \<open>PTE_W\<close>, cleared, and only in directory \<open>Q\<close>.\<close>

definition less_W :: "uint \<Rightarrow> view \<Rightarrow> view \<Rightarrow> bool" where
  "less_W Q V W \<longleftrightarrow> (\<forall>D va. W (D, va) = V (D, va) \<or> D = Q \<and> W (D, va) = V (D, va) AND NOT PTE_W)"

lemma less_W_mapset: "less_W Q V W \<Longrightarrow> mapset W f = mapset V f"
proof -
  assume l: "less_W Q V W"
  have "k \<in> mapset W f \<longleftrightarrow> k \<in> mapset V f" for k
    using l [unfolded less_W_def, rule_format, of "fst k" "snd k"] by (auto simp: in_mapset)
  then show ?thesis by blast
qed

lemma lcr3_sel [simp]: "mem (lcr3 pa s) = mem s" "cr3 (lcr3 pa s) = pa" "tlb (lcr3 pa s) = Map.empty"
  by (simp_all add: lcr3_def)

lemma vm_inv_lcr3:
  "vm_inv (lcr3 pa s) own fl = vm_inv s own fl" "view (lcr3 pa s) own = view s own"
  "content_same own s (lcr3 pa s')  = content_same own s s'"
  using vm_struct_cong [of "lcr3 pa s" s] by (simp_all add: vm_inv_def lcr3_def content_same_def)

lemma kern_view_user: "va < KERNBASE \<Longrightarrow> kern_view data D V (D', va) = (if D' = D then 0 else V (D', va))"
  by (simp add: kern_view_def kern_pte_def)

lemma kern_view_refs:
  assumes "\<And>va. V (D, va) = 0"
  shows "refs (kern_view data D V) f = refs V f"
  by (rule refs_cong) (use assms in \<open>auto simp: kern_view_user\<close>)

lemma kern_view_room:
  assumes "\<And>va. V (D, va) = 0" "Q \<noteq> D"
  shows "room (kern_view data D V) Q i b f = room V Q i b f"
proof -
  have "pages_of (kern_view data D V) Q i b f = pages_of V Q i b f"
    using assms(2) by (simp add: pages_of_def kern_view_def)
  then show ?thesis by (simp add: room_def kern_view_refs [of V D, OF assms(1)])
qed

lemma copyuvm_vm:
  assumes inv: "vm_inv s own fl" and rd: "vm_ready s c" and kd: "kdata_ok (kdata s)"
    and Q: "own Q = RDir" and sz: "sz \<le> KERNBASE"
    and P: "\<forall>va. page_aligned va \<and> va < sz \<longrightarrow> has (view s own (Q, va)) PTE_P"
    and R: "\<forall>f. own f = RUser \<longrightarrow> room (view s own) Q 0 sz f \<le> 127"
  obtains (fail) s' fl' where "copyuvm (kva Q) sz s = Inr (0, s')" "vm_inv s' own fl'"
      "content_same own s s'" "less_W Q (view s own) (view s' own)"
  | (ok) D s1 own' fl' where "copyuvm (kva Q) sz s = Inr (kva D, lcr3 (V2P (kva Q)) s1)" "kva D \<noteq> 0"
      "own D = RFree" "vm_chg c s s1" "vm_inv s1 own' fl'" "grow D (own(D := RDir)) own'" "content_same own s s1"
      "view s1 own' = share Q D 0 sz (kern_view (kdata s) D (view s own))"
  using inv rd kd
proof (cases rule: setupkvm_vm)
  case (fail s' fl')
  show ?thesis
    by (rule that(1) [of s' fl']) (use fail in \<open>simp_all add: copyuvm_def less_W_def\<close>)
next
  case (ok D s1 own1 fl1)
  let ?V = "view s own" and ?V1 = "view s1 own1"
  have st: "vm_struct s own fl" using inv by (simp add: vm_inv_def)
  have z: "?V (D, va) = 0" for va using ok(5) by (simp add: view_simp)
  have QD: "Q \<noteq> D" using Q ok(5) by auto
  have own1: "own1 Q = RDir" "own1 D = RDir" using grow_keep [OF ok(6)] Q QD by auto
  have u1: "own1 f = RUser \<longleftrightarrow> own f = RUser" for f
    using grow_user [OF ok(6), of f] ok(5) by auto
  have pres: "has (?V1 (Q, va)) PTE_P \<and> \<not> has (?V1 (D, va)) PTE_P" if "page_aligned va" "0 \<le> va" "va < sz" for va
    using P that sz QD by (simp add: ok(7) kern_view_user)
  have rm: "room ?V1 Q 0 sz f \<le> 127" if "own1 f = RUser" for f
    using R that kern_view_room [of ?V D, OF z QD] by (simp add: ok(7) u1)
  have "unat sz < 4096 * (unat sz div 4096) + 4096"
    using mod_less_divisor [of 4096 "unat sz"] mult_div_mod_eq [of 4096 "unat sz"] by linarith
  then have fuel: "unat sz + 4096 \<le> unat 0 + 4096 * Suc (Suc (unat (pfn sz)))" by (simp add: unat_pfn)
  obtain b s2 own2 fl2 where l: "copyuvm_loop ''copyuvm: pte should exist'' ''copyuvm: page not present''
      (Suc (Suc (unat (pfn sz)))) (kva Q) (kva D) 0 sz s1 = Inr (b, s2)"
    "vm_chg c s1 s2" "vm_inv s2 own2 fl2" "grow D own1 own2" "content_same own1 s1 s2"
    "if b then view s2 own2 = share Q D 0 sz ?V1
     else \<exists>j. page_aligned j \<and> 0 \<le> j \<and> j < sz \<and>
       view s2 own2 = (share Q D 0 j ?V1)((Q, j) := ?V1 (Q, j) AND NOT PTE_W)"
    using copyuvm_loop_vm [OF ok(4) vm_chg_ready [OF ok(3) rd] own1 QD page_aligned_0 sz pres rm fuel zero_less_Suc]
    by blast
  have ch: "vm_chg c s s2" by (rule vm_chg_trans [OF ok(3) l(2)])
  have g: "grow D (own(D := RDir)) own2" by (rule grow_trans [OF ok(6) l(4)])
  have cs: "content_same own s s2" unfolding content_same_def
  proof (intro allI impI)
    fix f assume f: "own f = RUser \<or> own f = RHeld"
    then have "own1 f = own f" using grow_keep [OF ok(6), of f] ok(5) by (auto split: if_splits)
    then show "mem s2 f = mem s f" using f ok(8) l(5) unfolding content_same_def by metis
  qed
  show ?thesis
  proof (cases b)
    case True
    show ?thesis
      by (rule that(2) [OF _ ok(2,5) ch l(3) g cs]) (use ok(1,2,7) l(1,6) True in \<open>simp_all add: copyuvm_def del: copyuvm_loop.simps\<close>)
  next
    case False
    let ?V2 = "drop_dir D (view s2 own2)"
    obtain j where j: "view s2 own2 = (share Q D 0 j ?V1)((Q, j) := ?V1 (Q, j) AND NOT PTE_W)"
      using l(6) False by auto
    have lw: "less_W Q ?V ?V2" unfolding less_W_def j ok(7)
    proof (intro allI)
      fix D' va
      let ?W = "drop_dir D ((share Q D 0 j (kern_view (kdata s) D ?V))((Q, j) := kern_view (kdata s) D ?V (Q, j) AND NOT PTE_W))"
      show "?W (D', va) = ?V (D', va) \<or> D' = Q \<and> ?W (D', va) = ?V (D', va) AND NOT PTE_W"
        using z QD by (cases "D' = D"; cases "D' = Q") (simp_all add: drop_dir_def share_def kern_view_def)
    qed
    have D2: "own2 D = RDir" using grow_keep [OF l(4)] own1 by simp
    have "refs ?V2 f = refs ?V f" for f by (simp add: refs_def less_W_mapset [OF lw])
    then have "refs ?V2 f \<noteq> 0" if "own2 f = RUser" for f
      using refs_okD(2) [of ?V "pg_refcount s" own f] inv that grow_user [OF l(4)] u1 by (simp add: vm_inv_def)
    then have fd: "free_dir D ?V2 own2 = own" using free_dir_undo [OF st ok(5) g] by blast
    obtain s3 fl3 where f: "freevm (kva D) s2 = Inr s3" "vm_chg c s2 s3" "vm_inv s3 own fl3" "view s3 own = ?V2"
      "\<forall>f. own f = RUser \<or> own f = RHeld \<longrightarrow> mem s3 f = mem s2 f"
      using freevm_vm [OF l(3) vm_chg_ready [OF ch rd] D2] unfolding fd by blast
    have "copyuvm (kva Q) sz s = Inr (0, lcr3 (V2P (kva Q)) s3)"
      using ok(1,2) l(1) False f(1) by (simp add: copyuvm_def del: copyuvm_loop.simps)
    then show ?thesis
      by (rule that(1)) (use f(3-5) lw cs in \<open>simp_all add: vm_inv_lcr3(1,2) content_same_def\<close>)
  qed
qed

end
