(* ===== verification/Vm_Props.thy ===== *)
theory Vm_Props
  imports Vm_Copy Vm_Example
begin

text \<open>
  The properties of vm.c, stated over the invariant \<open>vm_inv\<close> and the views of the address spaces,
  each applied to the concrete machine of theory Vm_Example.
\<close>

section \<open>Duplication of an address space\<close>

text \<open>
  C2. \<open>copyuvm\<close> on a directory whose pages below \<open>sz\<close> are present never panics. It keeps the
  invariant (exact reference counts, at most one mapping of a writable page, free list disjoint
  from all pages in use) and changes no page contents. Either it returns 0, no page is leaked and
  the parent's entries lost at most \<open>PTE_W\<close>; or it returns a new directory in which every page
  below \<open>sz\<close> has the parent's entry, both without \<open>PTE_W\<close>, the rest of the user half is empty, the
  kernel half is the kernel's layout, all other address spaces are unchanged, and the TLB is
  flushed.
\<close>

theorem copyuvm_correct:
  assumes "vm_inv s own fl" "vm_ready s c" "kdata_ok (kdata s)" "own Q = RDir" "sz \<le> KERNBASE"
    and "\<forall>va. page_aligned va \<and> va < sz \<longrightarrow> has (view s own (Q, va)) PTE_P"
    and "\<forall>f. own f = RUser \<longrightarrow> room (view s own) Q 0 sz f \<le> 127"
  shows "\<exists>d s' own' fl'. copyuvm (kva Q) sz s = Inr (d, s') \<and> vm_inv s' own' fl' \<and> content_same own s s' \<and>
    (d = 0 \<and> own' = own \<and> less_W Q (view s own) (view s' own) \<or>
     (\<exists>D. d = kva D \<and> d \<noteq> 0 \<and> own D = RFree \<and> own' D = RDir \<and> cr3 s' = V2P (kva Q) \<and> tlb s' = Map.empty \<and>
       (\<forall>va. page_aligned va \<and> va < sz \<longrightarrow>
          view s' own' (Q, va) = view s own (Q, va) AND NOT PTE_W \<and>
          view s' own' (D, va) = view s own (Q, va) AND NOT PTE_W) \<and>
       (\<forall>va. sz \<le> va \<and> va < KERNBASE \<longrightarrow> view s' own' (D, va) = 0) \<and>
       (\<forall>va. page_aligned va \<and> KERNBASE \<le> va \<longrightarrow> view s' own' (D, va) = kern_pte (kdata s) va) \<and>
       (\<forall>E va. E \<noteq> D \<and> (E \<noteq> Q \<or> sz \<le> va) \<longrightarrow> view s' own' (E, va) = view s own (E, va))))"
  using assms
proof (cases rule: copyuvm_vm)
  case (fail s' fl')
  then show ?thesis by blast
next
  case (ok D s1 own' fl')
  let ?s = "lcr3 (V2P (kva Q)) s1"
  have QD: "Q \<noteq> D" using ok(3) assms(4) by auto
  have oD: "own' D = RDir" using grow_keep [OF ok(6), of D] by simp
  have v: "view ?s own' = share Q D 0 sz (kern_view (kdata s) D (view s own))"
    using ok(8) by (simp add: vm_inv_lcr3)
  have "sz \<le> va \<Longrightarrow> \<not> va < sz" for va by simp
  moreover have "KERNBASE \<le> va \<Longrightarrow> \<not> va < sz" for va using assms(5) by auto
  ultimately have w:
    "\<forall>va. page_aligned va \<and> va < sz \<longrightarrow> view ?s own' (Q, va) = view s own (Q, va) AND NOT PTE_W \<and>
       view ?s own' (D, va) = view s own (Q, va) AND NOT PTE_W"
    "\<forall>va. sz \<le> va \<and> va < KERNBASE \<longrightarrow> view ?s own' (D, va) = 0"
    "\<forall>va. page_aligned va \<and> KERNBASE \<le> va \<longrightarrow> view ?s own' (D, va) = kern_pte (kdata s) va"
    "\<forall>E va. E \<noteq> D \<and> (E \<noteq> Q \<or> sz \<le> va) \<longrightarrow> view ?s own' (E, va) = view s own (E, va)"
    unfolding v using QD by (auto simp: share_def kern_view_def kern_pte_def)
  have x: "copyuvm (kva Q) sz s = Inr (kva D, ?s)" "vm_inv ?s own' fl'" "content_same own s ?s"
    "kva D \<noteq> 0" "own D = RFree" "cr3 ?s = V2P (kva Q)" "tlb ?s = Map.empty"
    using ok by (simp_all add: vm_inv_lcr3)
  show ?thesis
    by (rule exI [of _ "kva D"], rule exI [of _ ?s], rule exI [of _ own'], rule exI [of _ fl'],
        intro conjI disjI2 exI [of _ D] refl x w oD)
qed

lemma ex_aligned: "page_aligned va \<and> va < 0x1000 \<longleftrightarrow> va = 0"
proof -
  have "va = 0" if "page_aligned va" "va < 0x1000"
    using that by (simp add: page_aligned_unat uint_less_iff_unat unat_eq_0)
  then show ?thesis by auto
qed

lemma ex_copy_ok:
  assumes "ex_vm s"
  shows "kdata_ok (kdata s)" "ex_own 0x1000 = RDir" "kva 0x1000 = 0x81000000"
    "\<forall>va. page_aligned va \<and> va < 0x1000 \<longrightarrow> has (view s ex_own (0x1000, va)) PTE_P"
    "\<forall>f. ex_own f = RUser \<longrightarrow> room (view s ex_own) 0x1000 0 0x1000 f \<le> 127"
proof -
  have v: "view s ex_own = (\<lambda>k. 0)((0x1000, 0) := 0x1002007)" by (rule ex_view) (use assms in \<open>simp add: ex_vm_def\<close>)
  show "kdata_ok (kdata s)" using assms by (simp add: ex_vm_def kdata_ok_def page_aligned_unat P2V_def)
  show "ex_own 0x1000 = RDir" "kva 0x1000 = 0x81000000" by (simp_all add: ex_own_def ex_kva)
  show "\<forall>va. page_aligned va \<and> va < 0x1000 \<longrightarrow> has (view s ex_own (0x1000, va)) PTE_P"
    unfolding ex_aligned v by (simp add: has_def)
  have "pages_of (view s ex_own) 0x1000 0 0x1000 f \<subseteq> {0}" for f
    using ex_aligned by (auto simp: pages_of_def)
  then have a: "card (pages_of (view s ex_own) 0x1000 0 0x1000 f) \<le> 1" for f
    using card_mono [of "{0 :: uint}"] by fastforce
  have b: "refs (view s ex_own) f \<le> 1" for f unfolding v refs_def ex_mapset by simp
  have "room (view s ex_own) 0x1000 0 0x1000 f \<le> 127" for f
    unfolding room_def using a [of f] b [of f] by linarith
  then show "\<forall>f. ex_own f = RUser \<longrightarrow> room (view s ex_own) 0x1000 0 0x1000 f \<le> 127" by blast
qed

theorem copyuvm_correct_witness:
  "\<exists>d s' own' fl'. copyuvm 0x81000000 0x1000 ex_state = Inr (d, s') \<and> vm_inv s' own' fl' \<and>
     content_same ex_own ex_state s'"
  using copyuvm_correct [OF ex_inv [OF ex_state_vm(1)] ex_state_vm(2) ex_copy_ok(1,2) [OF ex_state_vm(1)] _
      ex_copy_ok(4,5) [OF ex_state_vm(1)]] ex_copy_ok(3) [OF ex_state_vm(1)]
  by auto

section \<open>Building and releasing address spaces\<close>

text \<open>
  C3. \<open>freevm\<close> of a directory never panics and frees nothing twice: the directory and its page
  tables go to the free list, a user page goes there exactly when no other address space maps it,
  the other address spaces keep their entries, surviving pages keep their contents, and the
  invariant holds afterwards.
\<close>

theorem freevm_correct:
  assumes "vm_inv s own fl" "vm_ready s c" "own D = RDir"
  shows "\<exists>s' own' fl'. freevm (kva D) s = Inr s' \<and> vm_inv s' own' fl' \<and>
    own' D = RFree \<and> (\<forall>f i. own f = RTab D i \<longrightarrow> own' f = RFree) \<and>
    (\<forall>f. own f = RUser \<longrightarrow> own' f =
       (if \<exists>E va. E \<noteq> D \<and> va < KERNBASE \<and> has (view s own (E, va)) PTE_P \<and> pfn (view s own (E, va)) = f
        then RUser else RFree)) \<and>
    (\<forall>E va. E \<noteq> D \<longrightarrow> view s' own' (E, va) = view s own (E, va)) \<and> content_same own' s s'"
proof -
  let ?V = "drop_dir D (view s own)"
  let ?o = "free_dir D ?V own"
  obtain s' fl' where r: "freevm (kva D) s = Inr s'" "vm_inv s' ?o fl'" "view s' ?o = ?V" "content_same ?o s s'"
    using freevm_vm [OF assms] unfolding content_same_def by blast
  have "refs ?V f = 0 \<longleftrightarrow> \<not> (\<exists>E va. E \<noteq> D \<and> va < KERNBASE \<and> has (view s own (E, va)) PTE_P \<and>
      pfn (view s own (E, va)) = f)" for f
    unfolding refs_0 drop_dir_def by auto
  then have "\<forall>f. own f = RUser \<longrightarrow> ?o f =
       (if \<exists>E va. E \<noteq> D \<and> va < KERNBASE \<and> has (view s own (E, va)) PTE_P \<and> pfn (view s own (E, va)) = f
        then RUser else RFree)"
    using assms(3) by (auto simp: free_dir_def prune_def)
  moreover have "?o D = RFree" "\<forall>f i. own f = RTab D i \<longrightarrow> ?o f = RFree" by (auto simp: free_dir_def)
  moreover have "\<forall>E va. E \<noteq> D \<longrightarrow> view s' ?o (E, va) = view s own (E, va)"
    unfolding r(3) by (simp add: drop_dir_def)
  ultimately show ?thesis using r(1,2,4) by blast
qed

theorem freevm_correct_witness:
  "\<exists>s' own' fl'. freevm 0x81000000 ex_state = Inr s' \<and> vm_inv s' own' fl' \<and> own' 0x1000 = RFree \<and> own' 0x1002 = RFree"
proof -
  note e = ex_copy_ok(2,3) [OF ex_state_vm(1)]
  have v: "view ex_state ex_own = (\<lambda>k. 0)((0x1000, 0) := 0x1002007)"
    by (rule ex_view) (simp add: ex_state_def)
  have n: "\<not> (\<exists>E va. E \<noteq> 0x1000 \<and> va < KERNBASE \<and> has (view ex_state ex_own (E, va)) PTE_P \<and>
      pfn (view ex_state ex_own (E, va)) = 0x1002)" unfolding v by auto
  have u: "ex_own 0x1002 = RUser" by (simp add: ex_own_def)
  show ?thesis
    using freevm_correct [OF ex_inv [OF ex_state_vm(1)] ex_state_vm(2) e(1)] unfolding e(2)
  proof (elim exE conjE, goal_cases)
    case (1 s' own' fl')
    then have "own' 0x1002 = RFree" using u n by (simp only: if_False)
    then show ?case using 1 by blast
  qed
qed



end
