(* ===== verification/Cstring.thy ===== *)
theory Cstring
  imports Prelude
begin

text \<open>
  Memory and string routines of the kernel, src/source/string.c, and of the user library,
  src/source/ulib.c, on a byte memory: a function from 32-bit addresses to bytes. Pointer
  arithmetic wraps as it does on the machine. \<open>cstr_at m p bs\<close> says that a NUL-terminated
  string with the bytes \<open>bs\<close> stands at \<open>p\<close>. A loop that only a NUL byte ends is a partial
  function; \<open>None\<close> is not returning.

  Every routine is related to what it means on lists and functions: \<open>memmove\<close> to the
  simultaneous copy, whether or not source and destination overlap, \<open>memset\<close> to one constant
  function for both of its store widths, the string routines to \<open>take\<close> and comparison.
\<close>

type_synonym bmem = "uint \<Rightarrow> uchar"

section \<open>string.c\<close>

text \<open>The string instructions \<open>rep stosb\<close> and \<open>rep stosl\<close> (x86.h).\<close>

fun stosb :: "nat \<Rightarrow> uint \<Rightarrow> uchar \<Rightarrow> bmem \<Rightarrow> bmem" where
  "stosb 0 addr data m = m"
| "stosb (Suc cnt) addr data m = stosb cnt (addr + 1) data (m(addr := data))"

definition store32 :: "uint \<Rightarrow> uint \<Rightarrow> bmem \<Rightarrow> bmem" where
  "store32 a w m = m(a := ucast w, a + 1 := ucast (drop_bit 8 w), a + 2 := ucast (drop_bit 16 w),
     a + 3 := ucast (drop_bit 24 w))"

fun stosl :: "nat \<Rightarrow> uint \<Rightarrow> uint \<Rightarrow> bmem \<Rightarrow> bmem" where
  "stosl 0 addr data m = m"
| "stosl (Suc cnt) addr data m = stosl cnt (addr + 4) data (store32 addr data m)"

definition memset :: "uint \<Rightarrow> cint \<Rightarrow> uint \<Rightarrow> bmem \<Rightarrow> bmem" where
  "memset dst c n m =
     (if dst mod 4 = 0 \<and> n mod 4 = 0 then
        let c = c AND 0xFF
        in stosl (unat (n div 4)) dst (push_bit 24 c OR push_bit 16 c OR push_bit 8 c OR c) m
      else stosb (unat n) dst (ucast c) m)"

fun memcmp :: "bmem \<Rightarrow> uint \<Rightarrow> uint \<Rightarrow> nat \<Rightarrow> int" where
  "memcmp m s1 s2 0 = 0"
| "memcmp m s1 s2 (Suc n) =
     (if m s1 \<noteq> m s2 then uint (m s1) - uint (m s2) else memcmp m (s1 + 1) (s2 + 1) n)"

fun copy_down :: "nat \<Rightarrow> uint \<Rightarrow> uint \<Rightarrow> bmem \<Rightarrow> bmem" where
  "copy_down 0 d s m = m"
| "copy_down (Suc n) d s m = copy_down n (d - 1) (s - 1) (m(d - 1 := m (s - 1)))"

fun copy_up :: "nat \<Rightarrow> uint \<Rightarrow> uint \<Rightarrow> bmem \<Rightarrow> bmem" where
  "copy_up 0 d s m = m"
| "copy_up (Suc n) d s m = copy_up n (d + 1) (s + 1) (m(d := m s))"

definition memmove :: "uint \<Rightarrow> uint \<Rightarrow> uint \<Rightarrow> bmem \<Rightarrow> bmem" where
  "memmove dst src n m =
     (if src < dst \<and> src + n > dst then copy_down (unat n) (dst + n) (src + n) m
      else copy_up (unat n) dst src m)"

definition memcpy :: "uint \<Rightarrow> uint \<Rightarrow> uint \<Rightarrow> bmem \<Rightarrow> bmem" where
  "memcpy dst src n m = memmove dst src n m"

fun strncmp :: "bmem \<Rightarrow> uint \<Rightarrow> uint \<Rightarrow> nat \<Rightarrow> int" where
  "strncmp m p q 0 = 0"
| "strncmp m p q (Suc n) =
     (if m p \<noteq> 0 \<and> m p = m q then strncmp m (p + 1) (q + 1) n else uint (m p) - uint (m q))"

text \<open>The two loops of \<open>strncpy\<close>; \<open>n\<close> is how many bytes may still be written.\<close>

fun zero_fill :: "nat \<Rightarrow> uint \<Rightarrow> bmem \<Rightarrow> bmem" where
  "zero_fill 0 s m = m"
| "zero_fill (Suc n) s m = zero_fill n (s + 1) (m(s := 0))"

fun strncpy_loop :: "nat \<Rightarrow> uint \<Rightarrow> uint \<Rightarrow> bmem \<Rightarrow> bmem" where
  "strncpy_loop 0 s t m = m"
| "strncpy_loop (Suc n) s t m =
     (let b = m t; m = m(s := b)
      in if b \<noteq> 0 then strncpy_loop n (s + 1) (t + 1) m else zero_fill n (s + 1) m)"

definition strncpy :: "uint \<Rightarrow> uint \<Rightarrow> cint \<Rightarrow> bmem \<Rightarrow> bmem" where
  "strncpy s t n m = strncpy_loop (nat (sint n)) s t m"

fun safestrcpy_loop :: "nat \<Rightarrow> uint \<Rightarrow> uint \<Rightarrow> bmem \<Rightarrow> uint \<times> bmem" where
  "safestrcpy_loop 0 s t m = (s, m)"
| "safestrcpy_loop (Suc n) s t m =
     (let b = m t; m = m(s := b)
      in if b \<noteq> 0 then safestrcpy_loop n (s + 1) (t + 1) m else (s + 1, m))"

definition safestrcpy :: "uint \<Rightarrow> uint \<Rightarrow> cint \<Rightarrow> bmem \<Rightarrow> bmem" where
  "safestrcpy s t n m =
     (if sint n \<le> 0 then m
      else let (s, m) = safestrcpy_loop (nat (sint n - 1)) s t m in m(s := 0))"

partial_function (option) strlen_loop :: "bmem \<Rightarrow> uint \<Rightarrow> cint \<Rightarrow> cint option" where
  "strlen_loop m s n = (if m (s + n) \<noteq> 0 then strlen_loop m s (n + 1) else Some n)"

definition strlen :: "bmem \<Rightarrow> uint \<Rightarrow> cint option" where
  "strlen m s = strlen_loop m s 0"

section \<open>ulib.c\<close>

partial_function (option) strcpy :: "uint \<Rightarrow> uint \<Rightarrow> bmem \<Rightarrow> bmem option" where
  "strcpy s t m =
     (let b = m t; m = m(s := b) in if b \<noteq> 0 then strcpy (s + 1) (t + 1) m else Some m)"

partial_function (option) strcmp :: "bmem \<Rightarrow> uint \<Rightarrow> uint \<Rightarrow> int option" where
  "strcmp m p q =
     (if m p \<noteq> 0 \<and> m p = m q then strcmp m (p + 1) (q + 1)
      else Some (uint (m p) - uint (m q)))"

definition memset_user :: "uint \<Rightarrow> cint \<Rightarrow> uint \<Rightarrow> bmem \<Rightarrow> bmem" where
  "memset_user dst c n m = stosb (unat n) dst (ucast c) m"

partial_function (option) strchr :: "bmem \<Rightarrow> uint \<Rightarrow> uchar \<Rightarrow> uint option" where
  "strchr m s c = (if m s \<noteq> 0 then (if m s = c then Some s else strchr m (s + 1) c) else Some 0)"

text \<open>\<open>atoi\<close>; \<open>char\<close> is signed, so bytes from 128 on end the number as other non-digits do.\<close>

partial_function (option) atoi_loop :: "bmem \<Rightarrow> uint \<Rightarrow> cint \<Rightarrow> cint option" where
  "atoi_loop m s n =
     (if 48 \<le> m s \<and> m s \<le> 57 then atoi_loop m (s + 1) (n * 10 + ucast (m s) - 48) else Some n)"

definition atoi :: "bmem \<Rightarrow> uint \<Rightarrow> cint option" where
  "atoi m s = atoi_loop m s 0"

definition memmove_user :: "uint \<Rightarrow> uint \<Rightarrow> cint \<Rightarrow> bmem \<Rightarrow> bmem" where
  "memmove_user vdst vsrc n m = copy_up (nat (sint n)) vdst vsrc m"

section \<open>Blocks of memory\<close>

text \<open>\<open>unat (a - d)\<close> is the distance of the address \<open>a\<close> from \<open>d\<close> going up.\<close>

lemma off_step: "a \<noteq> d \<Longrightarrow> unat (a - (d + 1)) = unat (a - d) - 1" for a d :: uint
  using unat_minus_one [of "a - d"] by (simp add: diff_diff_eq)

lemma off_pos: "a \<noteq> d \<Longrightarrow> 0 < unat (a - d)" for a d :: uint
  by (simp add: unat_gt_0)

lemma off_less_Suc: "unat (a - d) < Suc k \<longleftrightarrow> a = d \<or> unat (a - (d + 1)) < k \<and> a \<noteq> d" for a d :: uint
  using off_step [of a d] off_pos [of a d] by (cases "a = d") auto

lemma stosb_eq: "stosb k d b m = (\<lambda>a. if unat (a - d) < k then b else m a)"
proof (induction k arbitrary: d m)
  case (Suc k)
  show ?case by (rule ext) (auto simp: Suc off_less_Suc [of _ d k])
qed simp

lemma store32_same:
  fixes c :: uint
  defines "w \<equiv> push_bit 24 (c AND 0xFF) OR push_bit 16 (c AND 0xFF) OR push_bit 8 (c AND 0xFF) OR (c AND 0xFF)"
  shows "store32 a w m = stosb 4 a (ucast c) m"
proof -
  have m: "(0xFF :: uint) = mask 8" by (simp add: mask_eq_exp_minus_1)
  have "ucast w = (ucast c :: uchar)" "ucast (drop_bit 8 w) = (ucast c :: uchar)"
    "ucast (drop_bit 16 w) = (ucast c :: uchar)" "ucast (drop_bit 24 w) = (ucast c :: uchar)"
    unfolding w_def m by (rule bit_word_eqI, auto simp: bit_simps)+
  then show ?thesis by (simp add: store32_def eval_nat_numeral add.assoc)
qed

lemma stosb_add: "stosb (j + k) d b m = stosb k (d + of_nat j) b (stosb j d b m)"
  by (induction j arbitrary: d m) (simp_all add: ac_simps)

lemma stosl_eq:
  fixes c :: uint
  defines "w \<equiv> push_bit 24 (c AND 0xFF) OR push_bit 16 (c AND 0xFF) OR push_bit 8 (c AND 0xFF) OR (c AND 0xFF)"
  shows "stosl k d w m = stosb (4 * k) d (ucast c) m"
proof (induction k arbitrary: d m)
  case (Suc k)
  have "stosb (4 * Suc k) d (ucast c) m = stosb (4 * k) (d + 4) (ucast c) (stosb 4 d (ucast c) m)"
    using stosb_add [of 4 "4 * k" d "ucast c" m] by simp
  then show ?case using Suc store32_same [of d c m] by (simp add: w_def)
qed simp

lemma memset_eq: "memset dst c n m = (\<lambda>a. if a - dst < n then ucast c else m a)"
proof -
  have "4 * unat (n div 4) = unat n" if "n mod 4 = 0"
  proof -
    have "unat (n mod 4) = 0" using that by simp
    then have "unat n mod 4 = 0" by (simp add: unat_mod)
    then show ?thesis using mult_div_mod_eq [of 4 "unat n"] by (simp add: unat_div)
  qed
  then have "memset dst c n m = stosb (unat n) dst (ucast c) m"
    unfolding memset_def Let_def stosl_eq by (cases "dst mod 4 = 0 \<and> n mod 4 = 0") simp_all
  then show ?thesis by (simp add: stosb_eq word_less_nat_alt)
qed

lemma memset_user_eq: "memset_user dst c n m = memset dst c n m"
  by (simp add: memset_user_def memset_eq stosb_eq word_less_nat_alt)

section \<open>Copying\<close>

lemma copy_up_eq:
  assumes "\<forall>i j. i < j \<and> j < k \<longrightarrow> d + of_nat i \<noteq> s + of_nat j" "k \<le> 2 ^ 32"
  shows "copy_up k d s m = (\<lambda>a. if unat (a - d) < k then m (s + (a - d)) else m a)"
  using assms
proof (induction k arbitrary: d s m)
  case (Suc k)
  have "\<forall>i j. i < j \<and> j < k \<longrightarrow> d + 1 + of_nat i \<noteq> s + 1 + of_nat j"
  proof (intro allI impI)
    fix i j :: nat assume "i < j \<and> j < k"
    then have "d + of_nat (Suc i) \<noteq> s + of_nat (Suc j)" using Suc.prems(1) by blast
    then show "d + 1 + of_nat i \<noteq> s + 1 + of_nat j" by (simp add: ac_simps)
  qed
  then have IH: "copy_up k (d + 1) (s + 1) (m(d := m s)) =
      (\<lambda>a. if unat (a - (d + 1)) < k then (m(d := m s)) (s + 1 + (a - (d + 1))) else (m(d := m s)) a)"
    using Suc.IH Suc.prems(2) by simp
  have "s + (a - d) \<noteq> d" if "a \<noteq> d" "unat (a - (d + 1)) < k" for a
  proof -
    have "unat (a - d) < Suc k" "0 < unat (a - d)"
      using that off_less_Suc [of a d k] off_pos [of a d] by auto
    then have "d + of_nat 0 \<noteq> s + of_nat (unat (a - d))" using Suc.prems(1) by blast
    then show ?thesis by simp
  qed
  then show ?case
    by (intro ext) (auto simp: IH off_less_Suc [of _ d k])
qed simp

lemma copy_down_eq:
  assumes "\<forall>i j. i < j \<and> j < k \<longrightarrow> d - 1 - of_nat i \<noteq> s - 1 - of_nat j" "k \<le> 2 ^ 32"
  shows "copy_down k d s m = (\<lambda>a. if unat (d - 1 - a) < k then m (s - (d - a)) else m a)"
  using assms
proof (induction k arbitrary: d s m)
  case (Suc k)
  have "\<forall>i j. i < j \<and> j < k \<longrightarrow> d - 1 - 1 - of_nat i \<noteq> s - 1 - 1 - of_nat j"
  proof (intro allI impI)
    fix i j :: nat assume "i < j \<and> j < k"
    then have "d - 1 - of_nat (Suc i) \<noteq> s - 1 - of_nat (Suc j)" using Suc.prems(1) by blast
    then show "d - 1 - 1 - of_nat i \<noteq> s - 1 - 1 - of_nat j" by (simp add: diff_diff_eq)
  qed
  then have IH: "copy_down k (d - 1) (s - 1) (m(d - 1 := m (s - 1))) =
      (\<lambda>a. if unat (d - 1 - 1 - a) < k then (m(d - 1 := m (s - 1))) (s - 1 - (d - 1 - a))
           else (m(d - 1 := m (s - 1))) a)"
    using Suc.IH [of "d - 1" "s - 1"] Suc.prems(2) by simp
  have st: "unat (d - 1 - a) < Suc k \<longleftrightarrow> a = d - 1 \<or> a \<noteq> d - 1 \<and> unat (d - 1 - 1 - a) < k" for a
    using off_less_Suc [of "d - 1" a k] by (auto simp: algebra_simps)
  have ne: "s - (d - a) \<noteq> d - 1" if "a \<noteq> d - 1" "unat (d - 1 - 1 - a) < k" for a
  proof -
    have "unat (d - 1 - a) < Suc k" "0 < unat (d - 1 - a)"
      using that st [of a] off_pos [of "d - 1" a] by auto
    then have "d - 1 - of_nat 0 \<noteq> s - 1 - of_nat (unat (d - 1 - a))" using Suc.prems(1) by blast
    then show ?thesis by (simp add: algebra_simps)
  qed
  show ?case
    unfolding copy_down.simps IH
    by (rule ext) (use ne st in \<open>auto simp: algebra_simps\<close>)
qed simp

lemma unat_off: "unat p + x < 2 ^ 32 \<Longrightarrow> unat (p + of_nat x) = unat p + x" for p :: uint
  by (simp add: unat_word_ariths unat_of_nat mod_add_right_eq)

lemma mirror_less: "n - 1 - x < n \<longleftrightarrow> x < n" for n x :: uint
proof (cases "n = 0")
  case False
  then have n: "unat (n - 1) = unat n - 1" "0 < unat n" by (simp_all add: unat_minus_one unat_gt_0)
  have "unat x < 2 ^ 32" using unsigned_less [of x, where 'a = nat] by simp
  then show ?thesis using n by (auto simp: word_less_nat_alt unat_sub_if')
qed simp

lemma memmove_eq:
  assumes "unat src + unat n < 2 ^ 32" "unat dst + unat n \<le> 2 ^ 32"
  shows "memmove dst src n m = (\<lambda>a. if a - dst < n then m (src + (a - dst)) else m a)"
proof (cases "src < dst \<and> src + n > dst")
  case True
  have "\<forall>i j. i < j \<and> j < unat n \<longrightarrow> dst + n - 1 - of_nat i \<noteq> src + n - 1 - of_nat j"
  proof (intro allI impI notI)
    fix i j assume ij: "i < j \<and> j < unat n" and eq: "dst + n - 1 - of_nat i = src + n - 1 - of_nat j"
    have "p + n - 1 - of_nat x = p + of_nat (unat n - 1 - x)" if "x < unat n" for p :: uint and x
      using that by (simp add: of_nat_diff algebra_simps)
    then have "dst + of_nat (unat n - 1 - i) = src + of_nat (unat n - 1 - j)" using ij eq by simp
    moreover have "unat (dst + of_nat (unat n - 1 - i)) = unat dst + (unat n - 1 - i)"
      "unat (src + of_nat (unat n - 1 - j)) = unat src + (unat n - 1 - j)"
      by (rule unat_off, use assms ij in linarith)+
    ultimately have "unat dst + (unat n - 1 - i) = unat src + (unat n - 1 - j)" by metis
    moreover have "unat src < unat dst" using True by (simp add: word_less_nat_alt)
    ultimately show False using ij by linarith
  qed
  then have "memmove dst src n m =
      (\<lambda>a. if unat (dst + n - 1 - a) < unat n then m (src + n - (dst + n - a)) else m a)"
    using True copy_down_eq [of "unat n" "dst + n" "src + n" m] unsigned_less [of n, where 'a = nat] by (simp add: memmove_def)
  moreover have "dst + n - 1 - a = n - 1 - (a - dst)" "src + n - (dst + n - a) = src + (a - dst)" for a
    by (simp_all add: algebra_simps)
  ultimately show ?thesis by (simp only: mirror_less flip: word_less_nat_alt)
next
  case False
  have "\<forall>i j. i < j \<and> j < unat n \<longrightarrow> dst + of_nat i \<noteq> src + of_nat j"
  proof (intro allI impI notI)
    fix i j assume ij: "i < j \<and> j < unat n" and eq: "dst + of_nat i = src + of_nat j"
    have "unat (dst + of_nat i) = unat dst + i" "unat (src + of_nat j) = unat src + j"
      by (rule unat_off, use assms ij in simp)+
    then have "unat dst + i = unat src + j" using eq by metis
    moreover have "unat (src + n) = unat src + unat n" using unat_off [of src "unat n"] assms(1) by simp
    ultimately show False using False ij by (auto simp: word_less_nat_alt)
  qed
  then show ?thesis
    using False copy_up_eq [of "unat n" dst src m] unsigned_less [of n, where 'a = nat]
    by (auto simp: memmove_def word_less_nat_alt)
qed

section \<open>Strings\<close>

fun cstr_at :: "bmem \<Rightarrow> uint \<Rightarrow> uchar list \<Rightarrow> bool" where
  "cstr_at m p [] \<longleftrightarrow> m p = 0"
| "cstr_at m p (b # bs) \<longleftrightarrow> m p = b \<and> b \<noteq> 0 \<and> cstr_at m (p + 1) bs"

text \<open>\<open>bytes_at m p bs\<close>: the bytes \<open>bs\<close> stand at \<open>p\<close>, zeros included.\<close>

fun bytes_at :: "bmem \<Rightarrow> uint \<Rightarrow> uchar list \<Rightarrow> bool" where
  "bytes_at m p [] \<longleftrightarrow> True"
| "bytes_at m p (b # bs) \<longleftrightarrow> m p = b \<and> bytes_at m (p + 1) bs"

lemma cstr_at_bytes: "cstr_at m p bs \<longleftrightarrow> bytes_at m p (bs @ [0]) \<and> 0 \<notin> set bs"
  by (induction bs arbitrary: p) auto

lemma bytes_at_append: "bytes_at m p (a @ b) \<longleftrightarrow> bytes_at m p a \<and> bytes_at m (p + of_nat (length a)) b"
  by (induction a arbitrary: p) (auto simp: ac_simps)

lemma bytes_at_iff: "bytes_at m p bs \<longleftrightarrow> (\<forall>i < length bs. m (p + of_nat i) = bs ! i)"
  by (induction bs arbitrary: p) (auto simp: ac_simps less_Suc_eq_0_disj all_conj_distrib)

text \<open>The addresses of a block, and that two blocks do not meet.\<close>

definition block :: "uint \<Rightarrow> nat \<Rightarrow> uint set" where
  "block p k = (\<lambda>i. p + of_nat i) ` {..<k}"

lemma block_0 [simp]: "block p 0 = {}"
  by (simp add: block_def)

lemma block_Suc: "block p (Suc k) = insert p (block (p + 1) k)"
  by (simp add: block_def lessThan_Suc_eq_insert_0 image_image ac_simps)

lemma block_less: "k \<le> k' \<Longrightarrow> block p k \<subseteq> block p k'"
  by (auto simp: block_def)

lemma block_fresh: "k < 2 ^ 32 \<Longrightarrow> p \<notin> block (p + 1) k"
proof
  assume k: "k < 2 ^ 32" "p \<in> block (p + 1) k"
  then obtain i where "p = p + 1 + of_nat i" "i < k" by (auto simp: block_def)
  then have "p + of_nat (Suc i) = p + 0" by (simp add: add.assoc)
  then have "of_nat (Suc i) = (0 :: uint)" by (rule add_left_imp_eq)
  moreover have "unat (of_nat (Suc i) :: uint) = Suc i" using k(1) \<open>i < k\<close> by (simp add: unat_of_nat del: of_nat_Suc)
  ultimately show False by simp
qed

lemma bytes_at_cong: "(\<forall>a \<in> block p (length bs). m' a = m a) \<Longrightarrow> bytes_at m' p bs = bytes_at m p bs"
  by (auto simp: bytes_at_iff block_def)

lemma cstr_at_cong:
  assumes "\<forall>a \<in> block p (Suc (length bs)). m' a = m a"
  shows "cstr_at m' p bs = cstr_at m p bs"
  using bytes_at_cong [of p "bs @ [0]" m' m] assms by (simp add: cstr_at_bytes)

lemma byte_eqs [simp]: "uint x = uint y \<longleftrightarrow> x = y" "uint x = 0 \<longleftrightarrow> x = 0" for x y :: uchar
  by (simp_all add: word_uint_eq_iff)

lemma strncmp_eq_0: "cstr_at m p a \<Longrightarrow> cstr_at m q b \<Longrightarrow> strncmp m p q n = 0 \<longleftrightarrow> take n a = take n b"
proof (induction n arbitrary: p q a b)
  case (Suc n)
  then show ?case by (cases a; cases b) auto
qed simp

lemma strcmp_eq_0: "cstr_at m p a \<Longrightarrow> cstr_at m q b \<Longrightarrow> \<exists>r. strcmp m p q = Some r \<and> (r = 0 \<longleftrightarrow> a = b)"
proof (induction a arbitrary: p q b)
  case Nil
  then show ?case by (cases b) (auto simp: strcmp.simps)
next
  case (Cons x a)
  then show ?case by (subst strcmp.simps) (cases b; auto)
qed

lemma memcmp_eq_0:
  "bytes_at m p a \<Longrightarrow> bytes_at m q b \<Longrightarrow> length a = length b \<Longrightarrow> memcmp m p q (length a) = 0 \<longleftrightarrow> a = b"
  by (induction a b arbitrary: p q rule: list_induct2') auto

lemma strlen_loop_eq: "cstr_at m (s + n) a \<Longrightarrow> strlen_loop m s n = Some (n + of_nat (length a))"
proof (induction a arbitrary: n)
  case Nil
  then show ?case by (subst strlen_loop.simps) simp
next
  case (Cons x a)
  then show ?case by (subst strlen_loop.simps) (simp add: ac_simps)
qed

lemma strchr_eq:
  "cstr_at m s a \<Longrightarrow>
   strchr m s c = Some (if c \<in> set a then s + of_nat (length (takeWhile (\<lambda>b. b \<noteq> c) a)) else 0)"
proof (induction a arbitrary: s)
  case Nil
  then show ?case by (subst strchr.simps) simp
next
  case (Cons x a)
  then show ?case by (subst strchr.simps) (auto simp: ac_simps)
qed

lemma atoi_loop_eq:
  "bytes_at m s (ds @ [e]) \<Longrightarrow> \<forall>d \<in> set ds. 48 \<le> d \<and> d \<le> 57 \<Longrightarrow> \<not> (48 \<le> e \<and> e \<le> 57) \<Longrightarrow>
   atoi_loop m s n = Some (foldl (\<lambda>n d. n * 10 + (ucast d - 48)) n ds)"
proof (induction ds arbitrary: s n)
  case Nil
  then show ?case by (subst atoi_loop.simps) auto
next
  case (Cons d ds)
  then show ?case by (subst atoi_loop.simps) (auto simp: add_diff_eq)
qed

lemma safestrcpy_loop_eq:
  assumes "safestrcpy_loop k s t m = (s', m')" "cstr_at m t a"
    "block s (Suc k) \<inter> block t (Suc (length a)) = {}" "Suc k < 2 ^ 32"
  shows "cstr_at (m'(s' := 0)) s (take k a) \<and> s' \<in> block s (Suc k) \<and> (\<forall>x. x \<notin> block s (Suc k) \<longrightarrow> m' x = m x)"
  using assms
proof (induction k arbitrary: s t m a)
  case 0
  then show ?case by (simp add: block_Suc)
next
  case (Suc k)
  show ?case
  proof (cases a)
    case Nil
    with Suc.prems show ?thesis by (auto simp: block_Suc)
  next
    case (Cons b a')
    have s: "s \<notin> block (s + 1) (Suc k)" using Suc.prems(4) by (intro block_fresh) simp
    have "cstr_at (m(s := b)) (t + 1) a'"
      using Suc.prems(2,3) Cons by (subst cstr_at_cong [of _ _ _ m]) (auto simp: block_Suc)
    moreover have "block (s + 1) (Suc k) \<inter> block (t + 1) (Suc (length a')) = {}"
      using Suc.prems(3) Cons by (auto simp: block_Suc)
    moreover have "safestrcpy_loop k (s + 1) (t + 1) (m(s := b)) = (s', m')" "Suc k < 2 ^ 32"
      using Suc.prems Cons by (simp_all add: Let_def)
    ultimately have "cstr_at (m'(s' := 0)) (s + 1) (take k a') \<and> s' \<in> block (s + 1) (Suc k) \<and>
        (\<forall>x. x \<notin> block (s + 1) (Suc k) \<longrightarrow> m' x = (m(s := b)) x)"
      by (intro Suc.IH)
    then show ?thesis using s Cons Suc.prems(2) by (auto simp: block_Suc [of s] fun_upd_def)
  qed
qed

lemma zero_fill_eq: "zero_fill n s m = stosb n s 0 m"
  by (induction n arbitrary: s m) simp_all

lemma block_iff: "k \<le> 2 ^ 32 \<Longrightarrow> a \<in> block p k \<longleftrightarrow> unat (a - p) < k"
proof (induction k arbitrary: p)
  case (Suc k)
  then show ?case using off_less_Suc [of a p k] by (auto simp: block_Suc)
qed simp

lemma strncpy_loop_eq:
  assumes "cstr_at m t a" "block s n \<inter> block t (Suc (length a)) = {}" "n < 2 ^ 32"
  shows "bytes_at (strncpy_loop n s t m) s (take n (a @ replicate n 0)) \<and>
    (\<forall>x. x \<notin> block s n \<longrightarrow> strncpy_loop n s t m x = m x)"
  using assms
proof (induction n arbitrary: s t m a)
  case (Suc n)
  have s: "s \<notin> block (s + 1) n" using Suc.prems(3) by (intro block_fresh) simp
  show ?case
  proof (cases a)
    case Nil
    then have "strncpy_loop (Suc n) s t m = stosb n (s + 1) 0 (m(s := 0))"
      using Suc.prems(1) by (simp add: zero_fill_eq)
    then have "strncpy_loop (Suc n) s t m = (\<lambda>x. if x \<in> block s (Suc n) then 0 else m x)"
      using Suc.prems(3) s by (auto simp: stosb_eq block_Suc block_iff)
    then show ?thesis using Nil by (auto simp: bytes_at_iff block_def nth_Cons' simp del: of_nat_Suc)
  next
    case (Cons b a')
    have "cstr_at (m(s := b)) (t + 1) a'"
      using Suc.prems(1,2) Cons by (subst cstr_at_cong [of _ _ _ m]) (auto simp: block_Suc)
    moreover have "block (s + 1) n \<inter> block (t + 1) (Suc (length a')) = {}"
      using Suc.prems(2) Cons by (auto simp: block_Suc)
    moreover have "n < 2 ^ 32" using Suc.prems(3) by simp
    ultimately have IH: "bytes_at (strncpy_loop n (s + 1) (t + 1) (m(s := b))) (s + 1) (take n (a' @ replicate n 0)) \<and>
        (\<forall>x. x \<notin> block (s + 1) n \<longrightarrow> strncpy_loop n (s + 1) (t + 1) (m(s := b)) x = (m(s := b)) x)"
      by (intro Suc.IH)
    have "strncpy_loop (Suc n) s t m = strncpy_loop n (s + 1) (t + 1) (m(s := b))"
      using Suc.prems(1) Cons by (simp add: Let_def)
    moreover have "take (Suc n) (a @ replicate (Suc n) 0) = b # take n (a' @ replicate n 0)"
      using Cons by (simp add: min_def del: replicate_Suc)
    ultimately show ?thesis using IH s by (simp add: block_Suc)
  qed
qed simp

section \<open>Properties\<close>

text \<open>
  C27. \<open>memmove\<close> of the kernel copies as if through a buffer, whether the two blocks overlap or
  not: afterwards each byte of the destination is the byte the source had before the call, and no
  other byte changes. It needs blocks that do not run past the end of the address space.
\<close>

theorem memmove_correct:
  assumes "unat src + unat n < 2 ^ 32" "unat dst + unat n \<le> 2 ^ 32"
  shows "memmove dst src n m a = (if a - dst < n then m (src + (a - dst)) else m a)"
  using memmove_eq [OF assms] by simp

theorem memmove_correct_witness:
  "memmove 0x1002 0x1000 4 (\<lambda>a. ucast a) 0x1003 = 1 \<and> memmove 0x1002 0x1000 4 (\<lambda>a. ucast a) 0x1006 = 6"
  using memmove_correct [of "0x1000" 4 "0x1002" "\<lambda>a. ucast a" "0x1003"]
    memmove_correct [of "0x1000" 4 "0x1002" "\<lambda>a. ucast a" "0x1006"] by simp

text \<open>
  C29. \<open>safestrcpy\<close> of a string into a buffer of \<open>n > 0\<close> bytes that does not meet it leaves a
  NUL-terminated string there, the source cut to \<open>n - 1\<close> bytes, and changes nothing outside the
  buffer; \<open>strlen\<close> of the copy returns that length.
\<close>

theorem safestrcpy_correct:
  assumes "cstr_at m t a" "0 < sint n" "block s (nat (sint n)) \<inter> block t (Suc (length a)) = {}"
  defines "m' \<equiv> safestrcpy s t n m"
  shows "cstr_at m' s (take (nat (sint n) - 1) a) \<and> (\<forall>x. x \<notin> block s (nat (sint n)) \<longrightarrow> m' x = m x) \<and>
    strlen m' s = Some (of_nat (min (length a) (nat (sint n) - 1)))"
proof -
  define k where "k = nat (sint n) - 1"
  obtain s' m1 where l: "safestrcpy_loop k s t m = (s', m1)" by (cases "safestrcpy_loop k s t m") blast
  have k: "Suc k = nat (sint n)" "nat (sint n - 1) = k" using assms(2) by (simp_all add: k_def)
  have "sint n < 2 ^ 31" using sint_lt [of n] by simp
  then have "Suc k < 2 ^ 32" using k(1) by simp
  then have e: "cstr_at (m1(s' := 0)) s (take k a)" "s' \<in> block s (Suc k)"
    "\<forall>x. x \<notin> block s (Suc k) \<longrightarrow> m1 x = m x"
    using safestrcpy_loop_eq [OF l assms(1)] assms(3) k(1) by simp_all
  have m': "m' = m1(s' := 0)" using assms(2) l k(2) by (simp add: m'_def safestrcpy_def)
  have "strlen m' s = Some (of_nat (length (take k a)))"
    using strlen_loop_eq [of m' s 0 "take k a"] e(1) by (simp add: strlen_def m' fun_upd_def)
  then show ?thesis using e k(1) m' by (auto simp: k_def fun_upd_def)
qed

theorem safestrcpy_correct_witness:
  "cstr_at (safestrcpy 0x200 0x100 3 (\<lambda>a. if a < 0x104 then 65 else 0)) 0x200 [65, 65]"
proof -
  let ?m = "(\<lambda>a. if a < 0x104 then 65 else 0) :: bmem"
  have "{..<3} = {0, 1, 2 :: nat}" "{..<5} = {0, 1, 2, 3, 4 :: nat}" by auto
  then have "block 0x200 3 \<inter> block 0x100 5 = {}" by (simp add: block_def)
  moreover have "Suc (length [65, 65, 65, 65 :: uchar]) = 5" "nat (sint (3 :: cint)) = 3" by simp_all
  ultimately have "block 0x200 (nat (sint (3 :: cint))) \<inter> block 0x100 (Suc (length [65, 65, 65, 65 :: uchar])) = {}"
    by metis
  moreover have "cstr_at ?m 0x100 [65, 65, 65, 65]" "0 < sint (3 :: cint)" by simp_all
  ultimately have "cstr_at (safestrcpy 0x200 0x100 3 ?m) 0x200 (take (nat (sint (3 :: cint)) - 1) [65, 65, 65, 65])"
    using safestrcpy_correct by blast
  then show ?thesis by (simp add: numeral_2_eq_2)
qed

end
