(* ===== verification/Seg.thy ===== *)
theory Seg
  imports Mmu
begin

text \<open>
  Segment descriptors, the task state segment and interrupt gates, src/source/mmu.h. The C bit
  fields are words of their width. \<open>seg_base\<close>, \<open>seg_limit\<close> and \<open>gate_off\<close> are how the processor
  reads the packed fields back; the lemmas at the end relate them to the arguments of the
  macros \<open>SEG\<close>, \<open>SEG16\<close> and \<open>SETGATE\<close>.
\<close>

section \<open>Segment descriptors\<close>

abbreviation (input) SEG_KCODE :: uint where "SEG_KCODE \<equiv> 1"
abbreviation (input) SEG_KDATA :: uint where "SEG_KDATA \<equiv> 2"
abbreviation (input) SEG_UCODE :: uint where "SEG_UCODE \<equiv> 3"
abbreviation (input) SEG_UDATA :: uint where "SEG_UDATA \<equiv> 4"
abbreviation (input) SEG_TSS :: uint where "SEG_TSS \<equiv> 5"
abbreviation (input) FL_IF :: uint where "FL_IF \<equiv> 0x200"
abbreviation (input) DPL_USER :: uint where "DPL_USER \<equiv> 3"
abbreviation (input) STA_X :: uint where "STA_X \<equiv> 8"
abbreviation (input) STA_W :: uint where "STA_W \<equiv> 2"
abbreviation (input) STA_R :: uint where "STA_R \<equiv> 2"
abbreviation (input) STS_T32A :: uint where "STS_T32A \<equiv> 0x9"
abbreviation (input) STS_IG32 :: uint where "STS_IG32 \<equiv> 0xE"
abbreviation (input) STS_TG32 :: uint where "STS_TG32 \<equiv> 0xF"

record segdesc =
  sd_lim_15_0 :: "16 word"
  sd_base_15_0 :: "16 word"
  sd_base_23_16 :: "8 word"
  sd_type :: "4 word"
  sd_s :: "1 word"
  sd_dpl :: "2 word"
  sd_p :: "1 word"
  sd_lim_19_16 :: "4 word"
  sd_avl :: "1 word"
  sd_rsv1 :: "1 word"
  sd_db :: "1 word"
  sd_g :: "1 word"
  sd_base_31_24 :: "8 word"

definition SEG :: "uint \<Rightarrow> uint \<Rightarrow> uint \<Rightarrow> uint \<Rightarrow> segdesc" where
  "SEG type base lim dpl =
     \<lparr>sd_lim_15_0 = ucast (drop_bit 12 lim AND 0xffff), sd_base_15_0 = ucast (base AND 0xffff),
      sd_base_23_16 = ucast (drop_bit 16 base AND 0xff), sd_type = ucast type, sd_s = 1,
      sd_dpl = ucast dpl, sd_p = 1,
      sd_lim_19_16 = ucast (drop_bit 28 lim), sd_avl = 0, sd_rsv1 = 0, sd_db = 1, sd_g = 1,
      sd_base_31_24 = ucast (drop_bit 24 base)\<rparr>"

definition SEG16 :: "uint \<Rightarrow> uint \<Rightarrow> uint \<Rightarrow> uint \<Rightarrow> segdesc" where
  "SEG16 type base lim dpl =
     \<lparr>sd_lim_15_0 = ucast (lim AND 0xffff), sd_base_15_0 = ucast (base AND 0xffff),
      sd_base_23_16 = ucast (drop_bit 16 base AND 0xff), sd_type = ucast type, sd_s = 1,
      sd_dpl = ucast dpl, sd_p = 1,
      sd_lim_19_16 = ucast (drop_bit 16 lim), sd_avl = 0, sd_rsv1 = 0, sd_db = 1, sd_g = 0,
      sd_base_31_24 = ucast (drop_bit 24 base)\<rparr>"

text \<open>\<open>struct taskstate\<close> without its padding.\<close>

record taskstate =
  ts_link :: uint
  ts_esp0 :: uint
  ts_ss0 :: ushort
  ts_esp1 :: uint
  ts_ss1 :: ushort
  ts_esp2 :: uint
  ts_ss2 :: ushort
  ts_cr3 :: uint
  ts_eip :: uint
  ts_eflags :: uint
  ts_eax :: uint
  ts_ecx :: uint
  ts_edx :: uint
  ts_ebx :: uint
  ts_esp :: uint
  ts_ebp :: uint
  ts_esi :: uint
  ts_edi :: uint
  ts_es :: ushort
  ts_cs :: ushort
  ts_ss :: ushort
  ts_ds :: ushort
  ts_fs :: ushort
  ts_gs :: ushort
  ts_ldt :: ushort
  ts_t :: ushort
  ts_iomb :: ushort

section \<open>Gates\<close>

record gatedesc =
  gd_off_15_0 :: "16 word"
  gd_cs :: "16 word"
  gd_args :: "5 word"
  gd_rsv1 :: "3 word"
  gd_type :: "4 word"
  gd_s :: "1 word"
  gd_dpl :: "2 word"
  gd_p :: "1 word"
  gd_off_31_16 :: "16 word"

definition SETGATE :: "bool \<Rightarrow> uint \<Rightarrow> uint \<Rightarrow> uint \<Rightarrow> gatedesc" where
  "SETGATE istrap sel off d =
     \<lparr>gd_off_15_0 = ucast (off AND 0xffff), gd_cs = ucast sel, gd_args = 0, gd_rsv1 = 0,
      gd_type = ucast (if istrap then STS_TG32 else STS_IG32), gd_s = 0, gd_dpl = ucast d, gd_p = 1,
      gd_off_31_16 = ucast (drop_bit 16 off)\<rparr>"

section \<open>How the processor reads them\<close>

definition seg_base :: "segdesc \<Rightarrow> uint" where
  "seg_base d = push_bit 24 (ucast (sd_base_31_24 d)) OR push_bit 16 (ucast (sd_base_23_16 d))
     OR ucast (sd_base_15_0 d)"

definition seg_limit :: "segdesc \<Rightarrow> uint" where
  "seg_limit d =
     (let raw = push_bit 16 (ucast (sd_lim_19_16 d)) OR ucast (sd_lim_15_0 d) :: uint
      in if sd_g d = 1 then push_bit 12 raw OR 0xfff else raw)"

definition gate_off :: "gatedesc \<Rightarrow> uint" where
  "gate_off g = push_bit 16 (ucast (gd_off_31_16 g)) OR ucast (gd_off_15_0 g)"

lemma mask_words: "(0xffff :: uint) = mask 16" "(0xff :: uint) = mask 8" "(0xfff :: uint) = mask 12"
  "(0xfffff :: uint) = mask 20"
  by (simp_all add: mask_eq_exp_minus_1)

lemma below_shift: "bit b n \<Longrightarrow> \<not> bit b (k + (n - k)) \<Longrightarrow> n < k" for b :: "'a::len word"
  by (rule ccontr) simp

lemma seg_base_SEG: "seg_base (SEG t b l d) = b"
  unfolding seg_base_def SEG_def mask_words
  by (rule bit_word_eqI) (auto simp: bit_simps, (drule (1) below_shift, linarith)+)

lemma seg_base_SEG16: "seg_base (SEG16 t b l d) = b"
  unfolding seg_base_def SEG16_def mask_words
  by (rule bit_word_eqI) (auto simp: bit_simps, (drule (1) below_shift, linarith)+)

lemma seg_limit_SEG: "seg_limit (SEG t b l d) = l OR 0xfff"
  unfolding seg_limit_def SEG_def mask_words Let_def
  by (simp, rule bit_word_eqI) (auto simp: bit_simps, (drule (1) below_shift, linarith)+)

lemma seg_limit_SEG16: "seg_limit (SEG16 t b l d) = l AND 0xfffff"
  unfolding seg_limit_def SEG16_def mask_words Let_def
  by (simp, rule bit_word_eqI) (auto simp: bit_simps)

lemma gate_off_SETGATE: "gate_off (SETGATE t sel off d) = off"
  unfolding gate_off_def SETGATE_def mask_words
  by (rule bit_word_eqI) (auto simp: bit_simps)

end
