(* ===== verification/Proc.thy ===== *)
theory Proc
  imports Vm Seg
begin

text \<open>
  Processes, src/source/proc.h and proc.c: the process table, allocation of an entry, sleeping
  and waking, waiting for children, killing, growing, and the switch of address spaces
  (\<open>seginit\<close>, \<open>switchuvm\<close> of vm.c). Scheduling policies are in theory Sched; \<open>fork\<close>, \<open>exit\<close> and
  \<open>userinit\<close> need the file system and are in theory Fork.

  A process is an index into the table. The trap frame and the saved context of a process, which
  C keeps on its kernel stack, are fields of its entry. Pointers to open files and inodes are
  indices of the file and inode tables.

  A context switch \<open>swtch\<close> leaves this thread of control and comes back when some CPU runs it
  again. Everything that happens in between is the argument \<open>sw\<close> of the operations that
  give up the CPU: a function from the state at the switch to the state on return.
\<close>

section \<open>State\<close>

datatype procstate = UNUSED | EMBRYO | SLEEPING | RUNNABLE | RUNNING | ZOMBIE

record trapframe =
  tf_edi :: uint
  tf_esi :: uint
  tf_ebp :: uint
  tf_oesp :: uint
  tf_ebx :: uint
  tf_edx :: uint
  tf_ecx :: uint
  tf_eax :: uint
  tf_gs :: ushort
  tf_fs :: ushort
  tf_es :: ushort
  tf_ds :: ushort
  tf_trapno :: uint
  tf_err :: uint
  tf_eip :: uint
  tf_cs :: ushort
  tf_eflags :: uint
  tf_esp :: uint
  tf_ss :: ushort

text \<open>Where a saved context resumes: in the middle of \<open>sched\<close>, or at the start of \<open>forkret\<close>.\<close>

datatype resume = In_sched | At_forkret

record pcontext =
  cx_edi :: uint
  cx_esi :: uint
  cx_ebx :: uint
  cx_ebp :: uint
  cx_eip :: resume

text \<open>Sleep channels: the addresses the kernel passes to \<open>sleep\<close> and \<open>wakeup\<close>.\<close>

datatype chan =
    Ch_proc nat       \<comment> \<open>a process, \<open>wait\<close>\<close>
  | Ch_ticks          \<comment> \<open>\<open>&ticks\<close>, \<open>sys_sleep\<close>\<close>
  | Ch_input          \<comment> \<open>\<open>&input.r\<close>, console.c\<close>
  | Ch_log            \<comment> \<open>\<open>&log\<close>, log.c\<close>
  | Ch_nread uint     \<comment> \<open>\<open>&p->nread\<close> of a pipe\<close>
  | Ch_nwrite uint    \<comment> \<open>\<open>&p->nwrite\<close> of a pipe\<close>
  | Ch_buf nat        \<comment> \<open>a buffer waiting for the disk\<close>
  | Ch_buflock nat    \<comment> \<open>the sleep lock of a buffer\<close>
  | Ch_inodelock nat  \<comment> \<open>the sleep lock of an inode\<close>

text \<open>\<open>enum schedAlgorithms\<close> of defs.h; \<open>schedQueue\<close> is an \<open>int\<close> a system call may set freely.\<close>

abbreviation (input) PRIORITY :: cint where "PRIORITY \<equiv> 0"
abbreviation (input) SJF :: cint where "SJF \<equiv> 1"
abbreviation (input) LOTTERY :: cint where "LOTTERY \<equiv> 2"

record proc =
  p_sz :: uint
  p_pgdir :: uint
  p_kstack :: uint
  p_state :: procstate
  p_pid :: cint
  p_parent :: "nat option"
  p_tf :: trapframe
  p_context :: pcontext
  p_chan :: "chan option"
  p_killed :: bool
  p_ofile :: "nat \<Rightarrow> nat option"
  p_cwd :: "nat option"
  p_name :: string
  p_lottery_ticket :: cint
  p_schedQueue :: cint
  p_priority :: cint
  p_burst_time :: cint
  p_creation_time :: cint
  p_process_count :: cint

text \<open>
  The layer of proc.c: the table, its counters and \<open>ticks\<close> of trap.c, and the parts of the CPUs
  that a switch of processes sets. \<open>ts_addr\<close> gives the address of a CPU's task state, which the
  linker fixes. \<open>gs_cpu\<close> and \<open>gs_proc\<close> are the variables \<open>cpu\<close> and \<open>proc\<close> of proc.h, the two words
  at \<open>%gs:0\<close> and \<open>%gs:4\<close>.
\<close>

record procv = vmv +
  procs :: "nat \<Rightarrow> proc"
  initproc :: "nat option"
  nextpid :: cint
  createdProcess :: cint
  process_number :: cint
  ticks :: uint
  cr2 :: uint
  cpu_gdt :: "nat \<Rightarrow> uint \<Rightarrow> segdesc"
  cpu_ts :: "nat \<Rightarrow> taskstate"
  ts_addr :: "nat \<Rightarrow> uint"
  gdtr :: "nat option"
  task_reg :: uint
  gs_cpu :: "nat option"
  gs_proc :: "nat option"

definition upd_proc :: "nat \<Rightarrow> (proc \<Rightarrow> proc) \<Rightarrow> 'z procv_scheme \<Rightarrow> 'z procv_scheme" where
  "upd_proc i f s = s\<lparr>procs := (procs s)(i := f (procs s i))\<rparr>"

text \<open>\<open>for(p = ptable.proc; p < &ptable.proc[NPROC]; p++)\<close>: the entries in table order.\<close>

definition ptable :: "nat list" where
  "ptable = [0..<NPROC]"

lemma set_ptable [simp]: "p \<in> set ptable \<longleftrightarrow> p < NPROC"
  by (simp add: ptable_def)

definition pinit :: "'z procv_scheme \<Rightarrow> 'z procv_scheme" where
  "pinit s = initlock Lk_ptable ''ptable'' s"

definition myproc :: "'z procv_scheme \<Rightarrow> (nat option \<times> 'z procv_scheme) res" where
  "myproc s =
     bindE (pushcli s) (\<lambda>s.
     bindE (mycpu s) (\<lambda>c.
       let p = cproc (cpus s c) in
       bindE (popcli s) (\<lambda>s. Inr (p, s))))"

text \<open>\<open>myproc()->...\<close>: a null process is a fault.\<close>

definition curproc :: "'z procv_scheme \<Rightarrow> (nat \<times> 'z procv_scheme) res" where
  "curproc s =
     bindE (myproc s) (\<lambda>(p, s). case p of None \<Rightarrow> Inl (Fault ''myproc()'') | Some i \<Rightarrow> Inr (i, s))"

section \<open>Allocating a process\<close>

definition zero_context :: pcontext where
  "zero_context = \<lparr>cx_edi = 0, cx_esi = 0, cx_ebx = 0, cx_ebp = 0, cx_eip = At_forkret\<rparr>"

definition allocproc :: "'z procv_scheme \<Rightarrow> (nat option \<times> 'z procv_scheme) res" where
  "allocproc s =
     bindE (acquire Lk_ptable s) (\<lambda>s.
     case find (\<lambda>i. p_state (procs s i) = UNUSED) ptable of
       None \<Rightarrow> bindE (release Lk_ptable s) (\<lambda>s. Inr (None, s))
     | Some p \<Rightarrow>
         let s = upd_proc p (\<lambda>q. q\<lparr>p_state := EMBRYO, p_pid := nextpid s\<rparr>) s;
             s = s\<lparr>nextpid := nextpid s + 1\<rparr>
         in bindE (release Lk_ptable s) (\<lambda>s.
            bindE (kalloc s) (\<lambda>(k, s).
              let s = upd_proc p (\<lambda>q. q\<lparr>p_kstack := k\<rparr>) s in
              if k = 0 then Inr (None, upd_proc p (\<lambda>q. q\<lparr>p_state := UNUSED\<rparr>) s)
              else
                let s = upd_proc p (\<lambda>q. q\<lparr>p_context := zero_context\<rparr>) s;
                    s = upd_proc p (\<lambda>q. q\<lparr>p_creation_time := ticks s + createdProcess s\<rparr>) s;
                    s = s\<lparr>createdProcess := createdProcess s + 1\<rparr>;
                    s = upd_proc p (\<lambda>q. q\<lparr>p_process_count := process_number s\<rparr>) s;
                    s = s\<lparr>process_number := process_number s + 1\<rparr>;
                    s = upd_proc p (\<lambda>q. q\<lparr>p_lottery_ticket := 50, p_burst_time := 0,
                                          p_schedQueue := LOTTERY\<rparr>) s
                in Inr (Some p, s))))"

section \<open>Segments and address spaces\<close>

definition set_gdt :: "nat \<Rightarrow> uint \<Rightarrow> segdesc \<Rightarrow> 'z procv_scheme \<Rightarrow> 'z procv_scheme" where
  "set_gdt c i d s = s\<lparr>cpu_gdt := (cpu_gdt s)(c := (cpu_gdt s c)(i := d))\<rparr>"

definition seginit :: "'z procv_scheme \<Rightarrow> 'z procv_scheme res" where
  "seginit s =
     bindE (cpuid s) (\<lambda>c.
       let s = set_gdt c SEG_KCODE (SEG (STA_X OR STA_R) 0 0xffffffff 0) s;
           s = set_gdt c SEG_KDATA (SEG STA_W 0 0xffffffff 0) s;
           s = set_gdt c SEG_UCODE (SEG (STA_X OR STA_R) 0 0xffffffff DPL_USER) s;
           s = set_gdt c SEG_UDATA (SEG STA_W 0 0xffffffff DPL_USER) s
       in Inr (s\<lparr>gdtr := Some c, gs_cpu := Some c, gs_proc := None\<rparr>))"

definition switchuvm :: "nat option \<Rightarrow> 'z procv_scheme \<Rightarrow> 'z procv_scheme res" where
  "switchuvm p s =
     (case p of None \<Rightarrow> Inl (Panic ''switchuvm: no process'')
      | Some i \<Rightarrow>
          if p_kstack (procs s i) = 0 then Inl (Panic ''switchuvm: no kstack'')
          else if p_pgdir (procs s i) = 0 then Inl (Panic ''switchuvm: no pgdir'')
          else bindE (pushcli s) (\<lambda>s.
            bindE (mycpu s) (\<lambda>c.
              let s = set_gdt c SEG_TSS (SEG16 STS_T32A (ts_addr s c) (104 - 1) 0) s;
                  s = set_gdt c SEG_TSS ((cpu_gdt s c SEG_TSS)\<lparr>sd_s := 0\<rparr>) s;
                  t = (cpu_ts s c)\<lparr>ts_ss0 := ucast (push_bit 3 SEG_KDATA),
                                   ts_esp0 := p_kstack (procs s i) + KSTACKSIZE,
                                   ts_iomb := 0xFFFF\<rparr>;
                  s = s\<lparr>cpu_ts := (cpu_ts s)(c := t), task_reg := push_bit 3 SEG_TSS\<rparr>;
                  s = lcr3 (V2P (p_pgdir (procs s i))) s
              in popcli s)))"

text \<open>\<open>growproc\<close>; the result \<open>False\<close> is -1.\<close>

definition growproc :: "cint \<Rightarrow> 'z procv_scheme \<Rightarrow> (bool \<times> 'z procv_scheme) res" where
  "growproc n s =
     bindE (curproc s) (\<lambda>(p, s).
       let sz = p_sz (procs s p) in
       bindE (if sint n > 0 then allocuvm (p_pgdir (procs s p)) sz (sz + n) s
              else if sint n < 0 then deallocuvm (p_pgdir (procs s p)) sz (sz + n) s
              else Inr (sz, s)) (\<lambda>(sz, s).
         if n \<noteq> 0 \<and> sz = 0 then Inr (False, s)
         else let s = upd_proc p (\<lambda>q. q\<lparr>p_sz := sz\<rparr>) s
              in bindE (switchuvm (Some p) s) (\<lambda>s. Inr (True, s))))"

section \<open>Giving up the CPU\<close>

definition sched ::
  "('z procv_scheme \<Rightarrow> 'z procv_scheme res) \<Rightarrow> 'z procv_scheme \<Rightarrow> 'z procv_scheme res" where
  "sched sw s =
     bindE (myproc s) (\<lambda>(p, s).
     bindE (holding Lk_ptable s) (\<lambda>(h, s).
       if \<not> h then Inl (Panic ''sched ptable.lock'')
       else bindE (mycpu s) (\<lambda>c.
         if ncli (cpus s c) \<noteq> 1 then Inl (Panic ''sched locks'')
         else case p of None \<Rightarrow> Inl (Fault ''sched'')
         | Some i \<Rightarrow>
             if p_state (procs s i) = RUNNING then Inl (Panic ''sched running'')
             else if fl_if s then Inl (Panic ''sched interruptible'')
             else
               let intena = intena (cpus s c);
                   s = upd_proc i (\<lambda>q. q\<lparr>p_context := (p_context q)\<lparr>cx_eip := In_sched\<rparr>\<rparr>) s
               in bindE (sw s) (\<lambda>s.
                  bindE (mycpu s) (\<lambda>c. Inr (upd_cpu c (\<lambda>k. k\<lparr>intena := intena\<rparr>) s))))))"

definition yield ::
  "('z procv_scheme \<Rightarrow> 'z procv_scheme res) \<Rightarrow> 'z procv_scheme \<Rightarrow> 'z procv_scheme res" where
  "yield sw s =
     bindE (acquire Lk_ptable s) (\<lambda>s.
     bindE (curproc s) (\<lambda>(p, s).
     bindE (sched sw (upd_proc p (\<lambda>q. q\<lparr>p_state := RUNNABLE\<rparr>) s)) (release Lk_ptable)))"

definition sleep ::
  "('z procv_scheme \<Rightarrow> 'z procv_scheme res) \<Rightarrow> chan \<Rightarrow> lockid \<Rightarrow> 'z procv_scheme \<Rightarrow> 'z procv_scheme res"
where
  "sleep sw chan lk s =
     bindE (myproc s) (\<lambda>(p, s).
       case p of None \<Rightarrow> Inl (Panic ''sleep'')
       | Some i \<Rightarrow>
           bindE (if lk \<noteq> Lk_ptable then bindE (acquire Lk_ptable s) (release lk) else Inr s) (\<lambda>s.
             let s = upd_proc i (\<lambda>q. q\<lparr>p_chan := Some chan, p_state := SLEEPING\<rparr>) s in
             bindE (sched sw s) (\<lambda>s.
               let s = upd_proc i (\<lambda>q. q\<lparr>p_chan := None\<rparr>) s in
               if lk \<noteq> Lk_ptable then bindE (release Lk_ptable s) (acquire lk) else Inr s)))"

definition wakeup1 :: "chan \<Rightarrow> 'z procv_scheme \<Rightarrow> 'z procv_scheme" where
  "wakeup1 chan s =
     fold (\<lambda>i s. if p_state (procs s i) = SLEEPING \<and> p_chan (procs s i) = Some chan
                  then upd_proc i (\<lambda>q. q\<lparr>p_state := RUNNABLE\<rparr>) s else s) ptable s"

definition wakeup :: "chan \<Rightarrow> 'z procv_scheme \<Rightarrow> 'z procv_scheme res" where
  "wakeup chan s = bindE (acquire Lk_ptable s) (\<lambda>s. release Lk_ptable (wakeup1 chan s))"

section \<open>Waiting and killing\<close>

text \<open>The entry \<open>wait\<close> has found: its kernel stack and address space freed, the entry reset.\<close>

definition reap :: "nat \<Rightarrow> 'z procv_scheme \<Rightarrow> 'z procv_scheme res" where
  "reap p s =
     bindE (kfree (p_kstack (procs s p)) s) (\<lambda>s.
       let s = upd_proc p (\<lambda>q. q\<lparr>p_kstack := 0\<rparr>) s in
       bindE (freevm (p_pgdir (procs s p)) s) (\<lambda>s.
         Inr (upd_proc p (\<lambda>q. q\<lparr>p_pid := 0, p_parent := None, p_name := [], p_killed := False,
                                p_state := UNUSED\<rparr>) s)))"

text \<open>
  The loop of \<open>wait\<close>, at most \<open>n\<close> rounds; -1 is \<open>None\<close>. A round that finds children but no zombie
  sleeps.
\<close>

fun wait_loop ::
  "nat \<Rightarrow> ('z procv_scheme \<Rightarrow> 'z procv_scheme res) \<Rightarrow> nat \<Rightarrow> 'z procv_scheme \<Rightarrow>
   (cint option \<times> 'z procv_scheme) res"
where
  "wait_loop 0 sw cur s = Inl Diverge"
| "wait_loop (Suc n) sw cur s =
     (let havekids = (\<exists>p \<in> set ptable. p_parent (procs s p) = Some cur) in
      case find (\<lambda>p. p_parent (procs s p) = Some cur \<and> p_state (procs s p) = ZOMBIE) ptable of
        Some p \<Rightarrow>
          let pid = p_pid (procs s p) in
          bindE (reap p s) (\<lambda>s. bindE (release Lk_ptable s) (\<lambda>s. Inr (Some pid, s)))
      | None \<Rightarrow>
          if \<not> havekids \<or> p_killed (procs s cur) then
            bindE (release Lk_ptable s) (\<lambda>s. Inr (None, s))
          else bindE (sleep sw (Ch_proc cur) Lk_ptable s) (wait_loop n sw cur))"

definition wait ::
  "nat \<Rightarrow> ('z procv_scheme \<Rightarrow> 'z procv_scheme res) \<Rightarrow> 'z procv_scheme \<Rightarrow>
   (cint option \<times> 'z procv_scheme) res" where
  "wait n sw s =
     bindE (curproc s) (\<lambda>(cur, s). bindE (acquire Lk_ptable s) (wait_loop n sw cur))"

text \<open>\<open>kill\<close>; the result \<open>False\<close> is -1.\<close>

definition kill :: "cint \<Rightarrow> 'z procv_scheme \<Rightarrow> (bool \<times> 'z procv_scheme) res" where
  "kill pid s =
     bindE (acquire Lk_ptable s) (\<lambda>s.
     case find (\<lambda>i. p_pid (procs s i) = pid) ptable of
       Some i \<Rightarrow>
         let s = upd_proc i (\<lambda>q. q\<lparr>p_killed := True\<rparr>) s;
             s = (if p_state (procs s i) = SLEEPING then upd_proc i (\<lambda>q. q\<lparr>p_state := RUNNABLE\<rparr>) s else s)
         in bindE (release Lk_ptable s) (\<lambda>s. Inr (True, s))
     | None \<Rightarrow> bindE (release Lk_ptable s) (\<lambda>s. Inr (False, s)))"

section \<open>Settings of a process\<close>

definition find_and_set :: "(proc \<Rightarrow> proc) \<Rightarrow> cint \<Rightarrow> 'z procv_scheme \<Rightarrow> 'z procv_scheme" where
  "find_and_set f pid s =
     (case find (\<lambda>i. pid = p_pid (procs s i)) ptable of None \<Rightarrow> s | Some i \<Rightarrow> upd_proc i f s)"

definition find_and_set_priority :: "cint \<Rightarrow> cint \<Rightarrow> 'z procv_scheme \<Rightarrow> 'z procv_scheme" where
  "find_and_set_priority v pid s = find_and_set (\<lambda>q. q\<lparr>p_priority := v\<rparr>) pid s"

definition find_and_set_lottery_ticket :: "cint \<Rightarrow> cint \<Rightarrow> 'z procv_scheme \<Rightarrow> 'z procv_scheme" where
  "find_and_set_lottery_ticket v pid s = find_and_set (\<lambda>q. q\<lparr>p_lottery_ticket := v\<rparr>) pid s"

definition find_and_set_sched_queue :: "cint \<Rightarrow> cint \<Rightarrow> 'z procv_scheme \<Rightarrow> 'z procv_scheme" where
  "find_and_set_sched_queue v pid s = find_and_set (\<lambda>q. q\<lparr>p_schedQueue := v\<rparr>) pid s"

definition find_and_set_burst_time :: "cint \<Rightarrow> cint \<Rightarrow> 'z procv_scheme \<Rightarrow> 'z procv_scheme" where
  "find_and_set_burst_time v pid s = find_and_set (\<lambda>q. q\<lparr>p_burst_time := v\<rparr>) pid s"

end
