(* ===== verification/Procprint.thy ===== *)
theory Procprint
  imports Proc
begin

text \<open>
  The process listings of src/source/proc.c: \<open>procdump\<close>, \<open>printProcess\<close>, \<open>getprocs\<close> and
  \<open>show_all_processes_scheduling\<close> with its helpers. They run without the table's lock and only
  print. The call stack \<open>procdump\<close> shows for a sleeping process comes from \<open>getcallerpcs\<close>, which
  reads frame pointers on the kernel stack; it is the argument \<open>pcs\<close>.
\<close>

definition nl :: string where
  "nl = [CHR 0x0A]"

section \<open>Listing for debugging\<close>

definition dump_state :: "procstate \<Rightarrow> string" where
  "dump_state st =
     (case st of UNUSED \<Rightarrow> ''unused'' | EMBRYO \<Rightarrow> ''embryo'' | SLEEPING \<Rightarrow> ''sleep ''
      | RUNNABLE \<Rightarrow> ''runble'' | RUNNING \<Rightarrow> ''run   '' | ZOMBIE \<Rightarrow> ''zombie'')"

fun print_pcs :: "uint list \<Rightarrow> 'z procv_scheme \<Rightarrow> 'z procv_scheme res" where
  "print_pcs [] s = Inr s"
| "print_pcs (pc # pcs) s =
     (if pc \<noteq> 0 then bindE (cprintf '' %p'' [CInt pc] s) (print_pcs pcs) else Inr s)"

fun procdump_loop :: "(nat \<Rightarrow> uint list) \<Rightarrow> nat list \<Rightarrow> 'z procv_scheme \<Rightarrow> 'z procv_scheme res" where
  "procdump_loop pcs [] s = Inr s"
| "procdump_loop pcs (p # ps) s =
     (let q = procs s p in
      if p_state q = UNUSED then procdump_loop pcs ps s
      else bindE (cprintf ''%d %s %s'' [CInt (p_pid q), CStr (Some (dump_state (p_state q))),
                                      CStr (Some (p_name q))] s) (\<lambda>s.
           bindE (if p_state q = SLEEPING then print_pcs (take 10 (pcs p)) s else Inr s) (\<lambda>s.
           bindE (cprintf nl [] s) (procdump_loop pcs ps))))"

definition procdump :: "(nat \<Rightarrow> uint list) \<Rightarrow> 'z procv_scheme \<Rightarrow> 'z procv_scheme res" where
  "procdump pcs s = procdump_loop pcs ptable s"

section \<open>The ps listing\<close>

definition print_state_c :: "procstate \<Rightarrow> string" where
  "print_state_c st =
     (case st of UNUSED \<Rightarrow> ''UNUSED'' | EMBRYO \<Rightarrow> ''EMBRYO'' | SLEEPING \<Rightarrow> ''SLEEPING''
      | RUNNABLE \<Rightarrow> ''RUNNABLE'' | RUNNING \<Rightarrow> ''RUNNING'' | ZOMBIE \<Rightarrow> ''ZOMBIE'')"

definition printProcess :: "nat \<Rightarrow> 'z procv_scheme \<Rightarrow> 'z procv_scheme res" where
  "printProcess p s =
     (let q = procs s p in
      bindE (cprintf (''name : %s'' @ nl) [CStr (Some (p_name q))] s) (\<lambda>s.
      bindE (cprintf (''PID : %d'' @ nl) [CInt (p_pid q)] s) (\<lambda>s.
      bindE (case p_parent q of None \<Rightarrow> Inl (Fault ''p->parent->pid'')
             | Some pp \<Rightarrow> cprintf (''PPID : %d'' @ nl) [CInt (p_pid (procs s pp))] s) (\<lambda>s.
      cprintf (''state : '' @ print_state_c (p_state q) @ nl) [] s))))"

definition rule_line :: string where
  "rule_line = nl @ replicate 29 CHR ''-'' @ nl"

fun getprocs_loop :: "nat list \<Rightarrow> 'z procv_scheme \<Rightarrow> 'z procv_scheme res" where
  "getprocs_loop [] s = Inr s"
| "getprocs_loop (p # ps) s =
     (if p_pid (procs s p) = 0 then getprocs_loop ps s
      else bindE (printProcess p s) (\<lambda>s. bindE (cprintf rule_line [] s) (getprocs_loop ps)))"

definition getprocs :: "'z procv_scheme \<Rightarrow> (cint \<times> 'z procv_scheme) res" where
  "getprocs s =
     bindE (cprintf rule_line [] s) (\<lambda>s. bindE (getprocs_loop ptable s) (\<lambda>s. Inr (23, s)))"

section \<open>The scheduling table\<close>

definition int_size :: "cint \<Rightarrow> nat" where
  "int_size i =
     (if sint i \<ge> 1000000000 then 10
      else if sint i \<ge> 100000000 then 9
      else if sint i \<ge> 10000000 then 8
      else if sint i \<ge> 1000000 then 7
      else if sint i \<ge> 100000 then 6
      else if sint i \<ge> 10000 then 5
      else if sint i \<ge> 1000 then 4
      else if sint i \<ge> 100 then 3
      else if sint i \<ge> 10 then 2
      else 1)"

definition find_queue_name :: "cint \<Rightarrow> string" where
  "find_queue_name queue =
     (if queue = 1 then ''PRIORITY'' else if queue = 2 then ''SJF''
      else if queue = 3 then ''LOTTERY'' else [])"

text \<open>\<open>for(i = 0 ; i < n; i++) cprintf(" ")\<close>\<close>

fun spaces :: "nat \<Rightarrow> 'z procv_scheme \<Rightarrow> 'z procv_scheme res" where
  "spaces 0 s = Inr s"
| "spaces (Suc n) s = bindE (cprintf '' '' [] s) (spaces n)"

definition longest_name :: "'z procv_scheme \<Rightarrow> nat" where
  "longest_name s =
     fold (\<lambda>p m. if p_pid (procs s p) = 0 then m
                  else if m < length (p_name (procs s p)) then length (p_name (procs s p)) else m) ptable 0"

text \<open>The columns of a row or of the heading: a text and the blanks after it.\<close>

fun columns :: "((string \<times> carg list) \<times> int) list \<Rightarrow> 'z procv_scheme \<Rightarrow> 'z procv_scheme res" where
  "columns [] s = Inr s"
| "columns (((fmt, args), pad) # cs) s =
     bindE (cprintf fmt args s) (\<lambda>s. bindE (spaces (nat pad) s) (columns cs))"

definition heading :: "nat \<Rightarrow> ((string \<times> carg list) \<times> int) list" where
  "heading name_spaces =
     [((''name'', []), int name_spaces - 4 + 3), ((''pid'', []), 4), ((''state'', []), 6),
      ((''queue'', []), 5), ((''priority'', []), 3), ((''lottery'', []), 3), ((''burstTime'', []), 3),
      ((''createTime'', []), 2), ((''number'' @ nl, []), 0),
      ((concat (replicate 40 ''- '') @ nl, []), 0)]"

definition row :: "nat \<Rightarrow> proc \<Rightarrow> ((string \<times> carg list) \<times> int) list" where
  "row name_spaces q =
     (let state = print_state_c (p_state q);
          queue_name = find_queue_name (p_schedQueue q) in
      [((''%s'', [CStr (Some (p_name q))]), int name_spaces - int (length (p_name q)) + 4),
       ((''%d'', [CInt (p_pid q)]), 6 - int (int_size (p_pid q))),
       ((''%s'', [CStr (Some state)]), 11 - int (length state)),
       ((''%s '', [CStr (Some queue_name)]), 12 - int (length queue_name)),
       ((''%d  '', [CInt (p_priority q)]), 8 - int (int_size (p_priority q))),
       ((''%d  '', [CInt (p_lottery_ticket q)]), 10 - int (int_size (p_lottery_ticket q))),
       ((''%d  '', [CInt (p_burst_time q)]), 10 - int (int_size (p_burst_time q))),
       ((''%d  '', [CInt (p_creation_time q)]), 10 - int (int_size (p_creation_time q))),
       ((''%d  '', [CInt (p_process_count q)]), 0), ((nl, []), 0)])"

fun rows :: "nat \<Rightarrow> nat list \<Rightarrow> 'z procv_scheme \<Rightarrow> 'z procv_scheme res" where
  "rows name_spaces [] s = Inr s"
| "rows name_spaces (p # ps) s =
     (if p_pid (procs s p) = 0 then rows name_spaces ps s
      else bindE (columns (row name_spaces (procs s p)) s) (rows name_spaces ps))"

definition show_all_processes_scheduling :: "'z procv_scheme \<Rightarrow> 'z procv_scheme res" where
  "show_all_processes_scheduling s =
     (let name_spaces = longest_name s
      in bindE (columns (heading name_spaces) s) (rows name_spaces ptable))"

end
