(* ===== verification/Proc_Lemmas.thy ===== *)
theory Proc_Lemmas
  imports Proc Vm_Copy
begin

text \<open>
  What the operations of proc.c do: the effect of a critical section under \<open>ptable.lock\<close> on the
  layers above the locks, closed forms of the table loops, and results of the operations when the
  CPU can take their locks.
\<close>

section \<open>Fields above the locks\<close>

lemma distinct_ptable [simp]: "distinct ptable"
  by (simp add: ptable_def)

lemma vm_touch_sel [simp]:
  "pg_refcount (touch c s) = pg_refcount s" "kpgdir (touch c s) = kpgdir s" "cr3 (touch c s) = cr3 s"
  "tlb (touch c s) = tlb s"
  by (simp_all add: touch_def upd_cpu_def)

lemma proc_touch_sel [simp]:
  "procs (touch c s) = procs s" "initproc (touch c s) = initproc s" "nextpid (touch c s) = nextpid s"
  "createdProcess (touch c s) = createdProcess s" "process_number (touch c s) = process_number s"
  "ticks (touch c s) = ticks s" "cpu_gdt (touch c s) = cpu_gdt s" "cpu_ts (touch c s) = cpu_ts s"
  "gs_proc (touch c s) = gs_proc s" "gs_cpu (touch c s) = gs_cpu s" "cr2 (touch c s) = cr2 s"
  "ts_addr (touch c s) = ts_addr s"
  by (simp_all add: touch_def upd_cpu_def)

lemma vm_acquired_sel [simp]:
  "pg_refcount (acquired c l s) = pg_refcount s" "kpgdir (acquired c l s) = kpgdir s" "cr3 (acquired c l s) = cr3 s"
  "tlb (acquired c l s) = tlb s"
  by (simp_all add: lock_defs)

lemma vm_chg_touch: "vm_chg c s (touch c s)"
  by (simp add: vm_chg_def touch_def upd_cpu_def)

lemma proc_acquired_sel [simp]:
  "procs (acquired c l s) = procs s" "initproc (acquired c l s) = initproc s"
  "nextpid (acquired c l s) = nextpid s" "createdProcess (acquired c l s) = createdProcess s"
  "process_number (acquired c l s) = process_number s" "ticks (acquired c l s) = ticks s"
  "cr2 (acquired c l s) = cr2 s" "gs_proc (acquired c l s) = gs_proc s"
  by (simp_all add: lock_defs)

lemma upd_proc_sel [simp]:
  "procs (upd_proc i f s) j = (if j = i then f (procs s i) else procs s j)"
  "cpus (upd_proc i f s) = cpus s" "locks (upd_proc i f s) = locks s" "fl_if (upd_proc i f s) = fl_if s"
  "lapicid (upd_proc i f s) = lapicid s" "ncpu (upd_proc i f s) = ncpu s" "mem (upd_proc i f s) = mem s"
  "nextpid (upd_proc i f s) = nextpid s" "ticks (upd_proc i f s) = ticks s"
  "createdProcess (upd_proc i f s) = createdProcess s" "process_number (upd_proc i f s) = process_number s"
  by (simp_all add: upd_proc_def)

lemma upd_proc_pred [simp]:
  "cpu_ok (upd_proc i f s) c = cpu_ok s c" "lk_free (upd_proc i f s) l = lk_free s l"
  "lk_held (upd_proc i f s) c l = lk_held s c l"
  by (simp_all add: lock_defs)

text \<open>The end of a critical section under \<open>ptable.lock\<close>.\<close>

lemma ptable_release:
  assumes "cpu_ok s c" "lk_free s Lk_ptable"
  shows "release Lk_ptable ((acquired c Lk_ptable s)\<lparr>procs := P, nextpid := n\<rparr>) =
    Inr (touch c (s\<lparr>procs := P, nextpid := n\<rparr>))"
proof -
  let ?t = "(acquired c Lk_ptable s)\<lparr>procs := P, nextpid := n\<rparr>"
  have "same_cpuv (acquired c Lk_ptable s) ?t" by (simp add: same_cpuv_def)
  from release_restores [OF assms this] show ?thesis by (cases s) (simp add: lock_defs)
qed

lemma ptable_release_procs:
  assumes "cpu_ok s c" "lk_free s Lk_ptable"
  shows "release Lk_ptable ((acquired c Lk_ptable s)\<lparr>procs := P\<rparr>) = Inr (touch c (s\<lparr>procs := P\<rparr>))"
  using ptable_release [OF assms, where P = P and n = "nextpid s"] by (cases s) (simp add: lock_defs)

lemma myproc_ok: "cpu_ok s c \<Longrightarrow> myproc s = Inr (cproc (cpus s c), touch c s)"
proof -
  assume ok: "cpu_ok s c"
  then have cs: "this_cpu s c" "this_cpu (pushed c s) c" "\<not> fl_if (pushed c s)" "0 < ncli (cpus (pushed c s) c)"
    by (auto simp: lock_defs)
  then show ?thesis
    using popped_pushed [OF ok] by (simp add: myproc_def pushcli_ok [OF cs(1)] popcli_ok) (simp add: lock_defs)
qed

lemma curproc_ok: "cpu_ok s c \<Longrightarrow> cproc (cpus s c) = Some p \<Longrightarrow> curproc s = Inr (p, touch c s)"
  by (simp add: curproc_def myproc_ok)

section \<open>Table loops\<close>

lemma fold_procs:
  assumes "distinct xs"
  shows "fold (\<lambda>i s. if Q (procs s i) then upd_proc i f s else s) xs s =
    s\<lparr>procs := (\<lambda>i. if i \<in> set xs \<and> Q (procs s i) then f (procs s i) else procs s i)\<rparr>"
  using assms
proof (induction xs arbitrary: s)
  case (Cons x xs)
  then show ?case by (auto simp: upd_proc_def fun_eq_iff intro!: arg_cong [where f = "\<lambda>p. s\<lparr>procs := p\<rparr>"])
qed simp

definition woken :: "chan \<Rightarrow> proc \<Rightarrow> proc" where
  "woken ch q = (if p_state q = SLEEPING \<and> p_chan q = Some ch then q\<lparr>p_state := RUNNABLE\<rparr> else q)"

lemma wakeup1_eq: "wakeup1 ch s = s\<lparr>procs := (\<lambda>i. if i < NPROC then woken ch (procs s i) else procs s i)\<rparr>"
  unfolding wakeup1_def
  by (subst fold_procs [where Q = "\<lambda>q. p_state q = SLEEPING \<and> p_chan q = Some ch"])
    (auto simp: woken_def intro!: arg_cong [where f = "\<lambda>p. s\<lparr>procs := p\<rparr>"])

lemma wakeup_ok:
  assumes "cpu_ok s c" "lk_free s Lk_ptable"
  shows "wakeup ch s =
    Inr (touch c (s\<lparr>procs := (\<lambda>i. if i < NPROC then woken ch (procs s i) else procs s i)\<rparr>))"
  by (simp add: wakeup_def acquire_ok [OF assms] wakeup1_eq ptable_release_procs [OF assms] cong: if_cong)

lemma find_first:
  "find P ptable = Some i \<longleftrightarrow> i < NPROC \<and> P i \<and> (\<forall>j < i. \<not> P j)"
proof -
  have "find P [0..<n] = Some i \<longleftrightarrow> i < n \<and> P i \<and> (\<forall>j < i. \<not> P j)" for n
    by (auto simp: find_Some_iff)
  then show ?thesis by (simp add: ptable_def)
qed

lemma find_none: "find P ptable = None \<longleftrightarrow> (\<forall>i < NPROC. \<not> P i)"
  by (auto simp: find_None_iff)

definition killed :: "proc \<Rightarrow> proc" where
  "killed q = q\<lparr>p_killed := True, p_state := (if p_state q = SLEEPING then RUNNABLE else p_state q)\<rparr>"

lemma kill_ok:
  assumes "cpu_ok s c" "lk_free s Lk_ptable"
  shows "kill pid s =
    (case find (\<lambda>i. p_pid (procs s i) = pid) ptable of
       Some i \<Rightarrow> Inr (True, touch c (s\<lparr>procs := (procs s)(i := killed (procs s i))\<rparr>))
     | None \<Rightarrow> Inr (False, touch c s))"
proof (cases "find (\<lambda>i. p_pid (procs s i) = pid) ptable")
  case None
  then show ?thesis by (simp add: kill_def acquire_ok [OF assms] release_acquired [OF assms])
next
  case (Some i)
  have "(if p_state (procs s i) = SLEEPING
      then upd_proc i (\<lambda>q. q\<lparr>p_state := RUNNABLE\<rparr>) (upd_proc i (\<lambda>q. q\<lparr>p_killed := True\<rparr>) (acquired c Lk_ptable s))
      else upd_proc i (\<lambda>q. q\<lparr>p_killed := True\<rparr>) (acquired c Lk_ptable s)) =
    (acquired c Lk_ptable s)\<lparr>procs := (procs s)(i := killed (procs s i))\<rparr>"
    by (simp add: upd_proc_def killed_def)
  then show ?thesis
    using Some by (simp add: kill_def acquire_ok [OF assms] ptable_release_procs [OF assms] cong: if_cong)
qed

section \<open>Switching\<close>

lemma holding_held:
  assumes "cpu_ok s c" "lk_held s c l" "0 < ncli (cpus s c)"
  shows "holding l s = Inr (True, s)"
  using assms(2) by (simp add: holding_ok [OF assms(1)] touch_nested [OF assms(3)] lk_held_def)

text \<open>
  \<open>sched\<close> with \<open>ptable.lock\<close> held, one level of interrupt disabling and a process that is no
  longer running: it switches, with only the resume point of the process recorded, and restores
  \<open>intena\<close> of whatever CPU it is resumed on.
\<close>

definition paused :: "nat \<Rightarrow> 'z procv_scheme \<Rightarrow> 'z procv_scheme" where
  "paused i s = upd_proc i (\<lambda>q. q\<lparr>p_context := (p_context q)\<lparr>cx_eip := In_sched\<rparr>\<rparr>) s"

definition resumed :: "bool \<Rightarrow> 'z procv_scheme \<Rightarrow> 'z procv_scheme res" where
  "resumed ie s = bindE (mycpu s) (\<lambda>c. Inr (upd_cpu c (\<lambda>k. k\<lparr>intena := ie\<rparr>) s))"

lemma sched_ok:
  assumes "cpu_ok s c" "lk_held s c Lk_ptable" "ncli (cpus s c) = 1" "cproc (cpus s c) = Some i"
    "p_state (procs s i) \<noteq> RUNNING"
  shows "sched sw s = bindE (sw (paused i s)) (resumed (intena (cpus s c)))"
proof -
  have h: "holding Lk_ptable s = Inr (True, s)" "touch c s = s" "\<not> fl_if s" "mycpu s = Inr c"
    using assms(1-3) by (simp_all add: holding_held touch_nested) (simp_all add: cpu_ok_def)
  then show ?thesis
    using assms by (simp add: sched_def myproc_ok resumed_def [abs_def] paused_def)
qed

lemma sched_unlocked:
  assumes "cpu_ok s c" "lk_free s Lk_ptable"
  shows "sched sw s = Inl (Panic ''sched ptable.lock'')"
  using assms by (simp add: sched_def myproc_ok holding_ok) (simp add: lk_free_def)

lemma sched_nested:
  assumes "cpu_ok s c" "lk_held s c Lk_ptable" "1 < ncli (cpus s c)"
  shows "sched sw s = Inl (Panic ''sched locks'')"
proof -
  have "holding Lk_ptable s = Inr (True, s)" "touch c s = s" "mycpu s = Inr c"
    using assms by (simp_all add: holding_held touch_nested) (simp_all add: cpu_ok_def)
  then show ?thesis using assms by (simp add: sched_def myproc_ok)
qed

text \<open>The state in which \<open>sleep\<close> switches away, having entered with the lock \<open>lk\<close> held.\<close>

definition asleep :: "nat \<Rightarrow> lockid \<Rightarrow> nat \<Rightarrow> chan \<Rightarrow> 'z procv_scheme \<Rightarrow> 'z procv_scheme" where
  "asleep c lk i ch s =
     (let s = (if lk = Lk_ptable then s else released c lk (acquired c Lk_ptable s))
      in paused i (upd_proc i (\<lambda>q. q\<lparr>p_chan := Some ch, p_state := SLEEPING\<rparr>) s))"

definition awake :: "lockid \<Rightarrow> nat \<Rightarrow> 'z procv_scheme \<Rightarrow> 'z procv_scheme res" where
  "awake lk i s =
     (let s = upd_proc i (\<lambda>q. q\<lparr>p_chan := None\<rparr>) s
      in if lk \<noteq> Lk_ptable then bindE (release Lk_ptable s) (acquire lk) else Inr s)"

lemma released_acquired_other:
  assumes "cpu_ok s c" "lk_held s c lk" "ncli (cpus s c) = 1" "lk_free s l" "l \<noteq> lk"
  defines "t \<equiv> released c lk (acquired c l s)"
  shows "cpu_ok t c" "lk_held t c l" "lk_free t lk" "ncli (cpus t c) = 1" "intena (cpus t c) = intena (cpus s c)"
    "cproc (cpus t c) = cproc (cpus s c)"
  using assms by (auto simp: t_def lock_defs)

lemma release_acquired_other:
  assumes "cpu_ok s c" "lk_held s c lk" "ncli (cpus s c) = 1" "lk_free s l" "l \<noteq> lk"
  shows "release lk (acquired c l s) = Inr (released c lk (acquired c l s))"
  using assms by (intro release_ok acquired_pred) (auto simp: lock_defs)

lemma sleep_ok:
  assumes cpu: "cpu_ok s c" and held: "lk_held s c lk" and one: "ncli (cpus s c) = 1"
    and cur: "cproc (cpus s c) = Some i" and free: "lk \<noteq> Lk_ptable \<Longrightarrow> lk_free s Lk_ptable"
  shows "sleep sw ch lk s =
    bindE (sw (asleep c lk i ch s)) (\<lambda>t. bindE (resumed (intena (cpus s c)) t) (awake lk i))"
proof -
  define u where "u = (if lk = Lk_ptable then s else released c lk (acquired c Lk_ptable s))"
  have u: "cpu_ok u c" "lk_held u c Lk_ptable" "ncli (cpus u c) = 1" "intena (cpus u c) = intena (cpus s c)"
    "cproc (cpus u c) = Some i"
    using cpu held one cur released_acquired_other [OF cpu held one free] by (auto simp: u_def)
  have "(if lk \<noteq> Lk_ptable then bindE (acquire Lk_ptable s) (release lk) else Inr s) = Inr u"
    using release_acquired_other [OF cpu held one free] by (simp add: u_def acquire_ok [OF cpu free])
  moreover have "touch c s = s" using one by (simp add: touch_nested)
  moreover have "sched sw (upd_proc i (\<lambda>q. q\<lparr>p_chan := Some ch, p_state := SLEEPING\<rparr>) u) =
      bindE (sw (asleep c lk i ch s)) (resumed (intena (cpus s c)))"
  proof -
    have "asleep c lk i ch s = paused i (upd_proc i (\<lambda>q. q\<lparr>p_chan := Some ch, p_state := SLEEPING\<rparr>) u)"
      by (simp add: asleep_def u_def)
    then show ?thesis
      using u sched_ok [of "upd_proc i (\<lambda>q. q\<lparr>p_chan := Some ch, p_state := SLEEPING\<rparr>) u" c i sw] by simp
  qed
  ultimately show ?thesis
    by (simp add: sleep_def myproc_ok [OF cpu] cur bindE_assoc awake_def [abs_def] cong: if_cong)
qed

end
