(* ===== verification/Pagefault.thy ===== *)
theory Pagefault
  imports Proc_Lemmas
begin

text \<open>
  The page fault handler, \<open>pagefault\<close> of src/source/vm.c, and what it does for copy-on-write:
  a write to a read-only page of the process either makes the page writable again, when nobody
  else maps it, or gives the process a copy of its own. The lemmas give the effect on the view,
  the reference counts and the page contents, for every branch.

  The handler reaches the faulting process through the variable \<open>proc\<close> of proc.h (here
  \<open>gs_proc\<close>), not through \<open>myproc()\<close>.
\<close>

section \<open>The handler\<close>

definition illegal_msg :: string where
  "illegal_msg = ''Illegal memory access on cpu %d addr 0x%x, kill proc %s with pid %d'' @ [CHR 0x0A]"

definition kill_current :: "nat \<Rightarrow> 'z procv_scheme \<Rightarrow> 'z procv_scheme" where
  "kill_current p s = upd_proc p (\<lambda>q. q\<lparr>p_killed := True\<rparr>) s"

definition illegal_access :: "uint \<Rightarrow> 'z procv_scheme \<Rightarrow> 'z procv_scheme res" where
  "illegal_access va s =
     (case (gs_cpu s, gs_proc s) of
        (Some c, Some p) \<Rightarrow>
          bindE (cprintf illegal_msg
                   [CInt (ucast (apicid (cpus s c))), CInt va, CStr (Some (p_name (procs s p))),
                    CInt (p_pid (procs s p))] s) (\<lambda>s. Inr (kill_current p s))
      | _ \<Rightarrow> Inl (Fault ''proc''))"

text \<open>
  The branch for a present, read-only user page. The result \<open>False\<close> is the early return when no
  page is left.
\<close>

definition cow_fault :: "nat \<Rightarrow> pte_ptr \<Rightarrow> 'z procv_scheme \<Rightarrow> (bool \<times> 'z procv_scheme) res" where
  "cow_fault p pte s =
     (let pa = PTE_ADDR (ld_pte s pte) in
      bindE (acquire Lk_pgref s) (\<lambda>s.
      bindE (rd_refcount (pfn pa) s) (\<lambda>r.
        if r = 1 then
          bindE (release Lk_pgref s) (\<lambda>s. Inr (True, st_pte pte (ld_pte s pte OR PTE_W) s))
        else if sint r > 1 then
          bindE (release Lk_pgref s) (\<lambda>s.
          bindE (kalloc s) (\<lambda>(pg, s).
            if pg = 0 then
              bindE (cprintf ''Illegal memory access'' [] s) (\<lambda>s. Inr (False, kill_current p s))
            else
              let s = memmove_page pg (P2V pa) s in
              bindE (acquire Lk_pgref s) (\<lambda>s.
              bindE (add_refcount (pfn pa) (- 1) s) (\<lambda>s.
              bindE (add_refcount (pfn (V2P pg)) 1 s) (\<lambda>s.
              bindE (release Lk_pgref s) (\<lambda>s.
              Inr (True, st_pte pte (V2P pg OR PTE_P OR PTE_W OR PTE_U) s)))))))
        else bindE (release Lk_pgref s) (\<lambda>s. Inl (Panic ''Pagefault due to wrong ref count'')))))"

definition pagefault :: "'z procv_scheme \<Rightarrow> 'z procv_scheme res" where
  "pagefault s =
     (let va = cr2 s in
      if va \<ge> KERNBASE then illegal_access va s
      else case gs_proc s of
        None \<Rightarrow> Inl (Fault ''proc'')
      | Some p \<Rightarrow>
          bindE (walkpgdir (p_pgdir (procs s p)) va False s) (\<lambda>(pte, s).
            case pte of
              None \<Rightarrow> illegal_access va s
            | Some e \<Rightarrow>
                if \<not> has (ld_pte s e) PTE_U then illegal_access va s
                else if \<not> has (ld_pte s e) PTE_P then illegal_access va s
                else if has (ld_pte s e) PTE_W then
                  Inl (Panic ''Unknown page fault due to a writable pte'')
                else bindE (cow_fault p e s) (\<lambda>(flush, s).
                  Inr (if flush then lcr3 (V2P (p_pgdir (procs s p))) s else s))))"

section \<open>Private copies\<close>

lemma index_PGROUNDDOWN [simp]: "PDX (PGROUNDDOWN a) = PDX a" "PTX (PGROUNDDOWN a) = PTX a"
  by (simp_all add: word_unat_eq_iff unat_PDX unat_PTX unat_PGROUNDDOWN flip: div_mult2_eq)

lemma walk_PGROUNDDOWN: "walkpgdir d (PGROUNDDOWN a) al s = walkpgdir d a al s"
  unfolding walkpgdir_def index_PGROUNDDOWN ..

text \<open>What a directory shows at a word of a virtual page.\<close>

definition content :: "'z kmemv_scheme \<Rightarrow> (uint \<Rightarrow> role) \<Rightarrow> uint \<Rightarrow> uint \<Rightarrow> uint \<Rightarrow> uint" where
  "content s own D va i = mem s (pfn (view s own (D, va))) i"

text \<open>One mapping moves from a shared page to a fresh one.\<close>

lemma refs_ok_private:
  assumes ok: "refs_ok V rc own" and k: "va < KERNBASE" "has (V (D, va)) PTE_P" "has w PTE_P"
    and f: "own f = RUser" "f = pfn (V (D, va))" "1 < refs V f"
    and F: "own F \<noteq> RUser" "F = pfn w" "refs V F = 0"
  shows "refs_ok (V((D, va) := w)) (rc(f := rc f - 1, F := rc F + 1)) (own(F := RUser))"
proof -
  have ne: "F \<noteq> f" using F f by auto
  have "refs_ok (V((D, va) := 0)) (rc(f := rc f - 1)) own"
    using refs_ok_drop [OF ok k(1,2) f(1) [unfolded f(2)] f(2)] f(3) by simp
  then have "refs_ok (V((D, va) := 0, (D, va) := w)) ((rc(f := rc f - 1))(F := (rc(f := rc f - 1)) F + 1)) (own(F := RUser))"
  proof (rule refs_ok_fresh [OF _ k(1)])
    have "refs (V((D, va) := 0)) F = refs V F"
      by (rule refs_upd_other) (use f(2) ne in auto)
    then show "refs (V((D, va) := 0)) F = 0" using F(3) by simp
  qed (use k(3) F in simp_all)
  then show ?thesis using ne by simp
qed

lemma user_frame:
  assumes inv: "vm_inv s own fl" and a: "a < KERNBASE" and P: "has (view s own (D, a)) PTE_P"
  defines "f \<equiv> pfn (view s own (D, a))"
  shows "own f = RUser" "f < NREFCOUNT" "unat (pg_refcount s f) = refs (view s own) f"
    "0 < refs (view s own) f" "refs (view s own) f \<le> 127"
proof -
  have st: "vm_struct s own fl" and ok: "refs_ok (view s own) (pg_refcount s) own"
    using inv by (simp_all add: vm_inv_def)
  show u: "own f = RUser" using vs_user [OF st a P] by (simp add: f_def)
  show "f < NREFCOUNT" using vs_bounds(1) [OF st] u by simp
  show "unat (pg_refcount s f) = refs (view s own) f" "0 < refs (view s own) f" "refs (view s own) f \<le> 127"
    using refs_okD(1-3) [OF ok u] by simp_all
qed

lemma rc_signed: "unat (r :: 8 word) \<le> 127 \<Longrightarrow> sint r = int (unat r)"
proof -
  assume r: "unat r \<le> 127"
  have g: "sint (of_int x :: 8 word) = x" if "0 \<le> x" "x \<le> 127" for x using that by (simp add: int_word_sint)
  have "int (unat r) \<le> 127" using r by linarith
  from g [OF of_nat_0_le_iff this] show ?thesis by simp
qed

lemma cow_single:
  assumes inv: "vm_inv s own fl" and rd: "vm_ready s c" and T: "own T = RTab D (PDX a)"
    and a: "page_aligned a" "a < KERNBASE" and P: "has (view s own (D, a)) PTE_P"
    and one: "refs (view s own) (pfn (view s own (D, a))) = 1"
  obtains s' where "cow_fault p (kva T, PTX a) s = Inr (True, s')" "vm_chg c s s'" "vm_inv s' own fl"
    "view s' own = (view s own)((D, a) := view s own (D, a) OR PTE_W)" "content_same own s s'"
proof -
  let ?e = "view s own (D, a)" and ?pte = "(kva T, PTX a)"
  have st: "vm_struct s own fl" and ok: "refs_ok (view s own) (pg_refcount s) own"
    using inv by (simp_all add: vm_inv_def)
  have l: "cpu_ok s c" "lk_free s Lk_pgref" using rd by (simp_all add: vm_ready_def)
  note u = user_frame [OF inv a(2) P]
  have r1: "pg_refcount s (pfn ?e) = 1" using u(3) one by (simp add: word_unat_eq_iff)
  have ld: "ld_pte s ?pte = ?e" by (rule ld_pte_vm [OF st T a(1)])
  let ?t = "touch c s"
  have m: "mem ?t = mem s" "freelist ?t = freelist s" "kend ?t = kend s" by simp_all
  have tst: "vm_struct ?t own fl" and tv: "view ?t own = view s own"
    using vm_struct_cong [OF m] st by simp_all
  have ldt: "ld_pte ?t ?pte = ?e" using ld_pte_vm [OF tst T a(1)] tv by simp
  have w: "own (pfn (?e OR PTE_W)) = RUser" using u(1) by simp
  note sp = st_pte_vm [OF tst T a(1), where w = "?e OR PTE_W", OF w]
  note x = vm_extD [OF sp(1)]
  show ?thesis
  proof (rule that)
    show "cow_fault p ?pte s = Inr (True, st_pte ?pte (?e OR PTE_W) ?t)"
      using u(2) r1 by (simp add: cow_fault_def ld acquire_ok [OF l] rd_refcount_def release_acquired [OF l] ldt)
    show "vm_chg c s (st_pte ?pte (?e OR PTE_W) ?t)"
      by (rule vm_chg_trans [OF vm_chg_touch x(1)])
    have "refs_ok ((view s own)((D, a) := ?e OR PTE_W)) (pg_refcount s) own"
      by (rule refs_ok_flags [OF ok]) (use one in simp_all)
    then show "vm_inv (st_pte ?pte (?e OR PTE_W) ?t) own fl"
      using x(2,4) sp(2) tv by (simp add: vm_inv_def)
  qed (use sp(2) tv x(5) in \<open>simp_all add: content_same_def\<close>)
qed

text \<open>The shared page: read the count, and later move one reference to the new page.\<close>

lemma cow_shared:
  assumes inv: "vm_inv s own fl" and rd: "vm_ready s c" and T: "own T = RTab D (PDX a)"
    and a: "page_aligned a" "a < KERNBASE" and P: "has (view s own (D, a)) PTE_P"
    and many: "1 < refs (view s own) (pfn (view s own (D, a)))"
  defines "f \<equiv> pfn (view s own (D, a))"
  shows "cow_fault p (kva T, PTX a) s =
    bindE (kalloc (touch c s)) (\<lambda>(pg, s).
      if pg = 0 then bindE (cprintf ''Illegal memory access'' [] s) (\<lambda>s. Inr (False, kill_current p s))
      else bindE (acquire Lk_pgref (memmove_page pg (kva f) s)) (\<lambda>s.
           bindE (add_refcount f (- 1) s) (\<lambda>s.
           bindE (add_refcount (pfn (V2P pg)) 1 s) (\<lambda>s.
           bindE (release Lk_pgref s) (\<lambda>s.
             Inr (True, st_pte (kva T, PTX a) (V2P pg OR PTE_P OR PTE_W OR PTE_U) s))))))"
proof -
  have st: "vm_struct s own fl" using inv by (simp_all add: vm_inv_def)
  have l: "cpu_ok s c" "lk_free s Lk_pgref" using rd by (simp_all add: vm_ready_def)
  note u = user_frame [OF inv a(2) P, folded f_def]
  have r: "pg_refcount s f \<noteq> 1" "1 < sint (pg_refcount s f)"
    using u(3,5) many rc_signed [of "pg_refcount s f"] by (auto simp: f_def)
  have ld: "ld_pte s (kva T, PTX a) = view s own (D, a)" by (rule ld_pte_vm [OF st T a(1)])
  show ?thesis
    using u(2) r by (simp add: cow_fault_def ld acquire_ok [OF l] rd_refcount_def release_acquired [OF l] kva_pfn
        flip: f_def cong: if_cong)
qed

lemma add_two_refcounts:
  assumes "cpu_ok s c" "lk_free s Lk_pgref" "f < NREFCOUNT" "F < NREFCOUNT" "f \<noteq> F"
  shows "bindE (acquire Lk_pgref s) (\<lambda>s. bindE (add_refcount f x s) (\<lambda>s. bindE (add_refcount F y s) (release Lk_pgref))) =
    Inr (touch c (s\<lparr>pg_refcount := (pg_refcount s)(f := pg_refcount s f + x, F := pg_refcount s F + y)\<rparr>))"
proof -
  let ?a = "acquired c Lk_pgref s"
  let ?t = "?a\<lparr>pg_refcount := (pg_refcount s)(f := pg_refcount s f + x, F := pg_refcount s F + y)\<rparr>"
  have "same_cpuv ?a ?t" by (simp add: same_cpuv_def)
  note rel = release_restores [OF assms(1,2) this]
  have "release Lk_pgref ?t = Inr (touch c (s\<lparr>pg_refcount := (pg_refcount s)(f := pg_refcount s f + x, F := pg_refcount s F + y)\<rparr>))"
    unfolding rel by (cases s) (simp add: lock_defs)
  then show ?thesis
    using assms(3-5) by (simp add: acquire_ok [OF assms(1,2)] add_refcount_def rd_refcount_def)
qed

lemma copied_page:
  assumes st: "vm_struct s own fl" and F: "own F = RHeld" and f: "own f = RUser" and fF: "frame (kva F) = F" "frame (kva f) = f"
  defines "s1 \<equiv> memmove_page (kva F) (kva f) s"
  shows "vm_struct s1 (own(F := RUser)) fl" "view s1 (own(F := RUser)) = view s own"
    "mem s1 = (mem s)(F := mem s f)"
proof -
  show m: "mem s1 = (mem s)(F := mem s f)" using fF by (simp add: s1_def memmove_page_def frame_def)
  have e: "freelist s1 = freelist s" "kend s1 = kend s" by (simp_all add: s1_def memmove_page_def)
  have w: "vm_struct s1 own fl" "view s1 own = view s own"
    using vm_struct_write [OF st _ m e] F by simp_all
  show "vm_struct s1 (own(F := RUser)) fl" "view s1 (own(F := RUser)) = view s own"
    using vm_struct_role [OF w(1), of F RUser] F w(2) by simp_all
qed

definition private_pte :: "uint \<Rightarrow> uint" where
  "private_pte F = V2P (kva F) OR PTE_P OR PTE_W OR PTE_U"

lemma private_pte:
  assumes "frame (kva F) = F"
  shows "pfn (private_pte F) = F" "has (private_pte F) PTE_P" "has (private_pte F) PTE_W" "has (private_pte F) PTE_U"
  using assms by (simp_all add: private_pte_def frame_def)

lemma refs_not_user: "vm_struct s own fl \<Longrightarrow> own F \<noteq> RUser \<Longrightarrow> refs (view s own) F = 0"
  using vs_user unfolding refs_0 by blast

lemma cow_copy:
  assumes inv: "vm_inv s own fl" and rd: "vm_ready s c" and T: "own T = RTab D (PDX a)"
    and a: "page_aligned a" "a < KERNBASE" and P: "has (view s own (D, a)) PTE_P"
    and many: "1 < refs (view s own) (pfn (view s own (D, a)))" and fl: "fl = v # vs"
  defines "F \<equiv> frame v"
  obtains s' where "cow_fault p (kva T, PTX a) s = Inr (True, s')" "vm_chg c s s'" "vm_inv s' (own(F := RUser)) vs"
    "view s' (own(F := RUser)) = (view s own)((D, a) := private_pte F)" "own F = RFree" "content_same own s s'"
    "mem s' F = mem s (pfn (view s own (D, a)))"
proof -
  let ?f = "pfn (view s own (D, a))" and ?t = "touch c s" and ?own = "own(F := RUser)"
  have st: "vm_struct s own fl" and ok: "refs_ok (view s own) (pg_refcount s) own"
    using inv by (simp_all add: vm_inv_def)
  have tst: "vm_struct ?t own fl" "view ?t own = view s own" using vm_struct_cong [of ?t s] st by simp_all
  have trd: "vm_ready ?t c" using rd by (simp add: vm_ready_def)
  obtain s1 where k: "v \<noteq> 0" "kalloc ?t = Inr (v, s1)" "vm_chg c ?t s1" "mem s1 = mem s"
      "pg_refcount s1 = pg_refcount s" "vm_struct s1 (own(F := RHeld)) vs"
      "view s1 (own(F := RHeld)) = view s own" "own F = RFree" "kva F = v"
    using tst(1) trd
  proof (cases rule: kalloc_vm)
    case (some v' vs' s1)
    then have "v' = v" "vs' = vs" using fl by simp_all
    then show ?thesis using that [of s1] some tst(2) by (simp add: F_def)
  qed (use fl in simp)
  note u = user_frame [OF inv a(2) P]
  have fF: "?f \<noteq> F" using u(1) k(8) by auto
  have fr: "frame (kva F) = F" "frame (kva ?f) = ?f"
    using vs_frame [OF st, of ?f] u(1) vs_frame [OF st, of F] k(8) by simp_all
  have Fb: "F < NREFCOUNT" using vs_bounds(1) [OF k(6), of F] by simp
  let ?s2 = "memmove_page v (kva ?f) s1"
  note c2 = copied_page [of s1 "own(F := RHeld)" vs F ?f, OF k(6)]
  have s2: "vm_struct ?s2 ?own vs" "view ?s2 ?own = view s own" "mem ?s2 = (mem s)(F := mem s ?f)"
    using c2 u(1) fF fr k(7,9,4) by simp_all
  have ch2: "vm_chg c s ?s2"
    using vm_chg_trans [OF vm_chg_trans [OF vm_chg_touch k(3)]] by (auto simp: memmove_page_def)
  have rd2: "cpu_ok ?s2 c" "lk_free ?s2 Lk_pgref" using vm_chg_ready [OF ch2 rd] by (simp_all add: vm_ready_def)
  have pr2: "pg_refcount ?s2 = pg_refcount s" using k(5) by (simp add: memmove_page_def)
  let ?r = "(pg_refcount s)(?f := pg_refcount s ?f - 1, F := pg_refcount s F + 1)"
  let ?s3 = "touch c (?s2\<lparr>pg_refcount := ?r\<rparr>)"
  have s3: "vm_struct ?s3 ?own vs" "view ?s3 ?own = view s own" "mem ?s3 = mem ?s2" "pg_refcount ?s3 = ?r"
    using vm_struct_cong [of ?s3 ?s2] s2(1,2) by simp_all
  have T': "?own T = RTab D (PDX a)" using T k(8) by auto
  let ?w = "private_pte F"
  have w: "?own (pfn ?w) = RUser" using private_pte(1) [OF fr(1)] by simp
  note sp = st_pte_vm [OF s3(1) T' a(1), where w = ?w, OF w]
  note x = vm_extD [OF sp(1)]
  show ?thesis
  proof (rule that)
    have "cow_fault p (kva T, PTX a) s =
      bindE (bindE (acquire Lk_pgref ?s2) (\<lambda>s. bindE (add_refcount ?f (- 1) s) (\<lambda>s. bindE (add_refcount F 1 s) (release Lk_pgref))))
        (\<lambda>s. Inr (True, st_pte (kva T, PTX a) ?w s))"
      using k(1,2,9) by (simp add: cow_shared [OF inv rd T a P many] private_pte_def bindE_assoc frame_def F_def)
    then show "cow_fault p (kva T, PTX a) s = Inr (True, st_pte (kva T, PTX a) ?w ?s3)"
      by (simp add: add_two_refcounts [OF rd2 u(2) Fb fF] pr2)
    have "vm_chg c ?s2 ?s3" by (simp add: vm_chg_def touch_def upd_cpu_def)
    then show "vm_chg c s (st_pte (kva T, PTX a) ?w ?s3)" using vm_chg_trans [OF vm_chg_trans [OF ch2] x(1)] by blast
    have "refs_ok ((view s own)((D, a) := ?w)) ?r ?own"
      using private_pte [OF fr(1)] k(8) refs_not_user [OF st, of F]
      by (intro refs_ok_private [OF ok a(2) P _ u(1) refl many]) simp_all
    then show "vm_inv (st_pte (kva T, PTX a) ?w ?s3) ?own vs"
      unfolding vm_inv_def sp(2) x(4) s3(2,4) using x(2) by blast
    show "view (st_pte (kva T, PTX a) ?w ?s3) ?own = (view s own)((D, a) := ?w)" unfolding sp(2) s3(2) ..
    show "own F = RFree" by (rule k(8))
    have m4: "mem (st_pte (kva T, PTX a) ?w ?s3) g = (if g = F then mem s ?f else mem s g)" if "g \<noteq> T" for g
      using s2(3) s3(3) that vs_frame [OF st, of T] T by (simp add: st_pte_def stw_kva)
    have TF: "F \<noteq> T" using T k(8) by auto
    show "mem (st_pte (kva T, PTX a) ?w ?s3) F = mem s ?f" using m4 [OF TF] by simp
    show "content_same own s (st_pte (kva T, PTX a) ?w ?s3)" unfolding content_same_def
    proof (intro allI impI)
      fix g assume "own g = RUser \<or> own g = RHeld"
      then have "g \<noteq> T" "g \<noteq> F" using T k(8) by auto
      then show "mem (st_pte (kva T, PTX a) ?w ?s3) g = mem s g" using m4 [of g] by simp
    qed
  qed
qed

end
