(* ===== verification/Proc_Example.thy ===== *)
theory Proc_Example
  imports Pagefault Vm_Example
begin

text \<open>
  A concrete kernel state on which the theorems about processes are applied: process 0 runs on
  the only CPU; process 1 is its exited child. Both address spaces map one page, read-only and
  shared, as \<open>copyuvm\<close> leaves them; one page is free.
\<close>

definition px_mem :: "uint \<Rightarrow> uint \<Rightarrow> uint" where
  "px_mem = (\<lambda>f i. 0)(0x1000 := (\<lambda>i. 0)(0 := 0x1001007), 0x1001 := (\<lambda>i. 0)(0 := 0x1002005),
     0x1002 := (\<lambda>i. 42), 0x1004 := (\<lambda>i. 0)(0 := 0x1005007), 0x1005 := (\<lambda>i. 0)(0 := 0x1002005))"

definition px_own :: "uint \<Rightarrow> role" where
  "px_own = (\<lambda>f. RNone)(0x1000 := RDir, 0x1001 := RTab 0x1000 0, 0x1002 := RUser, 0x1003 := RFree,
     0x1004 := RDir, 0x1005 := RTab 0x1004 0, 0x1006 := RHeld, 0x1007 := RHeld)"

definition px_view :: view where
  "px_view = (\<lambda>k. 0)((0x1000, 0) := 0x1002005, (0x1004, 0) := 0x1002005)"

definition px_tf :: trapframe where
  "px_tf = \<lparr>tf_edi = 0, tf_esi = 0, tf_ebp = 0, tf_oesp = 0, tf_ebx = 0, tf_edx = 0, tf_ecx = 0, tf_eax = 1,
     tf_gs = 0, tf_fs = 0, tf_es = 35, tf_ds = 35, tf_trapno = 64, tf_err = 0, tf_eip = 16, tf_cs = 27,
     tf_eflags = 0x200, tf_esp = 0xff0, tf_ss = 35\<rparr>"

definition px_unused :: proc where
  "px_unused = \<lparr>p_sz = 0, p_pgdir = 0, p_kstack = 0, p_state = UNUSED, p_pid = 0, p_parent = None,
     p_tf = px_tf, p_context = zero_context, p_chan = None, p_killed = False, p_ofile = (\<lambda>i. None),
     p_cwd = None, p_name = [], p_lottery_ticket = 0, p_schedQueue = 0, p_priority = 0, p_burst_time = 0,
     p_creation_time = 0, p_process_count = 0\<rparr>"

definition px_procs :: "nat \<Rightarrow> proc" where
  "px_procs = (\<lambda>i. px_unused)
     (0 := px_unused\<lparr>p_sz := 4096, p_pgdir := 0x81000000, p_kstack := 0x81006000, p_state := RUNNING, p_pid := 1,
             p_cwd := Some 0, p_name := ''init'', p_schedQueue := LOTTERY, p_lottery_ticket := 50\<rparr>,
      1 := px_unused\<lparr>p_sz := 4096, p_pgdir := 0x81004000, p_kstack := 0x81007000, p_state := ZOMBIE, p_pid := 2,
             p_parent := Some 0, p_name := ''sh'', p_schedQueue := LOTTERY, p_lottery_ticket := 50\<rparr>)"

definition px_cpus :: "nat \<Rightarrow> percpu" where
  "px_cpus = (\<lambda>i. \<lparr>apicid = of_nat i, ncli = 0, intena = True, cproc = Some 0, started = True\<rparr>)"

definition px_ts :: taskstate where
  "px_ts = \<lparr>ts_link = 0, ts_esp0 = 0, ts_ss0 = 0, ts_esp1 = 0, ts_ss1 = 0, ts_esp2 = 0, ts_ss2 = 0, ts_cr3 = 0, ts_eip = 0, ts_eflags = 0, ts_eax = 0, ts_ecx = 0, ts_edx = 0,
     ts_ebx = 0, ts_esp = 0, ts_ebp = 0, ts_esi = 0, ts_edi = 0, ts_es = 0, ts_cs = 0, ts_ss = 0, ts_ds = 0, ts_fs = 0, ts_gs = 0, ts_ldt = 0, ts_t = 0, ts_iomb = 0\<rparr>"

definition px_state :: procv where
  "px_state = \<lparr>lapicid = 0, fl_if = True, cpus = px_cpus, ncpu = 1, locks = ex_locks,
     uart = True, uart_out = [], crt = (\<lambda>i. 0), crt_pos = 0, cons_locking = True, panicked = False,
     mem = px_mem, kend = 0x80800000, kdata = 0x80200000, freelist = 0x81003000, use_lock = True,
     numFreePages = 1, pg_refcount = (\<lambda>f. 0)(0x1002 := 2), kpgdir = 0, cr3 = 0x1000000, tlb = Map.empty,
     procs = px_procs, initproc = Some 0, nextpid = 3, createdProcess = 3, process_number = 2, ticks = 7,
     cr2 = 0x10, cpu_gdt = (\<lambda>c i. SEG 0 0 0 0), cpu_ts = (\<lambda>c. px_ts),
     ts_addr = (\<lambda>c. 0x80500000), gdtr = Some 0, task_reg = 0, gs_cpu = Some 0, gs_proc = Some 0\<rparr>"

text \<open>What the memory of the example is, for any state that has it.\<close>

definition px_vm :: "'z vmv_scheme \<Rightarrow> bool" where
  "px_vm s \<longleftrightarrow> mem s = px_mem \<and> freelist s = 0x81003000 \<and> kend s = 0x80800000 \<and>
     pg_refcount s = (\<lambda>f. 0)(0x1002 := 2)"

lemma px_view:
  assumes "mem s = px_mem"
  shows "view s px_own = px_view"
proof (rule view_ext)
  fix D va
  have fl: "has 0x1001007 1" "pfn 0x1001007 = 0x1001" "has 0x1005007 1" "pfn 0x1005007 = 0x1005"
    by (simp_all add: has_def pfn_def)
  have z: "va = 0" if "page_aligned va" "PDX va = 0" "PTX va = 0"
    using va_index_eqI [OF that(1) page_aligned_0] that(2,3) by (simp add: PDX_def PTX_def)
  show "view s px_own (D, va) = px_view (D, va)"
    using assms z fl by (auto simp: view_simp px_own_def pte_at_def px_mem_def px_view_def PDX_def PTX_def split: if_splits)
qed

lemma px_mapset: "mapset px_view f = (if f = 0x1002 then {(0x1000, 0), (0x1004, 0)} else {})"
proof -
  have "has 0x1002005 1" "pfn 0x1002005 = 0x1002" by (simp_all add: has_def pfn_def)
  then show ?thesis by (auto simp: mapset_def px_view_def split: if_splits)
qed

lemma px_kva: "kva 0x1000 = 0x81000000" "kva 0x1001 = 0x81001000" "kva 0x1002 = 0x81002000"
  "kva 0x1003 = 0x81003000" "kva 0x1004 = 0x81004000" "kva 0x1005 = 0x81005000" "kva 0x1006 = 0x81006000"
  "kva 0x1007 = 0x81007000" "frame 0x81000000 = 0x1000" "frame 0x81001000 = 0x1001" "frame 0x81002000 = 0x1002"
  "frame 0x81003000 = 0x1003" "frame 0x81004000 = 0x1004" "frame 0x81005000 = 0x1005" "frame 0x81006000 = 0x1006"
  "frame 0x81007000 = 0x1007"
  by (simp_all add: kva_def frame_def P2V_def V2P_def pfn_def)

lemma px_inv:
  assumes "px_vm s"
  shows "vm_inv s px_own [0x81003000]"
proof -
  have m: "mem s = px_mem" "freelist s = 0x81003000" "kend s = 0x80800000" "pg_refcount s = (\<lambda>f. 0)(0x1002 := 2)"
    using assms by (simp_all add: px_vm_def)
  note v = px_view [OF m(1)]
  have fl: "has 0x1002005 1" "pfn 0x1002005 = 0x1002" "has 0x1001007 1" "pfn 0x1001007 = 0x1001"
    "has 0x1005007 1" "pfn 0x1005007 = 0x1005" "\<not> has 0x1002005 2"
    by (simp_all add: has_def pfn_def)
  have ou: "px_own 0x1002 = RUser" by (simp add: px_own_def)
  have "vm_struct s px_own [0x81003000]"
  proof (rule vm_structI)
    show "kmem_inv s [0x81003000]"
      using px_kva(12) by (simp add: kmem_inv_def m ldw_def frame_def px_mem_def valid_page_def page_aligned_unat V2P_def)
    show "px_own f = RFree \<longleftrightarrow> f \<in> frame ` set [0x81003000]" for f
      by (auto simp: px_own_def px_kva)
    show "valid_page s (kva f) \<and> frame (kva f) = f" if "px_own f \<noteq> RNone" for f
      using that by (auto simp: px_own_def px_kva valid_page_def m page_aligned_unat V2P_def split: if_splits)
    show "px_own (pfn (mem s D i)) = RTab D i" if "px_own D = RDir" "i < 1024" "has (mem s D i) PTE_P" for D i
      using that by (auto simp: px_own_def m px_mem_def fl split: if_splits)
    show "px_own D = RDir \<and> i < 1024 \<and> has (mem s D i) PTE_P \<and> pfn (mem s D i) = f"
      if "px_own f = RTab D i" for f D i
      using that by (auto simp: px_own_def m px_mem_def fl split: if_splits)
    show "px_own (pfn (view s px_own (D, va))) = RUser" if "va < KERNBASE" "has (view s px_own (D, va)) PTE_P" for D va
      using that ou unfolding v by (auto simp: fl px_view_def split: if_splits)
  qed
  moreover have r: "refs px_view f = (if f = 0x1002 then 2 else 0)" for f by (simp add: refs_def px_mapset)
  have "\<not> has (px_view (D, va)) PTE_W" for D va by (simp add: px_view_def fl)
  then have "refs_ok (view s px_own) (pg_refcount s) px_own"
    unfolding v m by (intro refs_okI) (auto simp: px_own_def r split: if_splits)
  ultimately show ?thesis by (simp add: vm_inv_def)
qed

lemma px_ready: "px_vm px_state" "vm_ready px_state 0" "cpu_ok px_state 0" "lk_free px_state l"
  by (simp_all add: px_state_def px_vm_def vm_ready_def lock_defs px_cpus_def ex_locks_def)

end
