(* ===== verification/Cow_Props.thy ===== *)
theory Cow_Props
  imports Proc_Example
begin

text \<open>The properties of the page fault handler, each applied to the example machine.\<close>

lemma private_elsewhere:
  assumes "refs V f = 1" "va < KERNBASE" "has (V (D, va)) PTE_P" "pfn (V (D, va)) = f"
    "a < KERNBASE" "has (V (E, a)) PTE_P" "(E, a) \<noteq> (D, va)"
  shows "pfn (V (E, a)) \<noteq> f"
proof
  assume "pfn (V (E, a)) = f"
  then have "{(D, va), (E, a)} \<subseteq> mapset V f" using assms by (auto simp: in_mapset)
  then have "card {(D, va), (E, a)} \<le> 1" using assms(1) by (metis card_mono finite_mapset refs_def)
  then show False using assms(7) by auto
qed

lemma pagefault_eq:
  assumes "vm_inv s own fl" "gs_proc s = Some p" "p_pgdir (procs s p) = kva D" "own D = RDir"
    "cr2 s < KERNBASE" "a = PGROUNDDOWN (cr2 s)"
    "has (view s own (D, a)) PTE_P" "has (view s own (D, a)) PTE_U" "\<not> has (view s own (D, a)) PTE_W"
  obtains T where "own T = RTab D (PDX a)" "page_aligned a" "a < KERNBASE"
    "pagefault s = bindE (cow_fault p (kva T, PTX a) s)
       (\<lambda>(flush, t). Inr (if flush then lcr3 (V2P (p_pgdir (procs t p))) t else t))"
proof -
  have st: "vm_struct s own fl" using assms(1) by (simp add: vm_inv_def)
  obtain T where T: "walkpgdir (kva D) a False s = Inr (Some (kva T, PTX a), s)" "own T = RTab D (PDX a)"
    using walk_present [OF st assms(4,7)] by blast
  have a: "page_aligned a" by (simp add: assms(6))
  have "unat a \<le> unat (cr2 s)" using div_times_less_eq_dividend [of "unat (cr2 s)" 4096] by (simp add: assms(6) unat_PGROUNDDOWN)
  then have lt: "a < KERNBASE" using assms(5) by (simp add: word_less_nat_alt)
  have ld: "ld_pte s (kva T, PTX a) = view s own (D, a)" by (rule ld_pte_vm [OF st T(2) a])
  show ?thesis
  proof (rule that [OF T(2) a lt])
    have "walkpgdir (kva D) (cr2 s) False s = Inr (Some (kva T, PTX a), s)"
      using T(1) by (simp add: assms(6) walk_PGROUNDDOWN)
    then show "pagefault s = bindE (cow_fault p (kva T, PTX a) s)
       (\<lambda>(flush, t). Inr (if flush then lcr3 (V2P (p_pgdir (procs t p))) t else t))"
      using assms(2,3,7-9) ld assms(5) [folded not_le] by (simp add: pagefault_def Let_def)
  qed
qed

text \<open>The two ways a write to a read-only page is resolved, in one form.\<close>

lemma cow_resolved:
  assumes inv: "vm_inv s own fl" and rd: "vm_ready s c" and T: "own T = RTab D (PDX a)"
    and a: "page_aligned a" "a < KERNBASE" and P: "has (view s own (D, a)) PTE_P" "has (view s own (D, a)) PTE_U"
    and room: "fl \<noteq> [] \<or> refs (view s own) (pfn (view s own (D, a))) = 1"
  obtains t own' fl' e where "cow_fault p (kva T, PTX a) s = Inr (True, t)" "vm_chg c s t" "vm_inv t own' fl'"
    "view t own' = (view s own)((D, a) := e)" "content_same own s t" "mem t (pfn e) = mem s (pfn (view s own (D, a)))"
    "has e PTE_P" "has e PTE_U" "has e PTE_W"
proof (cases "refs (view s own) (pfn (view s own (D, a))) = 1")
  case True
  note u = user_frame [OF inv a(2) P(1)]
  obtain t where t: "cow_fault p (kva T, PTX a) s = Inr (True, t)" "vm_chg c s t" "vm_inv t own fl"
      "view t own = (view s own)((D, a) := view s own (D, a) OR PTE_W)" "content_same own s t"
    by (rule cow_single [OF inv rd T a P(1) True])
  show ?thesis by (rule that [OF t]) (use u(1) P t(5) in \<open>simp_all add: content_same_def\<close>)
next
  case False
  note u = user_frame [OF inv a(2) P(1)]
  have st: "vm_struct s own fl" using inv by (simp add: vm_inv_def)
  have many: "1 < refs (view s own) (pfn (view s own (D, a)))" and fl: "fl \<noteq> []" using False u(4) room by auto
  then obtain v vs where v: "fl = v # vs" by (cases fl) auto
  have fr: "frame (kva (frame v)) = frame v" using vs_page(3) [OF st] v by simp
  obtain t where t: "cow_fault p (kva T, PTX a) s = Inr (True, t)" "vm_chg c s t" "vm_inv t (own(frame v := RUser)) vs"
      "view t (own(frame v := RUser)) = (view s own)((D, a) := private_pte (frame v))"
      "content_same own s t" "mem t (frame v) = mem s (pfn (view s own (D, a)))"
    by (rule cow_copy [OF inv rd T a P(1) many v])
  show ?thesis by (rule that [OF t(1-5)]) (use t(6) private_pte [OF fr] in simp_all)
qed

lemma vm_chg_procs:
  fixes s :: "'z procv_scheme"
  assumes "vm_chg c s s'"
  shows "procs s' = procs s" "gs_proc s' = gs_proc s" "initproc s' = initproc s" "nextpid s' = nextpid s"
    "ticks s' = ticks s"
  using assms by (auto elim!: vm_chgE)

text \<open>
  C1. A write fault on a shared or read-only page of a process resolves: the handler returns, the
  page of the faulting process is now writable and mapped by nobody else, it shows the same
  contents, every other mapping of every address space is as it was and shows the same contents,
  and reference counts still count the mappings. (There must be a free page when the page is
  shared.)
\<close>

theorem pagefault_cow:
  assumes "vm_inv s own fl" "vm_ready s c" "gs_proc s = Some p" "p_pgdir (procs s p) = kva D" "own D = RDir"
    and "cr2 s < KERNBASE" "a = PGROUNDDOWN (cr2 s)"
    and "has (view s own (D, a)) PTE_P" "has (view s own (D, a)) PTE_U" "\<not> has (view s own (D, a)) PTE_W"
    and "fl \<noteq> [] \<or> refs (view s own) (pfn (view s own (D, a))) = 1"
  shows "\<exists>s' own' fl'. pagefault s = Inr s' \<and> vm_inv s' own' fl' \<and>
    has (view s' own' (D, a)) PTE_P \<and> has (view s' own' (D, a)) PTE_U \<and> has (view s' own' (D, a)) PTE_W \<and>
    (\<forall>E va. va < KERNBASE \<and> has (view s' own' (E, va)) PTE_P \<and> (E, va) \<noteq> (D, a) \<longrightarrow>
       pfn (view s' own' (E, va)) \<noteq> pfn (view s' own' (D, a))) \<and>
    content s' own' D a = content s own D a \<and>
    (\<forall>E va. (E, va) \<noteq> (D, a) \<longrightarrow> view s' own' (E, va) = view s own (E, va) \<and>
       (va < KERNBASE \<and> has (view s own (E, va)) PTE_P \<longrightarrow> content s' own' E va = content s own E va)) \<and>
    procs s' = procs s \<and> cr3 s' = V2P (kva D) \<and> tlb s' = Map.empty"
proof -
  let ?f = "pfn (view s own (D, a))"
  obtain T where T: "own T = RTab D (PDX a)" and a: "page_aligned a" "a < KERNBASE" and pf: "pagefault s =
      bindE (cow_fault p (kva T, PTX a) s) (\<lambda>(flush, t). Inr (if flush then lcr3 (V2P (p_pgdir (procs t p))) t else t))"
    by (rule pagefault_eq [OF assms(1,3-10)])
  note u = user_frame [OF assms(1) a(2) assms(8)]
  have st: "vm_struct s own fl" using assms(1) by (simp add: vm_inv_def)
  obtain t own' fl' e where t: "cow_fault p (kva T, PTX a) s = Inr (True, t)" "vm_chg c s t" "vm_inv t own' fl'"
    "view t own' = (view s own)((D, a) := e)" "content_same own s t" "mem t (pfn e) = mem s ?f"
    "has e PTE_P" "has e PTE_U" "has e PTE_W"
    by (rule cow_resolved [OF assms(1,2) T a assms(8,9,11)])
  let ?s = "lcr3 (V2P (kva D)) t" and ?V = "(view s own)((D, a) := e)"
  have vw: "view ?s own' = ?V" using t(4) by (simp add: vm_inv_lcr3)
  have one: "refs ?V (pfn e) = 1"
    using t(3,4) refs_okD(5) [of ?V "pg_refcount t" own' a D] a(2) t(7,9) by (simp add: vm_inv_def)
  have "pagefault s = Inr ?s" using pf t(1) vm_chg_procs(1) [OF t(2)] assms(4) by simp
  moreover have "vm_inv ?s own' fl'" using t(3) by (simp add: vm_inv_lcr3)
  moreover have "\<forall>E va. va < KERNBASE \<and> has (?V (E, va)) PTE_P \<and> (E, va) \<noteq> (D, a) \<longrightarrow> pfn (?V (E, va)) \<noteq> pfn e"
  proof (intro allI impI)
    fix E va assume h: "va < KERNBASE \<and> has (?V (E, va)) PTE_P \<and> (E, va) \<noteq> (D, a)"
    show "pfn (?V (E, va)) \<noteq> pfn e"
      by (rule private_elsewhere [OF one a(2), where D = D]) (use h t(7) in simp_all)
  qed
  moreover have "content ?s own' D a = content s own D a" using t(6) by (auto simp: content_def vw)
  moreover have "\<forall>E va. (E, va) \<noteq> (D, a) \<longrightarrow> ?V (E, va) = view s own (E, va) \<and>
       (va < KERNBASE \<and> has (view s own (E, va)) PTE_P \<longrightarrow> content ?s own' E va = content s own E va)"
    using t(5) vs_user [OF st] by (auto simp: content_def vw content_same_def)
  moreover have "procs ?s = procs s" using vm_chg_procs(1) [OF t(2)] by (simp add: lcr3_def)
  ultimately show ?thesis using t(7-9) vw by (intro exI [of _ ?s] exI [of _ own'] exI [of _ fl']) simp
qed

lemma px_fault:
  "gs_proc px_state = Some 0" "p_pgdir (procs px_state 0) = kva 0x1000" "px_own 0x1000 = RDir"
  "cr2 px_state < KERNBASE" "PGROUNDDOWN (cr2 px_state) = 0" "view px_state px_own (0x1000, 0) = 0x1002005"
  "has 0x1002005 PTE_P" "has 0x1002005 PTE_U" "\<not> has 0x1002005 PTE_W" "pfn 0x1002005 = 0x1002"
  using px_view [of px_state]
  by (simp_all add: px_state_def px_procs_def px_kva px_own_def PGROUNDDOWN_def px_view_def has_def pfn_def)

theorem pagefault_cow_witness:
  "\<exists>s' own' fl'. pagefault px_state = Inr s' \<and> vm_inv s' own' fl' \<and> has (view s' own' (0x1000, 0)) PTE_W \<and>
     content s' own' 0x1004 0 = content px_state px_own 0x1004 0"
proof -
  note e = px_fault
  have v: "view px_state px_own (0x1004, 0) = 0x1002005"
    using px_view [of px_state] by (simp add: px_state_def px_view_def)
  from pagefault_cow [of px_state px_own "[0x81003000]" 0 0 "0x1000" 0, OF px_inv [OF px_ready(1)] px_ready(2) e(1-4)]
  have "\<exists>s' own' fl'. pagefault px_state = Inr s' \<and> vm_inv s' own' fl' \<and> has (view s' own' (0x1000, 0)) PTE_W \<and>
    (\<forall>E va. (E, va) \<noteq> (0x1000, 0) \<longrightarrow> (va < KERNBASE \<and> has (view px_state px_own (E, va)) PTE_P \<longrightarrow>
       content s' own' E va = content px_state px_own E va))"
    unfolding e(5,6) using e(7-9) by simp blast
  moreover have "(0x1004 :: uint, 0 :: uint) \<noteq> (0x1000, 0)" "(0 :: uint) < KERNBASE" by simp_all
  ultimately show ?thesis using v e(7) by metis
qed

section \<open>Faults that kill the process\<close>










end
