(* ===== verification/Proc_Inv.thy ===== *)
theory Proc_Inv
  imports Pagefault
begin

text \<open>
  The invariant of the process table together with memory: a process in use holds a kernel stack
  page of its own, a process past its creation has an address space of its own in which the pages
  below its size are present user pages, and the virtual memory invariant holds. Allocating an
  entry and reaping an exited child preserve it.
\<close>

section \<open>The invariant\<close>

definition has_stack :: "procstate \<Rightarrow> bool" where
  "has_stack st \<longleftrightarrow> st \<noteq> UNUSED"

definition has_space :: "procstate \<Rightarrow> bool" where
  "has_space st \<longleftrightarrow> st \<noteq> UNUSED \<and> st \<noteq> EMBRYO"

definition stack_of :: "proc \<Rightarrow> uint" where
  "stack_of q = frame (p_kstack q)"

definition dir_of :: "proc \<Rightarrow> uint" where
  "dir_of q = frame (p_pgdir q)"

definition stack_ok :: "(uint \<Rightarrow> role) \<Rightarrow> proc \<Rightarrow> bool" where
  "stack_ok own q \<longleftrightarrow> p_kstack q = kva (stack_of q) \<and> own (stack_of q) = RHeld"

definition space_ok :: "view \<Rightarrow> (uint \<Rightarrow> role) \<Rightarrow> proc \<Rightarrow> bool" where
  "space_ok V own q \<longleftrightarrow> p_pgdir q = kva (dir_of q) \<and> own (dir_of q) = RDir \<and> p_sz q \<le> KERNBASE \<and>
     (\<forall>va. page_aligned va \<and> va < p_sz q \<longrightarrow> has (V (dir_of q, va)) PTE_P)"

definition table_ok :: "(nat \<Rightarrow> proc) \<Rightarrow> view \<Rightarrow> (uint \<Rightarrow> role) \<Rightarrow> bool" where
  "table_ok P V own \<longleftrightarrow>
     (\<forall>i < NPROC. has_stack (p_state (P i)) \<longrightarrow> stack_ok own (P i)) \<and>
     (\<forall>i < NPROC. has_space (p_state (P i)) \<longrightarrow> space_ok V own (P i)) \<and>
     (\<forall>i < NPROC. \<forall>j < NPROC. i \<noteq> j \<and> has_stack (p_state (P i)) \<and> has_stack (p_state (P j)) \<longrightarrow>
        stack_of (P i) \<noteq> stack_of (P j)) \<and>
     (\<forall>i < NPROC. \<forall>j < NPROC. i \<noteq> j \<and> has_space (p_state (P i)) \<and> has_space (p_state (P j)) \<longrightarrow>
        dir_of (P i) \<noteq> dir_of (P j))"

definition proc_inv :: "'z procv_scheme \<Rightarrow> (uint \<Rightarrow> role) \<Rightarrow> uint list \<Rightarrow> bool" where
  "proc_inv s own fl \<longleftrightarrow> vm_inv s own fl \<and> table_ok (procs s) (view s own) own"

lemma has_state [simp]:
  "\<not> has_stack UNUSED" "has_stack EMBRYO" "has_stack SLEEPING" "has_stack RUNNABLE" "has_stack RUNNING" "has_stack ZOMBIE"
  "\<not> has_space UNUSED" "\<not> has_space EMBRYO" "has_space SLEEPING" "has_space RUNNABLE" "has_space RUNNING" "has_space ZOMBIE"
  by (simp_all add: has_stack_def has_space_def)

lemma has_space_stack: "has_space st \<Longrightarrow> has_stack st"
  by (simp add: has_stack_def has_space_def)

lemma table_okD:
  assumes "table_ok P V own"
  shows "i < NPROC \<Longrightarrow> has_stack (p_state (P i)) \<Longrightarrow> stack_ok own (P i)"
    "i < NPROC \<Longrightarrow> has_space (p_state (P i)) \<Longrightarrow> space_ok V own (P i)"
    "i < NPROC \<Longrightarrow> j < NPROC \<Longrightarrow> i \<noteq> j \<Longrightarrow> has_stack (p_state (P i)) \<Longrightarrow> has_stack (p_state (P j)) \<Longrightarrow>
       stack_of (P i) \<noteq> stack_of (P j)"
    "i < NPROC \<Longrightarrow> j < NPROC \<Longrightarrow> i \<noteq> j \<Longrightarrow> has_space (p_state (P i)) \<Longrightarrow> has_space (p_state (P j)) \<Longrightarrow>
       dir_of (P i) \<noteq> dir_of (P j)"
  using assms unfolding table_ok_def by blast+

text \<open>
  Replacing one entry, when the others keep their stacks and address spaces.
\<close>

lemma table_ok_upd:
  assumes t: "table_ok P V own"
    and others: "\<And>j. j < NPROC \<Longrightarrow> j \<noteq> i \<Longrightarrow> has_stack (p_state (P j)) \<Longrightarrow> own' (stack_of (P j)) = RHeld"
      "\<And>j va. j < NPROC \<Longrightarrow> j \<noteq> i \<Longrightarrow> has_space (p_state (P j)) \<Longrightarrow> own' (dir_of (P j)) = RDir \<and>
         (has (V (dir_of (P j), va)) PTE_P \<longrightarrow> has (V' (dir_of (P j), va)) PTE_P)"
    and stack: "has_stack (p_state q) \<Longrightarrow> stack_ok own' q"
      "\<And>j. has_stack (p_state q) \<Longrightarrow> j < NPROC \<Longrightarrow> j \<noteq> i \<Longrightarrow> has_stack (p_state (P j)) \<Longrightarrow> stack_of q \<noteq> stack_of (P j)"
    and space: "has_space (p_state q) \<Longrightarrow> space_ok V' own' q"
      "\<And>j. has_space (p_state q) \<Longrightarrow> j < NPROC \<Longrightarrow> j \<noteq> i \<Longrightarrow> has_space (p_state (P j)) \<Longrightarrow> dir_of q \<noteq> dir_of (P j)"
  shows "table_ok (P(i := q)) V' own'"
  unfolding table_ok_def
proof (intro conjI allI impI)
  fix j assume j: "j < NPROC"
  show "stack_ok own' ((P(i := q)) j)" if "has_stack (p_state ((P(i := q)) j))"
    using that j stack(1) others(1) [OF j] table_okD(1) [OF t j] by (auto simp: stack_ok_def)
  show "space_ok V' own' ((P(i := q)) j)" if "has_space (p_state ((P(i := q)) j))"
    using that j space(1) others(2) [OF j] table_okD(2) [OF t j] by (auto simp: space_ok_def)
  fix k assume k: "k < NPROC"
  show "stack_of ((P(i := q)) j) \<noteq> stack_of ((P(i := q)) k)"
    if "j \<noteq> k \<and> has_stack (p_state ((P(i := q)) j)) \<and> has_stack (p_state ((P(i := q)) k))"
    using that j k stack(2) [of j] stack(2) [of k] table_okD(3) [OF t j k] by (auto split: if_splits)
  show "dir_of ((P(i := q)) j) \<noteq> dir_of ((P(i := q)) k)"
    if "j \<noteq> k \<and> has_space (p_state ((P(i := q)) j)) \<and> has_space (p_state ((P(i := q)) k))"
    using that j k space(2) [of j] space(2) [of k] table_okD(4) [OF t j k] by (auto split: if_splits)
qed

lemma proc_inv_cong:
  assumes "proc_inv s own fl" "mem s' = mem s" "freelist s' = freelist s" "kend s' = kend s"
    "pg_refcount s' = pg_refcount s" "procs s' = procs s"
  shows "proc_inv s' own fl" "view s' own = view s own"
  using assms vm_struct_cong [OF assms(2-4)] by (simp_all add: proc_inv_def vm_inv_def)

text \<open>The fields operations on processes may change, besides those of memory.\<close>

definition proc_chg :: "nat \<Rightarrow> 'z procv_scheme \<Rightarrow> 'z procv_scheme \<Rightarrow> bool" where
  "proc_chg c s s' \<longleftrightarrow>
     s' = s\<lparr>cpus := cpus s', mem := mem s', freelist := freelist s', numFreePages := numFreePages s',
            pg_refcount := pg_refcount s', procs := procs s', nextpid := nextpid s',
            createdProcess := createdProcess s', process_number := process_number s'\<rparr> \<and>
     (cpus s' = cpus s \<or> cpus s' = cpus (touch c s))"

lemma proc_chgE:
  assumes "proc_chg c s s'"
  obtains k m f n r P x y z where "k = cpus s \<or> k = cpus (touch c s)"
    "s' = s\<lparr>cpus := k, mem := m, freelist := f, numFreePages := n, pg_refcount := r, procs := P, nextpid := x,
       createdProcess := y, process_number := z\<rparr>"
  using assms unfolding proc_chg_def by blast

lemma proc_chgI [intro]:
  "proc_chg c s (s\<lparr>procs := P\<rparr>)" "proc_chg c s (touch c (s\<lparr>procs := P, nextpid := x\<rparr>))"
  "proc_chg c s (s\<lparr>createdProcess := y, process_number := z, procs := P\<rparr>)" "vm_chg c s t \<Longrightarrow> proc_chg c s t"
  "proc_chg c s (touch c (s\<lparr>procs := P\<rparr>))" "proc_chg c s s" "proc_chg c s (touch c s)"
  by (auto simp: proc_chg_def touch_def upd_cpu_def elim!: vm_chgE)

lemma proc_chg_trans [trans]:
  assumes "proc_chg c s s'" "proc_chg c s' s''"
  shows "proc_chg c s s''"
  using assms by (elim proc_chgE) (auto simp: proc_chg_def touch_def upd_cpu_def)

lemma proc_chg_sel:
  assumes "proc_chg c s s'"
  shows "kend s' = kend s" "kdata s' = kdata s" "use_lock s' = use_lock s" "kpgdir s' = kpgdir s"
    "cr3 s' = cr3 s" "tlb s' = tlb s" "procv.more s' = procv.more s" "locks s' = locks s" "fl_if s' = fl_if s"
    "lapicid s' = lapicid s" "ncpu s' = ncpu s" "ncli (cpus s' d) = ncli (cpus s d)"
    "apicid (cpus s' d) = apicid (cpus s d)" "cproc (cpus s' d) = cproc (cpus s d)"
    "initproc s' = initproc s" "ticks s' = ticks s" "gs_proc s' = gs_proc s"
  using assms by (auto elim!: proc_chgE)

lemma proc_chg_ready:
  assumes "proc_chg c s s'"
  shows "cpu_ok s c \<Longrightarrow> cpu_ok s' c" "lk_free s' l = lk_free s l" "vm_ready s c \<Longrightarrow> vm_ready s' c"
  using find_cpu_cong [of "cpus s'" "cpus s"]
  by (simp_all add: vm_ready_def cpu_ok_def this_cpu_def lk_free_def proc_chg_sel [OF assms])

section \<open>Allocating an entry\<close>

text \<open>What \<open>allocproc\<close> puts into the entry it returns.\<close>

definition fresh_proc :: "'z procv_scheme \<Rightarrow> uint \<Rightarrow> proc \<Rightarrow> proc" where
  "fresh_proc s v q = q\<lparr>p_state := EMBRYO, p_pid := nextpid s, p_kstack := v, p_context := zero_context,
     p_creation_time := ticks s + createdProcess s, p_process_count := process_number s,
     p_lottery_ticket := 50, p_burst_time := 0, p_schedQueue := LOTTERY\<rparr>"

definition taken :: "nat \<Rightarrow> nat \<Rightarrow> 'z procv_scheme \<Rightarrow> 'z procv_scheme" where
  "taken c p s = touch c (s\<lparr>procs := (procs s)(p := (procs s p)\<lparr>p_state := EMBRYO, p_pid := nextpid s\<rparr>),
     nextpid := nextpid s + 1\<rparr>)"

lemma allocproc_found:
  assumes "cpu_ok s c" "lk_free s Lk_ptable" "find (\<lambda>i. p_state (procs s i) = UNUSED) ptable = Some p"
  shows "allocproc s = bindE (kalloc (taken c p s)) (\<lambda>(k, t).
    if k = 0 then Inr (None, t\<lparr>procs := (procs t)(p := (procs t p)\<lparr>p_kstack := 0, p_state := UNUSED\<rparr>)\<rparr>)
    else Inr (Some p, t\<lparr>createdProcess := createdProcess t + 1, process_number := process_number t + 1,
      procs := (procs t)(p := (procs t p)\<lparr>p_kstack := k, p_context := zero_context,
        p_creation_time := ticks t + createdProcess t, p_process_count := process_number t,
        p_lottery_ticket := 50, p_burst_time := 0, p_schedQueue := LOTTERY\<rparr>)\<rparr>))"
  using assms(3) ptable_release [OF assms(1,2), where n = "nextpid s + 1" and
      P = "(procs s)(p := (procs s p)\<lparr>p_state := EMBRYO, p_pid := nextpid s\<rparr>)"]
  by (simp add: allocproc_def acquire_ok [OF assms(1,2)] upd_proc_def taken_def cong: if_cong)

lemma allocproc_first:
  assumes "cpu_ok s c" "lk_free s Lk_ptable" "allocproc s = Inr (Some p, s')"
  shows "find (\<lambda>i. p_state (procs s i) = UNUSED) ptable = Some p"
proof (cases "find (\<lambda>i. p_state (procs s i) = UNUSED) ptable")
  case None
  then show ?thesis
    using assms(3) by (simp add: allocproc_def acquire_ok [OF assms(1,2)] release_acquired [OF assms(1,2)])
next
  case (Some i)
  then show ?thesis
    using assms(3) unfolding allocproc_found [OF assms(1,2) Some] by (auto simp: res_iff split: if_splits)
qed

lemma taken_sel [simp]:
  "mem (taken c p s) = mem s" "freelist (taken c p s) = freelist s" "kend (taken c p s) = kend s"
  "pg_refcount (taken c p s) = pg_refcount s" "ticks (taken c p s) = ticks s" "nextpid (taken c p s) = nextpid s + 1"
  "createdProcess (taken c p s) = createdProcess s" "process_number (taken c p s) = process_number s"
  "procs (taken c p s) = (procs s)(p := (procs s p)\<lparr>p_state := EMBRYO, p_pid := nextpid s\<rparr>)"
  by (simp_all add: taken_def)

lemma allocproc_inv:
  assumes inv: "proc_inv s own fl" and rd: "vm_ready s c" and free: "lk_free s Lk_ptable"
  obtains (full) s' where "allocproc s = Inr (None, s')" "\<forall>i < NPROC. p_state (procs s i) \<noteq> UNUSED"
      "proc_inv s' own fl" "view s' own = view s own" "mem s' = mem s" "procs s' = procs s" "proc_chg c s s'"
  | (oom) p s' where "allocproc s = Inr (None, s')" "fl = []" "proc_inv s' own fl" "view s' own = view s own" "mem s' = mem s"
      "p < NPROC" "p_state (procs s p) = UNUSED"
      "procs s' = (procs s)(p := (procs s p)\<lparr>p_pid := nextpid s, p_kstack := 0\<rparr>)" "proc_chg c s s'"
  | (ok) p F vs s' where "allocproc s = Inr (Some p, s')" "fl = kva F # vs" "own F = RFree" "p < NPROC"
      "p_state (procs s p) = UNUSED"
      "proc_inv s' (own(F := RHeld)) vs" "view s' (own(F := RHeld)) = view s own" "mem s' = mem s"
      "procs s' = (procs s)(p := fresh_proc s (kva F) (procs s p))" "nextpid s' = nextpid s + 1" "proc_chg c s s'"
proof (cases "find (\<lambda>i. p_state (procs s i) = UNUSED) ptable")
  case None
  have cpu: "cpu_ok s c" using rd by (simp add: vm_ready_def)
  have "allocproc s = Inr (None, touch c s)"
    using None by (simp add: allocproc_def acquire_ok [OF cpu free] release_acquired [OF cpu free])
  then show ?thesis
    by (rule full) (use None inv proc_inv_cong [OF inv, of "touch c s"] in \<open>auto simp: find_none\<close>)
next
  case (Some p)
  then have p: "p < NPROC" "p_state (procs s p) = UNUSED" by (auto simp: find_first)
  have cpu: "cpu_ok s c" using rd by (simp add: vm_ready_def)
  have vi: "vm_struct s own fl" "refs_ok (view s own) (pg_refcount s) own" and tb: "table_ok (procs s) (view s own) own"
    using inv by (simp_all add: proc_inv_def vm_inv_def)
  note al = allocproc_found [OF cpu free Some]
  let ?s1 = "taken c p s"
  have st1: "vm_struct ?s1 own fl" "view ?s1 own = view s own" using vm_struct_cong [of ?s1 s] vi by simp_all
  have ch1: "proc_chg c s ?s1" unfolding taken_def by (rule proc_chgI)
  from st1(1) proc_chg_ready(3) [OF ch1 rd] show ?thesis
  proof (cases rule: kalloc_vm)
    case (none t)
    let ?q = "(procs s p)\<lparr>p_pid := nextpid s, p_kstack := 0\<rparr>"
    let ?t = "t\<lparr>procs := (procs s)(p := ?q)\<rparr>"
    have t: "procs t = procs ?s1" using none(3) by (auto elim!: vm_chgE)
    have q: "(procs t p)\<lparr>p_kstack := 0, p_state := UNUSED\<rparr> = ?q" using p(2) by (simp add: t)
    have "table_ok ((procs s)(p := ?q)) (view s own) own"
      by (rule table_ok_upd [OF tb]) (use p(2) table_okD [OF tb] in \<open>auto simp: stack_ok_def space_ok_def\<close>)
    moreover have "vm_struct ?t own []" "view ?t own = view s own"
      using vm_struct_cong [of ?t t] none(4,6) view_cong [of t s own] by simp_all
    ultimately have "proc_inv ?t own fl" using vi none by (simp add: proc_inv_def vm_inv_def)
    moreover have "allocproc s = Inr (None, ?t)" using al none(2) q by (simp add: t)
    ultimately show ?thesis
      using oom [of ?t p] none p \<open>view ?t own = view s own\<close> proc_chg_trans [OF proc_chg_trans [OF ch1 proc_chgI(4) [OF none(3)]] proc_chgI(1)]
      by simp
  next
    case (some v vs t)
    let ?F = "frame v" and ?q = "fresh_proc s v (procs s p)"
    let ?t = "t\<lparr>createdProcess := createdProcess s + 1, process_number := process_number s + 1, procs := (procs s)(p := ?q)\<rparr>"
    have t: "procs t = procs ?s1" "ticks t = ticks s" "createdProcess t = createdProcess s"
      "process_number t = process_number s" "nextpid t = nextpid s + 1"
      using some(4) by (auto elim!: vm_chgE)
    have q: "(procs t p)\<lparr>p_kstack := v, p_context := zero_context, p_creation_time := ticks s + createdProcess s,
        p_process_count := process_number s, p_lottery_ticket := 50, p_burst_time := 0, p_schedQueue := LOTTERY\<rparr> = ?q"
      by (simp add: t fresh_proc_def)
    have sq: "stack_of ?q = ?F" "p_state ?q = EMBRYO" "p_kstack ?q = v" by (simp_all add: stack_of_def fresh_proc_def)
    have "table_ok ((procs s)(p := ?q)) (view s own) (own(?F := RHeld))"
    proof (rule table_ok_upd [OF tb])
      show "stack_of ?q \<noteq> stack_of (procs s j)" if "j < NPROC" "has_stack (p_state (procs s j))" for j
        using table_okD(1) [OF tb that] some(9) by (auto simp: sq stack_ok_def)
      show "(own(?F := RHeld)) (dir_of (procs s j)) = RDir \<and>
          (has (view s own (dir_of (procs s j), va)) PTE_P \<longrightarrow> has (view s own (dir_of (procs s j), va)) PTE_P)"
        if "j < NPROC" "has_space (p_state (procs s j))" for j va
        using table_okD(2) [OF tb that] some(9) by (auto simp: space_ok_def)
    qed (use table_okD [OF tb] some(9,10) in \<open>auto simp: stack_ok_def space_ok_def sq\<close>)
    moreover have "vm_struct ?t (own(?F := RHeld)) vs" "view ?t (own(?F := RHeld)) = view s own"
      using vm_struct_cong [of ?t t] some(7,8) st1(2) by simp_all
    moreover have "refs_ok (view s own) (pg_refcount s) (own(?F := RHeld))"
      by (rule refs_ok_cong [OF vi(2)]) (use some(9) in auto)
    ultimately have "proc_inv ?t (own(?F := RHeld)) vs" using some(6) by (simp add: proc_inv_def vm_inv_def)
    moreover have "allocproc s = Inr (Some p, ?t)" using al some(2,3) q by (simp add: t)
    moreover have "proc_chg c s ?t" using proc_chg_trans [OF proc_chg_trans [OF ch1 proc_chgI(4) [OF some(4)]] proc_chgI(3)] .
    ultimately show ?thesis
      using ok [of p ?t ?F vs] some p t \<open>view ?t (own(?F := RHeld)) = view s own\<close> by simp
  qed
qed

section \<open>Reaping a child\<close>

definition reaped :: "proc \<Rightarrow> proc" where
  "reaped q = q\<lparr>p_kstack := 0, p_pid := 0, p_parent := None, p_name := [], p_killed := False, p_state := UNUSED\<rparr>"

lemma free_dir_keep:
  assumes "own f = RHeld \<or> own f = RDir" "f \<noteq> D"
  shows "free_dir D V own f = own f"
  using assms by (auto simp: free_dir_def prune_def)

lemma proc_chg_upd: "proc_chg c s (upd_proc p f s)"
  unfolding upd_proc_def by (rule proc_chgI)

lemma reap_inv:
  assumes inv: "proc_inv s own fl" and rd: "vm_ready s c" and p: "p < NPROC" "p_state (procs s p) = ZOMBIE"
  defines "k \<equiv> stack_of (procs s p)" and "D \<equiv> dir_of (procs s p)"
  obtains s' own' fl' where "reap p s = Inr s'" "proc_inv s' own' fl'" "procs s' = (procs s)(p := reaped (procs s p))"
    "own' k = RFree" "own' D = RFree" "\<forall>E va. E \<noteq> D \<longrightarrow> view s' own' (E, va) = view s own (E, va)"
    "\<forall>f. own' f = RUser \<or> own' f = RHeld \<longrightarrow> mem s' f = mem s f" "proc_chg c s s'"
proof -
  have vi: "vm_struct s own fl" "refs_ok (view s own) (pg_refcount s) own" and tb: "table_ok (procs s) (view s own) own"
    using inv by (simp_all add: proc_inv_def vm_inv_def)
  have kD: "p_kstack (procs s p) = kva k" "own k = RHeld" "p_pgdir (procs s p) = kva D" "own D = RDir"
    using table_okD(1,2) [OF tb p(1)] p(2) by (simp_all add: stack_ok_def space_ok_def k_def D_def)
  obtain s1 where s1: "kfree (kva k) s = Inr s1" "vm_chg c s s1" "\<forall>f. f \<noteq> k \<longrightarrow> mem s1 f = mem s f"
    "pg_refcount s1 = pg_refcount s" "vm_struct s1 (own(k := RFree)) (kva k # fl)" "view s1 (own(k := RFree)) = view s own"
    by (rule kfree_vm [OF vi(1) vm_ready_alloc [OF rd] kD(2)])
  let ?o = "own(k := RFree)" and ?s2 = "upd_proc p (\<lambda>q. q\<lparr>p_kstack := 0\<rparr>) s1"
  have pr1: "procs s1 = procs s" using s1(2) by (auto elim!: vm_chgE)
  have "vm_struct ?s2 ?o (kva k # fl)" "view ?s2 ?o = view s own"
    using vm_struct_cong [of ?s2 s1] s1(5,6) by (simp_all add: upd_proc_def)
  moreover have "pg_refcount ?s2 = pg_refcount s" using s1(4) by (simp add: upd_proc_def)
  moreover have "refs_ok (view s own) (pg_refcount s) ?o"
    by (rule refs_ok_cong [OF vi(2)]) (use kD(2) in auto)
  ultimately have i2: "vm_inv ?s2 ?o (kva k # fl)" and v2: "view ?s2 ?o = view s own" by (simp_all add: vm_inv_def)
  have ch2: "proc_chg c s ?s2" by (rule proc_chg_trans [OF proc_chgI(4) [OF s1(2)] proc_chg_upd])
  have D: "?o D = RDir" using kD by auto
  let ?V = "drop_dir D (view s own)" and ?o3 = "free_dir D (drop_dir D (view s own)) ?o"
  obtain s3 fl3 where s3: "freevm (kva D) ?s2 = Inr s3" "vm_chg c ?s2 s3" "vm_inv s3 ?o3 fl3" "view s3 ?o3 = ?V"
    "\<forall>f. ?o3 f = RUser \<or> ?o3 f = RHeld \<longrightarrow> mem s3 f = mem ?s2 f"
    using freevm_vm [OF i2 proc_chg_ready(3) [OF ch2 rd] D] unfolding v2 by blast
  have pr3: "procs s3 = (procs s)(p := (procs s p)\<lparr>p_kstack := 0\<rparr>)" using s3(2) pr1 by (auto elim!: vm_chgE simp: upd_proc_def)
  let ?s4 = "s3\<lparr>procs := (procs s)(p := reaped (procs s p))\<rparr>"
  have r: "reap p s = Inr ?s4"
    using s1(1) s3(1) kD(1,3) pr1 pr3 by (simp add: reap_def upd_proc_def reaped_def)
  have "vm_struct ?s4 ?o3 fl3" "view ?s4 ?o3 = ?V" using vm_struct_cong [of ?s4 s3] s3(3,4) by (simp_all add: vm_inv_def)
  moreover have "table_ok ((procs s)(p := reaped (procs s p))) ?V ?o3"
  proof (rule table_ok_upd [OF tb])
    fix j assume j: "j < NPROC" "j \<noteq> p"
    show "?o3 (stack_of (procs s j)) = RHeld" if "has_stack (p_state (procs s j))"
      using table_okD(1) [OF tb j(1) that] table_okD(3) [OF tb j(1) p(1) j(2) that] p(2) kD
      by (subst free_dir_keep) (auto simp: stack_ok_def k_def [symmetric])
    fix va
    show "?o3 (dir_of (procs s j)) = RDir \<and>
        (has (view s own (dir_of (procs s j), va)) PTE_P \<longrightarrow> has (?V (dir_of (procs s j), va)) PTE_P)"
      if "has_space (p_state (procs s j))"
      using table_okD(2) [OF tb j(1) that] table_okD(4) [OF tb j(1) p(1) j(2) that] p(2) kD
      by (subst free_dir_keep) (auto simp: space_ok_def D_def [symmetric] drop_dir_def)
  qed (simp_all add: reaped_def)
  ultimately have "proc_inv ?s4 ?o3 fl3" using s3(3,4) by (simp add: proc_inv_def vm_inv_def)
  moreover have "?o3 k = RFree" "?o3 D = RFree" by (simp_all add: free_dir_def prune_def)
  moreover have "\<forall>E va. E \<noteq> D \<longrightarrow> view ?s4 ?o3 (E, va) = view s own (E, va)"
    unfolding \<open>view ?s4 ?o3 = ?V\<close> by (simp add: drop_dir_def)
  moreover have "\<forall>f. ?o3 f = RUser \<or> ?o3 f = RHeld \<longrightarrow> mem ?s4 f = mem s f"
  proof (intro allI impI)
    fix f assume f: "?o3 f = RUser \<or> ?o3 f = RHeld"
    then have "f \<noteq> k" using \<open>?o3 k = RFree\<close> by auto
    then show "mem ?s4 f = mem s f" using s3(5) s1(3) f by auto
  qed
  moreover have "proc_chg c s ?s4" using proc_chg_trans [OF proc_chg_trans [OF ch2 proc_chgI(4) [OF s3(2)]] proc_chgI(1)] .
  ultimately show ?thesis using that [OF r] by simp
qed

end
