(* ===== verification/Sched.thy ===== *)
theory Sched
  imports Proc
begin

text \<open>
  The scheduler of src/source/proc.c: the three queues, each with its own rule for the next
  process (a lottery, the shortest burst time, the smallest priority number), and the loop that
  asks them in that order. The locale \<open>policy\<close> is what the loop relies on: a rule picks only
  eligible processes, and picks one whenever there is one. The second half characterises each
  rule: who wins the lottery for which draw, and that the other two pick a least element.
\<close>

section \<open>The code\<close>

definition generate_random :: "cint \<Rightarrow> 'z procv_scheme \<Rightarrow> cint res" where
  "generate_random toMod s =
     (if toMod = 0 then Inl (Fault ''division by zero'')
      else Inr ((12345678 + ticks s * ticks s * ticks s * ticks s) mod toMod))"

definition in_queue :: "cint \<Rightarrow> 'z procv_scheme \<Rightarrow> nat \<Rightarrow> bool" where
  "in_queue q s p \<longleftrightarrow> p_state (procs s p) = RUNNABLE \<and> p_schedQueue (procs s p) = q"

text \<open>
  The second loop of \<open>lotterySched\<close>: what is left of the drawn number, whether a process has been
  selected (1: only as a default, 2: as the winner), and which.
\<close>

definition lottery_step ::
  "'z procv_scheme \<Rightarrow> nat \<Rightarrow> cint \<times> nat \<times> nat option \<Rightarrow> cint \<times> nat \<times> nat option" where
  "lottery_step s p acc =
     (case acc of (random_ticket, selected, high) \<Rightarrow>
        if \<not> in_queue LOTTERY s p then (random_ticket, selected, high)
        else
          let random_ticket = random_ticket - p_lottery_ticket (procs s p);
              (high, selected) = (if selected = 0 then (Some p, 1) else (high, selected));
              (high, selected) =
                (if sint random_ticket \<le> 0 \<and> selected = 1 then (Some p, 2) else (high, selected))
          in (random_ticket, selected, high))"

definition lotterySched :: "'z procv_scheme \<Rightarrow> nat option res" where
  "lotterySched s =
     (let sum_lotteries =
            fold (\<lambda>p sum. if in_queue LOTTERY s p then sum + p_lottery_ticket (procs s p) else sum) ptable 1
      in bindE (generate_random sum_lotteries s) (\<lambda>random_ticket.
         case fold (lottery_step s) ptable (random_ticket, 0, None) of
           (_, selected, high) \<Rightarrow> Inr (if selected \<noteq> 0 then high else None)))"

definition prioritySched :: "'z procv_scheme \<Rightarrow> nat option res" where
  "prioritySched s =
     Inr (fold (\<lambda>p high.
        if \<not> in_queue PRIORITY s p then high
        else case high of
               None \<Rightarrow> Some p
             | Some h \<Rightarrow>
                 if sint (p_priority (procs s h)) > sint (p_priority (procs s p)) then Some p else high)
        ptable None)"

definition SJFSched :: "'z procv_scheme \<Rightarrow> nat option res" where
  "SJFSched s =
     Inr (fold (\<lambda>p short.
        if \<not> in_queue SJF s p then short
        else case short of
               None \<Rightarrow> Some p
             | Some h \<Rightarrow>
                 if sint (p_burst_time (procs s h)) > sint (p_burst_time (procs s p)) then Some p else short)
        ptable None)"

text \<open>\<open>p = f(); if(p == 0) p = g();\<close>\<close>

definition or_else :: "('s \<Rightarrow> nat option res) \<Rightarrow> ('s \<Rightarrow> nat option res) \<Rightarrow> 's \<Rightarrow> nat option res" where
  "or_else f g s = bindE (f s) (\<lambda>p. if p = None then g s else Inr p)"

definition choose_proc :: "'z procv_scheme \<Rightarrow> nat option res" where
  "choose_proc = or_else (or_else lotterySched SJFSched) prioritySched"

text \<open>One round of the loop of \<open>scheduler\<close>; \<open>sw\<close> runs the chosen process until it switches back.\<close>

definition scheduler_round ::
  "('z procv_scheme \<Rightarrow> 'z procv_scheme res) \<Rightarrow> nat \<Rightarrow> 'z procv_scheme \<Rightarrow> 'z procv_scheme res" where
  "scheduler_round sw c s =
     bindE (acquire Lk_ptable (sti s)) (\<lambda>s.
     bindE (choose_proc s) (\<lambda>p.
     bindE (case p of None \<Rightarrow> Inr s
            | Some i \<Rightarrow>
                bindE (switchuvm (Some i) (upd_cpu c (\<lambda>k. k\<lparr>cproc := Some i\<rparr>) s)) (\<lambda>s.
                bindE (sw (upd_proc i (\<lambda>q. q\<lparr>p_state := RUNNING\<rparr>) s)) (\<lambda>s.
                Inr (upd_cpu c (\<lambda>k. k\<lparr>cproc := None\<rparr>) (switchkvm s))))) (release Lk_ptable)))"

fun scheduler_loop ::
  "nat \<Rightarrow> ('z procv_scheme \<Rightarrow> 'z procv_scheme res) \<Rightarrow> nat \<Rightarrow> 'z procv_scheme \<Rightarrow> 'z procv_scheme res"
where
  "scheduler_loop 0 sw c s = Inr s"
| "scheduler_loop (Suc n) sw c s = bindE (scheduler_round sw c s) (scheduler_loop n sw c)"

text \<open>The first \<open>n\<close> rounds of \<open>scheduler\<close>, which never returns.\<close>

definition scheduler ::
  "nat \<Rightarrow> ('z procv_scheme \<Rightarrow> 'z procv_scheme res) \<Rightarrow> 'z procv_scheme \<Rightarrow> 'z procv_scheme res" where
  "scheduler n sw s =
     bindE (mycpu s) (\<lambda>c. scheduler_loop n sw c (upd_cpu c (\<lambda>k. k\<lparr>cproc := None\<rparr>) s))"

section \<open>Rules that pick an eligible process\<close>

lemma sorted_ptable: "sorted_wrt (<) ptable"
  by (simp add: ptable_def)

locale policy =
  fixes rule :: "'s \<Rightarrow> nat option res" and eligible :: "'s \<Rightarrow> nat \<Rightarrow> bool" and ok :: "'s \<Rightarrow> bool"
  assumes returns: "ok s \<Longrightarrow> \<exists>p. rule s = Inr p"
    and sound: "ok s \<Longrightarrow> rule s = Inr (Some p) \<Longrightarrow> p < NPROC \<and> eligible s p"
    and complete: "ok s \<Longrightarrow> rule s = Inr None \<Longrightarrow> p < NPROC \<Longrightarrow> \<not> eligible s p"
begin

lemma picks_some:
  assumes "ok s" "p < NPROC" "eligible s p"
  shows "\<exists>q. rule s = Inr (Some q) \<and> q < NPROC \<and> eligible s q"
proof -
  obtain r where r: "rule s = Inr r" using returns [OF assms(1)] by blast
  then show ?thesis using sound [OF assms(1)] complete [OF assms(1)] assms(2,3) by (cases r) blast+
qed

lemma picks_none:
  assumes "ok s"
  shows "rule s = Inr None \<longleftrightarrow> (\<forall>p < NPROC. \<not> eligible s p)"
  using returns [OF assms] sound [OF assms] complete [OF assms] by (metis option.exhaust)

end

locale two_policies = one: policy f e ok + two: policy g e' ok
  for f g :: "'s \<Rightarrow> nat option res" and e e' :: "'s \<Rightarrow> nat \<Rightarrow> bool" and ok :: "'s \<Rightarrow> bool"
begin

lemma first_wins:
  assumes "ok s" "p < NPROC" "e s p"
  shows "or_else f g s = f s"
  using one.picks_some [OF assms] by (auto simp: or_else_def)

end

sublocale two_policies \<subseteq> both: policy "or_else f g" "\<lambda>s p. e s p \<or> e' s p" ok
proof
  fix s assume ok: "ok s"
  obtain p where p: "f s = Inr p" using one.returns [OF ok] by blast
  obtain q where q: "g s = Inr q" using two.returns [OF ok] by blast
  show "\<exists>p. or_else f g s = Inr p" using p q by (simp add: or_else_def)
  show "r < NPROC \<and> (e s r \<or> e' s r)" if "or_else f g s = Inr (Some r)" for r
    using that p q one.sound [OF ok, of r] two.sound [OF ok, of r] by (auto simp: or_else_def split: if_splits)
  show "\<not> (e s r \<or> e' s r)" if "or_else f g s = Inr None" "r < NPROC" for r
    using that p q one.complete [OF ok, of r] two.complete [OF ok, of r] by (auto simp: or_else_def split: if_splits)
qed

section \<open>Picking a least element\<close>

definition least_step :: "('s \<Rightarrow> nat \<Rightarrow> bool) \<Rightarrow> ('s \<Rightarrow> nat \<Rightarrow> int) \<Rightarrow> 's \<Rightarrow> nat \<Rightarrow> nat option \<Rightarrow> nat option" where
  "least_step el key s p best =
     (if \<not> el s p then best
      else case best of None \<Rightarrow> Some p | Some h \<Rightarrow> if key s h > key s p then Some p else best)"

definition is_least :: "('s \<Rightarrow> nat \<Rightarrow> bool) \<Rightarrow> ('s \<Rightarrow> nat \<Rightarrow> int) \<Rightarrow> 's \<Rightarrow> nat set \<Rightarrow> nat \<Rightarrow> bool" where
  "is_least el key s A b \<longleftrightarrow> b \<in> A \<and> el s b \<and> (\<forall>p \<in> A. el s p \<longrightarrow> key s b < key s p \<or> key s b = key s p \<and> b \<le> p)"

lemma fold_least:
  assumes "sorted_wrt (<) ps"
  shows "case fold (least_step el key s) ps None of
      None \<Rightarrow> \<forall>p \<in> set ps. \<not> el s p
    | Some b \<Rightarrow> is_least el key s (set ps) b"
  using assms
proof (induction ps rule: rev_induct)
  case (snoc x xs)
  then have IH: "case fold (least_step el key s) xs None of
      None \<Rightarrow> \<forall>p \<in> set xs. \<not> el s p
    | Some b \<Rightarrow> is_least el key s (set xs) b" and x: "\<forall>p \<in> set xs. p < x"
    by (auto simp: sorted_wrt_append)
  show ?case
  proof (cases "fold (least_step el key s) xs None")
    case None
    then show ?thesis using IH x by (auto simp: least_step_def [of _ _ _ x] is_least_def)
  next
    case (Some b)
    then show ?thesis using IH x by (auto simp: least_step_def [of _ _ _ x] is_least_def)
  qed
qed simp

lemma least_policy:
  assumes "\<forall>s. rule s = Inr (fold (least_step el key s) ptable None)"
  shows "policy rule el ok"
    and "rule s = Inr (Some p) \<Longrightarrow> is_least el key s {..<NPROC} p"
proof -
  have l: "case fold (least_step el key s) ptable None of
      None \<Rightarrow> \<forall>p < NPROC. \<not> el s p
    | Some b \<Rightarrow> is_least el key s {..<NPROC} b" for s
  proof -
    have "set ptable = {..<NPROC}" by (auto simp: set_eq_iff)
    then show ?thesis using fold_least [OF sorted_ptable, where el = el and key = key and s = s] by (auto split: option.splits)
  qed
  show "policy rule el ok"
    by unfold_locales (use assms l in \<open>force simp: is_least_def split: option.splits\<close>)+
  show "rule s = Inr (Some p) \<Longrightarrow> is_least el key s {..<NPROC} p"
    using assms l [of s] by simp
qed

definition burst :: "'z procv_scheme \<Rightarrow> nat \<Rightarrow> int" where
  "burst s p = sint (p_burst_time (procs s p))"

definition prio :: "'z procv_scheme \<Rightarrow> nat \<Rightarrow> int" where
  "prio s p = sint (p_priority (procs s p))"

lemma SJFSched_least: "SJFSched s = Inr (fold (least_step (in_queue SJF) burst s) ptable None)"
  unfolding SJFSched_def least_step_def [abs_def] burst_def ..

lemma prioritySched_least: "prioritySched s = Inr (fold (least_step (in_queue PRIORITY) prio s) ptable None)"
  unfolding prioritySched_def least_step_def [abs_def] prio_def ..

lemmas sjf_least = least_policy(2) [OF allI, OF SJFSched_least]
  and priority_least = least_policy(2) [OF allI, OF prioritySched_least]

section \<open>The lottery\<close>

definition tickets :: "'z procv_scheme \<Rightarrow> nat \<Rightarrow> int" where
  "tickets s p = sint (p_lottery_ticket (procs s p))"

text \<open>The tickets of the processes in the lottery that come before entry \<open>n\<close>.\<close>

fun before :: "'z procv_scheme \<Rightarrow> nat \<Rightarrow> int" where
  "before s 0 = 0"
| "before s (Suc n) = before s n + (if in_queue LOTTERY s n then tickets s n else 0)"

text \<open>Tickets are not negative and their number, with the one extra, fits an \<open>int\<close>.\<close>

definition tickets_ok :: "'z procv_scheme \<Rightarrow> bool" where
  "tickets_ok s \<longleftrightarrow> (\<forall>p < NPROC. in_queue LOTTERY s p \<longrightarrow> 0 \<le> tickets s p) \<and> before s NPROC < 2 ^ 31 - 1"

definition pick :: "'z procv_scheme \<Rightarrow> int \<Rightarrow> nat option" where
  "pick s d = snd (snd (fold (lottery_step s) ptable (of_int d, 0, None)))"

text \<open>\<open>wins s d p\<close>: the draw \<open>d\<close> falls on a ticket of \<open>p\<close>; the first process also wins with 0.\<close>

definition wins :: "'z procv_scheme \<Rightarrow> int \<Rightarrow> nat \<Rightarrow> bool" where
  "wins s d p \<longleftrightarrow> in_queue LOTTERY s p \<and> d \<le> before s (Suc p) \<and>
     (before s p < d \<or> (\<forall>q < p. \<not> in_queue LOTTERY s q))"

lemma before_mono:
  assumes "\<forall>p < N. in_queue LOTTERY s p \<longrightarrow> 0 \<le> tickets s p" "n \<le> m" "m \<le> N"
  shows "before s n \<le> before s m"
  using assms(2,3)
proof (induction m)
  case (Suc m)
  show ?case
  proof (cases "n = Suc m")
    case False
    then have "before s n \<le> before s m" "m < N" using Suc by simp_all
    then show ?thesis using assms(1) by (simp add: add_increasing2)
  qed simp
qed simp

lemma sint_of_int: "- (2 ^ 31) \<le> x \<Longrightarrow> x < 2 ^ 31 \<Longrightarrow> sint (of_int x :: cint) = x"
  by (simp add: int_word_sint)

lemma lottery_fold:
  assumes ok: "tickets_ok s" and d: "0 \<le> d" "d \<le> before s NPROC" and n: "n \<le> NPROC"
  shows "\<exists>sel high. fold (lottery_step s) [0..<n] (of_int d, 0, None) = (of_int (d - before s n), sel, high) \<and>
    (sel = 0 \<and> high = None \<and> (\<forall>q < n. \<not> in_queue LOTTERY s q) \<or>
     sel = 1 \<and> (\<exists>q < n. in_queue LOTTERY s q) \<and> before s n < d \<or>
     sel = 2 \<and> (\<exists>p < n. high = Some p \<and> wins s d p))"
  using n
proof (induction n)
  case (Suc n)
  then obtain sel high where f: "fold (lottery_step s) [0..<n] (of_int d, 0, None) = (of_int (d - before s n), sel, high)"
    and c: "sel = 0 \<and> high = None \<and> (\<forall>q < n. \<not> in_queue LOTTERY s q) \<or>
     sel = 1 \<and> (\<exists>q < n. in_queue LOTTERY s q) \<and> before s n < d \<or>
     sel = 2 \<and> (\<exists>p < n. high = Some p \<and> wins s d p)"
    by auto
  have step: "fold (lottery_step s) [0..<Suc n] (of_int d, 0, None) =
      lottery_step s n (of_int (d - before s n), sel, high)"
    using f by simp
  show ?case
  proof (cases "in_queue LOTTERY s n")
    case False
    then have "lottery_step s n (of_int (d - before s n), sel, high) = (of_int (d - before s (Suc n)), sel, high)"
      by (simp add: lottery_step_def)
    then show ?thesis unfolding step using c False by (auto simp: less_Suc_eq simp del: of_int_diff)
  next
    case True
    have t: "p_lottery_ticket (procs s n) = of_int (tickets s n)" by (simp add: tickets_def)
    have b: "before s 0 \<le> before s (Suc n)" "before s (Suc n) \<le> before s NPROC"
      using ok Suc.prems by (auto intro!: before_mono [of NPROC] simp: tickets_ok_def simp del: before.simps)
    then have r: "sint (of_int (d - before s (Suc n)) :: cint) = d - before s (Suc n)"
      using d ok by (intro sint_of_int) (simp_all add: tickets_ok_def)
    have sub: "of_int (d - before s n) - p_lottery_ticket (procs s n) = (of_int (d - before s (Suc n)) :: cint)"
      unfolding t using True by simp
    have ls: "lottery_step s n (of_int (d - before s n), sel, high) =
        (of_int (d - before s (Suc n)),
         if sel \<le> 1 \<and> d \<le> before s (Suc n) then (2, Some n) else if sel = 0 then (1, Some n) else (sel, high))"
      unfolding lottery_step_def using True r sub c by (auto simp: Let_def simp del: before.simps(2) of_int_diff)
    have w: "wins s d n" if "sel \<le> 1" "d \<le> before s (Suc n)"
      using that c True by (auto simp: wins_def simp del: before.simps(2))
    show ?thesis
      unfolding step ls using True c w
      by (auto simp: less_Suc_eq simp del: before.simps(2) of_int_diff)
  qed
qed simp

lemma wins_unique:
  assumes "tickets_ok s" "p < NPROC" "q < NPROC" "wins s d p" "wins s d q"
  shows "p = q"
proof -
  have "\<not> x < y" if "x < NPROC" "y < NPROC" "wins s d x" "wins s d y" for x y
  proof
    assume "x < y"
    then have "before s (Suc x) \<le> before s y"
      using assms(1) that by (intro before_mono [of NPROC]) (auto simp: tickets_ok_def)
    moreover have "before s y < d" "d \<le> before s (Suc x)"
      using that \<open>x < y\<close> by (auto simp: wins_def simp del: before.simps)
    ultimately show False by simp
  qed
  then show ?thesis using assms(2-5) by (metis linorder_neqE_nat)
qed

lemma pick_cases:
  assumes "tickets_ok s" "0 \<le> d" "d \<le> before s NPROC"
  obtains (none) "pick s d = None" "\<forall>q < NPROC. \<not> in_queue LOTTERY s q"
    "fst (snd (fold (lottery_step s) ptable (of_int d, 0, None))) = 0"
  | (some) p where "pick s d = Some p" "p < NPROC" "wins s d p"
    "fst (snd (fold (lottery_step s) ptable (of_int d, 0, None))) \<noteq> 0"
  using lottery_fold [OF assms order_refl] assms(3) unfolding pick_def ptable_def by fastforce

lemma pick_wins:
  assumes "tickets_ok s" "0 \<le> d" "d \<le> before s NPROC"
  shows "pick s d = Some p \<longleftrightarrow> p < NPROC \<and> wins s d p"
  using assms
proof (cases rule: pick_cases)
  case none
  then show ?thesis by (auto simp: wins_def)
next
  case (some q)
  then show ?thesis using wins_unique [OF assms(1)] by auto
qed

text \<open>The number \<open>generate_random\<close> gives for the lottery of a state.\<close>

definition draw :: "'z procv_scheme \<Rightarrow> int" where
  "draw s = uint ((12345678 + ticks s * ticks s * ticks s * ticks s) mod of_int (1 + before s NPROC))"

lemma sum_lotteries:
  "fold (\<lambda>p sum. if in_queue LOTTERY s p then sum + p_lottery_ticket (procs s p) else sum) [0..<n] 1 =
   of_int (1 + before s n)"
  by (induction n) (simp_all add: tickets_def)

lemma draw_range:
  assumes "tickets_ok s"
  shows "0 \<le> draw s" "draw s \<le> before s NPROC" "(of_int (1 + before s NPROC) :: cint) \<noteq> 0"
proof -
  have "before s 0 \<le> before s NPROC"
    using assms by (intro before_mono [of NPROC]) (auto simp: tickets_ok_def)
  then have b: "0 \<le> before s NPROC" "before s NPROC < 2 ^ 31 - 1" using assms by (simp_all add: tickets_ok_def)
  then have u: "uint (of_int (1 + before s NPROC) :: cint) = 1 + before s NPROC"
    by (simp add: uint_word_of_int_eq take_bit_eq_mod del: of_int_add)
  then show "0 \<le> draw s" by (simp add: draw_def)
  have "x mod (1 + before s NPROC) \<le> before s NPROC" for x
    using pos_mod_bound [of "1 + before s NPROC" x] b by linarith
  then show "draw s \<le> before s NPROC" unfolding draw_def uint_mod u .
  show "(of_int (1 + before s NPROC) :: cint) \<noteq> 0"
  proof
    assume "(of_int (1 + before s NPROC) :: cint) = 0"
    then have "1 + before s NPROC = 0" using u by simp
    then show False using b by simp
  qed
qed

lemma lotterySched_pick:
  assumes "tickets_ok s"
  shows "lotterySched s = Inr (pick s (draw s))"
proof -
  have "generate_random (of_int (1 + before s NPROC)) s = Inr (of_int (draw s))"
    using draw_range(3) [OF assms] by (simp add: generate_random_def draw_def)
  then have "lotterySched s = (case fold (lottery_step s) ptable (of_int (draw s), 0, None) of
      (_, selected, high) \<Rightarrow> Inr (if selected \<noteq> 0 then high else None))"
    using sum_lotteries [of s NPROC] by (simp add: lotterySched_def ptable_def)
  then show ?thesis
    using assms draw_range [OF assms]
    by (cases rule: pick_cases [OF assms draw_range(1,2) [OF assms]])
       (auto simp: pick_def split: prod.splits)
qed

interpretation lottery: policy lotterySched "in_queue LOTTERY" tickets_ok
proof
  fix s :: "'a procv_scheme" assume ok: "tickets_ok s"
  note d = draw_range(1,2) [OF ok]
  show "\<exists>p. lotterySched s = Inr p" using lotterySched_pick [OF ok] by blast
  show "p < NPROC \<and> in_queue LOTTERY s p" if "lotterySched s = Inr (Some p)" for p
    using that lotterySched_pick [OF ok] pick_wins [OF ok d] by (auto simp: wins_def)
  show "\<not> in_queue LOTTERY s p" if "lotterySched s = Inr None" "p < NPROC" for p
    using that lotterySched_pick [OF ok] by (cases rule: pick_cases [OF ok d]) auto
qed

interpretation sjf: policy SJFSched "in_queue SJF" tickets_ok
  by (rule least_policy(1) [OF allI, OF SJFSched_least])

interpretation prio: policy prioritySched "in_queue PRIORITY" tickets_ok
  by (rule least_policy(1) [OF allI, OF prioritySched_least])

interpretation ls: two_policies lotterySched SJFSched "in_queue LOTTERY" "in_queue SJF" tickets_ok
  by unfold_locales

interpretation all: two_policies "or_else lotterySched SJFSched" prioritySched
  "\<lambda>s p. in_queue LOTTERY s p \<or> in_queue SJF s p" "in_queue PRIORITY" tickets_ok
  by unfold_locales

end
