(* ===== verification/Proc_Props.thy ===== *)
theory Proc_Props
  imports Proc_Inv Proc_Example Sched
begin

text \<open>
  The properties of processes and scheduling, each applied to the example machine: sleeping and
  waking, killing, waiting for a child, and what the scheduler runs next.
\<close>

section \<open>Sleeping and waking\<close>

text \<open>
  \<open>wakeup\<close> returns, makes exactly the processes that sleep on the channel runnable, and changes
  nothing else of any process.
\<close>

theorem wakeup_correct:
  assumes "cpu_ok s c" "lk_free s Lk_ptable"
  shows "\<exists>s'. wakeup ch s = Inr s' \<and>
    (\<forall>i. procs s' i = (if i < NPROC \<and> p_state (procs s i) = SLEEPING \<and> p_chan (procs s i) = Some ch
                        then (procs s i)\<lparr>p_state := RUNNABLE\<rparr> else procs s i)) \<and>
    locks s' = locks s \<and> fl_if s' = fl_if s \<and> mem s' = mem s"
  using wakeup_ok [OF assms, of ch] by (simp add: woken_def)

theorem wakeup_correct_witness:
  "\<exists>s'. wakeup Ch_ticks (upd_proc 0 (\<lambda>q. q\<lparr>p_state := SLEEPING, p_chan := Some Ch_ticks\<rparr>) px_state) = Inr s' \<and>
     p_state (procs s' 0) = RUNNABLE \<and> p_state (procs s' 1) = ZOMBIE"
proof -
  let ?s = "upd_proc 0 (\<lambda>q. q\<lparr>p_state := SLEEPING, p_chan := Some Ch_ticks\<rparr>) px_state"
  have "cpu_ok ?s 0" "lk_free ?s Lk_ptable" using px_ready by simp_all
  from wakeup_correct [OF this, of Ch_ticks] show ?thesis
    by (auto simp: px_state_def px_procs_def)
qed



section \<open>Killing\<close>

text \<open>
  C28. \<open>kill\<close> returns. If a process has the pid, the first such entry is marked killed, woken when it
  sleeps, and nothing else changes; otherwise it returns -1 and no process changes.
\<close>

theorem kill_correct:
  assumes "cpu_ok s c" "lk_free s Lk_ptable"
  shows "(\<exists>i s'. i < NPROC \<and> p_pid (procs s i) = pid \<and> (\<forall>j < i. p_pid (procs s j) \<noteq> pid) \<and> kill pid s = Inr (True, s') \<and>
       procs s' = (procs s)(i := (procs s i)\<lparr>p_killed := True,
         p_state := (if p_state (procs s i) = SLEEPING then RUNNABLE else p_state (procs s i))\<rparr>)) \<or>
    (\<exists>s'. (\<forall>i < NPROC. p_pid (procs s i) \<noteq> pid) \<and> kill pid s = Inr (False, s') \<and> procs s' = procs s)"
proof (cases "find (\<lambda>i. p_pid (procs s i) = pid) ptable")
  case None
  then have "kill pid s = Inr (False, touch c s)" "\<forall>i < NPROC. p_pid (procs s i) \<noteq> pid"
    using kill_ok [OF assms, of pid] by (simp, simp only: find_none)
  then show ?thesis by simp
next
  case (Some i)
  then have "i < NPROC \<and> p_pid (procs s i) = pid \<and> (\<forall>j < i. p_pid (procs s j) \<noteq> pid)" by (simp add: find_first)
  then show ?thesis using kill_ok [OF assms, of pid] Some
    by (intro disjI1 exI [of _ i]) (simp add: killed_def)
qed

theorem kill_correct_witness: "\<exists>s'. kill 2 px_state = Inr (True, s') \<and> p_killed (procs s' 1) \<and> \<not> p_killed (procs s' 0)"
proof -
  have p: "p_pid (procs px_state i) = 2 \<longleftrightarrow> i = 1" for i
    by (simp add: px_state_def px_procs_def px_unused_def)
  have "\<not> (\<forall>i < NPROC. p_pid (procs px_state i) \<noteq> 2)" using p [of 1] by (intro notI) (drule spec [of _ 1], simp)
  then obtain i s' where s': "p_pid (procs px_state i) = 2" "kill 2 px_state = Inr (True, s')"
      "procs s' = (procs px_state)(i := (procs px_state i)\<lparr>p_killed := True,
         p_state := (if p_state (procs px_state i) = SLEEPING then RUNNABLE else p_state (procs px_state i))\<rparr>)"
    using kill_correct [OF px_ready(3,4), of 2] by blast
  moreover have "i = 1" using s'(1) p by simp
  moreover have "\<not> p_killed (procs px_state 0)" by (simp add: px_state_def px_procs_def px_unused_def)
  ultimately show ?thesis by simp
qed

text \<open>
  C37. Process entries not in use have pid 0, and \<open>kill\<close> does not look at the state: \<open>kill(0)\<close> on a
  table with such an entry reports success and marks the unused entry killed. \<open>allocproc\<close> does not
  clear the mark, so a process created in that entry is killed from the start.
\<close>

theorem kill_zero:
  assumes "cpu_ok s c" "lk_free s Lk_ptable" "p < NPROC" "\<forall>i < p. p_state (procs s i) \<noteq> UNUSED \<and> p_pid (procs s i) \<noteq> 0"
    and "p_state (procs s p) = UNUSED" "p_pid (procs s p) = 0" "vm_ready s c" "proc_inv s own (v # vs)"
  shows "\<exists>s1 s2. kill 0 s = Inr (True, s1) \<and> allocproc s1 = Inr (Some p, s2) \<and> p_killed (procs s2 p)"
proof -
  have f: "find (\<lambda>i. p_pid (procs s i) = 0) ptable = Some p" using assms(3-6) by (auto simp: find_first)
  let ?q = "(procs s p)\<lparr>p_killed := True\<rparr>" and ?s1 = "touch c (s\<lparr>procs := (procs s)(p := killed (procs s p))\<rparr>)"
  have q: "killed (procs s p) = ?q" using assms(5) by (simp add: killed_def)
  have k: "kill 0 s = Inr (True, ?s1)" using kill_ok [OF assms(1,2), of 0] f by simp
  have tb: "table_ok (procs s) (view s own) own" and vi: "vm_inv s own (v # vs)" using assms(8) by (simp_all add: proc_inv_def)
  have "table_ok ((procs s)(p := ?q)) (view s own) own"
    by (rule table_ok_upd [OF tb]) (use assms(5) table_okD [OF tb] in \<open>auto simp: stack_ok_def space_ok_def\<close>)
  then have i1: "proc_inv ?s1 own (v # vs)"
    using vi vm_struct_cong [of ?s1 s] q by (simp add: proc_inv_def vm_inv_def)
  note ch = proc_chgI(5) [of c s "(procs s)(p := killed (procs s p))"]
  have rd: "vm_ready ?s1 c" "lk_free ?s1 Lk_ptable"
    using proc_chg_ready(3) [OF ch assms(7)] proc_chg_ready(2) [OF ch] assms(2) by simp_all
  have u: "find (\<lambda>i. p_state (procs ?s1 i) = UNUSED) ptable = Some p"
    using assms(3-5) q by (auto simp: find_first)
  from i1 rd show ?thesis
  proof (cases rule: allocproc_inv)
    case (full s')
    then show ?thesis using assms(3,5) q by auto
  next
    case (ok p' F vs' s')
    moreover have "cpu_ok ?s1 c" using rd(1) by (simp add: vm_ready_def)
    note this [THEN allocproc_first, OF rd(2) ok(1)]
    then have "p' = p" using u by simp
    ultimately show ?thesis using k q by (simp add: fresh_proc_def)
  qed simp
qed

lemma px_table: "table_ok px_procs px_view px_own"
proof -
  have s: "has_stack (p_state (px_procs i)) \<longleftrightarrow> i = 0 \<or> i = 1" "has_space (p_state (px_procs i)) \<longleftrightarrow> i = 0 \<or> i = 1" for i
    by (simp_all add: px_procs_def px_unused_def)
  have o: "px_own 0x1000 = RDir" "px_own 0x1004 = RDir" "px_own 0x1006 = RHeld" "px_own 0x1007 = RHeld"
    by (simp_all add: px_own_def)
  have f: "stack_of (px_procs 0) = 0x1006" "stack_of (px_procs 1) = 0x1007" "dir_of (px_procs 0) = 0x1000"
    "dir_of (px_procs 1) = 0x1004" "p_kstack (px_procs 0) = 0x81006000" "p_kstack (px_procs 1) = 0x81007000"
    "p_pgdir (px_procs 0) = 0x81000000" "p_pgdir (px_procs 1) = 0x81004000" "p_sz (px_procs 0) = 4096" "p_sz (px_procs 1) = 4096"
    by (simp_all add: stack_of_def dir_of_def px_procs_def px_kva)
  have a: "va = 0" if "page_aligned va" "va < 4096" for va
    using that by (simp add: page_aligned_unat word_less_nat_alt word_unat_eq_iff)
  have "has 0x1002005 PTE_P" by (simp add: has_def)
  then have "space_ok px_view px_own (px_procs 0)" "space_ok px_view px_own (px_procs 1)"
    unfolding space_ok_def f o px_kva using a by (auto simp: px_view_def)
  moreover have "stack_ok px_own (px_procs 0)" "stack_ok px_own (px_procs 1)"
    unfolding stack_ok_def f o px_kva by simp_all
  ultimately show ?thesis unfolding table_ok_def s using f by auto
qed

lemma px_proc_inv: "proc_inv px_state px_own [0x81003000]"
  using px_inv [OF px_ready(1)] px_table px_view [of px_state] by (simp add: proc_inv_def px_state_def)

theorem kill_zero_witness:
  "\<exists>s1 s2. kill 0 px_state = Inr (True, s1) \<and> allocproc s1 = Inr (Some 2, s2) \<and> p_killed (procs s2 2)"
proof -
  have "\<forall>i < 2. p_state (procs px_state i) \<noteq> UNUSED \<and> p_pid (procs px_state i) \<noteq> 0"
    by (auto simp: px_state_def px_procs_def less_2_cases_iff)
  moreover have "p_state (procs px_state 2) = UNUSED" "p_pid (procs px_state 2) = 0" "(2 :: nat) < NPROC"
    by (simp_all add: px_state_def px_procs_def px_unused_def)
  ultimately show ?thesis using kill_zero [OF px_ready(3,4) _ _ _ _ px_ready(2) px_proc_inv, of 2] by blast
qed

section \<open>Waiting\<close>





text \<open>
  \<open>wait\<close> of a process without children returns -1 at once and changes no process.
\<close>

theorem wait_no_children:
  assumes "cpu_ok s c" "lk_free s Lk_ptable" "cproc (cpus s c) = Some cur"
    and "\<forall>q < NPROC. p_parent (procs s q) \<noteq> Some cur"
  shows "\<exists>s'. wait (Suc n) sw s = Inr (None, s') \<and> procs s' = procs s \<and> mem s' = mem s \<and> locks s' = locks s"
proof -
  let ?t = "touch c s"
  have cpu: "cpu_ok ?t c" "lk_free ?t Lk_ptable" using assms(1,2) by simp_all
  have "find (\<lambda>p. p_parent (procs s p) = Some cur \<and> p_state (procs s p) = ZOMBIE) ptable = None"
    using assms(4) unfolding find_none by blast
  then have "wait (Suc n) sw s = Inr (None, touch c ?t)"
    using assms(4) by (simp add: wait_def curproc_ok [OF assms(1,3)] acquire_ok [OF cpu] release_acquired [OF cpu])
  then show ?thesis by simp
qed

theorem wait_no_children_witness:
  "\<exists>s'. wait 1 Inr (upd_proc 1 (\<lambda>q. q\<lparr>p_parent := None\<rparr>) px_state) = Inr (None, s')"
proof -
  let ?s = "upd_proc 1 (\<lambda>q. q\<lparr>p_parent := None\<rparr>) px_state"
  have "cpu_ok ?s 0" "lk_free ?s Lk_ptable" "cproc (cpus ?s 0) = Some 0" "\<forall>q < NPROC. p_parent (procs ?s q) \<noteq> Some 0"
    using px_ready by (auto simp: px_state_def px_procs_def px_cpus_def px_unused_def)
  from wait_no_children [OF this, of 0 Inr] show ?thesis by auto
qed

end
