(* ===== verification/Sched_Props.thy ===== *)
theory Sched_Props
  imports Proc_Inv Proc_Example Sched
begin

text \<open>
  The properties of the scheduler, each applied to the example machine: the order of the queues,
  the shares of the lottery, what is running when a process is given the CPU, and the processes
  that are never run.
\<close>

section \<open>Which process is next\<close>

text \<open>
  C25. The scheduler serves its queues strictly in order: while a runnable process is in the lottery
  queue, the winner of the lottery runs; otherwise the runnable process of the shortest-job queue
  with the least burst time; otherwise the one of the priority queue with the least priority
  number; among equals the first of the table. It picks nothing only when all three are empty.
\<close>

theorem choose_proc_order:
  assumes "tickets_ok s"
  shows "(\<exists>q < NPROC. in_queue LOTTERY s q) \<and> choose_proc s = Inr (pick s (draw s)) \<and> pick s (draw s) \<noteq> None \<or>
    (\<forall>q < NPROC. \<not> in_queue LOTTERY s q) \<and>
      (\<exists>p. choose_proc s = Inr (Some p) \<and> is_least (in_queue SJF) burst s {..<NPROC} p) \<or>
    (\<forall>q < NPROC. \<not> in_queue LOTTERY s q \<and> \<not> in_queue SJF s q) \<and>
      (\<exists>p. choose_proc s = Inr (Some p) \<and> is_least (in_queue PRIORITY) prio s {..<NPROC} p) \<or>
    (\<forall>q < NPROC. \<not> in_queue LOTTERY s q \<and> \<not> in_queue SJF s q \<and> \<not> in_queue PRIORITY s q) \<and> choose_proc s = Inr None"
proof -
  have l: "lotterySched s = Inr (pick s (draw s))" by (rule lotterySched_pick [OF assms])
  show ?thesis
  proof (cases "pick s (draw s)")
    case (Some p)
    then have "choose_proc s = Inr (Some p)" using l by (simp add: choose_proc_def or_else_def)
    moreover have "p < NPROC \<and> in_queue LOTTERY s p" using lottery.sound [OF assms] l Some by simp
    ultimately show ?thesis using Some by auto
  next
    case None
    then have nl: "\<forall>q < NPROC. \<not> in_queue LOTTERY s q" using lottery.picks_none [OF assms] l by simp
    obtain b where b: "SJFSched s = Inr b" using sjf.returns [OF assms] by blast
    obtain h where h: "prioritySched s = Inr h" using prio.returns [OF assms] by blast
    have ch: "choose_proc s = Inr (if b = None then h else b)"
      using l None b h by (simp add: choose_proc_def or_else_def)
    show ?thesis
    proof (cases b)
      case (Some p)
      then show ?thesis using ch nl sjf_least [of s p] b by simp
    next
      case b0: None
      then have ns: "\<forall>q < NPROC. \<not> in_queue SJF s q" using sjf.picks_none [OF assms] b by simp
      show ?thesis
      proof (cases h)
        case None
        then have "\<forall>q < NPROC. \<not> in_queue PRIORITY s q" using prio.picks_none [OF assms] h by simp
        then show ?thesis using ch b0 None nl ns by simp
      next
        case (Some p)
        then show ?thesis using ch b0 nl ns priority_least [of s p] h by simp
      qed
    qed
  qed
qed

definition px_ready_state :: procv where
  "px_ready_state = px_state\<lparr>procs := (procs px_state)(0 := (procs px_state 0)\<lparr>p_state := RUNNABLE\<rparr>)\<rparr>"

lemma px_queue: "in_queue q px_ready_state i \<longleftrightarrow> q = LOTTERY \<and> i = 0"
  by (auto simp: in_queue_def px_ready_state_def px_state_def px_procs_def px_unused_def)

lemma px_tick [simp]: "tickets px_ready_state 0 = 50"
  by (simp add: tickets_def px_ready_state_def px_state_def px_procs_def)

lemma px_before: "before px_ready_state n = (if n = 0 then 0 else 50)"
  by (induction n) (auto simp: px_queue)

lemma px_tickets: "tickets_ok px_ready_state"
  by (auto simp: tickets_ok_def px_before px_queue)

lemma px_pick: "pick px_ready_state (draw px_ready_state) = Some 0"
proof -
  have "before px_ready_state 0 = 0" "before px_ready_state (Suc 0) = 50" "before px_ready_state NPROC = 50"
    by (simp_all only: px_before if_True if_False) simp_all
  then have "wins px_ready_state (draw px_ready_state) 0"
    using draw_range(2) [OF px_tickets] by (simp add: wins_def px_queue del: before.simps)
  then show ?thesis using pick_wins [OF px_tickets draw_range(1,2) [OF px_tickets]] by simp
qed

theorem choose_proc_order_witness: "choose_proc px_ready_state = Inr (Some 0)"
proof -
  have "\<exists>q < NPROC. in_queue LOTTERY px_ready_state q"
    by (rule exI [of _ 0]) (simp add: px_queue)
  then have "choose_proc px_ready_state = Inr (pick px_ready_state (draw px_ready_state))"
    using choose_proc_order [OF px_tickets] by blast
  then show ?thesis by (simp only: px_pick)
qed

text \<open>
  C24. The lottery is fair up to one ticket: the number drawn is between 0 and the sum of the
  tickets of the runnable processes in the lottery, and the numbers that a process wins with are as
  many as it has tickets, one more for the first process of the table.
\<close>

theorem lottery_share:
  assumes "tickets_ok s" "p < NPROC" "in_queue LOTTERY s p"
  shows "lotterySched s = Inr (pick s (draw s)) \<and> draw s \<in> {0..before s NPROC} \<and>
    int (card {d \<in> {0..before s NPROC}. pick s d = Some p}) =
      tickets s p + (if \<exists>q < p. in_queue LOTTERY s q then 0 else 1)"
proof -
  have m: "before s n \<le> before s k" if "n \<le> k" "k \<le> NPROC" for n k
    using assms(1) that by (intro before_mono [of NPROC]) (auto simp: tickets_ok_def)
  have suc: "before s (Suc p) = before s p + tickets s p" using assms(3) by simp
  have t: "0 \<le> tickets s p" using assms by (simp add: tickets_ok_def)
  have b: "0 \<le> before s p" "before s (Suc p) \<le> before s NPROC" using m [of 0 p] m [of "Suc p" NPROC] assms(2) by simp_all
  have eq: "{d \<in> {0..before s NPROC}. pick s d = Some p} = {d \<in> {0..before s NPROC}. wins s d p}"
    using pick_wins [OF assms(1)] assms(2) by auto
  have "int (card {d \<in> {0..before s NPROC}. wins s d p}) =
      tickets s p + (if \<exists>q < p. in_queue LOTTERY s q then 0 else 1)"
  proof (cases "\<exists>q < p. in_queue LOTTERY s q")
    case True
    then have "{d \<in> {0..before s NPROC}. wins s d p} = {before s p <.. before s (Suc p)}"
      using b assms(3) by (auto simp: wins_def simp del: before.simps)
    then show ?thesis using True suc t by simp
  next
    case False
    then have "before s p = 0" by (induction p) (auto simp: less_Suc_eq)
    then have "{d \<in> {0..before s NPROC}. wins s d p} = {0..tickets s p}"
      using False b suc assms(3) by (auto simp: wins_def simp del: before.simps)
    then show ?thesis using False t by simp
  qed
  then show ?thesis using eq lotterySched_pick [OF assms(1)] draw_range(1,2) [OF assms(1)] by simp
qed

theorem lottery_share_witness:
  "card {d \<in> {0..50}. pick px_ready_state d = Some 0} = 51"
proof -
  have "before px_ready_state NPROC = 50" by (simp only: px_before) simp
  moreover have "in_queue LOTTERY px_ready_state 0" "(0 :: nat) < NPROC" by (simp_all add: px_queue)
  ultimately show ?thesis using lottery_share [OF px_tickets, of 0] by simp
qed

text \<open>
  C38. A process whose scheduling queue is none of the three the kernel knows (the enumeration of
  the user programs numbers the lottery queue 3) is never chosen, whatever else is runnable.
\<close>

theorem unknown_queue_starves:
  assumes "tickets_ok s" "p_schedQueue (procs s p) \<notin> {PRIORITY, SJF, LOTTERY}"
  shows "choose_proc s \<noteq> Inr (Some p)"
proof
  assume "choose_proc s = Inr (Some p)"
  then have "in_queue LOTTERY s p \<or> in_queue SJF s p \<or> in_queue PRIORITY s p"
    using all.both.sound [OF assms(1), of p] unfolding choose_proc_def by blast
  then show False using assms(2) by (auto simp: in_queue_def)
qed

theorem unknown_queue_starves_witness:
  "choose_proc (px_ready_state\<lparr>procs := (procs px_ready_state)(1 :=
     (procs px_ready_state 1)\<lparr>p_state := RUNNABLE, p_schedQueue := 3\<rparr>)\<rparr>) \<noteq> Inr (Some 1)"
proof -
  let ?s = "px_ready_state\<lparr>procs := (procs px_ready_state)(1 :=
     (procs px_ready_state 1)\<lparr>p_state := RUNNABLE, p_schedQueue := 3\<rparr>)\<rparr>"
  have q: "in_queue LOTTERY ?s i = in_queue LOTTERY px_ready_state i" for i
    using px_queue [of LOTTERY 1] by (auto simp: in_queue_def)
  have t: "tickets ?s i = tickets px_ready_state i" for i
    by (simp add: tickets_def)
  have "before ?s n = before px_ready_state n" for n
    by (induction n) (simp_all only: before.simps q t)
  then have "tickets_ok ?s" using px_tickets unfolding tickets_ok_def q t by simp
  moreover have "p_schedQueue (procs ?s 1) \<notin> {PRIORITY, SJF, LOTTERY}" by simp
  ultimately show ?thesis by (rule unknown_queue_starves)
qed

section \<open>Giving the CPU to a process\<close>

lemma choose_cong:
  assumes "procs t = procs s" "ticks t = ticks s"
  shows "choose_proc t = choose_proc s"
  unfolding choose_proc_def or_else_def lotterySched_def SJFSched_def prioritySched_def generate_random_def
    lottery_step_def in_queue_def assms ..

lemma switchuvm_ok:
  assumes "cpu_ok s c" "p_kstack (procs s i) \<noteq> 0" "p_pgdir (procs s i) \<noteq> 0"
  obtains t where "switchuvm (Some i) s = Inr t" "procs t = procs s" "cpus t = cpus (touch c s)" "locks t = locks s"
    "cr3 t = V2P (p_pgdir (procs s i))" "tlb t = Map.empty"
    "ts_esp0 (cpu_ts t c) = p_kstack (procs s i) + KSTACKSIZE" "seg_base (cpu_gdt t c SEG_TSS) = ts_addr s c"
proof -
  have p: "this_cpu (pushed c s) c" "\<not> fl_if (pushed c s)" "0 < ncli (cpus (pushed c s) c)"
    using assms(1) by (auto simp: lock_defs)
  have c: "popcli (t\<lparr>cpu_gdt := g, cpu_ts := d, task_reg := r, cr3 := pa, tlb := b\<rparr>) =
      Inr ((popped c t)\<lparr>cpu_gdt := g, cpu_ts := d, task_reg := r, cr3 := pa, tlb := b\<rparr>)"
    if "this_cpu t c" "\<not> fl_if t" "0 < ncli (cpus t c)" for t :: "'a procv_scheme" and g d r pa b
  proof -
    let ?t = "t\<lparr>cpu_gdt := g, cpu_ts := d, task_reg := r, cr3 := pa, tlb := b\<rparr>"
    have "popcli ?t = Inr (popped c ?t)" using that by (intro popcli_ok) (simp_all add: this_cpu_def)
    then show ?thesis by (cases t) (simp add: popped_def upd_cpu_def)
  qed
  obtain g d r where e: "switchuvm (Some i) s =
      popcli ((pushed c s)\<lparr>cpu_gdt := g, cpu_ts := d, task_reg := r, cr3 := V2P (p_pgdir (procs s i)), tlb := Map.empty\<rparr>)"
    "ts_esp0 (d c) = p_kstack (procs s i) + KSTACKSIZE" "seg_base (g c SEG_TSS) = ts_addr s c"
  proof
    let ?g = "(cpu_gdt s)(c := (cpu_gdt s c)(SEG_TSS := (SEG16 STS_T32A (ts_addr s c) (104 - 1) 0)\<lparr>sd_s := 0\<rparr>))"
    let ?d = "(cpu_ts s)(c := (cpu_ts s c)\<lparr>ts_ss0 := ucast (push_bit 3 SEG_KDATA),
        ts_esp0 := p_kstack (procs s i) + KSTACKSIZE, ts_iomb := 0xFFFF\<rparr>)"
    have f: "cpu_gdt (pushed c s) = cpu_gdt s" "cpu_ts (pushed c s) = cpu_ts s" "ts_addr (pushed c s) = ts_addr s"
      "procs (pushed c s) = procs s"
      by (simp_all add: lock_defs)
    have pc: "pushcli s = Inr (pushed c s)" using assms(1) by (intro pushcli_ok) (simp add: cpu_ok_def)
    show "switchuvm (Some i) s = popcli ((pushed c s)\<lparr>cpu_gdt := ?g, cpu_ts := ?d, task_reg := push_bit 3 SEG_TSS,
        cr3 := V2P (p_pgdir (procs s i)), tlb := Map.empty\<rparr>)"
      using assms p(1,2) by (simp add: switchuvm_def pc set_gdt_def lcr3_def Let_def f)
    show "ts_esp0 (?d c) = p_kstack (procs s i) + KSTACKSIZE" by simp
    show "seg_base (?g c SEG_TSS) = ts_addr s c"
      using seg_base_SEG16 [of STS_T32A "ts_addr s c" "104 - 1" 0] by (simp add: seg_base_def)
  qed
  show ?thesis
  proof (rule that)
    show "switchuvm (Some i) s = Inr ((touch c s)\<lparr>cpu_gdt := g, cpu_ts := d, task_reg := r,
        cr3 := V2P (p_pgdir (procs s i)), tlb := Map.empty\<rparr>)"
      by (simp add: e(1) c [OF p] popped_pushed [OF assms(1)])
  qed (simp_all add: e(2) e(3) [simplified])
qed

text \<open>
  C11. When some runnable process is in one of the three queues, one round of the scheduler picks a
  runnable process and hands the CPU to it in a consistent state: its state is RUNNING and no other
  process changed, it is the current process of this CPU, its page directory is loaded and the
  TLB is empty, traps enter on its kernel stack, and \<open>ptable.lock\<close> is held. After the process
  switches back the kernel page table is loaded and the lock is released.
\<close>

theorem scheduler_dispatch:
  assumes "this_cpu s c" "ncli (cpus s c) = 0" "lk_free s Lk_ptable" "tickets_ok s"
    and "\<forall>p < NPROC. p_state (procs s p) = RUNNABLE \<longrightarrow> p_kstack (procs s p) \<noteq> 0 \<and> p_pgdir (procs s p) \<noteq> 0"
    and "q < NPROC" "p_state (procs s q) = RUNNABLE" "p_schedQueue (procs s q) \<in> {PRIORITY, SJF, LOTTERY}"
  shows "\<exists>p < NPROC. \<exists>t. p_state (procs s p) = RUNNABLE \<and> choose_proc s = Inr (Some p) \<and>
    scheduler_round sw c s = bindE (sw t) (\<lambda>u.
      release Lk_ptable (upd_cpu c (\<lambda>k. k\<lparr>cproc := None\<rparr>) (switchkvm u))) \<and>
    procs t = (procs s)(p := (procs s p)\<lparr>p_state := RUNNING\<rparr>) \<and> cproc (cpus t c) = Some p \<and>
    cr3 t = V2P (p_pgdir (procs s p)) \<and> tlb t = Map.empty \<and>
    ts_esp0 (cpu_ts t c) = p_kstack (procs s p) + KSTACKSIZE \<and> lk_held t c Lk_ptable"
proof -
  have "in_queue LOTTERY s q \<or> in_queue SJF s q \<or> in_queue PRIORITY s q"
    using assms(7,8) by (auto simp: in_queue_def)
  then obtain p where p: "choose_proc s = Inr (Some p)" "p < NPROC" "p_state (procs s p) = RUNNABLE"
    using all.both.picks_some [OF assms(4,6)] unfolding choose_proc_def in_queue_def by blast
  let ?a = "acquired c Lk_ptable (sti s)"
  have ok: "cpu_ok (sti s) c" "lk_free (sti s) Lk_ptable" using assms(1-3) by (auto simp: lock_defs)
  have a: "acquire Lk_ptable (sti s) = Inr ?a" by (rule acquire_ok [OF ok])
  have ap: "procs ?a = procs s" "ticks ?a = ticks s" by (simp_all add: sti_def)
  let ?b = "upd_cpu c (\<lambda>k. k\<lparr>cproc := Some p\<rparr>) ?a"
  have bp: "procs ?b = procs s" "lk_held ?b c Lk_ptable" "cpu_ok ?b c" "cproc (cpus ?b c) = Some p"
    using ok ap by (auto simp: lock_defs)
  obtain t where t: "switchuvm (Some p) ?b = Inr t" "procs t = procs ?b" "cpus t = cpus (touch c ?b)"
    "locks t = locks ?b" "cr3 t = V2P (p_pgdir (procs ?b p))" "tlb t = Map.empty"
    "ts_esp0 (cpu_ts t c) = p_kstack (procs ?b p) + KSTACKSIZE"
    using switchuvm_ok [OF bp(3), of p] assms(5) p(2,3) bp(1) by metis
  let ?t = "upd_proc p (\<lambda>q. q\<lparr>p_state := RUNNING\<rparr>) t"
  have "scheduler_round sw c s = bindE (sw ?t) (\<lambda>u.
      release Lk_ptable (upd_cpu c (\<lambda>k. k\<lparr>cproc := None\<rparr>) (switchkvm u)))"
    by (simp add: scheduler_round_def a choose_cong [OF ap] p(1) t(1) bindE_assoc)
  moreover have "procs ?t = (procs s)(p := (procs s p)\<lparr>p_state := RUNNING\<rparr>)"
    using t(2) bp(1) by (simp add: upd_proc_def)
  moreover have "lk_held ?t c Lk_ptable" using bp(2) t(4) by (simp add: lk_held_def)
  moreover have "cproc (cpus ?t c) = Some p" using bp(4) t(3) by (simp add: touch_def upd_cpu_def)
  moreover have "cr3 ?t = cr3 t" "tlb ?t = tlb t" "cpu_ts ?t = cpu_ts t" by (simp_all add: upd_proc_def)
  ultimately show ?thesis using p t(5-7) bp(1) by (intro exI [of _ p] conjI exI [of _ ?t]) simp_all
qed

theorem scheduler_dispatch_witness:
  "\<exists>t. scheduler_round Inr 0 px_ready_state =
      release Lk_ptable (upd_cpu 0 (\<lambda>k. k\<lparr>cproc := None\<rparr>) (switchkvm t)) \<and>
    p_state (procs t 0) = RUNNING \<and> cproc (cpus t 0) = Some 0 \<and> cr3 t = 0x1000000"
proof -
  let ?s = px_ready_state
  have c: "this_cpu ?s 0" "ncli (cpus ?s 0) = 0" "lk_free ?s Lk_ptable"
    using px_ready(3,4) by (simp_all add: px_ready_state_def lock_defs px_state_def px_cpus_def)
  have st: "p_state (procs ?s p) = RUNNABLE \<longleftrightarrow> p = 0" for p
    by (simp add: px_ready_state_def px_state_def px_procs_def px_unused_def)
  have p0: "p_kstack (procs ?s 0) = 0x81006000" "p_pgdir (procs ?s 0) = 0x81000000" "p_schedQueue (procs ?s 0) = LOTTERY"
    by (simp_all add: px_ready_state_def px_state_def px_procs_def)
  obtain p t where "p < NPROC" "p_state (procs ?s p) = RUNNABLE" "scheduler_round Inr 0 ?s = bindE (Inr t) (\<lambda>u.
      release Lk_ptable (upd_cpu 0 (\<lambda>k. k\<lparr>cproc := None\<rparr>) (switchkvm u)))"
    "procs t = (procs ?s)(p := (procs ?s p)\<lparr>p_state := RUNNING\<rparr>)" "cproc (cpus t 0) = Some p"
    "cr3 t = V2P (p_pgdir (procs ?s p))"
    using scheduler_dispatch [OF c px_tickets, of 0 Inr] p0 by (auto simp: st)
  then show ?thesis using p0(2) by (intro exI [of _ t]) (simp add: st V2P_def)
qed

end
