(* ===== verification/Sleeplock.thy ===== *)
theory Sleeplock
  imports Proc_Lemmas
begin

text \<open>
  Sleep locks (src/source/sleeplock.c). Every sleep lock of the kernel is the lock of a buffer or of
  an inode. An operation that may sleep takes an environment: \<open>e_sw\<close> is everything that runs while
  the process has given up the CPU, and \<open>e_fuel\<close> bounds how often it is woken to find that it has to
  sleep again; a wait beyond the bound is \<open>Diverge\<close>.
\<close>

section \<open>State\<close>

datatype slid = Sl_buf nat | Sl_inode nat

record sleeplock =
  sl_locked :: uint
  sl_name :: string
  sl_pid :: cint

record slpv = procv +
  slocks :: "slid \<Rightarrow> sleeplock"

record 's env =
  e_fuel :: nat
  e_sw :: "'s \<Rightarrow> 's res"

text \<open>The spin lock inside a sleep lock, and its address as a channel.\<close>

fun sl_lk :: "slid \<Rightarrow> lockid" where
  "sl_lk (Sl_buf i) = Lk_buf i"
| "sl_lk (Sl_inode i) = Lk_inode i"

fun sl_chan :: "slid \<Rightarrow> chan" where
  "sl_chan (Sl_buf i) = Ch_buflock i"
| "sl_chan (Sl_inode i) = Ch_inodelock i"

definition upd_sl :: "slid \<Rightarrow> (sleeplock \<Rightarrow> sleeplock) \<Rightarrow> 'z slpv_scheme \<Rightarrow> 'z slpv_scheme" where
  "upd_sl l f s = s\<lparr>slocks := (slocks s)(l := f (slocks s l))\<rparr>"

section \<open>Operations\<close>

definition initsleeplock :: "slid \<Rightarrow> string \<Rightarrow> 'z slpv_scheme \<Rightarrow> 'z slpv_scheme" where
  "initsleeplock l nm s =
     (let s = initlock (sl_lk l) ''sleep lock'' s
      in upd_sl l (\<lambda>k. k\<lparr>sl_name := nm, sl_locked := 0, sl_pid := 0\<rparr>) s)"

text \<open>\<open>while (lk->locked) sleep(lk, &lk->lk);\<close>\<close>

fun acquiresleep_loop :: "nat \<Rightarrow> 'z slpv_scheme env \<Rightarrow> slid \<Rightarrow> 'z slpv_scheme \<Rightarrow> 'z slpv_scheme res" where
  "acquiresleep_loop n e l s =
     (if sl_locked (slocks s l) = 0 then Inr s
      else case n of 0 \<Rightarrow> Inl Diverge
           | Suc k \<Rightarrow> bindE (sleep (e_sw e) (sl_chan l) (sl_lk l) s) (acquiresleep_loop k e l))"

declare acquiresleep_loop.simps [simp del]

definition acquiresleep :: "'z slpv_scheme env \<Rightarrow> slid \<Rightarrow> 'z slpv_scheme \<Rightarrow> 'z slpv_scheme res" where
  "acquiresleep e l s =
     bindE (acquire (sl_lk l) s) (\<lambda>s.
     bindE (acquiresleep_loop (e_fuel e) e l s) (\<lambda>s.
       let s = upd_sl l (\<lambda>k. k\<lparr>sl_locked := 1\<rparr>) s in
     bindE (curproc s) (\<lambda>(p, s).
       let s = upd_sl l (\<lambda>k. k\<lparr>sl_pid := p_pid (procs s p)\<rparr>) s in
     release (sl_lk l) s)))"

definition releasesleep :: "slid \<Rightarrow> 'z slpv_scheme \<Rightarrow> 'z slpv_scheme res" where
  "releasesleep l s =
     bindE (acquire (sl_lk l) s) (\<lambda>s.
       let s = upd_sl l (\<lambda>k. k\<lparr>sl_locked := 0, sl_pid := 0\<rparr>) s in
     bindE (wakeup (sl_chan l) s) (release (sl_lk l)))"

definition holdingsleep :: "slid \<Rightarrow> 'z slpv_scheme \<Rightarrow> (bool \<times> 'z slpv_scheme) res" where
  "holdingsleep l s =
     bindE (acquire (sl_lk l) s) (\<lambda>s.
     bindE (if sl_locked (slocks s l) = 0 then Inr (False, s)
            else bindE (curproc s) (\<lambda>(p, s). Inr (sl_pid (slocks s l) = p_pid (procs s p), s))) (\<lambda>(r, s).
     bindE (release (sl_lk l) s) (\<lambda>s. Inr (r, s))))"

section \<open>Sleep locks that are free\<close>

text \<open>
  \<open>quiet c s\<close>: CPU \<open>c\<close> runs a process that holds no spin lock, every spin lock is free, and no process
  sleeps for a sleep lock, the log or the disk. This is how the file system finds the kernel when no
  other process is inside it. The second conjunct says that \<open>intena\<close> of the CPU is up to date.
\<close>

fun fs_chan :: "chan \<Rightarrow> bool" where
  "fs_chan (Ch_buflock i) = True"
| "fs_chan (Ch_inodelock i) = True"
| "fs_chan (Ch_buf i) = True"
| "fs_chan Ch_log = True"
| "fs_chan ch = False"

definition quiet :: "nat \<Rightarrow> 'z procv_scheme \<Rightarrow> bool" where
  "quiet c s \<longleftrightarrow> cpu_ok s c \<and> (ncli (cpus s c) = 0 \<longrightarrow> intena (cpus s c) = fl_if s) \<and> (\<exists>p. cproc (cpus s c) = Some p) \<and> (\<forall>l. lk_free s l) \<and>
     (\<forall>i < NPROC. \<forall>ch. p_state (procs s i) = SLEEPING \<longrightarrow> p_chan (procs s i) = Some ch \<longrightarrow> \<not> fs_chan ch)"

text \<open>The pid of the process on the CPU.\<close>

definition mypid :: "nat \<Rightarrow> 'z procv_scheme \<Rightarrow> cint" where
  "mypid c s = p_pid (procs s (the (cproc (cpus s c))))"

lemma quiet_touch: "quiet c s \<Longrightarrow> touch c s = s"
proof -
  assume q: "quiet c s"
  then have "(cpus s c)\<lparr>intena := (if ncli (cpus s c) = 0 then fl_if s else intena (cpus s c))\<rparr> = cpus s c"
    by (cases "cpus s c") (auto simp: quiet_def)
  then show ?thesis by (simp add: touch_def upd_cpu_def)
qed

lemma quiet_cong:
  assumes "same_cpuv s t" "procs t = procs s"
  shows "quiet c t = quiet c s"
proof -
  have "cpus t = cpus s" "fl_if t = fl_if s" using assms(1) by (simp_all add: same_cpuv_def)
  then show ?thesis by (simp only: quiet_def same_cpuv_cong [OF assms(1)] assms(2))
qed

lemma quiet_idle: "quiet c s \<Longrightarrow> fs_chan ch \<Longrightarrow> i < NPROC \<Longrightarrow> woken ch (procs s i) = procs s i"
  by (auto simp: quiet_def woken_def)

lemma wakeup_quiet:
  assumes "cpu_ok s c" "lk_free s Lk_ptable" "0 < ncli (cpus s c)" "fs_chan ch"
    and "\<forall>i < NPROC. woken ch (procs s i) = procs s i"
  shows "wakeup ch s = Inr s"
proof -
  have "(\<lambda>i. if i < NPROC then woken ch (procs s i) else procs s i) = procs s" using assms(5) by auto
  then show ?thesis using wakeup_ok [OF assms(1,2), of ch] touch_nested [OF assms(3)] by simp
qed

lemma quiet_release:
  assumes "quiet c s" "same_cpuv (acquired c l s) t"
  shows "release l t = Inr (t\<lparr>fl_if := fl_if s, cpus := cpus s, locks := locks s\<rparr>)"
proof -
  have "cpu_ok s c" "lk_free s l" "touch c s = s" using assms(1) quiet_touch by (auto simp: quiet_def)
  then show ?thesis using release_restores [OF _ _ assms(2)] by simp
qed

lemma quiet_acquired:
  assumes "quiet c s"
  shows "acquire l s = Inr (acquired c l s)" "cpu_ok (acquired c l s) c" "0 < ncli (cpus (acquired c l s) c)"
    "\<And>k. k \<noteq> l \<Longrightarrow> lk_free (acquired c l s) k" "cproc (cpus (acquired c l s) c) = cproc (cpus s c)"
proof -
  have q: "cpu_ok s c" "\<And>l. lk_free s l" using assms by (auto simp: quiet_def)
  show "acquire l s = Inr (acquired c l s)" by (rule acquire_ok [OF q])
  show "cpu_ok (acquired c l s) c" "0 < ncli (cpus (acquired c l s) c)" using q(1) by (auto simp: lock_defs)
  show "cproc (cpus (acquired c l s) c) = cproc (cpus s c)" by (simp add: lock_defs)
  show "lk_free (acquired c l s) k" if "k \<noteq> l" for k using q(2) [of k] that by (simp add: lock_defs)
qed

lemma sl_release:
  assumes "quiet c s"
  shows "release l ((acquired c l s)\<lparr>slocks := x\<rparr>) = Inr (s\<lparr>slocks := x\<rparr>)"
  by (subst quiet_release [OF assms]) (simp add: same_cpuv_def, cases s, simp add: lock_defs)

lemma quiet_slocks [simp]: "quiet c (s\<lparr>slocks := x\<rparr>) = quiet c s"
  by (rule quiet_cong) (simp_all add: same_cpuv_def)

lemma sl_inside:
  assumes "quiet c s"
  shows "cpu_ok ((acquired c l s)\<lparr>slocks := x\<rparr>) c" "0 < ncli (cpus ((acquired c l s)\<lparr>slocks := x\<rparr>) c)"
    "lk_free ((acquired c l s)\<lparr>slocks := x\<rparr>) k = lk_free (acquired c l s) k"
  using quiet_acquired(2,3) [OF assms, of l] by (simp_all add: cpu_ok_def this_cpu_def lk_free_def)

lemma acquiresleep_ok:
  assumes "quiet c s" "sl_locked (slocks s l) = 0"
  shows "acquiresleep e l s = Inr (upd_sl l (\<lambda>k. k\<lparr>sl_locked := 1, sl_pid := mypid c s\<rparr>) s)"
proof -
  let ?a = "acquired c (sl_lk l) s"
  obtain p where p: "cproc (cpus s c) = Some p" using assms(1) by (auto simp: quiet_def)
  have cur: "curproc (?a\<lparr>slocks := x\<rparr>) = Inr (p, ?a\<lparr>slocks := x\<rparr>)" for x
    using curproc_ok [OF sl_inside(1) [OF assms(1), where l = "sl_lk l" and x = x], of p] p
      touch_nested [OF sl_inside(2) [OF assms(1), where l = "sl_lk l" and x = x]] quiet_acquired(5) [OF assms(1), of "sl_lk l"]
    by simp
  have "slocks ?a = slocks s" by (simp add: lock_defs)
  then show ?thesis using assms(2) p
    by (simp add: acquiresleep_def quiet_acquired(1) [OF assms(1)] acquiresleep_loop.simps upd_sl_def cur
      sl_release [OF assms(1)] mypid_def Let_def)
qed

lemma releasesleep_ok:
  assumes "quiet c s"
  shows "releasesleep l s = Inr (upd_sl l (\<lambda>k. k\<lparr>sl_locked := 0, sl_pid := 0\<rparr>) s)"
proof -
  let ?a = "acquired c (sl_lk l) s"
  have ch: "fs_chan (sl_chan l)" "sl_lk l \<noteq> Lk_ptable" by (cases l; simp)+
  have "wakeup (sl_chan l) (?a\<lparr>slocks := x\<rparr>) = Inr (?a\<lparr>slocks := x\<rparr>)" for x
    using quiet_acquired(4) [OF assms, of Lk_ptable "sl_lk l"] ch quiet_idle [OF assms ch(1)]
    by (intro wakeup_quiet [OF sl_inside(1) [OF assms] _ sl_inside(2) [OF assms]]) (simp_all add: lk_free_def)
  moreover have "slocks ?a = slocks s" by (simp add: lock_defs)
  ultimately show ?thesis
    by (simp add: releasesleep_def quiet_acquired(1) [OF assms] upd_sl_def sl_release [OF assms] Let_def)
qed

lemma holdingsleep_ok:
  assumes "quiet c s"
  shows "holdingsleep l s = Inr (sl_locked (slocks s l) \<noteq> 0 \<and> sl_pid (slocks s l) = mypid c s, s)"
proof -
  let ?a = "acquired c (sl_lk l) s"
  obtain p where p: "cproc (cpus s c) = Some p" using assms by (auto simp: quiet_def)
  have "curproc ?a = Inr (p, ?a)"
    using curproc_ok [OF quiet_acquired(2) [OF assms]] p touch_nested [OF quiet_acquired(3) [OF assms]]
      quiet_acquired(5) [OF assms] by simp
  moreover have "release (sl_lk l) ?a = Inr s"
    using sl_release [OF assms, of "sl_lk l" "slocks s"] by (simp add: lock_defs)
  moreover have "slocks ?a = slocks s" by (simp add: lock_defs)
  ultimately show ?thesis using p
    by (simp add: holdingsleep_def quiet_acquired(1) [OF assms] mypid_def Let_def)
qed

section \<open>Waking up\<close>

text \<open>The second half of \<open>sleep\<close>, when the process is switched to again with \<open>ptable.lock\<close> held.\<close>

lemma sleep_resumes:
  fixes t :: "'z procv_scheme" and i :: nat and ie :: bool
  assumes "cpu_ok t d" "ncli (cpus t d) = 1" "lk_held t d Lk_ptable" "lk_free t lk" "lk \<noteq> Lk_ptable"
  defines "v \<equiv> released d Lk_ptable (upd_proc i (\<lambda>q. q\<lparr>p_chan := None\<rparr>) (upd_cpu d (\<lambda>k. k\<lparr>intena := ie\<rparr>) t))"
  shows "bindE (resumed ie t) (awake lk i) = Inr (acquired d lk v)" "cpu_ok v d" "lk_free v lk" "lk_free v Lk_ptable"
proof -
  define w where "w = upd_proc i (\<lambda>q. q\<lparr>p_chan := None\<rparr>) (upd_cpu d (\<lambda>k. k\<lparr>intena := ie\<rparr>) t)"
  have v: "v = released d Lk_ptable w" by (simp add: v_def w_def)
  have m: "mycpu t = Inr d" using assms(1,2) by (simp add: cpu_ok_def mycpu_def this_cpu_def)
  have w: "cpu_ok w d" "lk_held w d Lk_ptable" "0 < ncli (cpus w d)" "lk_free w lk" "ncli (cpus w d) = 1"
    using assms(1-4) by (simp_all add: w_def lock_defs upd_proc_def)
  then have r: "release Lk_ptable w = Inr v" unfolding v by (intro release_ok)
  show f: "cpu_ok v d" "lk_free v lk" "lk_free v Lk_ptable" using w assms(5) by (auto simp: v lock_defs)
  have "acquire lk v = Inr (acquired d lk v)" by (rule acquire_ok [OF f(1,2)])
  then show "bindE (resumed ie t) (awake lk i) = Inr (acquired d lk v)"
    using r assms(5) by (simp add: resumed_def m awake_def w_def [symmetric])
qed

end
