(* ===== verification/Bio.thy ===== *)
theory Bio
  imports Sleeplock
begin

text \<open>
  The buffer cache (src/source/bio.c) on the memory disk (src/source/memide.c). The buffers are
  entries of \<open>bufs\<close>; the list through \<open>prev\<close> and \<open>next\<close> with its \<open>head\<close> is kept as the pointers the code
  has, \<open>bnext\<close> and \<open>bprev\<close>. The disk is an array of blocks together with the history of the writes it
  was given, which is what is left after a crash. A block is a function on the indices below \<open>BSIZE\<close>.
  The second half shows that the pointers always form one doubly linked list and that a block read
  through the cache is the block last written.
\<close>

section \<open>Blocks\<close>

abbreviation (input) BSIZE :: nat where "BSIZE \<equiv> 512"

type_synonym block = "nat \<Rightarrow> uchar"

text \<open>A little-endian word at byte offset \<open>o\<close> of a block.\<close>

definition ld32 :: "block \<Rightarrow> nat \<Rightarrow> uint" where
  "ld32 d i = ucast (d i) OR push_bit 8 (ucast (d (i + 1))) OR push_bit 16 (ucast (d (i + 2)))
     OR push_bit 24 (ucast (d (i + 3)))"

definition st32 :: "nat \<Rightarrow> uint \<Rightarrow> block \<Rightarrow> block" where
  "st32 i v d = d(i := ucast v, i + 1 := ucast (drop_bit 8 v), i + 2 := ucast (drop_bit 16 v),
     i + 3 := ucast (drop_bit 24 v))"

definition ld16 :: "block \<Rightarrow> nat \<Rightarrow> ushort" where
  "ld16 d i = ucast (d i) OR push_bit 8 (ucast (d (i + 1)))"

definition st16 :: "nat \<Rightarrow> ushort \<Rightarrow> block \<Rightarrow> block" where
  "st16 i v d = d(i := ucast v, i + 1 := ucast (drop_bit 8 v))"

section \<open>State\<close>

abbreviation (input) B_VALID :: uint where "B_VALID \<equiv> 2"
abbreviation (input) B_DIRTY :: uint where "B_DIRTY \<equiv> 4"

text \<open>The sleep lock of buffer \<open>i\<close> is \<open>slocks s (Sl_buf i)\<close>; its links are in \<open>bnext\<close> and \<open>bprev\<close>.\<close>

record buf =
  b_flags :: uint
  b_dev :: uint
  b_blockno :: uint
  b_refcnt :: uint
  b_qnext :: "nat option"
  b_data :: block

datatype bptr = Head | Buf nat

record bufv = slpv +
  bufs :: "nat \<Rightarrow> buf"
  bnext :: "bptr \<Rightarrow> bptr"
  bprev :: "bptr \<Rightarrow> bptr"
  disk :: "uint \<Rightarrow> block"
  dhist :: "(uint \<times> block) list"
  disksize :: uint

definition upd_buf :: "nat \<Rightarrow> (buf \<Rightarrow> buf) \<Rightarrow> 'z bufv_scheme \<Rightarrow> 'z bufv_scheme" where
  "upd_buf i f s = s\<lparr>bufs := (bufs s)(i := f (bufs s i))\<rparr>"

section \<open>The memory disk\<close>

text \<open>\<open>iderw\<close> of memide.c; the block of the disk and the buffer are copied whole.\<close>

definition iderw :: "nat \<Rightarrow> 'z bufv_scheme \<Rightarrow> 'z bufv_scheme res" where
  "iderw b s =
     bindE (holdingsleep (Sl_buf b) s) (\<lambda>(h, s).
       if \<not> h then Inl (Panic ''iderw: buf not locked'')
       else if b_flags (bufs s b) AND (B_VALID OR B_DIRTY) = B_VALID then Inl (Panic ''iderw: nothing to do'')
       else if b_dev (bufs s b) \<noteq> 1 then Inl (Panic ''iderw: request not for disk 1'')
       else if b_blockno (bufs s b) \<ge> disksize s then Inl (Panic ''iderw: block out of range'')
       else
         let p = b_blockno (bufs s b);
             s = (if b_flags (bufs s b) AND B_DIRTY \<noteq> 0
                  then let s = upd_buf b (\<lambda>x. x\<lparr>b_flags := b_flags x AND NOT B_DIRTY\<rparr>) s
                       in s\<lparr>disk := (disk s)(p := b_data (bufs s b)), dhist := dhist s @ [(p, b_data (bufs s b))]\<rparr>
                  else upd_buf b (\<lambda>x. x\<lparr>b_data := disk s p\<rparr>) s)
         in Inr (upd_buf b (\<lambda>x. x\<lparr>b_flags := b_flags x OR B_VALID\<rparr>) s))"

section \<open>The cache\<close>

text \<open>A buffer put at the front of the list: lines 50-51 and 53-54 of \<open>binit\<close>, 134-137 of \<open>brelse\<close>.\<close>

definition link_front :: "nat \<Rightarrow> 'z bufv_scheme \<Rightarrow> 'z bufv_scheme" where
  "link_front b s =
     (let s = s\<lparr>bnext := (bnext s)(Buf b := bnext s Head)\<rparr>;
          s = s\<lparr>bprev := (bprev s)(Buf b := Head)\<rparr>;
          s = s\<lparr>bprev := (bprev s)(bnext s Head := Buf b)\<rparr>
      in s\<lparr>bnext := (bnext s)(Head := Buf b)\<rparr>)"

definition unlink_buf :: "nat \<Rightarrow> 'z bufv_scheme \<Rightarrow> 'z bufv_scheme" where
  "unlink_buf b s =
     (let s = s\<lparr>bprev := (bprev s)(bnext s (Buf b) := bprev s (Buf b))\<rparr>
      in s\<lparr>bnext := (bnext s)(bprev s (Buf b) := bnext s (Buf b))\<rparr>)"

definition binit :: "'z bufv_scheme \<Rightarrow> 'z bufv_scheme" where
  "binit s =
     (let s = initlock Lk_bcache ''bcache'' s;
          s = s\<lparr>bprev := (bprev s)(Head := Head)\<rparr>;
          s = s\<lparr>bnext := (bnext s)(Head := Head)\<rparr>
      in fold (\<lambda>b s. link_front b (initsleeplock (Sl_buf b) ''buffer'' s)) [0..<NBUF] s)"

text \<open>
  The two loops of \<open>bget\<close>: from a node along \<open>next\<close> or \<open>prev\<close> to the first buffer with a property, or
  to the head. A walk of more than \<open>n\<close> nodes, which a broken list has, is \<open>Diverge\<close>.
\<close>

fun scan :: "nat \<Rightarrow> (bptr \<Rightarrow> bptr) \<Rightarrow> (nat \<Rightarrow> bool) \<Rightarrow> bptr \<Rightarrow> nat option res" where
  "scan n nx P Head = Inr None"
| "scan 0 nx P (Buf b) = Inl Diverge"
| "scan (Suc n) nx P (Buf b) = (if P b then Inr (Some b) else scan n nx P (nx (Buf b)))"

definition bget :: "'z bufv_scheme env \<Rightarrow> uint \<Rightarrow> uint \<Rightarrow> 'z bufv_scheme \<Rightarrow> (nat \<times> 'z bufv_scheme) res" where
  "bget e dev blockno s =
     bindE (acquire Lk_bcache s) (\<lambda>s.
     bindE (scan NBUF (bnext s) (\<lambda>b. b_dev (bufs s b) = dev \<and> b_blockno (bufs s b) = blockno) (bnext s Head)) (\<lambda>r.
       case r of
         Some b \<Rightarrow>
           let s = upd_buf b (\<lambda>x. x\<lparr>b_refcnt := b_refcnt x + 1\<rparr>) s in
           bindE (release Lk_bcache s) (\<lambda>s.
           bindE (acquiresleep e (Sl_buf b) s) (\<lambda>s. Inr (b, s)))
       | None \<Rightarrow>
           bindE (scan NBUF (bprev s) (\<lambda>b. b_refcnt (bufs s b) = 0 \<and> b_flags (bufs s b) AND B_DIRTY = 0)
                    (bprev s Head)) (\<lambda>r.
             case r of
               Some b \<Rightarrow>
                 let s = upd_buf b (\<lambda>x. x\<lparr>b_dev := dev, b_blockno := blockno, b_flags := 0, b_refcnt := 1\<rparr>) s in
                 bindE (release Lk_bcache s) (\<lambda>s.
                 bindE (acquiresleep e (Sl_buf b) s) (\<lambda>s. Inr (b, s)))
             | None \<Rightarrow> Inl (Panic ''bget: no buffers''))))"

definition bread :: "'z bufv_scheme env \<Rightarrow> uint \<Rightarrow> uint \<Rightarrow> 'z bufv_scheme \<Rightarrow> (nat \<times> 'z bufv_scheme) res" where
  "bread e dev blockno s =
     bindE (bget e dev blockno s) (\<lambda>(b, s).
     bindE (if b_flags (bufs s b) AND B_VALID = 0 then iderw b s else Inr s) (\<lambda>s. Inr (b, s)))"

definition bwrite :: "nat \<Rightarrow> 'z bufv_scheme \<Rightarrow> 'z bufv_scheme res" where
  "bwrite b s =
     bindE (holdingsleep (Sl_buf b) s) (\<lambda>(h, s).
       if \<not> h then Inl (Panic ''bwrite'')
       else iderw b (upd_buf b (\<lambda>x. x\<lparr>b_flags := b_flags x OR B_DIRTY\<rparr>) s))"

definition brelse :: "nat \<Rightarrow> 'z bufv_scheme \<Rightarrow> 'z bufv_scheme res" where
  "brelse b s =
     bindE (holdingsleep (Sl_buf b) s) (\<lambda>(h, s).
       if \<not> h then Inl (Panic ''brelse'')
       else
         bindE (releasesleep (Sl_buf b) s) (\<lambda>s.
         bindE (acquire Lk_bcache s) (\<lambda>s.
           let s = upd_buf b (\<lambda>x. x\<lparr>b_refcnt := b_refcnt x - 1\<rparr>) s;
               s = (if b_refcnt (bufs s b) = 0 then link_front b (unlink_buf b s) else s)
           in release Lk_bcache s)))"

section \<open>The list of buffers\<close>

text \<open>\<open>seg nx pv p xs q\<close>: from \<open>p\<close> the links lead through the buffers \<open>xs\<close> to \<open>q\<close>, and back.\<close>

fun seg :: "(bptr \<Rightarrow> bptr) \<Rightarrow> (bptr \<Rightarrow> bptr) \<Rightarrow> bptr \<Rightarrow> nat list \<Rightarrow> bptr \<Rightarrow> bool" where
  "seg nx pv p [] q \<longleftrightarrow> nx p = q \<and> pv q = p"
| "seg nx pv p (x # xs) q \<longleftrightarrow> nx p = Buf x \<and> pv (Buf x) = p \<and> seg nx pv (Buf x) xs q"

definition dll :: "(bptr \<Rightarrow> bptr) \<Rightarrow> (bptr \<Rightarrow> bptr) \<Rightarrow> nat list \<Rightarrow> bool" where
  "dll nx pv xs \<longleftrightarrow> distinct xs \<and> seg nx pv Head xs Head"

lemma seg_append: "seg nx pv p (xs @ x # ys) q \<longleftrightarrow> seg nx pv p xs (Buf x) \<and> seg nx pv (Buf x) ys q"
  by (induction xs arbitrary: p) auto

lemma seg_frame:
  assumes "seg nx pv p xs q" "\<forall>r. r = p \<or> r \<in> Buf ` set xs \<longrightarrow> nx' r = nx r" "\<forall>r. r = q \<or> r \<in> Buf ` set xs \<longrightarrow> pv' r = pv r"
  shows "seg nx' pv' p xs q"
  using assms by (induction xs arbitrary: p) auto

lemma seg_ends:
  assumes "seg nx pv p xs q"
  shows "nx p = (if xs = [] then q else Buf (hd xs))" "pv q = (if xs = [] then p else Buf (last xs))"
proof -
  show "nx p = (if xs = [] then q else Buf (hd xs))" using assms by (cases xs) simp_all
  show "pv q = (if xs = [] then p else Buf (last xs))" using assms
  proof (induction xs arbitrary: p)
    case (Cons x xs)
    then have "seg nx pv (Buf x) xs q" by simp
    from Cons.IH [OF this] show ?case by simp
  qed simp
qed

lemma dll_link:
  assumes "dll nx pv xs" "b \<notin> set xs"
  shows "dll (nx(Buf b := nx Head, Head := Buf b)) (pv(Buf b := Head, nx Head := Buf b)) (b # xs)"
proof (cases xs)
  case Nil
  then show ?thesis using assms by (auto simp: dll_def)
next
  case (Cons x ys)
  then have "seg nx pv (Buf x) ys Head" "nx Head = Buf x" using assms(1) by (simp_all add: dll_def)
  moreover from this have "seg (nx(Buf b := nx Head, Head := Buf b)) (pv(Buf b := Head, nx Head := Buf b)) (Buf x) ys Head"
    using assms Cons by (elim seg_frame) (auto simp: dll_def)
  ultimately show ?thesis using assms Cons by (auto simp: dll_def)
qed

lemma seg_unlink:
  assumes "seg nx pv p us (Buf b)" "seg nx pv (Buf b) vs q" "distinct (us @ b # vs)"
    and "p \<notin> Buf ` set (us @ b # vs)" "q \<notin> Buf ` set (us @ b # vs)"
  shows "seg (nx(pv (Buf b) := nx (Buf b))) (pv(nx (Buf b) := pv (Buf b))) p (us @ vs) q"
  using assms
proof (induction us arbitrary: p)
  case Nil
  then have p: "nx p = Buf b" "pv (Buf b) = p" by simp_all
  show ?case
  proof (cases vs)
    case Nil
    then show ?thesis using assms(2) p by auto
  next
    case (Cons v ws)
    then have v: "nx (Buf b) = Buf v" "pv (Buf v) = Buf b" "seg nx pv (Buf v) ws q" using assms(2) by auto
    have "seg (nx(p := Buf v)) (pv(Buf v := p)) (Buf v) ws q"
      using v(3) Nil(3-5) Cons by (elim seg_frame) auto
    then show ?thesis unfolding p(2) v(1) Cons append_Nil seg.simps by simp
  qed
next
  case (Cons u us)
  then have u: "nx p = Buf u" "pv (Buf u) = p" "seg nx pv (Buf u) us (Buf b)" by auto
  have "seg (nx(pv (Buf b) := nx (Buf b))) (pv(nx (Buf b) := pv (Buf b))) (Buf u) (us @ vs) q"
    using Cons.prems u by (intro Cons.IH) auto
  moreover have "pv (Buf b) \<noteq> p" using seg_ends(2) [OF u(3)] Cons.prems(4) by (auto split: if_splits)
  moreover have "nx (Buf b) \<noteq> Buf u"
    using seg_ends(1) [OF Cons.prems(2)] Cons.prems(3,5) by (cases vs) auto
  ultimately show ?case using u unfolding append_Cons seg.simps by (metis fun_upd_other)
qed

lemma dll_unlink:
  assumes "dll nx pv (us @ b # vs)"
  shows "dll (nx(pv (Buf b) := nx (Buf b))) (pv(nx (Buf b) := pv (Buf b))) (us @ vs)"
  using seg_unlink [of nx pv Head us b vs Head] assms by (auto simp: dll_def seg_append)

lemma scan_next:
  assumes "seg nx pv p xs Head" "length xs \<le> n"
  shows "scan n nx P (nx p) = Inr (find P xs)"
  using assms
proof (induction xs arbitrary: p n)
  case (Cons x xs)
  then show ?case by (cases n) auto
qed simp

lemma scan_prev:
  assumes "seg nx pv Head xs q" "length xs \<le> n"
  shows "scan n pv P (pv q) = Inr (find P (rev xs))"
  using assms
proof (induction xs arbitrary: q n rule: rev_induct)
  case (snoc x xs)
  then show ?case by (cases n) (auto simp: seg_append)
qed simp

text \<open>A buffer of the list moved to its front, as \<open>brelse\<close> does.\<close>

definition to_front :: "nat \<Rightarrow> nat list \<Rightarrow> nat list" where
  "to_front b xs = b # filter (\<lambda>x. x \<noteq> b) xs"

lemma dll_to_front:
  assumes "dll (bnext s) (bprev s) xs" "b \<in> set xs"
  shows "dll (bnext (link_front b (unlink_buf b s))) (bprev (link_front b (unlink_buf b s))) (to_front b xs)"
proof -
  obtain us vs where xs: "xs = us @ b # vs" using assms(2) by (meson split_list)
  have d: "distinct xs" using assms(1) by (simp add: dll_def)
  let ?u = "unlink_buf b s"
  have nb: "bnext s (Buf b) \<noteq> Buf b"
    using assms(1) xs seg_ends(1) [of "bnext s" "bprev s" "Buf b" vs Head] by (cases vs) (auto simp: dll_def seg_append)
  then have u: "bnext ?u = (bnext s)(bprev s (Buf b) := bnext s (Buf b))"
    "bprev ?u = (bprev s)(bnext s (Buf b) := bprev s (Buf b))"
    by (simp_all add: unlink_buf_def Let_def)
  have "dll (bnext ?u) (bprev ?u) (us @ vs)" unfolding u using assms(1) xs by (intro dll_unlink) simp
  then have "dll ((bnext ?u)(Buf b := bnext ?u Head, Head := Buf b)) ((bprev ?u)(Buf b := Head, bnext ?u Head := Buf b)) (b # us @ vs)"
    using d xs by (intro dll_link) auto
  moreover have "filter (\<lambda>x. x \<noteq> b) us = us" "filter (\<lambda>x. x \<noteq> b) vs = vs" using d xs by (auto simp: filter_id_conv)
  then have "to_front b xs = b # us @ vs" using xs by (simp add: to_front_def)
  moreover have "bnext (link_front b ?u) = (bnext ?u)(Buf b := bnext ?u Head, Head := Buf b)"
    "bprev (link_front b ?u) = (bprev ?u)(Buf b := Head, bnext ?u Head := Buf b)"
    by (simp_all add: link_front_def Let_def)
  ultimately show ?thesis by simp
qed

section \<open>The cache is transparent\<close>

text \<open>
  \<open>cache_ok c s H\<close>: the links form one list of all the buffers; no block has two buffers; a buffer that is
  clean holds what is on the disk, unless it is in \<open>H\<close>. \<open>H\<close> is the set of buffers the process has
  locked; the others are unlocked and unreferenced.
\<close>

definition dirty :: "'z bufv_scheme \<Rightarrow> nat \<Rightarrow> bool" where
  "dirty s i \<longleftrightarrow> b_flags (bufs s i) AND B_DIRTY \<noteq> 0"

definition buf_ok :: "'z bufv_scheme \<Rightarrow> cint \<Rightarrow> nat set \<Rightarrow> nat \<Rightarrow> bool" where
  "buf_ok s me H i \<longleftrightarrow> b_flags (bufs s i) \<in> {0, B_VALID, B_VALID OR B_DIRTY} \<and>
     (b_dev (bufs s i) = 1 \<and> b_blockno (bufs s i) < disksize s \<or> b_dev (bufs s i) = 0 \<and> b_flags (bufs s i) = 0) \<and>
     (if i \<in> H then sl_locked (slocks s (Sl_buf i)) \<noteq> 0 \<and> sl_pid (slocks s (Sl_buf i)) = me \<and>
        b_refcnt (bufs s i) = 1 \<and> b_dev (bufs s i) = 1 \<and> b_flags (bufs s i) \<noteq> 0
      else sl_locked (slocks s (Sl_buf i)) = 0 \<and> b_refcnt (bufs s i) = 0 \<and>
        (b_flags (bufs s i) = B_VALID \<longrightarrow> b_data (bufs s i) = disk s (b_blockno (bufs s i))))"

definition cache_ok :: "nat \<Rightarrow> 'z bufv_scheme \<Rightarrow> nat set \<Rightarrow> bool" where
  "cache_ok c s H \<longleftrightarrow> quiet c s \<and> (\<exists>xs. dll (bnext s) (bprev s) xs \<and> set xs = {..<NBUF}) \<and> H \<subseteq> {..<NBUF} \<and>
     (\<forall>i < NBUF. buf_ok s (mypid c s) H i) \<and>
     (\<forall>i < NBUF. \<forall>j < NBUF. b_dev (bufs s i) = 1 \<longrightarrow> b_dev (bufs s j) = 1 \<longrightarrow>
        b_blockno (bufs s i) = b_blockno (bufs s j) \<longrightarrow> i = j)"

text \<open>The buffer of a block of disk 1, and the block as the cache shows it.\<close>

definition buffer_of :: "'z bufv_scheme \<Rightarrow> uint \<Rightarrow> nat option" where
  "buffer_of s b = find (\<lambda>i. b_dev (bufs s i) = 1 \<and> b_blockno (bufs s i) = b) [0..<NBUF]"

definition cval :: "'z bufv_scheme \<Rightarrow> uint \<Rightarrow> block" where
  "cval s b = (case buffer_of s b of None \<Rightarrow> disk s b
     | Some i \<Rightarrow> if b_flags (bufs s i) = 0 then disk s b else b_data (bufs s i))"

text \<open>What the operations of the cache leave as it was: everything but buffers, sleep locks and disk.\<close>

definition bio_chg :: "'z bufv_scheme \<Rightarrow> 'z bufv_scheme \<Rightarrow> bool" where
  "bio_chg s t \<longleftrightarrow> procv.truncate t = procv.truncate s \<and> disksize t = disksize s \<and> bufv.more t = bufv.more s"

lemma bio_chg_refl [simp]: "bio_chg s s"
  by (simp add: bio_chg_def)

lemma bio_chg_trans: "bio_chg s t \<Longrightarrow> bio_chg t u \<Longrightarrow> bio_chg s u"
  by (simp add: bio_chg_def)

lemma truncate_base:
  assumes "procv.truncate (t :: 'y procv_scheme) = procv.truncate (s :: 'z procv_scheme)"
  shows "same_cpuv s t" "procs t = procs s"
  using assms by (simp_all add: procv.truncate_def same_cpuv_def)

lemma bio_chg_sel:
  assumes "bio_chg s t"
  shows "quiet c t = quiet c s" "mypid c t = mypid c s" "disksize t = disksize s" "bufv.more t = bufv.more s"
    "procs t = procs s"
proof -
  note b = truncate_base [OF assms [unfolded bio_chg_def, THEN conjunct1]]
  show "quiet c t = quiet c s" by (rule quiet_cong [OF b])
  show "mypid c t = mypid c s" "procs t = procs s" using b by (simp_all add: mypid_def same_cpuv_def)
  show "disksize t = disksize s" "bufv.more t = bufv.more s" using assms by (simp_all add: bio_chg_def)
qed

lemma find_upt: "find P [0..<n] = Some i \<longleftrightarrow> i < n \<and> P i \<and> (\<forall>j < i. \<not> P j)"
  by (auto simp: find_Some_iff)

lemma cache_okI:
  assumes "quiet c s" "\<exists>xs. dll (bnext s) (bprev s) xs \<and> set xs = {..<NBUF}" "H \<subseteq> {..<NBUF}" "mypid c s = p"
    and "\<And>i. i < NBUF \<Longrightarrow> buf_ok s p H i"
    and "\<And>i j. i < NBUF \<Longrightarrow> j < NBUF \<Longrightarrow> b_dev (bufs s i) = 1 \<Longrightarrow> b_dev (bufs s j) = 1 \<Longrightarrow>
      b_blockno (bufs s i) = b_blockno (bufs s j) \<Longrightarrow> i = j"
  shows "cache_ok c s H"
  using assms unfolding cache_ok_def by blast

lemma cache_list: "cache_ok c s H \<Longrightarrow> \<exists>xs. dll (bnext s) (bprev s) xs \<and> set xs = {..<NBUF}"
  unfolding cache_ok_def by (elim conjE)

lemma cache_uniq:
  assumes "cache_ok c s H" "i < NBUF" "j < NBUF" "b_dev (bufs s i) = 1" "b_dev (bufs s j) = 1"
    and "b_blockno (bufs s i) = b_blockno (bufs s j)"
  shows "i = j"
  using assms unfolding cache_ok_def by blast

lemma buffer_of_Some:
  assumes "cache_ok c s H"
  shows "buffer_of s b = Some i \<longleftrightarrow> i < NBUF \<and> b_dev (bufs s i) = 1 \<and> b_blockno (bufs s i) = b"
proof
  assume r: "i < NBUF \<and> b_dev (bufs s i) = 1 \<and> b_blockno (bufs s i) = b"
  then have "\<not> (b_dev (bufs s j) = 1 \<and> b_blockno (bufs s j) = b)" if "j < i" for j
    using cache_uniq [OF assms, of i j] that by auto
  then show "buffer_of s b = Some i" using r by (simp add: buffer_of_def find_upt)
qed (simp add: buffer_of_def find_upt)

lemma buffer_of_None: "buffer_of s b = None \<longleftrightarrow> (\<forall>i < NBUF. \<not> (b_dev (bufs s i) = 1 \<and> b_blockno (bufs s i) = b))"
  by (auto simp: buffer_of_def find_None_iff)

lemma cval_held:
  assumes "cache_ok c s H" "i \<in> H"
  shows "cval s (b_blockno (bufs s i)) = b_data (bufs s i)"
proof -
  have "i < NBUF" "b_dev (bufs s i) = 1" "b_flags (bufs s i) \<noteq> 0"
    using assms by (auto simp: cache_ok_def buf_ok_def)
  then have "buffer_of s (b_blockno (bufs s i)) = Some i" using buffer_of_Some [OF assms(1)] by simp
  then show ?thesis using \<open>b_flags (bufs s i) \<noteq> 0\<close> by (simp add: cval_def)
qed

text \<open>Critical sections that change buffers or links.\<close>

lemma buf_acquired_sel [simp]:
  "bufs (acquired c l s) = bufs s" "bnext (acquired c l s) = bnext s" "bprev (acquired c l s) = bprev s"
  by (simp_all add: lock_defs)

lemma buf_release:
  assumes "quiet c s"
  shows "release l ((acquired c l s)\<lparr>bufs := x, bnext := n, bprev := p\<rparr>) = Inr (s\<lparr>bufs := x, bnext := n, bprev := p\<rparr>)"
  by (subst quiet_release [OF assms]) (simp add: same_cpuv_def, simp add: lock_defs)

lemma buf_release1:
  assumes "quiet c s"
  shows "release l ((acquired c l s)\<lparr>bufs := x\<rparr>) = Inr (s\<lparr>bufs := x\<rparr>)"
  using buf_release [OF assms, where x = x and n = "bnext s" and p = "bprev s"] by (simp add: lock_defs)

lemma dll_scan:
  assumes "dll (bnext s) (bprev s) xs" "set xs = {..<NBUF}"
  shows "scan 30 (bnext s) P (bnext s Head) = Inr (find P xs)"
    "scan 30 (bprev s) P (bprev s Head) = Inr (find P (rev xs))"
proof -
  have "length xs = 30" using assms distinct_card [of xs] by (simp add: dll_def)
  then show "scan 30 (bnext s) P (bnext s Head) = Inr (find P xs)"
    "scan 30 (bprev s) P (bprev s Head) = Inr (find P (rev xs))"
    using assms(1) by (auto simp: dll_def intro: scan_next scan_prev)
qed

text \<open>A buffer locked for the process.\<close>

definition grabbed :: "nat \<Rightarrow> nat \<Rightarrow> (buf \<Rightarrow> buf) \<Rightarrow> 'z bufv_scheme \<Rightarrow> 'z bufv_scheme" where
  "grabbed c i f s = upd_sl (Sl_buf i) (\<lambda>k. k\<lparr>sl_locked := 1, sl_pid := mypid c s\<rparr>) (upd_buf i f s)"

lemma grabbed_acquire:
  assumes "quiet c s" "sl_locked (slocks s (Sl_buf i)) = 0"
  shows "bindE (release Lk_bcache (upd_buf i f (acquired c Lk_bcache s))) (\<lambda>s.
    bindE (acquiresleep e (Sl_buf i) s) (\<lambda>s. Inr (i, s))) = Inr (i, grabbed c i f s)"
proof -
  have q: "quiet c (s\<lparr>bufs := x\<rparr>)" for x using assms(1) by (subst quiet_cong [of s]) (simp_all add: same_cpuv_def)
  have "mypid c (s\<lparr>bufs := x\<rparr>) = mypid c s" for x by (simp add: mypid_def)
  then show ?thesis
    using assms acquiresleep_ok [OF q, where l = "Sl_buf i"] by (simp add: upd_buf_def buf_release1 grabbed_def)
qed

lemma find_eq: "i \<in> set xs \<Longrightarrow> find (\<lambda>j. j = i) xs = Some i"
  by (induction xs) auto

lemma find_SomeD: "find P xs = Some x \<Longrightarrow> x \<in> set xs \<and> P x"
  by (induction xs) (auto split: if_splits)

lemma bget_hit:
  assumes "cache_ok c s H" "buffer_of s b = Some i" "i \<notin> H"
  shows "bget e 1 b s = Inr (i, grabbed c i (\<lambda>x. x\<lparr>b_refcnt := b_refcnt x + 1\<rparr>) s)"
proof -
  have q: "quiet c s" and u: "sl_locked (slocks s (Sl_buf i)) = 0"
    using assms buffer_of_Some [OF assms(1)] by (auto simp: cache_ok_def buf_ok_def)
  obtain xs where xs: "dll (bnext s) (bprev s) xs" "set xs = {..<NBUF}" using cache_list [OF assms(1)] by blast
  have iff: "b_dev (bufs s j) = 1 \<and> b_blockno (bufs s j) = b \<longleftrightarrow> j = i" if "j < NBUF" for j
    using buffer_of_Some [OF assms(1), of b j] assms(2) that by force
  have "find (\<lambda>j. b_dev (bufs s j) = 1 \<and> b_blockno (bufs s j) = b) xs = find (\<lambda>j. j = i) xs"
    using iff xs(2) by (intro find_cong) auto
  also have "\<dots> = Some i"
    using xs(2) buffer_of_Some [OF assms(1), of b i] assms(2) by (intro find_eq) simp
  finally show ?thesis
    by (simp add: bget_def quiet_acquired(1) [OF q] dll_scan(1) [OF xs] grabbed_acquire [OF q u] Let_def)
qed

lemma bget_miss:
  assumes "cache_ok c s H" "buffer_of s b = None" "j < NBUF" "j \<notin> H" "\<not> dirty s j"
  obtains i where "i < NBUF" "i \<notin> H" "\<not> dirty s i"
    "bget e 1 b s = Inr (i, grabbed c i (\<lambda>x. x\<lparr>b_dev := 1, b_blockno := b, b_flags := 0, b_refcnt := 1\<rparr>) s)"
proof -
  have q: "quiet c s" and h: "H \<subseteq> {..<NBUF}" using assms(1) by (auto simp: cache_ok_def)
  obtain xs where xs: "dll (bnext s) (bprev s) xs" "set xs = {..<NBUF}" using cache_list [OF assms(1)] by blast
  have n: "find (\<lambda>j. b_dev (bufs s j) = 1 \<and> b_blockno (bufs s j) = b) xs = None"
    using assms(2) xs(2) by (auto simp: buffer_of_None find_None_iff)
  let ?P = "\<lambda>j. b_refcnt (bufs s j) = 0 \<and> b_flags (bufs s j) AND B_DIRTY = 0"
  have free: "?P k \<longleftrightarrow> k \<notin> H \<and> \<not> dirty s k" if "k < NBUF" for k
    using assms(1) that by (auto simp: cache_ok_def buf_ok_def dirty_def split: if_splits)
  have "?P j" using free assms(3-5) by blast
  then have "find ?P (rev xs) \<noteq> None" using xs(2) assms(3) by (auto simp: find_None_iff)
  then obtain i where i: "find ?P (rev xs) = Some i" by auto
  have "i \<in> set xs" "?P i" using find_SomeD [OF i] by auto
  then have p: "i < NBUF" "i \<notin> H" "\<not> dirty s i" using free xs(2) by auto
  have u: "sl_locked (slocks s (Sl_buf i)) = 0" using assms(1) p by (auto simp: cache_ok_def buf_ok_def)
  show ?thesis
    by (rule that [OF p]) (simp add: bget_def quiet_acquired(1) [OF q] dll_scan [OF xs] n i grabbed_acquire [OF q u] Let_def)
qed

lemma iderw_held:
  assumes "quiet c s" "sl_locked (slocks s (Sl_buf i)) \<noteq> 0" "sl_pid (slocks s (Sl_buf i)) = mypid c s"
    and "b_dev (bufs s i) = 1" "b_blockno (bufs s i) < disksize s"
  shows "b_flags (bufs s i) = 0 \<Longrightarrow>
      iderw i s = Inr (upd_buf i (\<lambda>x. x\<lparr>b_data := disk s (b_blockno x), b_flags := B_VALID\<rparr>) s)"
    "b_flags (bufs s i) = B_VALID OR B_DIRTY \<Longrightarrow>
      iderw i s = Inr (upd_buf i (\<lambda>x. x\<lparr>b_flags := B_VALID\<rparr>)
        (s\<lparr>disk := (disk s)(b_blockno (bufs s i) := b_data (bufs s i)),
           dhist := dhist s @ [(b_blockno (bufs s i), b_data (bufs s i))]\<rparr>))"
proof -
  have h: "holdingsleep (Sl_buf i) s = Inr (True, s)" using assms(2,3) by (simp add: holdingsleep_ok [OF assms(1)])
  have d: "b_dev (bufs s i) = 1" "\<not> disksize s \<le> b_blockno (bufs s i)" using assms(4,5) by simp_all
  show "iderw i s = Inr (upd_buf i (\<lambda>x. x\<lparr>b_data := disk s (b_blockno x), b_flags := B_VALID\<rparr>) s)"
    if f: "b_flags (bufs s i) = 0"
    by (simp add: iderw_def h d f upd_buf_def)
  show "iderw i s = Inr (upd_buf i (\<lambda>x. x\<lparr>b_flags := B_VALID\<rparr>)
        (s\<lparr>disk := (disk s)(b_blockno (bufs s i) := b_data (bufs s i)),
           dhist := dhist s @ [(b_blockno (bufs s i), b_data (bufs s i))]\<rparr>))"
    if f: "b_flags (bufs s i) = B_VALID OR B_DIRTY"
    by (simp add: iderw_def h d f upd_buf_def Let_def)
qed

lemma grabbed_sel [simp]:
  "bufs (grabbed c i f s) = (bufs s)(i := f (bufs s i))" "disk (grabbed c i f s) = disk s" "dhist (grabbed c i f s) = dhist s"
  "disksize (grabbed c i f s) = disksize s" "bnext (grabbed c i f s) = bnext s" "bprev (grabbed c i f s) = bprev s"
  "slocks (grabbed c i f s) = (slocks s)(Sl_buf i := (slocks s (Sl_buf i))\<lparr>sl_locked := 1, sl_pid := mypid c s\<rparr>)"
  by (simp_all add: grabbed_def upd_sl_def upd_buf_def)

lemma bio_chg_grabbed [simp]: "bio_chg s (grabbed c i f s)"
  by (simp add: bio_chg_def grabbed_def upd_sl_def upd_buf_def procv.truncate_def)

lemma upd_grabbed: "upd_buf i g (grabbed c i f s) = grabbed c i (g \<circ> f) s"
  by (simp add: grabbed_def upd_sl_def upd_buf_def mypid_def)

lemma grabbed_cong: "f (bufs s i) = g (bufs s i) \<Longrightarrow> grabbed c i f s = grabbed c i g s"
  by (simp add: grabbed_def upd_buf_def)

definition loaded :: "uint \<Rightarrow> uint \<Rightarrow> block \<Rightarrow> buf \<Rightarrow> buf" where
  "loaded f b d x = x\<lparr>b_flags := f, b_dev := 1, b_blockno := b, b_refcnt := 1, b_data := d\<rparr>"

text \<open>What \<open>bread\<close> returns: a buffer for the block, locked, with the block as the cache shows it.\<close>

lemma bread_ok:
  assumes "cache_ok c s H" "b < disksize s" "\<forall>j \<in> H. b_blockno (bufs s j) \<noteq> b"
    and "buffer_of s b \<noteq> None \<or> (\<exists>j < NBUF. j \<notin> H \<and> \<not> dirty s j)"
  obtains i f where "bread e 1 b s = Inr (i, grabbed c i (loaded f b (cval s b)) s)" "i < NBUF" "i \<notin> H"
    "buffer_of s b = Some i \<or> buffer_of s b = None \<and> \<not> dirty s i"
    "f = (if buffer_of s b = Some i \<and> b_flags (bufs s i) \<noteq> 0 then b_flags (bufs s i) else B_VALID)"
proof -
  have q: "quiet c (grabbed c i g s)" for i g
    using assms(1) by (simp add: bio_chg_sel(1) [OF bio_chg_grabbed] cache_ok_def)
  have m: "mypid c (grabbed c i g s) = mypid c s" for i g by (rule bio_chg_sel(2)) simp
  show ?thesis
  proof (cases "buffer_of s b")
    case (Some i)
    then have i: "i < NBUF" "b_dev (bufs s i) = 1" "b_blockno (bufs s i) = b" using buffer_of_Some [OF assms(1)] by auto
    then have h: "i \<notin> H" using assms(3) by auto
    have r: "b_refcnt (bufs s i) = 0" "b_flags (bufs s i) \<in> {0, 2, 6}"
      using assms(1) i h by (auto simp: cache_ok_def buf_ok_def)
    note g = bget_hit [OF assms(1) Some h, of e]
    show ?thesis
    proof (cases "b_flags (bufs s i) = 0")
      case True
      then have "bread e 1 b s = Inr (i, grabbed c i ((\<lambda>x. x\<lparr>b_data := disk s (b_blockno x), b_flags := 2\<rparr>) \<circ>
          (\<lambda>x. x\<lparr>b_refcnt := b_refcnt x + 1\<rparr>)) s)"
        using i assms(2) by (simp add: bread_def g iderw_held(1) [OF q] m upd_grabbed)
      also have "\<dots> = Inr (i, grabbed c i (loaded 2 b (cval s b)) s)"
        using i r Some True by (intro arg_cong [where f = "\<lambda>t. Inr (i, t)"] grabbed_cong)
          (cases "bufs s i", simp add: loaded_def cval_def)
      finally show ?thesis using i h Some True by (intro that [of i 2]) auto
    next
      case False
      then have "bread e 1 b s = Inr (i, grabbed c i (\<lambda>x. x\<lparr>b_refcnt := b_refcnt x + 1\<rparr>) s)"
        using r by (auto simp: bread_def g)
      also have "\<dots> = Inr (i, grabbed c i (loaded (b_flags (bufs s i)) b (cval s b)) s)"
        using i r Some False by (intro arg_cong [where f = "\<lambda>t. Inr (i, t)"] grabbed_cong)
          (cases "bufs s i", simp add: loaded_def cval_def)
      finally show ?thesis using i h Some False by (intro that [of i "b_flags (bufs s i)"]) auto
    qed
  next
    case None
    then obtain j where "j < NBUF" "j \<notin> H" "\<not> dirty s j" using assms(4) by blast
    from bget_miss [OF assms(1) None this] obtain i where i: "i < NBUF" "i \<notin> H" "\<not> dirty s i" and
      g: "bget e 1 b s = Inr (i, grabbed c i (\<lambda>x. x\<lparr>b_dev := 1, b_blockno := b, b_flags := 0, b_refcnt := 1\<rparr>) s)"
      by blast
    have "bread e 1 b s = Inr (i, grabbed c i ((\<lambda>x. x\<lparr>b_data := disk s (b_blockno x), b_flags := 2\<rparr>) \<circ>
        (\<lambda>x. x\<lparr>b_dev := 1, b_blockno := b, b_flags := 0, b_refcnt := 1\<rparr>)) s)"
      using i assms(2) by (simp add: bread_def g iderw_held(1) [OF q] m upd_grabbed)
    also have "\<dots> = Inr (i, grabbed c i (loaded 2 b (cval s b)) s)"
      using None by (intro arg_cong [where f = "\<lambda>t. Inr (i, t)"] grabbed_cong) (simp add: loaded_def cval_def)
    finally show ?thesis using i None by (intro that [of i 2]) auto
  qed
qed

lemma cval_buf:
  assumes "cache_ok c s H" "i < NBUF" "b_dev (bufs s i) = 1" "b_blockno (bufs s i) = b"
  shows "cval s b = (if b_flags (bufs s i) = 0 then disk s b else b_data (bufs s i))"
proof -
  have "buffer_of s b = Some i" using buffer_of_Some [OF assms(1)] assms(2-4) by simp
  then show ?thesis by (simp add: cval_def)
qed

lemma cval_none: "\<forall>i < NBUF. \<not> (b_dev (bufs s i) = 1 \<and> b_blockno (bufs s i) = b) \<Longrightarrow> cval s b = disk s b"
  unfolding buffer_of_None [symmetric] by (simp add: cval_def)

lemma cache_buf_ok: "cache_ok c s H \<Longrightarrow> i < NBUF \<Longrightarrow> buf_ok s (mypid c s) H i"
  by (simp add: cache_ok_def)

lemma held:
  assumes "cache_ok c s H" "i \<in> H"
  shows "i < NBUF" "sl_locked (slocks s (Sl_buf i)) \<noteq> 0" "sl_pid (slocks s (Sl_buf i)) = mypid c s"
    "b_refcnt (bufs s i) = 1" "b_dev (bufs s i) = 1" "b_blockno (bufs s i) < disksize s"
    "b_flags (bufs s i) = B_VALID \<or> b_flags (bufs s i) = B_VALID OR B_DIRTY"
proof -
  show i: "i < NBUF" using assms by (auto simp: cache_ok_def)
  show "sl_locked (slocks s (Sl_buf i)) \<noteq> 0" "sl_pid (slocks s (Sl_buf i)) = mypid c s"
    "b_refcnt (bufs s i) = 1" "b_dev (bufs s i) = 1" "b_blockno (bufs s i) < disksize s"
    "b_flags (bufs s i) = B_VALID \<or> b_flags (bufs s i) = B_VALID OR B_DIRTY"
    using cache_buf_ok [OF assms(1) i] assms(2) by (auto simp: buf_ok_def)
qed

text \<open>The blocks the cache holds changes for.\<close>

definition dirty_blocks :: "'z bufv_scheme \<Rightarrow> uint set" where
  "dirty_blocks s = {b_blockno (bufs s i) | i. i < NBUF \<and> dirty s i}"

lemma grabbed_cache:
  assumes "cache_ok c s H" "i < NBUF" "i \<notin> H" "b < disksize s" "f \<in> {B_VALID, B_VALID OR B_DIRTY}"
    and "buffer_of s b = Some i \<or> buffer_of s b = None"
  shows "cache_ok c (grabbed c i (loaded f b d) s) (insert i H)"
proof -
  let ?t = "grabbed c i (loaded f b d) s"
  have b: "quiet c ?t" "\<exists>xs. dll (bnext ?t) (bprev ?t) xs \<and> set xs = {..<NBUF}" "insert i H \<subseteq> {..<NBUF}" "mypid c ?t = mypid c s"
    using assms(1,2) cache_list [OF assms(1)] bio_chg_sel(1,2) [of s ?t c] by (auto simp: cache_ok_def)
  moreover have "buf_ok ?t (mypid c s) (insert i H) j" if "j < NBUF" for j
    using cache_buf_ok [OF assms(1) that] assms(3-5) by (cases "j = i") (auto simp: buf_ok_def loaded_def)
  moreover have "j = k" if jk: "j < NBUF" "k < NBUF" "b_dev (bufs ?t j) = 1" "b_dev (bufs ?t k) = 1"
    "b_blockno (bufs ?t j) = b_blockno (bufs ?t k)" for j k
  proof -
    have only: "l = i" if "l < NBUF" "b_dev (bufs s l) = 1" "b_blockno (bufs s l) = b" for l
    proof -
      have "buffer_of s b = Some l" using buffer_of_Some [OF assms(1)] that by simp
      then show ?thesis using assms(6) by auto
    qed
    have pick: "l = i" if "l < NBUF" "b_dev (bufs ?t l) = 1" "b_blockno (bufs ?t l) = b" for l
      using only [of l] that by (cases "l = i") simp_all
    have ti: "b_blockno (bufs ?t i) = b" by (simp add: loaded_def)
    consider "j = i" | "k = i" | "j \<noteq> i" "k \<noteq> i" by blast
    then show ?thesis
    proof cases
      case 1
      then show ?thesis using pick [OF jk(2,4)] jk(5) ti by metis
    next
      case 2
      then show ?thesis using pick [OF jk(1,3)] jk(5) ti by metis
    next
      case 3
      then show ?thesis using cache_uniq [OF assms(1) jk(1,2)] jk(3-5) by simp
    qed
  qed
  ultimately show ?thesis by (rule cache_okI)
qed

text \<open>A buffer that can be released: its changes are pinned, or it has none.\<close>

definition clean :: "'z bufv_scheme \<Rightarrow> nat \<Rightarrow> bool" where
  "clean s i \<longleftrightarrow> dirty s i \<or> b_data (bufs s i) = disk s (b_blockno (bufs s i))"

lemma cval_clean:
  assumes "cache_ok c s H" "\<forall>j \<in> H. b_blockno (bufs s j) \<noteq> b" "b \<notin> dirty_blocks s"
  shows "cval s b = disk s b"
proof (cases "buffer_of s b")
  case None
  then show ?thesis by (simp add: cval_def)
next
  case (Some i)
  then have i: "i < NBUF" "b_blockno (bufs s i) = b" using buffer_of_Some [OF assms(1)] by auto
  then have "i \<notin> H" "\<not> dirty s i" using assms(2,3) by (auto simp: dirty_blocks_def)
  then show ?thesis using Some i cache_buf_ok [OF assms(1) i(1)] by (auto simp: cval_def buf_ok_def dirty_def)
qed

lemma bread_spec:
  assumes "cache_ok c s H" "b < disksize s" "\<forall>j \<in> H. b_blockno (bufs s j) \<noteq> b"
    and "buffer_of s b \<noteq> None \<or> (\<exists>j < NBUF. j \<notin> H \<and> \<not> dirty s j)"
  obtains i t where "bread e 1 b s = Inr (i, t)" "i < NBUF" "i \<notin> H" "cache_ok c t (insert i H)"
    "b_blockno (bufs t i) = b" "b_data (bufs t i) = cval s b" "cval t = cval s" "disk t = disk s" "dhist t = dhist s"
    "bio_chg s t" "\<forall>j \<in> H. bufs t j = bufs s j" "dirty t = dirty s" "dirty_blocks t = dirty_blocks s" "clean t i"
proof -
  obtain i f where r: "bread e 1 b s = Inr (i, grabbed c i (loaded f b (cval s b)) s)" "i < NBUF" "i \<notin> H"
    "buffer_of s b = Some i \<or> buffer_of s b = None \<and> \<not> dirty s i"
    "f = (if buffer_of s b = Some i \<and> b_flags (bufs s i) \<noteq> 0 then b_flags (bufs s i) else B_VALID)"
    by (rule bread_ok [OF assms])
  let ?t = "grabbed c i (loaded f b (cval s b)) s"
  have bi: "buf_ok s (mypid c s) H i" by (rule cache_buf_ok [OF assms(1) r(2)])
  then have f: "f \<in> {B_VALID, B_VALID OR B_DIRTY}" using r(5) by (auto simp: buf_ok_def split: if_splits)
  have ok: "cache_ok c ?t (insert i H)" using r(4) by (intro grabbed_cache [OF assms(1) r(2,3) assms(2) f]) auto
  have hit: "b_dev (bufs s i) = 1 \<and> b_blockno (bufs s i) = b" if "buffer_of s b = Some i"
    using buffer_of_Some [OF assms(1)] that by simp
  have dj: "dirty ?t j = dirty s j" for j
    using bi r(4,5) hit by (cases "j = i") (auto simp: dirty_def loaded_def buf_ok_def split: if_splits)
  have db: "b_blockno (bufs ?t j) = b_blockno (bufs s j)" if "dirty s j" for j
    using that r(4) hit by (cases "j = i") (auto simp: loaded_def)
  have "cval ?t x = cval s x" for x
  proof (cases "x = b")
    case True
    then show ?thesis using cval_held [OF ok, of i] by (simp add: loaded_def)
  next
    case False
    show ?thesis
    proof (cases "\<exists>j < NBUF. j \<noteq> i \<and> b_dev (bufs s j) = 1 \<and> b_blockno (bufs s j) = x")
      case True
      then obtain j where "j < NBUF" "j \<noteq> i" "b_dev (bufs s j) = 1" "b_blockno (bufs s j) = x" by blast
      then show ?thesis using cval_buf [OF ok, of j x] cval_buf [OF assms(1), of j x] by simp
    next
      case n: False
      then have "cval ?t x = disk s x" using False by (subst cval_none) (auto simp: loaded_def)
      moreover have "cval s x = disk s x"
      proof (cases "b_dev (bufs s i) = 1 \<and> b_blockno (bufs s i) = x")
        case True
        then have "b_flags (bufs s i) \<in> {0, B_VALID}" using False hit r(4) bi by (auto simp: dirty_def buf_ok_def)
        then show ?thesis using cval_buf [OF assms(1) r(2), of x] True bi r(3) by (auto simp: buf_ok_def)
      next
        case False
        then show ?thesis using n by (intro cval_none) auto
      qed
      ultimately show ?thesis by simp
    qed
  qed
  then have cv: "cval ?t = cval s" by blast
  have ds: "dirty ?t = dirty s" using dj by blast
  have dbs: "dirty_blocks ?t = dirty_blocks s" unfolding dirty_blocks_def ds using db by (metis (no_types, lifting))
  have "clean ?t i"
  proof (cases "dirty s i")
    case True
    then show ?thesis using dj by (simp add: clean_def)
  next
    case False
    have "b \<notin> dirty_blocks s"
    proof
      assume "b \<in> dirty_blocks s"
      then obtain j where j: "j < NBUF" "dirty s j" "b_blockno (bufs s j) = b" by (auto simp: dirty_blocks_def)
      moreover from this have "b_dev (bufs s j) = 1" using cache_buf_ok [OF assms(1) j(1)] by (auto simp: buf_ok_def dirty_def)
      ultimately have "buffer_of s b = Some j" using buffer_of_Some [OF assms(1)] by simp
      then show False using r(4) j(2) False by auto
    qed
    then show ?thesis using cval_clean [OF assms(1,3)] by (simp add: clean_def loaded_def)
  qed
  then show ?thesis using r ok cv ds dbs by (intro that [of i ?t]) (auto simp: loaded_def)
qed

text \<open>Changing the data or the flags of a buffer that is held.\<close>

lemma upd_buf_sel [simp]:
  "bufs (upd_buf i f s) = (bufs s)(i := f (bufs s i))" "disk (upd_buf i f s) = disk s" "dhist (upd_buf i f s) = dhist s"
  "disksize (upd_buf i f s) = disksize s" "bnext (upd_buf i f s) = bnext s" "bprev (upd_buf i f s) = bprev s"
  "slocks (upd_buf i f s) = slocks s"
  by (simp_all add: upd_buf_def)

lemma bio_chg_upd [simp]: "bio_chg s (upd_buf i f s)"
  by (simp add: bio_chg_def upd_buf_def procv.truncate_def)

lemma held_upd:
  assumes "cache_ok c s H" "i \<in> H" "f \<in> {B_VALID, B_VALID OR B_DIRTY}"
  shows "cache_ok c (upd_buf i (\<lambda>x. x\<lparr>b_flags := f, b_data := d\<rparr>) s) H"
    "cval (upd_buf i (\<lambda>x. x\<lparr>b_flags := f, b_data := d\<rparr>) s) = (cval s)(b_blockno (bufs s i) := d)"
proof -
  let ?t = "upd_buf i (\<lambda>x. x\<lparr>b_flags := f, b_data := d\<rparr>) s"
  have same: "b_dev (bufs ?t j) = b_dev (bufs s j)" "b_blockno (bufs ?t j) = b_blockno (bufs s j)" for j by simp_all
  have "quiet c ?t" "\<exists>xs. dll (bnext ?t) (bprev ?t) xs \<and> set xs = {..<NBUF}" "H \<subseteq> {..<NBUF}" "mypid c ?t = mypid c s"
    using assms(1) cache_list [OF assms(1)] bio_chg_sel(1,2) [of s ?t c] by (auto simp: cache_ok_def)
  moreover have "buf_ok ?t (mypid c s) H j" if "j < NBUF" for j
    using cache_buf_ok [OF assms(1) that] assms(2,3) by (cases "j = i") (auto simp: buf_ok_def)
  moreover have "j = k" if "j < NBUF" "k < NBUF" "b_dev (bufs ?t j) = 1" "b_dev (bufs ?t k) = 1"
    "b_blockno (bufs ?t j) = b_blockno (bufs ?t k)" for j k
    by (rule cache_uniq [OF assms(1) that [unfolded same]])
  ultimately show ok: "cache_ok c ?t H" by (rule cache_okI)
  have i: "i < NBUF" "b_dev (bufs s i) = 1" using assms(1,2) cache_buf_ok [OF assms(1)] by (auto simp: cache_ok_def buf_ok_def)
  show "cval ?t = (cval s)(b_blockno (bufs s i) := d)"
  proof
    fix b
    have bo: "buffer_of ?t b = buffer_of s b" unfolding buffer_of_def same ..
    show "cval ?t b = ((cval s)(b_blockno (bufs s i) := d)) b"
    proof (cases "b = b_blockno (bufs s i)")
      case True
      then show ?thesis using cval_held [OF ok assms(2)] by simp
    next
      case False
      then have "buffer_of s b \<noteq> Some i" using buffer_of_Some [OF assms(1)] by auto
      then show ?thesis using False unfolding cval_def bo by (auto split: option.split)
    qed
  qed
qed

lemma bwrite_spec:
  assumes "cache_ok c s H" "i \<in> H"
  obtains t where "bwrite i s = Inr t" "cache_ok c t H" "cval t = cval s" "bio_chg s t"
    "disk t = (disk s)(b_blockno (bufs s i) := b_data (bufs s i))"
    "dhist t = dhist s @ [(b_blockno (bufs s i), b_data (bufs s i))]"
    "bufs t = (bufs s)(i := (bufs s i)\<lparr>b_flags := B_VALID\<rparr>)"
proof -
  let ?b = "b_blockno (bufs s i)" and ?d = "b_data (bufs s i)"
  have i: "i < NBUF" "quiet c s" using assms by (auto simp: cache_ok_def)
  note h = held [OF assms]
  let ?u = "upd_buf i (\<lambda>x. x\<lparr>b_flags := b_flags x OR B_DIRTY\<rparr>) s"
  let ?t = "upd_buf i (\<lambda>x. x\<lparr>b_flags := B_VALID\<rparr>) (?u\<lparr>disk := (disk s)(?b := ?d), dhist := dhist s @ [(?b, ?d)]\<rparr>)"
  have u: "quiet c ?u" "mypid c ?u = mypid c s" using i(2) bio_chg_sel(1,2) [of s ?u c] by simp_all
  have f: "b_flags (bufs ?u i) = B_VALID OR B_DIRTY" using h(7) by auto
  have "iderw i ?u = Inr ?t" using h f u(2) by (subst iderw_held(2) [OF u(1)]) simp_all
  then have r: "bwrite i s = Inr ?t" using h by (simp add: bwrite_def holdingsleep_ok [OF i(2)])
  have bufs: "bufs ?t = (bufs s)(i := (bufs s i)\<lparr>b_flags := B_VALID\<rparr>)" by simp
  have bc: "bio_chg s ?t" by (simp add: bio_chg_def upd_buf_def procv.truncate_def)
  have same: "b_dev (bufs ?t j) = b_dev (bufs s j)" "b_blockno (bufs ?t j) = b_blockno (bufs s j)"
    "b_data (bufs ?t j) = b_data (bufs s j)" "b_flags (bufs ?t j) = 0 \<longleftrightarrow> b_flags (bufs s j) = 0" for j
    using h(7) by (auto simp: bufs)
  have other: "b_blockno (bufs s j) \<noteq> ?b" if "j < NBUF" "j \<noteq> i" "b_dev (bufs s j) = 1" for j
    using cache_uniq [OF assms(1) that(1) i(1) that(3)] that(2) h(5) by auto
  have "quiet c ?t" "\<exists>xs. dll (bnext ?t) (bprev ?t) xs \<and> set xs = {..<NBUF}" "H \<subseteq> {..<NBUF}" "mypid c ?t = mypid c s"
    using assms(1) cache_list [OF assms(1)] bio_chg_sel(1,2) [OF bc] by (auto simp: cache_ok_def)
  moreover have "buf_ok ?t (mypid c s) H j" if "j < NBUF" for j
    using cache_buf_ok [OF assms(1) that] assms(2) other [OF that] by (cases "j = i") (auto simp: buf_ok_def)
  moreover have "j = k" if "j < NBUF" "k < NBUF" "b_dev (bufs ?t j) = 1" "b_dev (bufs ?t k) = 1"
    "b_blockno (bufs ?t j) = b_blockno (bufs ?t k)" for j k
    by (rule cache_uniq [OF assms(1) that [unfolded same]])
  ultimately have ok: "cache_ok c ?t H" by (rule cache_okI)
  have "cval ?t b = cval s b" for b
  proof (cases "b = ?b")
    case True
    then show ?thesis using cval_held [OF ok assms(2)] cval_held [OF assms] by simp
  next
    case False
    have "buffer_of ?t b = buffer_of s b" unfolding buffer_of_def same ..
    then show ?thesis using False unfolding cval_def same by (auto split: option.split)
  qed
  then show ?thesis using r ok bc by (intro that [of ?t]) auto
qed

lemma front_eq:
  "link_front b (unlink_buf b s) =
     s\<lparr>bnext := bnext (link_front b (unlink_buf b s)), bprev := bprev (link_front b (unlink_buf b s))\<rparr>"
  by (simp add: link_front_def unlink_buf_def Let_def)

lemma front_acquired:
  "link_front b (unlink_buf b ((acquired c l s)\<lparr>bufs := x\<rparr>)) =
     (acquired c l s)\<lparr>bufs := x, bnext := bnext (link_front b (unlink_buf b s)), bprev := bprev (link_front b (unlink_buf b s))\<rparr>"
  by (simp add: link_front_def unlink_buf_def Let_def)

lemma front_slocks:
  "bnext (link_front b (unlink_buf b (s\<lparr>slocks := x\<rparr>))) = bnext (link_front b (unlink_buf b s))"
  "bprev (link_front b (unlink_buf b (s\<lparr>slocks := x\<rparr>))) = bprev (link_front b (unlink_buf b s))"
  by (simp_all add: link_front_def unlink_buf_def Let_def)

lemma brelse_eq:
  assumes "cache_ok c s H" "i \<in> H"
  shows "brelse i s = Inr (s\<lparr>slocks := (slocks s)(Sl_buf i := (slocks s (Sl_buf i))\<lparr>sl_locked := 0, sl_pid := 0\<rparr>),
    bufs := (bufs s)(i := (bufs s i)\<lparr>b_refcnt := 0\<rparr>),
    bnext := bnext (link_front i (unlink_buf i s)), bprev := bprev (link_front i (unlink_buf i s))\<rparr>)"
proof -
  have q: "quiet c s" using assms(1) by (simp add: cache_ok_def)
  let ?x = "(slocks s)(Sl_buf i := (slocks s (Sl_buf i))\<lparr>sl_locked := 0, sl_pid := 0\<rparr>)"
  have q': "quiet c (s\<lparr>slocks := ?x\<rparr>)" using q by simp
  note h = held [OF assms]
  have r: "releasesleep (Sl_buf i) s = Inr (s\<lparr>slocks := ?x\<rparr>)" using releasesleep_ok [OF q] by (simp add: upd_sl_def)
  let ?a = "acquired c Lk_bcache (s\<lparr>slocks := ?x\<rparr>)"
  have "upd_buf i (\<lambda>x. x\<lparr>b_refcnt := b_refcnt x - 1\<rparr>) ?a = ?a\<lparr>bufs := (bufs s)(i := (bufs s i)\<lparr>b_refcnt := 0\<rparr>)\<rparr>"
    using h(4) by (simp add: upd_buf_def)
  then show ?thesis
    using h by (simp add: brelse_def holdingsleep_ok [OF q] r quiet_acquired(1) [OF q'] front_acquired front_slocks
      buf_release [OF q'] Let_def)
qed

lemma brelse_spec:
  assumes "cache_ok c s H" "i \<in> H" "dirty s i \<or> b_data (bufs s i) = disk s (b_blockno (bufs s i))"
  obtains t where "brelse i s = Inr t" "cache_ok c t (H - {i})" "cval t = cval s" "bio_chg s t" "disk t = disk s"
    "dhist t = dhist s" "bufs t = (bufs s)(i := (bufs s i)\<lparr>b_refcnt := 0\<rparr>)"
proof -
  let ?t = "s\<lparr>slocks := (slocks s)(Sl_buf i := (slocks s (Sl_buf i))\<lparr>sl_locked := 0, sl_pid := 0\<rparr>),
    bufs := (bufs s)(i := (bufs s i)\<lparr>b_refcnt := 0\<rparr>),
    bnext := bnext (link_front i (unlink_buf i s)), bprev := bprev (link_front i (unlink_buf i s))\<rparr>"
  note h = held [OF assms(1,2)]
  have bc: "bio_chg s ?t" by (simp add: bio_chg_def procv.truncate_def)
  obtain xs where xs: "dll (bnext s) (bprev s) xs" "set xs = {..<NBUF}" using cache_list [OF assms(1)] by blast
  have "dll (bnext ?t) (bprev ?t) (to_front i xs)" "set (to_front i xs) = {..<NBUF}"
    using dll_to_front [OF xs(1), of i] h(1) xs(2) by (auto simp: to_front_def)
  then have l: "\<exists>xs. dll (bnext ?t) (bprev ?t) xs \<and> set xs = {..<NBUF}" by blast
  have same: "b_dev (bufs ?t j) = b_dev (bufs s j)" "b_blockno (bufs ?t j) = b_blockno (bufs s j)"
    "b_data (bufs ?t j) = b_data (bufs s j)" "b_flags (bufs ?t j) = b_flags (bufs s j)" for j by simp_all
  have "quiet c ?t" "H - {i} \<subseteq> {..<NBUF}" "mypid c ?t = mypid c s"
    using assms(1) bio_chg_sel(1,2) [OF bc] by (auto simp: cache_ok_def)
  moreover have "buf_ok ?t (mypid c s) (H - {i}) j" if "j < NBUF" for j
  proof (cases "j = i")
    case True
    then show ?thesis using h assms(3) by (auto simp: buf_ok_def dirty_def)
  next
    case False
    then show ?thesis using cache_buf_ok [OF assms(1) that] by (simp add: buf_ok_def)
  qed
  moreover have "j = k" if "j < NBUF" "k < NBUF" "b_dev (bufs ?t j) = 1" "b_dev (bufs ?t k) = 1"
    "b_blockno (bufs ?t j) = b_blockno (bufs ?t k)" for j k
    by (rule cache_uniq [OF assms(1) that [unfolded same]])
  ultimately have ok: "cache_ok c ?t (H - {i})" using l by (intro cache_okI)
  have dk: "disk ?t = disk s" by simp
  have "cval ?t = cval s" by (rule ext) (simp only: cval_def buffer_of_def same dk)
  then show ?thesis using brelse_eq [OF assms(1,2)] ok bc by (intro that [of ?t]) simp_all
qed

lemma free_buffer:
  assumes "cache_ok c s H" "card H + card (dirty_blocks s) < NBUF"
  shows "\<exists>j < NBUF. j \<notin> H \<and> \<not> dirty s j"
proof (rule ccontr)
  assume n: "\<not> ?thesis"
  let ?D = "{i. i < NBUF \<and> dirty s i}"
  have "inj_on (\<lambda>i. b_blockno (bufs s i)) ?D"
  proof (rule inj_onI)
    fix i j assume ij: "i \<in> ?D" "j \<in> ?D" "b_blockno (bufs s i) = b_blockno (bufs s j)"
    have "b_dev (bufs s k) = 1" if "k \<in> ?D" for k
      using cache_buf_ok [OF assms(1), of k] that by (auto simp: buf_ok_def dirty_def)
    then show "i = j" using cache_uniq [OF assms(1), of i j] ij by blast
  qed
  then have "card (dirty_blocks s) = card ?D" unfolding dirty_blocks_def by (simp add: setcompr_eq_image card_image)
  moreover have "{..<NBUF} \<subseteq> H \<union> ?D" using n by auto
  then have "NBUF \<le> card (H \<union> ?D)" using assms(1) card_mono [of "H \<union> ?D" "{..<NBUF}"] finite_subset [of H "{..<NBUF}"]
    by (auto simp: cache_ok_def)
  moreover have "card (H \<union> ?D) \<le> card H + card ?D" by (rule card_Un_le)
  ultimately show False using assms(2) by simp
qed

text \<open>One buffer at a time.\<close>

lemma bread_one:
  assumes "cache_ok c s {}" "b < disksize s" "card (dirty_blocks s) < NBUF"
  obtains i t where "bread e 1 b s = Inr (i, t)" "i < NBUF" "cache_ok c t {i}" "b_blockno (bufs t i) = b"
    "b_data (bufs t i) = cval s b" "cval t = cval s" "disk t = disk s" "dhist t = dhist s" "bio_chg s t" "dirty t = dirty s"
    "dirty_blocks t = dirty_blocks s" "clean t i"
proof -
  have nh: "\<forall>j \<in> {}. b_blockno (bufs s j) \<noteq> b" by simp
  have fr: "buffer_of s b \<noteq> None \<or> (\<exists>j < NBUF. j \<notin> {} \<and> \<not> dirty s j)" using free_buffer [OF assms(1)] assms(3) by simp
  show ?thesis by (rule bread_spec [OF assms(1,2) nh fr, of e]) (rule that)
qed

lemma brelse_one:
  assumes "cache_ok c s {i}" "clean s i"
  obtains t where "brelse i s = Inr t" "cache_ok c t {}" "cval t = cval s" "bio_chg s t" "disk t = disk s" "dhist t = dhist s"
    "dirty t = dirty s" "dirty_blocks t = dirty_blocks s"
proof -
  obtain t where t: "brelse i s = Inr t" "cache_ok c t ({i} - {i})" "cval t = cval s" "bio_chg s t" "disk t = disk s" "dhist t = dhist s"
    "bufs t = (bufs s)(i := (bufs s i)\<lparr>b_refcnt := 0\<rparr>)"
    by (rule brelse_spec [OF assms(1) _ assms(2) [unfolded clean_def]]) (simp, rule that)
  have "dirty t = dirty s" "\<And>k. b_blockno (bufs t k) = b_blockno (bufs s k)" using t(7) by (auto simp: fun_eq_iff dirty_def)
  then show ?thesis using t by (intro that [of t]) (simp_all add: dirty_blocks_def)
qed

end
