(* ===== verification/Log.thy ===== *)
theory Log
  imports Bio
begin

text \<open>
  The redo log (src/source/log.c) and the super block it reads (\<open>readsb\<close> of src/source/fs.c). The
  in-memory header \<open>log.lh\<close> is \<open>lh_n\<close> and \<open>lh_block\<close>; the header on the disk is a block read with
  \<open>ld32\<close>. An index outside \<open>log.lh.block\<close> is a \<open>Fault\<close>. The whole block copies are \<open>memmove\<close> of
  \<open>BSIZE\<close> bytes.
\<close>

section \<open>State\<close>

record superblock =
  sb_size :: uint
  sb_nblocks :: uint
  sb_ninodes :: uint
  sb_nlog :: uint
  sb_logstart :: uint
  sb_inodestart :: uint
  sb_bmapstart :: uint

record logv = bufv +
  log_start :: cint
  log_size :: cint
  log_outstanding :: cint
  log_committing :: cint
  log_dev :: cint
  lh_n :: cint
  lh_block :: "nat \<Rightarrow> cint"

section \<open>Recovery\<close>

definition readsb :: "'z bufv_scheme env \<Rightarrow> cint \<Rightarrow> 'z bufv_scheme \<Rightarrow> (superblock \<times> 'z bufv_scheme) res" where
  "readsb e dev s =
     bindE (bread e dev 1 s) (\<lambda>(bp, s).
       let d = b_data (bufs s bp);
           sb = \<lparr>sb_size = ld32 d 0, sb_nblocks = ld32 d 4, sb_ninodes = ld32 d 8, sb_nlog = ld32 d 12,
                 sb_logstart = ld32 d 16, sb_inodestart = ld32 d 20, sb_bmapstart = ld32 d 24\<rparr>
       in bindE (brelse bp s) (\<lambda>s. Inr (sb, s)))"

definition rd_lh :: "nat \<Rightarrow> 'z logv_scheme \<Rightarrow> cint res" where
  "rd_lh i s = (if i < LOGSIZE then Inr (lh_block s i) else Inl (Fault ''log.lh.block''))"

definition wr_lh :: "nat \<Rightarrow> cint \<Rightarrow> 'z logv_scheme \<Rightarrow> 'z logv_scheme res" where
  "wr_lh i v s =
     (if i < LOGSIZE then Inr (s\<lparr>lh_block := (lh_block s)(i := v)\<rparr>) else Inl (Fault ''log.lh.block''))"

text \<open>The indices \<open>0 .. log.lh.n - 1\<close> of the loops below.\<close>

definition lh_idx :: "'z logv_scheme \<Rightarrow> nat list" where
  "lh_idx s = [0..<nat (sint (lh_n s))]"

definition install_one :: "'z logv_scheme env \<Rightarrow> nat \<Rightarrow> 'z logv_scheme \<Rightarrow> 'z logv_scheme res" where
  "install_one e tail s =
     bindE (bread e (log_dev s) (log_start s + of_nat tail + 1) s) (\<lambda>(lbuf, s).
     bindE (rd_lh tail s) (\<lambda>b.
     bindE (bread e (log_dev s) b s) (\<lambda>(dbuf, s).
       let s = upd_buf dbuf (\<lambda>x. x\<lparr>b_data := b_data (bufs s lbuf)\<rparr>) s in
     bindE (bwrite dbuf s) (\<lambda>s.
     bindE (brelse lbuf s) (brelse dbuf)))))"

definition install_trans :: "'z logv_scheme env \<Rightarrow> 'z logv_scheme \<Rightarrow> 'z logv_scheme res" where
  "install_trans e s = foldE (install_one e) (lh_idx s) s"

definition read_head :: "'z logv_scheme env \<Rightarrow> 'z logv_scheme \<Rightarrow> 'z logv_scheme res" where
  "read_head e s =
     bindE (bread e (log_dev s) (log_start s) s) (\<lambda>(buf, s).
       let lh = b_data (bufs s buf);
           s = s\<lparr>lh_n := ld32 lh 0\<rparr> in
     bindE (foldE (\<lambda>i. wr_lh i (ld32 lh (4 + 4 * i))) (lh_idx s) s) (brelse buf))"

definition write_head :: "'z logv_scheme env \<Rightarrow> 'z logv_scheme \<Rightarrow> 'z logv_scheme res" where
  "write_head e s =
     bindE (bread e (log_dev s) (log_start s) s) (\<lambda>(buf, s).
       let s = upd_buf buf (\<lambda>x. x\<lparr>b_data := st32 0 (lh_n s) (b_data x)\<rparr>) s in
     bindE (foldE (\<lambda>i s. bindE (rd_lh i s) (\<lambda>b.
              Inr (upd_buf buf (\<lambda>x. x\<lparr>b_data := st32 (4 + 4 * i) b (b_data x)\<rparr>) s))) (lh_idx s) s) (\<lambda>s.
     bindE (bwrite buf s) (brelse buf)))"

definition recover_from_log :: "'z logv_scheme env \<Rightarrow> 'z logv_scheme \<Rightarrow> 'z logv_scheme res" where
  "recover_from_log e s =
     bindE (read_head e s) (\<lambda>s.
     bindE (install_trans e s) (\<lambda>s.
     write_head e (s\<lparr>lh_n := 0\<rparr>)))"

text \<open>\<open>sizeof(struct logheader)\<close> is 4 times one more than \<open>LOGSIZE\<close>.\<close>

definition initlog :: "'z logv_scheme env \<Rightarrow> cint \<Rightarrow> 'z logv_scheme \<Rightarrow> 'z logv_scheme res" where
  "initlog e dev s =
     (if 4 * (1 + LOGSIZE) \<ge> BSIZE then Inl (Panic ''initlog: too big logheader'')
      else
        let s = initlock Lk_log ''log'' s in
        bindE (readsb e dev s) (\<lambda>(sb, s).
        recover_from_log e (s\<lparr>log_start := sb_logstart sb, log_size := sb_nlog sb, log_dev := dev\<rparr>)))"

section \<open>Transactions\<close>

text \<open>The loop of \<open>begin_op\<close>; \<open>n\<close> bounds how often it sleeps.\<close>

fun begin_op_loop :: "nat \<Rightarrow> 'z logv_scheme env \<Rightarrow> 'z logv_scheme \<Rightarrow> 'z logv_scheme res" where
  "begin_op_loop n e s =
     (if log_committing s \<noteq> 0 \<or> sint (lh_n s + (log_outstanding s + 1) * of_nat MAXOPBLOCKS) > int LOGSIZE
      then case n of 0 \<Rightarrow> Inl Diverge
           | Suc k \<Rightarrow> bindE (sleep (e_sw e) Ch_log Lk_log s) (begin_op_loop k e)
      else release Lk_log (s\<lparr>log_outstanding := log_outstanding s + 1\<rparr>))"

declare begin_op_loop.simps [simp del]

definition begin_op :: "'z logv_scheme env \<Rightarrow> 'z logv_scheme \<Rightarrow> 'z logv_scheme res" where
  "begin_op e s = bindE (acquire Lk_log s) (begin_op_loop (e_fuel e) e)"

definition write_one :: "'z logv_scheme env \<Rightarrow> nat \<Rightarrow> 'z logv_scheme \<Rightarrow> 'z logv_scheme res" where
  "write_one e tail s =
     bindE (bread e (log_dev s) (log_start s + of_nat tail + 1) s) (\<lambda>(to, s).
     bindE (rd_lh tail s) (\<lambda>b.
     bindE (bread e (log_dev s) b s) (\<lambda>(from, s).
       let s = upd_buf to (\<lambda>x. x\<lparr>b_data := b_data (bufs s from)\<rparr>) s in
     bindE (bwrite to s) (\<lambda>s.
     bindE (brelse from s) (brelse to)))))"

definition write_log :: "'z logv_scheme env \<Rightarrow> 'z logv_scheme \<Rightarrow> 'z logv_scheme res" where
  "write_log e s = foldE (write_one e) (lh_idx s) s"

definition commit :: "'z logv_scheme env \<Rightarrow> 'z logv_scheme \<Rightarrow> 'z logv_scheme res" where
  "commit e s =
     (if sint (lh_n s) > 0 then
        bindE (write_log e s) (\<lambda>s.
        bindE (write_head e s) (\<lambda>s.
        bindE (install_trans e s) (\<lambda>s.
        write_head e (s\<lparr>lh_n := 0\<rparr>))))
      else Inr s)"

definition end_op :: "'z logv_scheme env \<Rightarrow> 'z logv_scheme \<Rightarrow> 'z logv_scheme res" where
  "end_op e s =
     bindE (acquire Lk_log s) (\<lambda>s.
       let s = s\<lparr>log_outstanding := log_outstanding s - 1\<rparr> in
       if log_committing s \<noteq> 0 then Inl (Panic ''log.committing'')
       else
         let do_commit = (log_outstanding s = 0) in
         bindE (if do_commit then Inr (s\<lparr>log_committing := 1\<rparr>) else wakeup Ch_log s) (\<lambda>s.
         bindE (release Lk_log s) (\<lambda>s.
           if do_commit then
             bindE (commit e s) (\<lambda>s.
             bindE (acquire Lk_log s) (\<lambda>s.
             bindE (wakeup Ch_log (s\<lparr>log_committing := 0\<rparr>)) (release Lk_log)))
           else Inr s)))"

text \<open>The index the loop of \<open>log_write\<close> stops at.\<close>

definition absorb_idx :: "uint \<Rightarrow> 'z logv_scheme \<Rightarrow> nat" where
  "absorb_idx b s =
     (case find (\<lambda>i. lh_block s i = b) (lh_idx s) of Some i \<Rightarrow> i | None \<Rightarrow> length (lh_idx s))"

definition log_write :: "nat \<Rightarrow> 'z logv_scheme \<Rightarrow> 'z logv_scheme res" where
  "log_write b s =
     (if sint (lh_n s) \<ge> int LOGSIZE \<or> sint (lh_n s) \<ge> sint (log_size s - 1) then Inl (Panic ''too big a transaction'')
      else if sint (log_outstanding s) < 1 then Inl (Panic ''log_write outside of trans'')
      else
        bindE (acquire Lk_log s) (\<lambda>s.
          let i = absorb_idx (b_blockno (bufs s b)) s in
        bindE (wr_lh i (b_blockno (bufs s b)) s) (\<lambda>s.
          let s = (if i = nat (sint (lh_n s)) then s\<lparr>lh_n := lh_n s + 1\<rparr> else s);
              s = upd_buf b (\<lambda>x. x\<lparr>b_flags := b_flags x OR B_DIRTY\<rparr>) s
          in release Lk_log s)))"

end
