(* ===== verification/Fs.thy ===== *)
theory Fs
  imports Log
begin

text \<open>
  Blocks and inodes (the first half of src/source/fs.c, with src/source/fs.h, stat.h and the inode of
  file.h): the free map, the inode cache, block mapping and truncation. An inode pointer is the index
  of its entry in \<open>icache.inode\<close>, so it is never null. \<open>devsw\<close> is the table of file.c; the only
  functions the kernel ever installs are those of the console.
\<close>

section \<open>Format of the disk\<close>

abbreviation (input) ROOTINO :: uint where "ROOTINO \<equiv> 1"
abbreviation (input) NDIRECT :: nat where "NDIRECT \<equiv> 12"
abbreviation (input) NINDIRECT :: nat where "NINDIRECT \<equiv> 128"
abbreviation (input) MAXFILE :: nat where "MAXFILE \<equiv> NDIRECT + NINDIRECT"
abbreviation (input) DIRSIZ :: nat where "DIRSIZ \<equiv> 14"

abbreviation (input) IPB :: uint where "IPB \<equiv> 8"
abbreviation (input) BPB :: uint where "BPB \<equiv> 4096"

abbreviation (input) T_DIR :: ushort where "T_DIR \<equiv> 1"
abbreviation (input) T_FILE :: ushort where "T_FILE \<equiv> 2"
abbreviation (input) T_DEV :: ushort where "T_DEV \<equiv> 3"

abbreviation (input) CONSOLE :: nat where "CONSOLE \<equiv> 1"

definition IBLOCK :: "uint \<Rightarrow> superblock \<Rightarrow> uint" where
  "IBLOCK i sb = i div IPB + sb_inodestart sb"

definition BBLOCK :: "uint \<Rightarrow> superblock \<Rightarrow> uint" where
  "BBLOCK b sb = b div BPB + sb_bmapstart sb"

record dinode =
  d_type :: ushort
  d_major :: ushort
  d_minor :: ushort
  d_nlink :: ushort
  d_size :: uint
  d_addrs :: "nat \<Rightarrow> uint"

text \<open>
  \<open>(struct dinode*)bp->data + inum%IPB\<close>: the fields of the on-disk inode at byte \<open>o\<close>, 64 bytes wide,
  and writing them back.
\<close>

definition dino_off :: "uint \<Rightarrow> nat" where
  "dino_off inum = 64 * unat (inum mod IPB)"

definition ld_dinode :: "block \<Rightarrow> nat \<Rightarrow> dinode" where
  "ld_dinode d i = \<lparr>d_type = ld16 d i, d_major = ld16 d (i + 2), d_minor = ld16 d (i + 4),
     d_nlink = ld16 d (i + 6), d_size = ld32 d (i + 8), d_addrs = (\<lambda>k. ld32 d (i + 12 + 4 * k))\<rparr>"

definition st_dinode :: "nat \<Rightarrow> dinode \<Rightarrow> block \<Rightarrow> block" where
  "st_dinode i x d =
     (let d = st16 i (d_type x) d;
          d = st16 (i + 2) (d_major x) d;
          d = st16 (i + 4) (d_minor x) d;
          d = st16 (i + 6) (d_nlink x) d;
          d = st32 (i + 8) (d_size x) d
      in fold (\<lambda>k. st32 (i + 12 + 4 * k) (d_addrs x k)) [0..<NDIRECT + 1] d)"

section \<open>State\<close>

record inode =
  i_dev :: uint
  i_inum :: uint
  i_ref :: cint
  i_valid :: bool
  i_type :: ushort
  i_major :: ushort
  i_minor :: ushort
  i_nlink :: ushort
  i_size :: uint
  i_addrs :: "nat \<Rightarrow> uint"

datatype devfn = Consoleread | Consolewrite

record fsv = logv +
  fs_sb :: superblock
  inodes :: "nat \<Rightarrow> inode"
  devsw_read :: "nat \<Rightarrow> devfn option"
  devsw_write :: "nat \<Rightarrow> devfn option"

definition upd_inode :: "nat \<Rightarrow> (inode \<Rightarrow> inode) \<Rightarrow> 'z fsv_scheme \<Rightarrow> 'z fsv_scheme" where
  "upd_inode i f s = s\<lparr>inodes := (inodes s)(i := f (inodes s i))\<rparr>"

text \<open>The data of a buffer changed in place.\<close>

definition edit :: "nat \<Rightarrow> (block \<Rightarrow> block) \<Rightarrow> 'z bufv_scheme \<Rightarrow> 'z bufv_scheme" where
  "edit b f s = upd_buf b (\<lambda>x. x\<lparr>b_data := f (b_data x)\<rparr>) s"

section \<open>Blocks\<close>

definition bzero :: "'z fsv_scheme env \<Rightarrow> uint \<Rightarrow> uint \<Rightarrow> 'z fsv_scheme \<Rightarrow> 'z fsv_scheme res" where
  "bzero e dev bno s =
     bindE (bread e dev bno s) (\<lambda>(bp, s).
     bindE (log_write bp (edit bp (\<lambda>d i. 0) s)) (brelse bp))"

text \<open>\<open>bp->data[bi/8] & (1 << (bi % 8))\<close>, and setting or clearing that bit.\<close>

definition bm_test :: "block \<Rightarrow> nat \<Rightarrow> bool" where
  "bm_test d bi = (d (bi div 8) AND push_bit (bi mod 8) 1 \<noteq> 0)"

definition bm_set :: "nat \<Rightarrow> block \<Rightarrow> block" where
  "bm_set bi d = d(bi div 8 := d (bi div 8) OR push_bit (bi mod 8) 1)"

definition bm_clear :: "nat \<Rightarrow> block \<Rightarrow> block" where
  "bm_clear bi d = d(bi div 8 := d (bi div 8) AND NOT (push_bit (bi mod 8) 1))"

text \<open>The inner loop of \<open>balloc\<close>: the first clear bit of the blocks from \<open>b\<close> that exist.\<close>

definition bm_find :: "block \<Rightarrow> uint \<Rightarrow> uint \<Rightarrow> nat option" where
  "bm_find d b sz =
     find (\<lambda>bi. \<not> bm_test d bi) (takeWhile (\<lambda>bi. b + of_nat bi < sz) [0..<unat BPB])"

text \<open>The outer loop; with a size beyond \<open>2^32 - BPB\<close> the counter would wrap, which uses up \<open>n\<close>.\<close>

fun balloc_loop ::
  "nat \<Rightarrow> 'z fsv_scheme env \<Rightarrow> uint \<Rightarrow> uint \<Rightarrow> 'z fsv_scheme \<Rightarrow> (uint \<times> 'z fsv_scheme) res" where
  "balloc_loop n e dev b s =
     (if b < sb_size (fs_sb s) then
        (case n of 0 \<Rightarrow> Inl Diverge
         | Suc k \<Rightarrow>
             bindE (bread e dev (BBLOCK b (fs_sb s)) s) (\<lambda>(bp, s).
               case bm_find (b_data (bufs s bp)) b (sb_size (fs_sb s)) of
                 Some bi \<Rightarrow>
                   bindE (log_write bp (edit bp (bm_set bi) s)) (\<lambda>s.
                   bindE (brelse bp s) (\<lambda>s.
                   bindE (bzero e dev (b + of_nat bi) s) (\<lambda>s. Inr (b + of_nat bi, s))))
               | None \<Rightarrow> bindE (brelse bp s) (balloc_loop k e dev (b + BPB))))
      else Inl (Panic ''balloc: out of blocks''))"

declare balloc_loop.simps [simp del]

definition balloc :: "'z fsv_scheme env \<Rightarrow> uint \<Rightarrow> 'z fsv_scheme \<Rightarrow> (uint \<times> 'z fsv_scheme) res" where
  "balloc e dev s = balloc_loop (unat (sb_size (fs_sb s)) div unat BPB + 1) e dev 0 s"

definition bfree :: "'z fsv_scheme env \<Rightarrow> uint \<Rightarrow> uint \<Rightarrow> 'z fsv_scheme \<Rightarrow> 'z fsv_scheme res" where
  "bfree e dev b s =
     bindE (readsb e dev s) (\<lambda>(sb, s).
       let s = s\<lparr>fs_sb := sb\<rparr> in
     bindE (bread e dev (BBLOCK b (fs_sb s)) s) (\<lambda>(bp, s).
       let bi = unat (b mod BPB) in
       if \<not> bm_test (b_data (bufs s bp)) bi then Inl (Panic ''freeing free block'')
       else bindE (log_write bp (edit bp (bm_clear bi) s)) (brelse bp)))"

section \<open>Inodes\<close>

definition iinit :: "'z fsv_scheme env \<Rightarrow> uint \<Rightarrow> 'z fsv_scheme \<Rightarrow> 'z fsv_scheme res" where
  "iinit e dev s =
     (let s = initlock Lk_icache ''icache'' s;
          s = fold (\<lambda>i. initsleeplock (Sl_inode i) ''inode'') [0..<NINODE] s
      in bindE (readsb e dev s) (\<lambda>(sb, s).
         cprintf (''sb: size %d nblocks %d ninodes %d nlog %d logstart %d inodestart %d bmap start %d'' @ [CHR 0x0A])
           [CInt (sb_size sb), CInt (sb_nblocks sb), CInt (sb_ninodes sb), CInt (sb_nlog sb), CInt (sb_logstart sb),
            CInt (sb_inodestart sb), CInt (sb_bmapstart sb)] (s\<lparr>fs_sb := sb\<rparr>)))"

definition iget :: "uint \<Rightarrow> uint \<Rightarrow> 'z fsv_scheme \<Rightarrow> (nat \<times> 'z fsv_scheme) res" where
  "iget dev inum s =
     bindE (acquire Lk_icache s) (\<lambda>s.
       case find (\<lambda>i. sint (i_ref (inodes s i)) > 0 \<and> i_dev (inodes s i) = dev \<and> i_inum (inodes s i) = inum)
              [0..<NINODE] of
         Some ip \<Rightarrow>
           bindE (release Lk_icache (upd_inode ip (\<lambda>x. x\<lparr>i_ref := i_ref x + 1\<rparr>) s)) (\<lambda>s. Inr (ip, s))
       | None \<Rightarrow>
           (case find (\<lambda>i. i_ref (inodes s i) = 0) [0..<NINODE] of
              None \<Rightarrow> Inl (Panic ''iget: no inodes'')
            | Some ip \<Rightarrow>
                bindE (release Lk_icache
                         (upd_inode ip (\<lambda>x. x\<lparr>i_dev := dev, i_inum := inum, i_ref := 1, i_valid := False\<rparr>) s)) (\<lambda>s.
                Inr (ip, s))))"

text \<open>The loop of \<open>ialloc\<close> over the inode numbers that are left.\<close>

fun ialloc_loop ::
  "'z fsv_scheme env \<Rightarrow> uint \<Rightarrow> ushort \<Rightarrow> nat list \<Rightarrow> 'z fsv_scheme \<Rightarrow> (nat \<times> 'z fsv_scheme) res" where
  "ialloc_loop e dev ty [] s = Inl (Panic ''ialloc: no inodes'')"
| "ialloc_loop e dev ty (n # ns) s =
     (let inum = of_nat n in
      bindE (bread e dev (IBLOCK inum (fs_sb s)) s) (\<lambda>(bp, s).
        if d_type (ld_dinode (b_data (bufs s bp)) (dino_off inum)) = 0 then
          let x = \<lparr>d_type = ty, d_major = 0, d_minor = 0, d_nlink = 0, d_size = 0, d_addrs = (\<lambda>k. 0)\<rparr> in
          bindE (log_write bp (edit bp (st_dinode (dino_off inum) x) s)) (\<lambda>s.
          bindE (brelse bp s) (iget dev inum))
        else bindE (brelse bp s) (ialloc_loop e dev ty ns)))"

definition ialloc ::
  "'z fsv_scheme env \<Rightarrow> uint \<Rightarrow> ushort \<Rightarrow> 'z fsv_scheme \<Rightarrow> (nat \<times> 'z fsv_scheme) res" where
  "ialloc e dev ty s = ialloc_loop e dev ty [1..<unat (sb_ninodes (fs_sb s))] s"

definition iupdate :: "'z fsv_scheme env \<Rightarrow> nat \<Rightarrow> 'z fsv_scheme \<Rightarrow> 'z fsv_scheme res" where
  "iupdate e ip s =
     bindE (bread e (i_dev (inodes s ip)) (IBLOCK (i_inum (inodes s ip)) (fs_sb s)) s) (\<lambda>(bp, s).
       let x = inodes s ip;
           y = \<lparr>d_type = i_type x, d_major = i_major x, d_minor = i_minor x, d_nlink = i_nlink x,
                d_size = i_size x, d_addrs = i_addrs x\<rparr>
       in bindE (log_write bp (edit bp (st_dinode (dino_off (i_inum x)) y) s)) (brelse bp))"

definition idup :: "nat \<Rightarrow> 'z fsv_scheme \<Rightarrow> (nat \<times> 'z fsv_scheme) res" where
  "idup ip s =
     bindE (acquire Lk_icache s) (\<lambda>s.
     bindE (release Lk_icache (upd_inode ip (\<lambda>x. x\<lparr>i_ref := i_ref x + 1\<rparr>) s)) (\<lambda>s. Inr (ip, s)))"

definition ilock :: "'z fsv_scheme env \<Rightarrow> nat \<Rightarrow> 'z fsv_scheme \<Rightarrow> 'z fsv_scheme res" where
  "ilock e ip s =
     (if sint (i_ref (inodes s ip)) < 1 then Inl (Panic ''ilock'')
      else
        bindE (acquiresleep e (Sl_inode ip) s) (\<lambda>s.
          if \<not> i_valid (inodes s ip) then
            bindE (bread e (i_dev (inodes s ip)) (IBLOCK (i_inum (inodes s ip)) (fs_sb s)) s) (\<lambda>(bp, s).
              let y = ld_dinode (b_data (bufs s bp)) (dino_off (i_inum (inodes s ip)));
                  s = upd_inode ip (\<lambda>x. x\<lparr>i_type := d_type y, i_major := d_major y, i_minor := d_minor y,
                        i_nlink := d_nlink y, i_size := d_size y, i_addrs := d_addrs y\<rparr>) s in
              bindE (brelse bp s) (\<lambda>s.
                let s = upd_inode ip (\<lambda>x. x\<lparr>i_valid := True\<rparr>) s in
                if i_type (inodes s ip) = 0 then Inl (Panic ''ilock: no type'') else Inr s))
          else Inr s))"

definition iunlock :: "nat \<Rightarrow> 'z fsv_scheme \<Rightarrow> 'z fsv_scheme res" where
  "iunlock ip s =
     bindE (holdingsleep (Sl_inode ip) s) (\<lambda>(h, s).
       if \<not> h \<or> sint (i_ref (inodes s ip)) < 1 then Inl (Panic ''iunlock'')
       else releasesleep (Sl_inode ip) s)"

text \<open>\<open>itrunc\<close>: the direct blocks, then the indirect block and what it lists.\<close>

definition itrunc :: "'z fsv_scheme env \<Rightarrow> nat \<Rightarrow> 'z fsv_scheme \<Rightarrow> 'z fsv_scheme res" where
  "itrunc e ip s =
     bindE (foldE (\<lambda>i s.
              if i_addrs (inodes s ip) i \<noteq> 0 then
                bindE (bfree e (i_dev (inodes s ip)) (i_addrs (inodes s ip) i) s) (\<lambda>s.
                Inr (upd_inode ip (\<lambda>x. x\<lparr>i_addrs := (i_addrs x)(i := 0)\<rparr>) s))
              else Inr s) [0..<NDIRECT] s) (\<lambda>s.
     bindE (if i_addrs (inodes s ip) NDIRECT \<noteq> 0 then
              bindE (bread e (i_dev (inodes s ip)) (i_addrs (inodes s ip) NDIRECT) s) (\<lambda>(bp, s).
              bindE (foldE (\<lambda>j s.
                       let a = ld32 (b_data (bufs s bp)) (4 * j) in
                       if a \<noteq> 0 then bfree e (i_dev (inodes s ip)) a s else Inr s) [0..<NINDIRECT] s) (\<lambda>s.
              bindE (brelse bp s) (\<lambda>s.
              bindE (bfree e (i_dev (inodes s ip)) (i_addrs (inodes s ip) NDIRECT) s) (\<lambda>s.
              Inr (upd_inode ip (\<lambda>x. x\<lparr>i_addrs := (i_addrs x)(NDIRECT := 0)\<rparr>) s)))))
            else Inr s) (\<lambda>s.
     iupdate e ip (upd_inode ip (\<lambda>x. x\<lparr>i_size := 0\<rparr>) s)))"

definition iput :: "'z fsv_scheme env \<Rightarrow> nat \<Rightarrow> 'z fsv_scheme \<Rightarrow> 'z fsv_scheme res" where
  "iput e ip s =
     bindE (acquiresleep e (Sl_inode ip) s) (\<lambda>s.
     bindE (if i_valid (inodes s ip) \<and> i_nlink (inodes s ip) = 0 then
              bindE (acquire Lk_icache s) (\<lambda>s.
                let r = i_ref (inodes s ip) in
              bindE (release Lk_icache s) (\<lambda>s.
                if r = 1 then
                  bindE (itrunc e ip s) (\<lambda>s.
                  bindE (iupdate e ip (upd_inode ip (\<lambda>x. x\<lparr>i_type := 0\<rparr>) s)) (\<lambda>s.
                  Inr (upd_inode ip (\<lambda>x. x\<lparr>i_valid := False\<rparr>) s)))
                else Inr s))
            else Inr s) (\<lambda>s.
     bindE (releasesleep (Sl_inode ip) s) (\<lambda>s.
     bindE (acquire Lk_icache s) (\<lambda>s.
     release Lk_icache (upd_inode ip (\<lambda>x. x\<lparr>i_ref := i_ref x - 1\<rparr>) s)))))"

definition iunlockput :: "'z fsv_scheme env \<Rightarrow> nat \<Rightarrow> 'z fsv_scheme \<Rightarrow> 'z fsv_scheme res" where
  "iunlockput e ip s = bindE (iunlock ip s) (iput e ip)"

definition bmap ::
  "'z fsv_scheme env \<Rightarrow> nat \<Rightarrow> nat \<Rightarrow> 'z fsv_scheme \<Rightarrow> (uint \<times> 'z fsv_scheme) res" where
  "bmap e ip bn s =
     (if bn < NDIRECT then
        if i_addrs (inodes s ip) bn = 0 then
          bindE (balloc e (i_dev (inodes s ip)) s) (\<lambda>(a, s).
          Inr (a, upd_inode ip (\<lambda>x. x\<lparr>i_addrs := (i_addrs x)(bn := a)\<rparr>) s))
        else Inr (i_addrs (inodes s ip) bn, s)
      else
        let bn = bn - NDIRECT in
        if bn < NINDIRECT then
          bindE (if i_addrs (inodes s ip) NDIRECT = 0 then
                   bindE (balloc e (i_dev (inodes s ip)) s) (\<lambda>(a, s).
                   Inr (upd_inode ip (\<lambda>x. x\<lparr>i_addrs := (i_addrs x)(NDIRECT := a)\<rparr>) s))
                 else Inr s) (\<lambda>s.
          bindE (bread e (i_dev (inodes s ip)) (i_addrs (inodes s ip) NDIRECT) s) (\<lambda>(bp, s).
            let addr = ld32 (b_data (bufs s bp)) (4 * bn) in
          bindE (if addr = 0 then
                   bindE (balloc e (i_dev (inodes s ip)) s) (\<lambda>(a, s).
                   bindE (log_write bp (edit bp (st32 (4 * bn) a) s)) (\<lambda>s. Inr (a, s)))
                 else Inr (addr, s)) (\<lambda>(addr, s).
          bindE (brelse bp s) (\<lambda>s. Inr (addr, s)))))
        else Inl (Panic ''bmap: out of range''))"

record stat =
  st_type :: ushort
  st_dev :: cint
  st_ino :: uint
  st_nlink :: ushort
  st_size :: uint

definition stati :: "nat \<Rightarrow> 'z fsv_scheme \<Rightarrow> stat" where
  "stati ip s =
     (let x = inodes s ip
      in \<lparr>st_type = i_type x, st_dev = i_dev x, st_ino = i_inum x, st_nlink = i_nlink x, st_size = i_size x\<rparr>)"

end
