(* ===== verification/Conin.thy ===== *)
theory Conin
  imports Fs Procprint
begin

text \<open>
  Console input (the second half of src/source/console.c): the line editor with its history of
  commands, and the console as a device of the file system. \<open>PervCmd\<close> points into \<open>temp_buf\<close>, so an
  entry is the index of a row. An index outside \<open>history.size\<close> is a \<open>Fault\<close>. The characters \<open>getc\<close>
  returns until it returns a negative number are the argument of \<open>consoleintr\<close>; the call stacks that
  \<open>procdump\<close> prints are another.
\<close>

section \<open>State\<close>

abbreviation (input) INPUT_BUF :: nat where "INPUT_BUF \<equiv> 128"
abbreviation (input) MAX_MEMORY :: nat where "MAX_MEMORY \<equiv> 5"
abbreviation (input) KEY_UP :: uint where "KEY_UP \<equiv> 0xE2"
abbreviation (input) KEY_DN :: uint where "KEY_DN \<equiv> 0xE3"

record ciov = fsv +
  in_buf :: "nat \<Rightarrow> uchar"
  in_r :: uint
  in_w :: uint
  in_e :: uint
  PervCmd :: "nat \<Rightarrow> nat option"
  cmd_count :: cint
  cursor :: cint
  hist_size :: "nat \<Rightarrow> cint"
  temp_buf :: "nat \<Rightarrow> nat \<Rightarrow> uchar"

text \<open>\<open>n % INPUT_BUF\<close> as an index.\<close>

definition ring :: "uint \<Rightarrow> nat" where
  "ring n = unat n mod INPUT_BUF"

text \<open>A \<open>char\<close> passed where an \<open>int\<close> is expected.\<close>

definition char_int :: "uchar \<Rightarrow> uint" where
  "char_int c = scast c"

section \<open>The command history\<close>

text \<open>The loop of \<open>InsertNewCmd\<close>: at most \<open>n\<close> characters from index \<open>i\<close>; returns how many were copied.\<close>

fun copy_cmd :: "nat \<Rightarrow> nat \<Rightarrow> nat \<Rightarrow> nat \<Rightarrow> (nat \<Rightarrow> uchar) \<Rightarrow> (nat \<Rightarrow> uchar) \<Rightarrow> nat \<times> (nat \<Rightarrow> uchar)" where
  "copy_cmd 0 i stop j inp ln = (j, ln)"
| "copy_cmd (Suc n) i stop j inp ln =
     (if i = stop then (j, ln)
      else copy_cmd n ((i + 1) mod INPUT_BUF) stop (j + 1) inp (ln(j := inp i)))"

definition InsertNewCmd :: "'z ciov_scheme \<Rightarrow> 'z ciov_scheme" where
  "InsertNewCmd s =
     (let temp_cur = unat (cmd_count s) mod 5;
          (j, ln) = copy_cmd INPUT_BUF (ring (in_w s)) (ring (in_e s - 1)) 0 (in_buf s) (\<lambda>k. 0);
          s = s\<lparr>temp_buf := (temp_buf s)(temp_cur := ln)\<rparr>;
          s = fold (\<lambda>i s. s\<lparr>PervCmd := (PervCmd s)(i := PervCmd s (i - 1)),
                          hist_size := (hist_size s)(i := hist_size s (i - 1))\<rparr>) [4, 3, 2, 1] s
      in s\<lparr>PervCmd := (PervCmd s)(0 := Some temp_cur), hist_size := (hist_size s)(0 := of_nat j)\<rparr>)"

fun killLine_loop :: "nat \<Rightarrow> 'z ciov_scheme \<Rightarrow> 'z ciov_scheme res" where
  "killLine_loop 0 s = Inr s"
| "killLine_loop (Suc n) s =
     (if in_e s \<noteq> in_w s \<and> in_buf s (ring (in_e s - 1)) \<noteq> 10
      then bindE (consputc BACKSPACE (s\<lparr>in_e := in_e s - 1\<rparr>)) (killLine_loop n)
      else Inr s)"

definition killLine :: "'z ciov_scheme \<Rightarrow> 'z ciov_scheme res" where
  "killLine s = killLine_loop (unat (in_e s - in_w s)) s"

definition fillBuf :: "'z ciov_scheme \<Rightarrow> 'z ciov_scheme res" where
  "fillBuf s =
     bindE (killLine s) (\<lambda>s.
       if 0 \<le> sint (cursor s) \<and> sint (cursor s) < int MAX_MEMORY then
         let c = nat (sint (cursor s)) in
         foldE (\<lambda>i s.
           case PervCmd s c of
             None \<Rightarrow> Inl (Fault ''history.PervCmd'')
           | Some ln \<Rightarrow>
               if i < INPUT_BUF then
                 Inr (s\<lparr>in_buf := (in_buf s)(ring (in_e s) := temp_buf s ln i), in_e := in_e s + 1\<rparr>)
               else Inl (Fault ''temp_buf'')) [0..<nat (sint (hist_size s c))] s
       else Inl (Fault ''history.size''))"

definition IncCursor :: "'z ciov_scheme \<Rightarrow> 'z ciov_scheme" where
  "IncCursor s =
     (if cursor s = 4 then s
      else
        let s = s\<lparr>cursor := of_int ((sint (cursor s) + 1) mod 5)\<rparr>
        in if cursor s = cmd_count s then s\<lparr>cursor := cmd_count s - 1\<rparr> else s)"

definition DecCursor :: "'z ciov_scheme \<Rightarrow> 'z ciov_scheme" where
  "DecCursor s = (if sint (cursor s) < 0 then s else s\<lparr>cursor := cursor s - 1\<rparr>)"

fun printInput_loop :: "nat \<Rightarrow> nat \<Rightarrow> nat \<Rightarrow> 'z ciov_scheme \<Rightarrow> 'z ciov_scheme res" where
  "printInput_loop 0 i stop s = Inr s"
| "printInput_loop (Suc n) i stop s =
     (if i = stop then Inr s
      else bindE (consputc (char_int (in_buf s i)) s) (printInput_loop n ((i + 1) mod INPUT_BUF) stop))"

definition printInput :: "'z ciov_scheme \<Rightarrow> 'z ciov_scheme res" where
  "printInput s = printInput_loop INPUT_BUF (ring (in_w s)) (ring (in_e s)) s"

definition KeyUpPressed :: "'z ciov_scheme \<Rightarrow> 'z ciov_scheme res" where
  "KeyUpPressed s =
     (if cmd_count s = 0 then Inr s else bindE (fillBuf (IncCursor s)) printInput)"

definition KeyDownPressed :: "'z ciov_scheme \<Rightarrow> 'z ciov_scheme res" where
  "KeyDownPressed s =
     (if cmd_count s = 0 then Inr s
      else if cursor s = - 1 then killLine s
      else bindE (fillBuf (DecCursor s)) printInput)"

section \<open>The interrupt handler\<close>

text \<open>\<open>C(x)\<close>: control characters.\<close>

abbreviation (input) Ctl_P :: uint where "Ctl_P \<equiv> 0x10"
abbreviation (input) Ctl_U :: uint where "Ctl_U \<equiv> 0x15"
abbreviation (input) Ctl_H :: uint where "Ctl_H \<equiv> 0x08"
abbreviation (input) Ctl_D :: uint where "Ctl_D \<equiv> 0x04"

text \<open>The \<open>default\<close> branch: a character is put into the line, and a complete line is handed over.\<close>

definition intr_char :: "uint \<Rightarrow> 'z ciov_scheme \<Rightarrow> 'z ciov_scheme res" where
  "intr_char c s =
     (if c \<noteq> 0 \<and> in_e s - in_r s < of_nat INPUT_BUF then
        let c = (if c = 13 then 10 else c);
            s = s\<lparr>in_buf := (in_buf s)(ring (in_e s) := ucast c), in_e := in_e s + 1\<rparr>
        in bindE (consputc c s) (\<lambda>s.
             if c = 10 \<or> c = Ctl_D \<or> in_e s = in_r s + of_nat INPUT_BUF then
               let s = (if in_e s - in_w s \<noteq> 1 then
                          let s = InsertNewCmd s in s\<lparr>cmd_count := cmd_count s + 1, cursor := - 1\<rparr>
                        else s)
               in wakeup Ch_input (s\<lparr>in_w := in_e s\<rparr>)
             else Inr s)
      else Inr s)"

text \<open>One round of the loop; the first component is \<open>doprocdump\<close>.\<close>

definition intr_key :: "uint \<Rightarrow> bool \<times> 'z ciov_scheme \<Rightarrow> (bool \<times> 'z ciov_scheme) res" where
  "intr_key c ds =
     (case ds of (doprocdump, s) \<Rightarrow>
        if c = Ctl_P then Inr (True, s)
        else bindE (if c = Ctl_U then killLine s
                    else if c = Ctl_H \<or> c = 0x7f then
                      (if in_e s \<noteq> in_w s then consputc BACKSPACE (s\<lparr>in_e := in_e s - 1\<rparr>) else Inr s)
                    else if c = KEY_UP then KeyUpPressed s
                    else if c = KEY_DN then KeyDownPressed s
                    else intr_char c s) (\<lambda>s. Inr (doprocdump, s)))"

definition consoleintr :: "(nat \<Rightarrow> uint list) \<Rightarrow> uint list \<Rightarrow> 'z ciov_scheme \<Rightarrow> 'z ciov_scheme res" where
  "consoleintr pcs cs s =
     bindE (acquire Lk_cons s) (\<lambda>s.
     bindE (foldE intr_key cs (False, s)) (\<lambda>(doprocdump, s).
     bindE (release Lk_cons s) (\<lambda>s.
     if doprocdump then procdump pcs s else Inr s)))"

section \<open>The console as a device\<close>

text \<open>
  \<open>while(input.r == input.w)\<close> of \<open>consoleread\<close>: \<open>False\<close> when the process was killed. At most \<open>k\<close> sleeps.
\<close>

fun await_input :: "nat \<Rightarrow> 'z ciov_scheme env \<Rightarrow> 'z ciov_scheme \<Rightarrow> (bool \<times> 'z ciov_scheme) res" where
  "await_input k e s =
     (if in_r s = in_w s then
        bindE (curproc s) (\<lambda>(p, s).
          if p_killed (procs s p) then Inr (False, s)
          else case k of 0 \<Rightarrow> Inl Diverge
               | Suc m \<Rightarrow> bindE (sleep (e_sw e) Ch_input Lk_cons s) (await_input m e))
      else Inr (True, s))"

declare await_input.simps [simp del]

text \<open>
  The loop of \<open>consoleread\<close> with \<open>n\<close> bytes to go and \<open>got\<close> read so far; \<open>None\<close> when the process was killed.
\<close>

fun consoleread_loop ::
  "nat \<Rightarrow> uchar list \<Rightarrow> 'z ciov_scheme env \<Rightarrow> 'z ciov_scheme \<Rightarrow> (uchar list option \<times> 'z ciov_scheme) res" where
  "consoleread_loop 0 got e s = Inr (Some got, s)"
| "consoleread_loop (Suc n) got e s =
     bindE (await_input (e_fuel e) e s) (\<lambda>(ok, s).
       if \<not> ok then Inr (None, s)
       else
         let c = in_buf s (ring (in_r s));
             s = s\<lparr>in_r := in_r s + 1\<rparr>
         in if c = 4 then Inr (Some got, if got \<noteq> [] then s\<lparr>in_r := in_r s - 1\<rparr> else s)
            else if c = 10 then Inr (Some (got @ [c]), s)
            else consoleread_loop n (got @ [c]) e s)"

definition consoleread ::
  "'z ciov_scheme env \<Rightarrow> nat \<Rightarrow> cint \<Rightarrow> 'z ciov_scheme \<Rightarrow> (uchar list option \<times> 'z ciov_scheme) res" where
  "consoleread e ip n s =
     bindE (iunlock ip s) (\<lambda>s.
     bindE (acquire Lk_cons s) (\<lambda>s.
     bindE (consoleread_loop (nat (sint n)) [] e s) (\<lambda>(r, s).
     bindE (release Lk_cons s) (\<lambda>s.
     bindE (ilock e ip s) (\<lambda>s. Inr (r, s))))))"

definition consolewrite ::
  "'z ciov_scheme env \<Rightarrow> nat \<Rightarrow> uchar list \<Rightarrow> 'z ciov_scheme \<Rightarrow> 'z ciov_scheme res" where
  "consolewrite e ip buf s =
     bindE (iunlock ip s) (\<lambda>s.
     bindE (acquire Lk_cons s) (\<lambda>s.
     bindE (foldE (\<lambda>c. consputc (ucast c)) buf s) (\<lambda>s.
     bindE (release Lk_cons s) (ilock e ip))))"

text \<open>\<open>consoleinit\<close>; routing the keyboard interrupt is left to the interrupt controller.\<close>

definition consoleinit :: "'z ciov_scheme \<Rightarrow> 'z ciov_scheme" where
  "consoleinit s =
     (let s = initlock Lk_cons ''console'' s
      in s\<lparr>devsw_write := (devsw_write s)(CONSOLE := Some Consolewrite),
           devsw_read := (devsw_read s)(CONSOLE := Some Consoleread), cons_locking := True\<rparr>)"

end
