(* ===== verification/Dir.thy ===== *)
theory Dir
  imports Conin
begin

text \<open>
  File contents, directories and paths (the second half of src/source/fs.c). A read returns the bytes
  that the code copies to \<open>dst\<close>, a write takes the bytes at \<open>src\<close>; -1 is \<open>None\<close> or \<open>False\<close>. A path and a
  name are C strings given by their characters before the terminating 0; a name has at most
  \<open>DIRSIZ\<close> of them.
\<close>

section \<open>Reading and writing\<close>

text \<open>\<open>m = min(n - tot, BSIZE - off%BSIZE)\<close>\<close>

definition chunk :: "nat \<Rightarrow> uint \<Rightarrow> nat" where
  "chunk n off = min n (BSIZE - unat off mod BSIZE)"

lemma chunk_pos: "0 < n \<Longrightarrow> 0 < chunk n off"
  by (simp add: chunk_def)

lemma chunk_le: "chunk n off \<le> n"
  by (simp add: chunk_def)

text \<open>The loop of \<open>readi\<close>, \<open>n\<close> bytes to go.\<close>

function readi_loop ::
  "'z fsv_scheme env \<Rightarrow> nat \<Rightarrow> uint \<Rightarrow> nat \<Rightarrow> 'z fsv_scheme \<Rightarrow> (uchar list \<times> 'z fsv_scheme) res" where
  "readi_loop e ip off n s =
     (if n = 0 then Inr ([], s)
      else
        bindE (bmap e ip (unat off div BSIZE) s) (\<lambda>(a, s).
        bindE (bread e (i_dev (inodes s ip)) a s) (\<lambda>(bp, s).
          let m = chunk n off;
              bs = map (\<lambda>k. b_data (bufs s bp) (unat off mod BSIZE + k)) [0..<m]
          in bindE (brelse bp s) (\<lambda>s.
             bindE (readi_loop e ip (off + of_nat m) (n - m) s) (\<lambda>(rest, s). Inr (bs @ rest, s))))))"
  by pat_completeness auto
termination
proof (relation "measure (\<lambda>(e, ip, off, n, s). n)", goal_cases)
  case (2 e ip off n)
  then show ?case using chunk_pos [of n off] chunk_le [of n off] by simp
qed simp

declare readi_loop.simps [simp del]

definition readi ::
  "'z ciov_scheme env \<Rightarrow> nat \<Rightarrow> uint \<Rightarrow> uint \<Rightarrow> 'z ciov_scheme \<Rightarrow> (uchar list option \<times> 'z ciov_scheme) res" where
  "readi e ip off n s =
     (let x = inodes s ip in
      if i_type x = T_DEV then
        if sint (i_major x) < 0 \<or> sint (i_major x) \<ge> int NDEV then Inr (None, s)
        else case devsw_read s (unat (i_major x)) of
               None \<Rightarrow> Inr (None, s)
             | Some fn \<Rightarrow> if fn = Consoleread then consoleread e ip n s else Inl (Fault ''devsw.read'')
      else if off > i_size x \<or> off + n < off then Inr (None, s)
      else
        let n = (if off + n > i_size x then i_size x - off else n) in
        bindE (readi_loop e ip off (unat n) s) (\<lambda>(bs, s). Inr (Some bs, s)))"

text \<open>The bytes \<open>xs\<close> stored from index \<open>i\<close> of a block.\<close>

definition blit :: "nat \<Rightarrow> uchar list \<Rightarrow> block \<Rightarrow> block" where
  "blit i xs d = (\<lambda>k. if i \<le> k \<and> k < i + length xs then xs ! (k - i) else d k)"

text \<open>The loop of \<open>writei\<close>; it returns the offset after the last byte.\<close>

function writei_loop ::
  "'z fsv_scheme env \<Rightarrow> nat \<Rightarrow> uint \<Rightarrow> uchar list \<Rightarrow> 'z fsv_scheme \<Rightarrow> (uint \<times> 'z fsv_scheme) res" where
  "writei_loop e ip off src s =
     (if src = [] then Inr (off, s)
      else
        bindE (bmap e ip (unat off div BSIZE) s) (\<lambda>(a, s).
        bindE (bread e (i_dev (inodes s ip)) a s) (\<lambda>(bp, s).
          let m = chunk (length src) off in
          bindE (log_write bp (edit bp (blit (unat off mod BSIZE) (take m src)) s)) (\<lambda>s.
          bindE (brelse bp s) (writei_loop e ip (off + of_nat m) (drop m src))))))"
  by pat_completeness auto
termination
proof (relation "measure (\<lambda>(e, ip, off, src, s). length src)", goal_cases)
  case (2 e ip off src)
  then show ?case using chunk_pos [of "length src" off] by simp
qed simp

declare writei_loop.simps [simp del]

definition writei ::
  "'z ciov_scheme env \<Rightarrow> nat \<Rightarrow> uchar list \<Rightarrow> uint \<Rightarrow> 'z ciov_scheme \<Rightarrow> (bool \<times> 'z ciov_scheme) res" where
  "writei e ip src off s =
     (let x = inodes s ip;
          n = of_nat (length src) in
      if i_type x = T_DEV then
        if sint (i_major x) < 0 \<or> sint (i_major x) \<ge> int NDEV then Inr (False, s)
        else case devsw_write s (unat (i_major x)) of
               None \<Rightarrow> Inr (False, s)
             | Some fn \<Rightarrow>
                 if fn = Consolewrite then bindE (consolewrite e ip src s) (\<lambda>s. Inr (True, s))
                 else Inl (Fault ''devsw.write'')
      else if off > i_size x \<or> off + n < off then Inr (False, s)
      else if off + n > of_nat (MAXFILE * BSIZE) then Inr (False, s)
      else
        bindE (writei_loop e ip off src s) (\<lambda>(off, s).
        bindE (if n > 0 \<and> off > i_size (inodes s ip)
               then iupdate e ip (upd_inode ip (\<lambda>x. x\<lparr>i_size := off\<rparr>) s) else Inr s) (\<lambda>s.
        Inr (True, s))))"

section \<open>Directories\<close>

text \<open>The first character of a C string.\<close>

definition hd0 :: "uchar list \<Rightarrow> uchar" where
  "hd0 xs = (case xs of [] \<Rightarrow> 0 | x # _ \<Rightarrow> x)"

text \<open>\<open>strncmp\<close> on C strings given by their characters.\<close>

fun strncmp_s :: "nat \<Rightarrow> uchar list \<Rightarrow> uchar list \<Rightarrow> int" where
  "strncmp_s 0 p q = 0"
| "strncmp_s (Suc n) p q =
     (if hd0 p \<noteq> 0 \<and> hd0 p = hd0 q then strncmp_s n (tl p) (tl q) else uint (hd0 p) - uint (hd0 q))"

definition namecmp :: "uchar list \<Rightarrow> uchar list \<Rightarrow> int" where
  "namecmp p q = strncmp_s DIRSIZ p q"

text \<open>A directory entry as its 16 bytes, and \<open>strncpy\<close> into its name.\<close>

record dirent =
  de_inum :: ushort
  de_name :: "uchar list"

definition ld_dirent :: "uchar list \<Rightarrow> dirent" where
  "ld_dirent bs = \<lparr>de_inum = ucast (bs ! 0) OR push_bit 8 (ucast (bs ! 1)), de_name = drop 2 bs\<rparr>"

definition st_dirent :: "dirent \<Rightarrow> uchar list" where
  "st_dirent de = ucast (de_inum de) # ucast (drop_bit 8 (de_inum de)) # de_name de"

definition pad_name :: "uchar list \<Rightarrow> uchar list" where
  "pad_name nm = take DIRSIZ (nm @ replicate DIRSIZ 0)"

text \<open>The loop of \<open>dirlookup\<close> over the indices of entries; the result is the inode and \<open>*poff\<close>.\<close>

fun dirlookup_loop ::
  "'z ciov_scheme env \<Rightarrow> nat \<Rightarrow> uchar list \<Rightarrow> nat list \<Rightarrow> 'z ciov_scheme \<Rightarrow> ((nat \<times> uint) option \<times> 'z ciov_scheme) res"
where
  "dirlookup_loop e dp nm [] s = Inr (None, s)"
| "dirlookup_loop e dp nm (k # ks) s =
     (let off = of_nat (16 * k) in
      bindE (readi e dp off 16 s) (\<lambda>(r, s).
        case r of
          None \<Rightarrow> Inl (Panic ''dirlookup read'')
        | Some bs \<Rightarrow>
            if length bs \<noteq> 16 then Inl (Panic ''dirlookup read'')
            else
              let de = ld_dirent bs in
              if de_inum de = 0 then dirlookup_loop e dp nm ks s
              else if namecmp nm (de_name de) = 0 then
                bindE (iget (i_dev (inodes s dp)) (ucast (de_inum de)) s) (\<lambda>(ip, s). Inr (Some (ip, off), s))
              else dirlookup_loop e dp nm ks s))"

text \<open>\<open>for(off = 0; off < dp->size; off += sizeof(de))\<close>\<close>

definition entries :: "nat \<Rightarrow> 'z fsv_scheme \<Rightarrow> nat list" where
  "entries dp s = [0..<(unat (i_size (inodes s dp)) + 15) div 16]"

definition dirlookup ::
  "'z ciov_scheme env \<Rightarrow> nat \<Rightarrow> uchar list \<Rightarrow> 'z ciov_scheme \<Rightarrow> ((nat \<times> uint) option \<times> 'z ciov_scheme) res" where
  "dirlookup e dp nm s =
     (if i_type (inodes s dp) \<noteq> T_DIR then Inl (Panic ''dirlookup not DIR'')
      else dirlookup_loop e dp nm (entries dp s) s)"

text \<open>The loop of \<open>dirlink\<close>: the index of the first empty entry, or of the end.\<close>

fun empty_entry ::
  "'z ciov_scheme env \<Rightarrow> nat \<Rightarrow> nat list \<Rightarrow> nat \<Rightarrow> 'z ciov_scheme \<Rightarrow> (nat \<times> 'z ciov_scheme) res" where
  "empty_entry e dp [] fin s = Inr (fin, s)"
| "empty_entry e dp (k # ks) fin s =
     bindE (readi e dp (of_nat (16 * k)) 16 s) (\<lambda>(r, s).
       case r of
         None \<Rightarrow> Inl (Panic ''dirlink read'')
       | Some bs \<Rightarrow>
           if length bs \<noteq> 16 then Inl (Panic ''dirlink read'')
           else if de_inum (ld_dirent bs) = 0 then Inr (k, s)
           else empty_entry e dp ks fin s)"

definition dirlink ::
  "'z ciov_scheme env \<Rightarrow> nat \<Rightarrow> uchar list \<Rightarrow> uint \<Rightarrow> 'z ciov_scheme \<Rightarrow> (bool \<times> 'z ciov_scheme) res" where
  "dirlink e dp nm inum s =
     bindE (dirlookup e dp nm s) (\<lambda>(r, s).
       case r of
         Some (ip, _) \<Rightarrow> bindE (iput e ip s) (\<lambda>s. Inr (False, s))
       | None \<Rightarrow>
           bindE (empty_entry e dp (entries dp s) (length (entries dp s)) s) (\<lambda>(k, s).
             let de = \<lparr>de_inum = ucast inum, de_name = pad_name nm\<rparr> in
             bindE (writei e dp (st_dirent de) (of_nat (16 * k)) s) (\<lambda>(ok, s).
               if \<not> ok then Inl (Panic ''dirlink'') else Inr (True, s))))"

section \<open>Paths\<close>

abbreviation (input) SLASH :: uchar where "SLASH \<equiv> 0x2F"

text \<open>\<open>skipelem\<close>: the path after the first element, and that element cut to \<open>DIRSIZ\<close> characters.\<close>

definition skipelem :: "uchar list \<Rightarrow> (uchar list \<times> uchar list) option" where
  "skipelem path =
     (let p = dropWhile (\<lambda>c. c = SLASH) path in
      if p = [] then None
      else
        let el = takeWhile (\<lambda>c. c \<noteq> SLASH) p;
            rest = dropWhile (\<lambda>c. c \<noteq> SLASH) p
        in Some (dropWhile (\<lambda>c. c = SLASH) rest, take DIRSIZ el))"

lemma skipelem_shorter: "skipelem path = Some (rest, nm) \<Longrightarrow> length rest < length path"
proof -
  assume a: "skipelem path = Some (rest, nm)"
  let ?p = "dropWhile (\<lambda>c. c = SLASH) path"
  have "?p \<noteq> []" and r: "rest = dropWhile (\<lambda>c. c = SLASH) (dropWhile (\<lambda>c. c \<noteq> SLASH) ?p)"
    using a by (auto simp: skipelem_def Let_def split: if_splits)
  moreover have "hd ?p \<noteq> SLASH" using hd_dropWhile [OF \<open>?p \<noteq> []\<close>] by simp
  ultimately have "length (dropWhile (\<lambda>c. c \<noteq> SLASH) ?p) < length ?p"
    by (cases ?p) (auto simp: le_imp_less_Suc length_dropWhile_le)
  moreover have "length rest \<le> length (dropWhile (\<lambda>c. c \<noteq> SLASH) ?p)" "length ?p \<le> length path"
    unfolding r by (rule length_dropWhile_le)+
  ultimately show ?thesis by simp
qed

text \<open>The loop of \<open>namex\<close>: the inode and the last name taken from the path.\<close>

function namex_loop ::
  "'z ciov_scheme env \<Rightarrow> bool \<Rightarrow> nat \<Rightarrow> uchar list \<Rightarrow> uchar list \<Rightarrow> 'z ciov_scheme \<Rightarrow>
   ((nat \<times> uchar list) option \<times> 'z ciov_scheme) res" where
  "namex_loop e parent ip path nm s =
     (case skipelem path of
        None \<Rightarrow>
          if parent then bindE (iput e ip s) (\<lambda>s. Inr (None, s)) else Inr (Some (ip, nm), s)
      | Some (path, nm) \<Rightarrow>
          bindE (ilock e ip s) (\<lambda>s.
            if i_type (inodes s ip) \<noteq> T_DIR then bindE (iunlockput e ip s) (\<lambda>s. Inr (None, s))
            else if parent \<and> path = [] then bindE (iunlock ip s) (\<lambda>s. Inr (Some (ip, nm), s))
            else
              bindE (dirlookup e ip nm s) (\<lambda>(r, s).
                case r of
                  None \<Rightarrow> bindE (iunlockput e ip s) (\<lambda>s. Inr (None, s))
                | Some (nxt, _) \<Rightarrow> bindE (iunlockput e ip s) (namex_loop e parent nxt path nm))))"
  by pat_completeness auto
termination
  by (relation "measure (\<lambda>(e, parent, ip, path, nm, s). length path)") (auto dest: skipelem_shorter)

declare namex_loop.simps [simp del]

definition namex ::
  "'z ciov_scheme env \<Rightarrow> uchar list \<Rightarrow> bool \<Rightarrow> 'z ciov_scheme \<Rightarrow> ((nat \<times> uchar list) option \<times> 'z ciov_scheme) res"
where
  "namex e path parent s =
     bindE (if hd0 path = SLASH then iget ROOTDEV ROOTINO s
            else bindE (curproc s) (\<lambda>(p, s).
                   case p_cwd (procs s p) of None \<Rightarrow> Inl (Fault ''cwd'') | Some ip \<Rightarrow> idup ip s)) (\<lambda>(ip, s).
     namex_loop e parent ip path [] s)"

definition namei ::
  "'z ciov_scheme env \<Rightarrow> uchar list \<Rightarrow> 'z ciov_scheme \<Rightarrow> (nat option \<times> 'z ciov_scheme) res" where
  "namei e path s = bindE (namex e path False s) (\<lambda>(r, s). Inr (map_option fst r, s))"

definition nameiparent ::
  "'z ciov_scheme env \<Rightarrow> uchar list \<Rightarrow> 'z ciov_scheme \<Rightarrow> ((nat \<times> uchar list) option \<times> 'z ciov_scheme) res" where
  "nameiparent e path s = namex e path True s"

end
