(* ===== verification/File.thy ===== *)
theory File
  imports Dir
begin

text \<open>
  Open files and pipes (src/source/file.c, src/source/pipe.c). A file pointer is the index of its entry
  in \<open>ftable.file\<close>, a pipe is at the address of its page. The bytes a read copies to the caller are
  returned, those a write takes are an argument; -1 is \<open>None\<close> or \<open>False\<close>.
\<close>

section \<open>State\<close>

datatype ftype = FD_NONE | FD_PIPE | FD_INODE

record file_t =
  f_type :: ftype
  f_ref :: cint
  f_readable :: bool
  f_writable :: bool
  f_pipe :: uint
  f_ip :: nat
  f_off :: uint

abbreviation (input) PIPESIZE :: nat where "PIPESIZE \<equiv> 512"

record pipe =
  pi_data :: "nat \<Rightarrow> uchar"
  pi_nread :: uint
  pi_nwrite :: uint
  pi_readopen :: bool
  pi_writeopen :: bool

record filev = ciov +
  ftable :: "nat \<Rightarrow> file_t"
  pipes :: "uint \<Rightarrow> pipe"

definition upd_file :: "nat \<Rightarrow> (file_t \<Rightarrow> file_t) \<Rightarrow> 'z filev_scheme \<Rightarrow> 'z filev_scheme" where
  "upd_file i f s = s\<lparr>ftable := (ftable s)(i := f (ftable s i))\<rparr>"

definition upd_pipe :: "uint \<Rightarrow> (pipe \<Rightarrow> pipe) \<Rightarrow> 'z filev_scheme \<Rightarrow> 'z filev_scheme" where
  "upd_pipe p f s = s\<lparr>pipes := (pipes s)(p := f (pipes s p))\<rparr>"

section \<open>Pipes\<close>

definition pipeclose :: "uint \<Rightarrow> bool \<Rightarrow> 'z filev_scheme \<Rightarrow> 'z filev_scheme res" where
  "pipeclose p writable s =
     bindE (acquire (Lk_pipe p) s) (\<lambda>s.
     bindE (if writable then wakeup (Ch_nread p) (upd_pipe p (\<lambda>x. x\<lparr>pi_writeopen := False\<rparr>) s)
            else wakeup (Ch_nwrite p) (upd_pipe p (\<lambda>x. x\<lparr>pi_readopen := False\<rparr>) s)) (\<lambda>s.
       if \<not> pi_readopen (pipes s p) \<and> \<not> pi_writeopen (pipes s p)
       then bindE (release (Lk_pipe p) s) (kfree p)
       else release (Lk_pipe p) s))"

text \<open>
  The inner loop of \<open>pipewrite\<close>: \<open>True\<close> when there is room, \<open>False\<close> when the reader is gone or the
  process was killed. At most \<open>k\<close> sleeps.
\<close>

fun await_room :: "nat \<Rightarrow> 'z filev_scheme env \<Rightarrow> uint \<Rightarrow> 'z filev_scheme \<Rightarrow> (bool \<times> 'z filev_scheme) res" where
  "await_room k e p s =
     (if pi_nwrite (pipes s p) = pi_nread (pipes s p) + of_nat PIPESIZE then
        bindE (if \<not> pi_readopen (pipes s p) then Inr (True, s)
               else bindE (curproc s) (\<lambda>(i, s). Inr (p_killed (procs s i), s))) (\<lambda>(stop, s).
          if stop then Inr (False, s)
          else
            bindE (wakeup (Ch_nread p) s) (\<lambda>s.
              case k of 0 \<Rightarrow> Inl Diverge
              | Suc m \<Rightarrow> bindE (sleep (e_sw e) (Ch_nwrite p) (Lk_pipe p) s) (await_room m e p)))
      else Inr (True, s))"

declare await_room.simps [simp del]

text \<open>\<open>p->data[p->nwrite++ % PIPESIZE] = c\<close>\<close>

definition pipe_put :: "uchar \<Rightarrow> pipe \<Rightarrow> pipe" where
  "pipe_put c x =
     x\<lparr>pi_data := (pi_data x)(unat (pi_nwrite x) mod PIPESIZE := c), pi_nwrite := pi_nwrite x + 1\<rparr>"

fun pipewrite_loop ::
  "'z filev_scheme env \<Rightarrow> uint \<Rightarrow> uchar list \<Rightarrow> 'z filev_scheme \<Rightarrow> (bool \<times> 'z filev_scheme) res" where
  "pipewrite_loop e p [] s = Inr (True, s)"
| "pipewrite_loop e p (c # cs) s =
     bindE (await_room (e_fuel e) e p s) (\<lambda>(ok, s).
       if ok then pipewrite_loop e p cs (upd_pipe p (pipe_put c) s) else Inr (False, s))"

definition pipewrite ::
  "'z filev_scheme env \<Rightarrow> uint \<Rightarrow> uchar list \<Rightarrow> 'z filev_scheme \<Rightarrow> (bool \<times> 'z filev_scheme) res" where
  "pipewrite e p bs s =
     bindE (acquire (Lk_pipe p) s) (\<lambda>s.
     bindE (pipewrite_loop e p bs s) (\<lambda>(ok, s).
       if ok then
         bindE (wakeup (Ch_nread p) s) (\<lambda>s.
         bindE (release (Lk_pipe p) s) (\<lambda>s. Inr (True, s)))
       else bindE (release (Lk_pipe p) s) (\<lambda>s. Inr (False, s))))"

text \<open>The first loop of \<open>piperead\<close>: \<open>False\<close> when the process was killed while the pipe was empty.\<close>

fun await_data :: "nat \<Rightarrow> 'z filev_scheme env \<Rightarrow> uint \<Rightarrow> 'z filev_scheme \<Rightarrow> (bool \<times> 'z filev_scheme) res" where
  "await_data k e p s =
     (if pi_nread (pipes s p) = pi_nwrite (pipes s p) \<and> pi_writeopen (pipes s p) then
        bindE (curproc s) (\<lambda>(i, s).
          if p_killed (procs s i) then Inr (False, s)
          else case k of 0 \<Rightarrow> Inl Diverge
               | Suc m \<Rightarrow> bindE (sleep (e_sw e) (Ch_nread p) (Lk_pipe p) s) (await_data m e p))
      else Inr (True, s))"

declare await_data.simps [simp del]

text \<open>The second loop, for at most \<open>n\<close> bytes.\<close>

fun pipe_get :: "nat \<Rightarrow> pipe \<Rightarrow> uchar list \<times> pipe" where
  "pipe_get 0 x = ([], x)"
| "pipe_get (Suc n) x =
     (if pi_nread x = pi_nwrite x then ([], x)
      else
        let c = pi_data x (unat (pi_nread x) mod PIPESIZE);
            (cs, x) = pipe_get n (x\<lparr>pi_nread := pi_nread x + 1\<rparr>)
        in (c # cs, x))"

definition piperead ::
  "'z filev_scheme env \<Rightarrow> uint \<Rightarrow> cint \<Rightarrow> 'z filev_scheme \<Rightarrow> (uchar list option \<times> 'z filev_scheme) res" where
  "piperead e p n s =
     bindE (acquire (Lk_pipe p) s) (\<lambda>s.
     bindE (await_data (e_fuel e) e p s) (\<lambda>(ok, s).
       if ok then
         let (bs, x) = pipe_get (nat (sint n)) (pipes s p) in
         bindE (wakeup (Ch_nwrite p) (s\<lparr>pipes := (pipes s)(p := x)\<rparr>)) (\<lambda>s.
         bindE (release (Lk_pipe p) s) (\<lambda>s. Inr (Some bs, s)))
       else bindE (release (Lk_pipe p) s) (\<lambda>s. Inr (None, s))))"

section \<open>Open files\<close>

definition fileinit :: "'z filev_scheme \<Rightarrow> 'z filev_scheme" where
  "fileinit s = initlock Lk_ftable ''ftable'' s"

definition filealloc :: "'z filev_scheme \<Rightarrow> (nat option \<times> 'z filev_scheme) res" where
  "filealloc s =
     bindE (acquire Lk_ftable s) (\<lambda>s.
       case find (\<lambda>f. f_ref (ftable s f) = 0) [0..<NFILE] of
         Some f \<Rightarrow> bindE (release Lk_ftable (upd_file f (\<lambda>x. x\<lparr>f_ref := 1\<rparr>) s)) (\<lambda>s. Inr (Some f, s))
       | None \<Rightarrow> bindE (release Lk_ftable s) (\<lambda>s. Inr (None, s)))"

definition filedup :: "nat \<Rightarrow> 'z filev_scheme \<Rightarrow> 'z filev_scheme res" where
  "filedup f s =
     bindE (acquire Lk_ftable s) (\<lambda>s.
       if sint (f_ref (ftable s f)) < 1 then Inl (Panic ''filedup'')
       else release Lk_ftable (upd_file f (\<lambda>x. x\<lparr>f_ref := f_ref x + 1\<rparr>) s))"

definition fileclose :: "'z filev_scheme env \<Rightarrow> nat \<Rightarrow> 'z filev_scheme \<Rightarrow> 'z filev_scheme res" where
  "fileclose e f s =
     bindE (acquire Lk_ftable s) (\<lambda>s.
       if sint (f_ref (ftable s f)) < 1 then Inl (Panic ''fileclose'')
       else
         let s = upd_file f (\<lambda>x. x\<lparr>f_ref := f_ref x - 1\<rparr>) s in
         if sint (f_ref (ftable s f)) > 0 then release Lk_ftable s
         else
           let ff = ftable s f;
               s = upd_file f (\<lambda>x. x\<lparr>f_ref := 0, f_type := FD_NONE\<rparr>) s in
           bindE (release Lk_ftable s) (\<lambda>s.
             if f_type ff = FD_PIPE then pipeclose (f_pipe ff) (f_writable ff) s
             else if f_type ff = FD_INODE then
               bindE (begin_op e s) (\<lambda>s. bindE (iput e (f_ip ff) s) (end_op e))
             else Inr s))"

definition filestat ::
  "'z filev_scheme env \<Rightarrow> nat \<Rightarrow> 'z filev_scheme \<Rightarrow> (stat option \<times> 'z filev_scheme) res" where
  "filestat e f s =
     (if f_type (ftable s f) = FD_INODE then
        let ip = f_ip (ftable s f) in
        bindE (ilock e ip s) (\<lambda>s.
          let st = stati ip s in
        bindE (iunlock ip s) (\<lambda>s. Inr (Some st, s)))
      else Inr (None, s))"

definition fileread ::
  "'z filev_scheme env \<Rightarrow> nat \<Rightarrow> cint \<Rightarrow> 'z filev_scheme \<Rightarrow> (uchar list option \<times> 'z filev_scheme) res" where
  "fileread e f n s =
     (let x = ftable s f in
      if \<not> f_readable x then Inr (None, s)
      else if f_type x = FD_PIPE then piperead e (f_pipe x) n s
      else if f_type x = FD_INODE then
        bindE (ilock e (f_ip x) s) (\<lambda>s.
        bindE (readi e (f_ip x) (f_off (ftable s f)) n s) (\<lambda>(r, s).
          let s = (case r of Some bs \<Rightarrow> upd_file f (\<lambda>x. x\<lparr>f_off := f_off x + of_nat (length bs)\<rparr>) s | None \<Rightarrow> s) in
        bindE (iunlock (f_ip x) s) (\<lambda>s. Inr (r, s))))
      else Inl (Panic ''fileread''))"

text \<open>The loop of \<open>filewrite\<close>: one transaction for each piece of at most \<open>max\<close> bytes.\<close>

abbreviation (input) max_write :: nat where "max_write \<equiv> (MAXOPBLOCKS - 1 - 1 - 2) div 2 * 512"

function filewrite_loop ::
  "'z filev_scheme env \<Rightarrow> nat \<Rightarrow> uchar list \<Rightarrow> 'z filev_scheme \<Rightarrow> (bool \<times> 'z filev_scheme) res" where
  "filewrite_loop e f src s =
     (if src = [] then Inr (True, s)
      else
        let n1 = min (length src) max_write;
            ip = f_ip (ftable s f) in
        bindE (begin_op e s) (\<lambda>s.
        bindE (ilock e ip s) (\<lambda>s.
        bindE (writei e ip (take n1 src) (f_off (ftable s f)) s) (\<lambda>(ok, s).
          let s = (if ok then upd_file f (\<lambda>x. x\<lparr>f_off := f_off x + of_nat n1\<rparr>) s else s) in
        bindE (iunlock ip s) (\<lambda>s.
        bindE (end_op e s) (\<lambda>s.
          if \<not> ok then Inr (False, s) else filewrite_loop e f (drop n1 src) s))))))"
  by pat_completeness auto
termination
  by (relation "measure (\<lambda>(e, f, src, s). length src)") auto

declare filewrite_loop.simps [simp del]

definition filewrite ::
  "'z filev_scheme env \<Rightarrow> nat \<Rightarrow> uchar list \<Rightarrow> 'z filev_scheme \<Rightarrow> (bool \<times> 'z filev_scheme) res" where
  "filewrite e f src s =
     (let x = ftable s f in
      if \<not> f_writable x then Inr (False, s)
      else if f_type x = FD_PIPE then pipewrite e (f_pipe x) src s
      else if f_type x = FD_INODE then filewrite_loop e f src s
      else Inl (Panic ''filewrite''))"

section \<open>Making a pipe\<close>

text \<open>The label \<open>bad\<close>: the files that were allocated are closed; no page was, when it is reached.\<close>

definition pipe_bad ::
  "'z filev_scheme env \<Rightarrow> nat option \<Rightarrow> nat option \<Rightarrow> 'z filev_scheme \<Rightarrow> ((nat \<times> nat) option \<times> 'z filev_scheme) res" where
  "pipe_bad e f0 f1 s =
     bindE (case f0 of Some f \<Rightarrow> fileclose e f s | None \<Rightarrow> Inr s) (\<lambda>s.
     bindE (case f1 of Some f \<Rightarrow> fileclose e f s | None \<Rightarrow> Inr s) (\<lambda>s. Inr (None, s)))"

definition pipealloc ::
  "'z filev_scheme env \<Rightarrow> 'z filev_scheme \<Rightarrow> ((nat \<times> nat) option \<times> 'z filev_scheme) res" where
  "pipealloc e s =
     bindE (filealloc s) (\<lambda>(r0, s).
       case r0 of
         None \<Rightarrow> pipe_bad e None None s
       | Some f0 \<Rightarrow>
           bindE (filealloc s) (\<lambda>(r1, s).
             case r1 of
               None \<Rightarrow> pipe_bad e (Some f0) None s
             | Some f1 \<Rightarrow>
                 bindE (kalloc s) (\<lambda>(p, s).
                   if p = 0 then pipe_bad e (Some f0) (Some f1) s
                   else
                     let s = upd_pipe p (\<lambda>x. x\<lparr>pi_readopen := True, pi_writeopen := True, pi_nwrite := 0, pi_nread := 0\<rparr>) s;
                         s = initlock (Lk_pipe p) ''pipe'' s;
                         s = upd_file f0 (\<lambda>x. x\<lparr>f_type := FD_PIPE, f_readable := True, f_writable := False, f_pipe := p\<rparr>) s;
                         s = upd_file f1 (\<lambda>x. x\<lparr>f_type := FD_PIPE, f_readable := False, f_writable := True, f_pipe := p\<rparr>) s
                     in Inr (Some (f0, f1), s))))"

end
