(* ===== verification/Fork.thy ===== *)
theory Fork
  imports File
begin

text \<open>
  The life of a process (\<open>userinit\<close>, \<open>fork\<close>, \<open>exit\<close> and \<open>forkret\<close> of src/source/proc.c). \<open>exit\<close> never
  returns: when the switch it makes comes back, it panics. The machine code of the first program,
  which the build links into the kernel, is an argument of \<open>userinit\<close>. \<open>forkret_first\<close> is the static
  variable \<open>first\<close>.
\<close>

record forkv = filev +
  forkret_first :: bool

definition zero_tf :: trapframe where
  "zero_tf = \<lparr>tf_edi = 0, tf_esi = 0, tf_ebp = 0, tf_oesp = 0, tf_ebx = 0, tf_edx = 0, tf_ecx = 0, tf_eax = 0,
     tf_gs = 0, tf_fs = 0, tf_es = 0, tf_ds = 0, tf_trapno = 0, tf_err = 0, tf_eip = 0, tf_cs = 0,
     tf_eflags = 0, tf_esp = 0, tf_ss = 0\<rparr>"

text \<open>\<open>safestrcpy(p->name, ..., sizeof(p->name))\<close>\<close>

definition proc_name :: "string \<Rightarrow> string" where
  "proc_name nm = take 15 nm"

definition user_tf :: trapframe where
  "user_tf =
     (let ds = ucast (push_bit 3 SEG_UDATA OR DPL_USER)
      in zero_tf\<lparr>tf_cs := ucast (push_bit 3 SEG_UCODE OR DPL_USER), tf_ds := ds, tf_es := ds, tf_ss := ds,
           tf_eflags := FL_IF, tf_esp := PGSIZE, tf_eip := 0\<rparr>)"

definition userinit ::
  "'z ciov_scheme env \<Rightarrow> (nat \<Rightarrow> uchar) \<Rightarrow> uint \<Rightarrow> 'z ciov_scheme \<Rightarrow> 'z ciov_scheme res" where
  "userinit e initcode initcode_size s =
     bindE (allocproc s) (\<lambda>(r, s).
       let s = s\<lparr>initproc := r\<rparr> in
       case r of
         None \<Rightarrow> Inl (Fault ''userinit'')
       | Some p \<Rightarrow>
           bindE (setupkvm s) (\<lambda>(d, s).
             let s = upd_proc p (\<lambda>q. q\<lparr>p_pgdir := d\<rparr>) s in
             if d = 0 then Inl (Panic ''userinit: out of memory?'')
             else
               bindE (inituvm d initcode initcode_size s) (\<lambda>s.
                 let s = upd_proc p (\<lambda>q. q\<lparr>p_sz := PGSIZE, p_tf := user_tf, p_name := proc_name ''initcode''\<rparr>) s in
               bindE (namei e [SLASH] s) (\<lambda>(ip, s).
                 let s = upd_proc p (\<lambda>q. q\<lparr>p_cwd := ip\<rparr>) s in
               bindE (acquire Lk_ptable s) (\<lambda>s.
               release Lk_ptable (upd_proc p (\<lambda>q. q\<lparr>p_state := RUNNABLE\<rparr>) s))))))"

text \<open>The pid of the child, or \<open>None\<close> for -1.\<close>

definition fork :: "'z filev_scheme \<Rightarrow> (cint option \<times> 'z filev_scheme) res" where
  "fork s =
     bindE (curproc s) (\<lambda>(cur, s).
     bindE (allocproc s) (\<lambda>(r, s).
       case r of
         None \<Rightarrow> Inr (None, s)
       | Some np \<Rightarrow>
           bindE (copyuvm (p_pgdir (procs s cur)) (p_sz (procs s cur)) s) (\<lambda>(d, s).
             let s = upd_proc np (\<lambda>q. q\<lparr>p_pgdir := d\<rparr>) s in
             if d = 0 then
               bindE (kfree (p_kstack (procs s np)) s) (\<lambda>s.
               Inr (None, upd_proc np (\<lambda>q. q\<lparr>p_kstack := 0, p_state := UNUSED\<rparr>) s))
             else
               let s = upd_proc np (\<lambda>q. q\<lparr>p_sz := p_sz (procs s cur), p_parent := Some cur,
                                         p_tf := (p_tf (procs s cur))\<lparr>tf_eax := 0\<rparr>\<rparr>) s in
               bindE (foldE (\<lambda>i s.
                        case p_ofile (procs s cur) i of
                          None \<Rightarrow> Inr s
                        | Some f \<Rightarrow>
                            bindE (filedup f s) (\<lambda>s.
                            Inr (upd_proc np (\<lambda>q. q\<lparr>p_ofile := (p_ofile q)(i := Some f)\<rparr>) s))) [0..<NOFILE] s) (\<lambda>s.
               bindE (case p_cwd (procs s cur) of None \<Rightarrow> Inl (Fault ''cwd'') | Some ip \<Rightarrow> idup ip s) (\<lambda>(ip, s).
                 let s = upd_proc np (\<lambda>q. q\<lparr>p_cwd := Some ip, p_name := proc_name (p_name (procs s cur))\<rparr>) s;
                     pid = p_pid (procs s np) in
               bindE (acquire Lk_ptable s) (\<lambda>s.
               bindE (release Lk_ptable (upd_proc np (\<lambda>q. q\<lparr>p_priority := 1000, p_state := RUNNABLE\<rparr>) s)) (\<lambda>s.
               Inr (Some pid, s))))))))"

text \<open>\<open>wakeup1(p)\<close> where \<open>p\<close> may be null: no process sleeps on the null channel.\<close>

definition wakeup1_proc :: "nat option \<Rightarrow> 'z procv_scheme \<Rightarrow> 'z procv_scheme" where
  "wakeup1_proc p s = (case p of None \<Rightarrow> s | Some i \<Rightarrow> wakeup1 (Ch_proc i) s)"

text \<open>The loop of \<open>exit\<close> that hands the children over to init.\<close>

definition pass_children :: "nat \<Rightarrow> 'z procv_scheme \<Rightarrow> 'z procv_scheme" where
  "pass_children cur s =
     fold (\<lambda>p s.
       if p_parent (procs s p) = Some cur then
         let s = upd_proc p (\<lambda>q. q\<lparr>p_parent := initproc s\<rparr>) s
         in if p_state (procs s p) = ZOMBIE then wakeup1_proc (initproc s) s else s
       else s) ptable s"

definition exit :: "'z filev_scheme env \<Rightarrow> 'z filev_scheme \<Rightarrow> 'z filev_scheme res" where
  "exit e s =
     bindE (myproc s) (\<lambda>(cur, s).
       if cur = initproc s then Inl (Panic ''init exiting'')
       else case cur of
         None \<Rightarrow> Inl (Fault ''exit'')
       | Some i \<Rightarrow>
           bindE (foldE (\<lambda>fd s.
                    case p_ofile (procs s i) fd of
                      None \<Rightarrow> Inr s
                    | Some f \<Rightarrow>
                        bindE (fileclose e f s) (\<lambda>s.
                        Inr (upd_proc i (\<lambda>q. q\<lparr>p_ofile := (p_ofile q)(fd := None)\<rparr>) s))) [0..<NOFILE] s) (\<lambda>s.
           bindE (begin_op e s) (\<lambda>s.
           bindE (case p_cwd (procs s i) of None \<Rightarrow> Inl (Fault ''cwd'') | Some ip \<Rightarrow> iput e ip s) (\<lambda>s.
           bindE (end_op e s) (\<lambda>s.
             let s = upd_proc i (\<lambda>q. q\<lparr>p_cwd := None\<rparr>) s in
           bindE (acquire Lk_ptable s) (\<lambda>s.
             let s = wakeup1_proc (p_parent (procs s i)) s;
                 s = pass_children i s;
                 s = upd_proc i (\<lambda>q. q\<lparr>p_state := ZOMBIE\<rparr>) s in
           bindE (sched (e_sw e) s) (\<lambda>s. Inl (Panic ''zombie exit''))))))))"

definition forkret :: "'z forkv_scheme env \<Rightarrow> 'z forkv_scheme \<Rightarrow> 'z forkv_scheme res" where
  "forkret e s =
     bindE (release Lk_ptable s) (\<lambda>s.
       if forkret_first s then
         bindE (iinit e ROOTDEV (s\<lparr>forkret_first := False\<rparr>)) (initlog e ROOTDEV)
       else Inr s)"

end
