(* ===== verification/Syscall.thy ===== *)
theory Syscall
  imports Fork Pagefault
begin

text \<open>
  Arguments of system calls (src/source/syscall.c) and the system calls on processes
  (src/source/sysproc.c). The kernel reads and writes user memory through the page table the
  processor uses: \<open>uread\<close> and \<open>uwrite\<close> translate one address with the directory in \<open>cr3\<close>, a missing page
  is a \<open>Fault\<close>, and a store to a read-only page traps to \<open>pagefault\<close> and is then tried again (entry.S sets
  \<open>CR0_WP\<close>). A string argument is given by its characters. -1 is \<open>None\<close> or \<open>False\<close> in the helper
  functions and the word \<open>- 1\<close> in the system calls.
\<close>

section \<open>User memory\<close>

text \<open>The kernel address and the entry a user address translates to.\<close>

definition utrans :: "uint \<Rightarrow> 'z vmv_scheme \<Rightarrow> (uint \<times> uint) res" where
  "utrans va s =
     bindE (walkpgdir (P2V (cr3 s)) va False s) (\<lambda>(pte, _).
       case pte of
         None \<Rightarrow> Inl (Fault ''page fault'')
       | Some p \<Rightarrow>
           if has (ld_pte s p) PTE_P
           then Inr (P2V (PTE_ADDR (ld_pte s p)) + va mod PGSIZE, ld_pte s p)
           else Inl (Fault ''page fault''))"

definition uread :: "uint \<Rightarrow> 'z vmv_scheme \<Rightarrow> uchar res" where
  "uread va s = bindE (utrans va s) (\<lambda>(ka, _). Inr (ldb s ka))"

definition uwrite :: "uint \<Rightarrow> uchar \<Rightarrow> 'z procv_scheme \<Rightarrow> 'z procv_scheme res" where
  "uwrite va b s =
     bindE (utrans va s) (\<lambda>(ka, pte).
       if has pte PTE_W then Inr (stb ka b s)
       else
         bindE (pagefault (s\<lparr>cr2 := va\<rparr>)) (\<lambda>s.
         bindE (utrans va s) (\<lambda>(ka, pte). if has pte PTE_W then Inr (stb ka b s) else Inl Diverge)))"

text \<open>The bytes \<open>bs\<close> stored from a user address on, and \<open>n\<close> bytes read from there.\<close>

definition uwrites :: "uint \<Rightarrow> uchar list \<Rightarrow> 'z procv_scheme \<Rightarrow> 'z procv_scheme res" where
  "uwrites va bs s = foldE (\<lambda>i. uwrite (va + of_nat i) (bs ! i)) [0..<length bs] s"

fun ureads :: "nat \<Rightarrow> uint \<Rightarrow> 'z vmv_scheme \<Rightarrow> uchar list res" where
  "ureads 0 va s = Inr []"
| "ureads (Suc n) va s = bindE (uread va s) (\<lambda>c. bindE (ureads n (va + 1) s) (\<lambda>cs. Inr (c # cs)))"

text \<open>A word as its four bytes.\<close>

definition word_bytes :: "uint \<Rightarrow> uchar list" where
  "word_bytes w = [ucast w, ucast (drop_bit 8 w), ucast (drop_bit 16 w), ucast (drop_bit 24 w)]"

definition bytes_word :: "uchar list \<Rightarrow> uint" where
  "bytes_word bs = ld32 (\<lambda>i. bs ! i) 0"

section \<open>Arguments\<close>

definition fetchint :: "uint \<Rightarrow> 'z procv_scheme \<Rightarrow> (cint option \<times> 'z procv_scheme) res" where
  "fetchint addr s =
     bindE (curproc s) (\<lambda>(p, s).
       let sz = p_sz (procs s p) in
       if addr \<ge> sz \<or> addr + 4 > sz then Inr (None, s)
       else bindE (ureads 4 addr s) (\<lambda>bs. Inr (Some (bytes_word bs), s)))"

text \<open>The loop of \<open>fetchstr\<close> with \<open>n\<close> bytes left in the process.\<close>

fun fetchstr_loop :: "nat \<Rightarrow> uint \<Rightarrow> 'z vmv_scheme \<Rightarrow> uchar list option res" where
  "fetchstr_loop 0 a s = Inr None"
| "fetchstr_loop (Suc n) a s =
     bindE (uread a s) (\<lambda>c.
       if c = 0 then Inr (Some [])
       else bindE (fetchstr_loop n (a + 1) s) (\<lambda>r. Inr (map_option ((#) c) r)))"

definition fetchstr :: "uint \<Rightarrow> 'z procv_scheme \<Rightarrow> (uchar list option \<times> 'z procv_scheme) res" where
  "fetchstr addr s =
     bindE (curproc s) (\<lambda>(p, s).
       let sz = p_sz (procs s p) in
       if addr \<ge> sz then Inr (None, s)
       else bindE (fetchstr_loop (unat (sz - addr)) addr s) (\<lambda>r. Inr (r, s)))"

definition argint :: "nat \<Rightarrow> 'z procv_scheme \<Rightarrow> (cint option \<times> 'z procv_scheme) res" where
  "argint n s =
     bindE (curproc s) (\<lambda>(p, s). fetchint (tf_esp (p_tf (procs s p)) + 4 + 4 * of_nat n) s)"

definition argptr :: "nat \<Rightarrow> cint \<Rightarrow> 'z procv_scheme \<Rightarrow> (uint option \<times> 'z procv_scheme) res" where
  "argptr n len s =
     bindE (curproc s) (\<lambda>(p, s).
     bindE (argint n s) (\<lambda>(r, s).
       case r of
         None \<Rightarrow> Inr (None, s)
       | Some i \<Rightarrow>
           let sz = p_sz (procs s p) in
           if sint len < 0 \<or> i \<ge> sz \<or> i + len > sz then Inr (None, s) else Inr (Some i, s)))"

definition argstr :: "nat \<Rightarrow> 'z procv_scheme \<Rightarrow> (uchar list option \<times> 'z procv_scheme) res" where
  "argstr n s =
     bindE (argint n s) (\<lambda>(r, s). case r of None \<Rightarrow> Inr (None, s) | Some addr \<Rightarrow> fetchstr addr s)"

section \<open>System calls on processes\<close>

definition sys_fork :: "'z filev_scheme \<Rightarrow> (cint \<times> 'z filev_scheme) res" where
  "sys_fork s = bindE (fork s) (\<lambda>(r, s). Inr (case r of None \<Rightarrow> - 1 | Some pid \<Rightarrow> pid, s))"

definition sys_exit :: "'z filev_scheme env \<Rightarrow> 'z filev_scheme \<Rightarrow> (cint \<times> 'z filev_scheme) res" where
  "sys_exit e s = bindE (exit e s) (\<lambda>s. Inr (0, s))"

definition sys_wait :: "'z procv_scheme env \<Rightarrow> 'z procv_scheme \<Rightarrow> (cint \<times> 'z procv_scheme) res" where
  "sys_wait e s =
     bindE (wait (e_fuel e) (e_sw e) s) (\<lambda>(r, s). Inr (case r of None \<Rightarrow> - 1 | Some pid \<Rightarrow> pid, s))"

definition sys_kill :: "'z procv_scheme \<Rightarrow> (cint \<times> 'z procv_scheme) res" where
  "sys_kill s =
     bindE (argint 0 s) (\<lambda>(r, s).
       case r of
         None \<Rightarrow> Inr (- 1, s)
       | Some pid \<Rightarrow> bindE (kill pid s) (\<lambda>(ok, s). Inr (if ok then 0 else - 1, s)))"

definition sys_getpid :: "'z procv_scheme \<Rightarrow> (cint \<times> 'z procv_scheme) res" where
  "sys_getpid s = bindE (curproc s) (\<lambda>(p, s). Inr (p_pid (procs s p), s))"

definition sys_sbrk :: "'z procv_scheme \<Rightarrow> (cint \<times> 'z procv_scheme) res" where
  "sys_sbrk s =
     bindE (argint 0 s) (\<lambda>(r, s).
       case r of
         None \<Rightarrow> Inr (- 1, s)
       | Some n \<Rightarrow>
           bindE (curproc s) (\<lambda>(p, s).
             let addr = p_sz (procs s p) in
             bindE (growproc n s) (\<lambda>(ok, s). Inr (if ok then addr else - 1, s))))"

text \<open>The loop of \<open>sys_sleep\<close>, at most \<open>k\<close> sleeps; \<open>False\<close> when the process was killed.\<close>

fun sys_sleep_loop ::
  "nat \<Rightarrow> 'z procv_scheme env \<Rightarrow> uint \<Rightarrow> cint \<Rightarrow> 'z procv_scheme \<Rightarrow> (bool \<times> 'z procv_scheme) res" where
  "sys_sleep_loop k e ticks0 n s =
     (if ticks s - ticks0 < n then
        bindE (curproc s) (\<lambda>(p, s).
          if p_killed (procs s p) then Inr (False, s)
          else case k of 0 \<Rightarrow> Inl Diverge
               | Suc m \<Rightarrow> bindE (sleep (e_sw e) Ch_ticks Lk_ticks s) (sys_sleep_loop m e ticks0 n))
      else Inr (True, s))"

declare sys_sleep_loop.simps [simp del]

definition sys_sleep :: "'z procv_scheme env \<Rightarrow> 'z procv_scheme \<Rightarrow> (cint \<times> 'z procv_scheme) res" where
  "sys_sleep e s =
     bindE (argint 0 s) (\<lambda>(r, s).
       case r of
         None \<Rightarrow> Inr (- 1, s)
       | Some n \<Rightarrow>
           bindE (acquire Lk_ticks s) (\<lambda>s.
           bindE (sys_sleep_loop (e_fuel e) e (ticks s) n s) (\<lambda>(ok, s).
           bindE (release Lk_ticks s) (\<lambda>s. Inr (if ok then 0 else - 1, s)))))"

definition sys_uptime :: "'z procv_scheme \<Rightarrow> (cint \<times> 'z procv_scheme) res" where
  "sys_uptime s =
     bindE (acquire Lk_ticks s) (\<lambda>s.
       let xticks = ticks s in bindE (release Lk_ticks s) (\<lambda>s. Inr (xticks, s)))"

definition sys_incNum :: "cint \<Rightarrow> 'z procv_scheme \<Rightarrow> (cint \<times> 'z procv_scheme) res" where
  "sys_incNum num s =
     bindE (cprintf (''increased and print in kernel surface %d'' @ [CHR 0x0A]) [CInt (num + 1)] s) (\<lambda>s. Inr (22, s))"

definition sys_getprocs :: "'z procv_scheme \<Rightarrow> (cint \<times> 'z procv_scheme) res" where
  "sys_getprocs s = getprocs s"

text \<open>
  The four calls that set a field of a process do not check their arguments: an argument that cannot
  be fetched leaves a local variable without a value, which is a \<open>Fault\<close>.
\<close>

definition two_ints ::
  "(cint \<Rightarrow> cint \<Rightarrow> 'z procv_scheme \<Rightarrow> 'z procv_scheme) \<Rightarrow> 'z procv_scheme \<Rightarrow> 'z procv_scheme res" where
  "two_ints f s =
     bindE (argint 0 s) (\<lambda>(a, s).
     bindE (argint 1 s) (\<lambda>(b, s).
       case (a, b) of (Some x, Some pid) \<Rightarrow> Inr (f x pid s) | _ \<Rightarrow> Inl (Fault ''uninitialised'')))"

definition sys_set_burst_time :: "'z procv_scheme \<Rightarrow> 'z procv_scheme res" where
  "sys_set_burst_time s = two_ints find_and_set_burst_time s"

definition sys_set_priority :: "'z procv_scheme \<Rightarrow> 'z procv_scheme res" where
  "sys_set_priority s = two_ints find_and_set_priority s"

definition sys_set_lottery_ticket :: "'z procv_scheme \<Rightarrow> 'z procv_scheme res" where
  "sys_set_lottery_ticket s = two_ints find_and_set_lottery_ticket s"

definition sys_set_sched_queue :: "'z procv_scheme \<Rightarrow> 'z procv_scheme res" where
  "sys_set_sched_queue s = two_ints find_and_set_sched_queue s"

definition sys_show_processes_scheduling :: "'z procv_scheme \<Rightarrow> 'z procv_scheme res" where
  "sys_show_processes_scheduling s = show_all_processes_scheduling s"

definition sys_getNumFreePages :: "'z kmemv_scheme \<Rightarrow> (cint \<times> 'z kmemv_scheme) res" where
  "sys_getNumFreePages s = getNumFreePages s"

end
