(* ===== verification/Fcntl.thy ===== *)
theory Fcntl
  imports Prelude
begin

text \<open>The modes of \<open>open\<close>, src/source/fcntl.h.\<close>

abbreviation (input) O_RDONLY :: cint where "O_RDONLY \<equiv> 0x000"
abbreviation (input) O_WRONLY :: cint where "O_WRONLY \<equiv> 0x001"
abbreviation (input) O_RDWR :: cint where "O_RDWR \<equiv> 0x002"
abbreviation (input) O_CREATE :: cint where "O_CREATE \<equiv> 0x200"

end
