(* ===== verification/Sysfile.thy ===== *)
theory Sysfile
  imports Syscall Fcntl
begin

text \<open>
  The system calls on files (src/source/sysfile.c). Each returns the word the code returns. What a
  read leaves in the caller's buffer is stored byte by byte with \<open>uwrite\<close> after the file layer has
  returned it; what a write takes is read before.
\<close>

section \<open>Descriptors\<close>

text \<open>The descriptor and the file; \<open>None\<close> is -1.\<close>

definition argfd :: "nat \<Rightarrow> 'z procv_scheme \<Rightarrow> ((nat \<times> nat) option \<times> 'z procv_scheme) res" where
  "argfd n s =
     bindE (argint n s) (\<lambda>(r, s).
       case r of
         None \<Rightarrow> Inr (None, s)
       | Some fd \<Rightarrow>
           if sint fd < 0 \<or> sint fd \<ge> int NOFILE then Inr (None, s)
           else
             bindE (curproc s) (\<lambda>(p, s).
               case p_ofile (procs s p) (unat fd) of
                 None \<Rightarrow> Inr (None, s)
               | Some f \<Rightarrow> Inr (Some (unat fd, f), s)))"

definition fdalloc :: "nat \<Rightarrow> 'z procv_scheme \<Rightarrow> (nat option \<times> 'z procv_scheme) res" where
  "fdalloc f s =
     bindE (curproc s) (\<lambda>(p, s).
       case find (\<lambda>fd. p_ofile (procs s p) fd = None) [0..<NOFILE] of
         None \<Rightarrow> Inr (None, s)
       | Some fd \<Rightarrow> Inr (Some fd, upd_proc p (\<lambda>q. q\<lparr>p_ofile := (p_ofile q)(fd := Some f)\<rparr>) s))"

definition sys_dup :: "'z filev_scheme \<Rightarrow> (cint \<times> 'z filev_scheme) res" where
  "sys_dup s =
     bindE (argfd 0 s) (\<lambda>(r, s).
       case r of
         None \<Rightarrow> Inr (- 1, s)
       | Some (_, f) \<Rightarrow>
           bindE (fdalloc f s) (\<lambda>(r, s).
             case r of
               None \<Rightarrow> Inr (- 1, s)
             | Some fd \<Rightarrow> bindE (filedup f s) (\<lambda>s. Inr (of_nat fd, s))))"

text \<open>The three arguments of \<open>sys_read\<close> and \<open>sys_write\<close>: the file, the buffer and its length.\<close>

definition rw_args :: "'z procv_scheme \<Rightarrow> ((nat \<times> uint \<times> cint) option \<times> 'z procv_scheme) res" where
  "rw_args s =
     bindE (argfd 0 s) (\<lambda>(r, s).
       case r of
         None \<Rightarrow> Inr (None, s)
       | Some (_, f) \<Rightarrow>
           bindE (argint 2 s) (\<lambda>(r, s).
             case r of
               None \<Rightarrow> Inr (None, s)
             | Some n \<Rightarrow>
                 bindE (argptr 1 n s) (\<lambda>(r, s).
                   case r of None \<Rightarrow> Inr (None, s) | Some p \<Rightarrow> Inr (Some (f, p, n), s))))"

definition sys_read :: "'z filev_scheme env \<Rightarrow> 'z filev_scheme \<Rightarrow> (cint \<times> 'z filev_scheme) res" where
  "sys_read e s =
     bindE (rw_args s) (\<lambda>(r, s).
       case r of
         None \<Rightarrow> Inr (- 1, s)
       | Some (f, p, n) \<Rightarrow>
           bindE (fileread e f n s) (\<lambda>(r, s).
             case r of
               None \<Rightarrow> Inr (- 1, s)
             | Some bs \<Rightarrow> bindE (uwrites p bs s) (\<lambda>s. Inr (of_nat (length bs), s))))"

definition sys_write :: "'z filev_scheme env \<Rightarrow> 'z filev_scheme \<Rightarrow> (cint \<times> 'z filev_scheme) res" where
  "sys_write e s =
     bindE (rw_args s) (\<lambda>(r, s).
       case r of
         None \<Rightarrow> Inr (- 1, s)
       | Some (f, p, n) \<Rightarrow>
           bindE (ureads (nat (sint n)) p s) (\<lambda>bs.
           bindE (filewrite e f bs s) (\<lambda>(ok, s). Inr (if ok then n else - 1, s))))"

definition sys_close :: "'z filev_scheme env \<Rightarrow> 'z filev_scheme \<Rightarrow> (cint \<times> 'z filev_scheme) res" where
  "sys_close e s =
     bindE (argfd 0 s) (\<lambda>(r, s).
       case r of
         None \<Rightarrow> Inr (- 1, s)
       | Some (fd, f) \<Rightarrow>
           bindE (curproc s) (\<lambda>(p, s).
             let s = upd_proc p (\<lambda>q. q\<lparr>p_ofile := (p_ofile q)(fd := None)\<rparr>) s in
             bindE (fileclose e f s) (\<lambda>s. Inr (0, s))))"

text \<open>\<open>struct stat\<close> in memory: the short fields are followed by two bytes of padding.\<close>

definition stat_bytes :: "stat \<Rightarrow> uint \<Rightarrow> (uint \<times> uchar list) list" where
  "stat_bytes st a =
     [(a, take 2 (word_bytes (ucast (st_type st)))), (a + 4, word_bytes (st_dev st)), (a + 8, word_bytes (st_ino st)),
      (a + 12, take 2 (word_bytes (ucast (st_nlink st)))), (a + 16, word_bytes (st_size st))]"

definition sys_fstat :: "'z filev_scheme env \<Rightarrow> 'z filev_scheme \<Rightarrow> (cint \<times> 'z filev_scheme) res" where
  "sys_fstat e s =
     bindE (argfd 0 s) (\<lambda>(r, s).
       case r of
         None \<Rightarrow> Inr (- 1, s)
       | Some (_, f) \<Rightarrow>
           bindE (argptr 1 20 s) (\<lambda>(r, s).
             case r of
               None \<Rightarrow> Inr (- 1, s)
             | Some a \<Rightarrow>
                 bindE (filestat e f s) (\<lambda>(r, s).
                   case r of
                     None \<Rightarrow> Inr (- 1, s)
                   | Some st \<Rightarrow> bindE (foldE (\<lambda>(p, bs). uwrites p bs) (stat_bytes st a) s) (\<lambda>s. Inr (0, s)))))"

section \<open>Links\<close>

text \<open>The label \<open>bad\<close> of \<open>sys_link\<close>: the link count is taken back.\<close>

definition link_bad :: "'z filev_scheme env \<Rightarrow> nat \<Rightarrow> 'z filev_scheme \<Rightarrow> (cint \<times> 'z filev_scheme) res" where
  "link_bad e ip s =
     bindE (ilock e ip s) (\<lambda>s.
     bindE (iupdate e ip (upd_inode ip (\<lambda>x. x\<lparr>i_nlink := i_nlink x - 1\<rparr>) s)) (\<lambda>s.
     bindE (iunlockput e ip s) (\<lambda>s.
     bindE (end_op e s) (\<lambda>s. Inr (- 1, s)))))"

definition sys_link :: "'z filev_scheme env \<Rightarrow> 'z filev_scheme \<Rightarrow> (cint \<times> 'z filev_scheme) res" where
  "sys_link e s =
     bindE (argstr 0 s) (\<lambda>(r, s).
       case r of
         None \<Rightarrow> Inr (- 1, s)
       | Some old \<Rightarrow>
     bindE (argstr 1 s) (\<lambda>(r, s).
       case r of
         None \<Rightarrow> Inr (- 1, s)
       | Some new \<Rightarrow>
     bindE (begin_op e s) (\<lambda>s.
     bindE (namei e old s) (\<lambda>(r, s).
       case r of
         None \<Rightarrow> bindE (end_op e s) (\<lambda>s. Inr (- 1, s))
       | Some ip \<Rightarrow>
     bindE (ilock e ip s) (\<lambda>s.
       if i_type (inodes s ip) = T_DIR then
         bindE (iunlockput e ip s) (\<lambda>s. bindE (end_op e s) (\<lambda>s. Inr (- 1, s)))
       else
     bindE (iupdate e ip (upd_inode ip (\<lambda>x. x\<lparr>i_nlink := i_nlink x + 1\<rparr>) s)) (\<lambda>s.
     bindE (iunlock ip s) (\<lambda>s.
     bindE (nameiparent e new s) (\<lambda>(r, s).
       case r of
         None \<Rightarrow> link_bad e ip s
       | Some (dp, nm) \<Rightarrow>
     bindE (ilock e dp s) (\<lambda>s.
     bindE (if i_dev (inodes s dp) \<noteq> i_dev (inodes s ip) then Inr (False, s)
            else dirlink e dp nm (i_inum (inodes s ip)) s) (\<lambda>(ok, s).
       if \<not> ok then bindE (iunlockput e dp s) (link_bad e ip)
       else
     bindE (iunlockput e dp s) (\<lambda>s.
     bindE (iput e ip s) (\<lambda>s.
     bindE (end_op e s) (\<lambda>s. Inr (0, s))))))))))))))"

text \<open>The loop of \<open>isdirempty\<close>, past the entries of \<open>.\<close> and \<open>..\<close>.\<close>

fun isdirempty_loop ::
  "'z ciov_scheme env \<Rightarrow> nat \<Rightarrow> nat list \<Rightarrow> 'z ciov_scheme \<Rightarrow> (bool \<times> 'z ciov_scheme) res" where
  "isdirempty_loop e dp [] s = Inr (True, s)"
| "isdirempty_loop e dp (k # ks) s =
     bindE (readi e dp (of_nat (16 * k)) 16 s) (\<lambda>(r, s).
       case r of
         None \<Rightarrow> Inl (Panic ''isdirempty: readi'')
       | Some bs \<Rightarrow>
           if length bs \<noteq> 16 then Inl (Panic ''isdirempty: readi'')
           else if de_inum (ld_dirent bs) \<noteq> 0 then Inr (False, s)
           else isdirempty_loop e dp ks s)"

definition isdirempty :: "'z ciov_scheme env \<Rightarrow> nat \<Rightarrow> 'z ciov_scheme \<Rightarrow> (bool \<times> 'z ciov_scheme) res" where
  "isdirempty e dp s = isdirempty_loop e dp (drop 2 (entries dp s)) s"

text \<open>The label \<open>bad\<close> of \<open>sys_unlink\<close>.\<close>

definition unlink_bad :: "'z filev_scheme env \<Rightarrow> nat \<Rightarrow> 'z filev_scheme \<Rightarrow> (cint \<times> 'z filev_scheme) res" where
  "unlink_bad e dp s = bindE (iunlockput e dp s) (\<lambda>s. bindE (end_op e s) (\<lambda>s. Inr (- 1, s)))"

definition sys_unlink :: "'z filev_scheme env \<Rightarrow> 'z filev_scheme \<Rightarrow> (cint \<times> 'z filev_scheme) res" where
  "sys_unlink e s =
     bindE (argstr 0 s) (\<lambda>(r, s).
       case r of
         None \<Rightarrow> Inr (- 1, s)
       | Some path \<Rightarrow>
     bindE (begin_op e s) (\<lambda>s.
     bindE (nameiparent e path s) (\<lambda>(r, s).
       case r of
         None \<Rightarrow> bindE (end_op e s) (\<lambda>s. Inr (- 1, s))
       | Some (dp, nm) \<Rightarrow>
     bindE (ilock e dp s) (\<lambda>s.
       if namecmp nm [0x2E] = 0 \<or> namecmp nm [0x2E, 0x2E] = 0 then unlink_bad e dp s
       else
     bindE (dirlookup e dp nm s) (\<lambda>(r, s).
       case r of
         None \<Rightarrow> unlink_bad e dp s
       | Some (ip, off) \<Rightarrow>
     bindE (ilock e ip s) (\<lambda>s.
       if sint (i_nlink (inodes s ip)) < 1 then Inl (Panic ''unlink: nlink < 1'')
       else
     bindE (if i_type (inodes s ip) = T_DIR then isdirempty e ip s else Inr (True, s)) (\<lambda>(empty, s).
       if \<not> empty then bindE (iunlockput e ip s) (unlink_bad e dp)
       else
     bindE (writei e dp (replicate 16 0) off s) (\<lambda>(ok, s).
       if \<not> ok then Inl (Panic ''unlink: writei'')
       else
     bindE (if i_type (inodes s ip) = T_DIR
            then iupdate e dp (upd_inode dp (\<lambda>x. x\<lparr>i_nlink := i_nlink x - 1\<rparr>) s) else Inr s) (\<lambda>s.
     bindE (iunlockput e dp s) (\<lambda>s.
     bindE (iupdate e ip (upd_inode ip (\<lambda>x. x\<lparr>i_nlink := i_nlink x - 1\<rparr>) s)) (\<lambda>s.
     bindE (iunlockput e ip s) (\<lambda>s.
     bindE (end_op e s) (\<lambda>s. Inr (0, s))))))))))))))"

section \<open>Creating and opening\<close>

text \<open>The entries \<open>.\<close> and \<open>..\<close> of a new directory; the result says whether both were written.\<close>

definition create_dots :: "'z ciov_scheme env \<Rightarrow> nat \<Rightarrow> nat \<Rightarrow> 'z ciov_scheme \<Rightarrow> (bool \<times> 'z ciov_scheme) res" where
  "create_dots e ip dp s =
     bindE (dirlink e ip [0x2E] (i_inum (inodes s ip)) s) (\<lambda>(ok, s).
       if \<not> ok then Inr (False, s) else dirlink e ip [0x2E, 0x2E] (i_inum (inodes s dp)) s)"

definition create ::
  "'z ciov_scheme env \<Rightarrow> uchar list \<Rightarrow> ushort \<Rightarrow> ushort \<Rightarrow> ushort \<Rightarrow> 'z ciov_scheme \<Rightarrow>
   (nat option \<times> 'z ciov_scheme) res" where
  "create e path ty major minor s =
     bindE (nameiparent e path s) (\<lambda>(r, s).
       case r of
         None \<Rightarrow> Inr (None, s)
       | Some (dp, nm) \<Rightarrow>
     bindE (ilock e dp s) (\<lambda>s.
     bindE (dirlookup e dp nm s) (\<lambda>(r, s).
       case r of
         Some (ip, _) \<Rightarrow>
           bindE (iunlockput e dp s) (\<lambda>s.
           bindE (ilock e ip s) (\<lambda>s.
             if ty = T_FILE \<and> i_type (inodes s ip) = T_FILE then Inr (Some ip, s)
             else bindE (iunlockput e ip s) (\<lambda>s. Inr (None, s))))
       | None \<Rightarrow>
     bindE (ialloc e (i_dev (inodes s dp)) ty s) (\<lambda>(ip, s).
     bindE (ilock e ip s) (\<lambda>s.
     bindE (iupdate e ip (upd_inode ip (\<lambda>x. x\<lparr>i_major := major, i_minor := minor, i_nlink := 1\<rparr>) s)) (\<lambda>s.
     bindE (if ty = T_DIR then
              bindE (iupdate e dp (upd_inode dp (\<lambda>x. x\<lparr>i_nlink := i_nlink x + 1\<rparr>) s)) (\<lambda>s.
              bindE (create_dots e ip dp s) (\<lambda>(ok, s). if ok then Inr s else Inl (Panic ''create dots'')))
            else Inr s) (\<lambda>s.
     bindE (dirlink e dp nm (i_inum (inodes s ip)) s) (\<lambda>(ok, s).
       if \<not> ok then Inl (Panic ''create: dirlink'')
       else bindE (iunlockput e dp s) (\<lambda>s. Inr (Some ip, s))))))))))"

text \<open>The two ways \<open>sys_open\<close> gets its inode, locked; \<open>None\<close> when it fails.\<close>

definition open_inode ::
  "'z filev_scheme env \<Rightarrow> uchar list \<Rightarrow> cint \<Rightarrow> 'z filev_scheme \<Rightarrow> (nat option \<times> 'z filev_scheme) res" where
  "open_inode e path omode s =
     (if omode AND O_CREATE \<noteq> 0 then create e path T_FILE 0 0 s
      else
        bindE (namei e path s) (\<lambda>(r, s).
          case r of
            None \<Rightarrow> Inr (None, s)
          | Some ip \<Rightarrow>
              bindE (ilock e ip s) (\<lambda>s.
                if i_type (inodes s ip) = T_DIR \<and> omode \<noteq> O_RDONLY
                then bindE (iunlockput e ip s) (\<lambda>s. Inr (None, s)) else Inr (Some ip, s))))"

definition sys_open :: "'z filev_scheme env \<Rightarrow> 'z filev_scheme \<Rightarrow> (cint \<times> 'z filev_scheme) res" where
  "sys_open e s =
     bindE (argstr 0 s) (\<lambda>(r, s).
       case r of
         None \<Rightarrow> Inr (- 1, s)
       | Some path \<Rightarrow>
     bindE (argint 1 s) (\<lambda>(r, s).
       case r of
         None \<Rightarrow> Inr (- 1, s)
       | Some omode \<Rightarrow>
     bindE (begin_op e s) (\<lambda>s.
     bindE (open_inode e path omode s) (\<lambda>(r, s).
       case r of
         None \<Rightarrow> bindE (end_op e s) (\<lambda>s. Inr (- 1, s))
       | Some ip \<Rightarrow>
     bindE (filealloc s) (\<lambda>(rfile, s).
     bindE (case rfile of None \<Rightarrow> Inr (None, s) | Some f \<Rightarrow> fdalloc f s) (\<lambda>(rfd, s).
       case (rfile, rfd) of
         (Some f, Some fd) \<Rightarrow>
           bindE (iunlock ip s) (\<lambda>s.
           bindE (end_op e s) (\<lambda>s.
           Inr (of_nat fd, upd_file f (\<lambda>x. x\<lparr>f_type := FD_INODE, f_ip := ip, f_off := 0,
             f_readable := (omode AND O_WRONLY = 0),
             f_writable := (omode AND O_WRONLY \<noteq> 0 \<or> omode AND O_RDWR \<noteq> 0)\<rparr>) s)))
       | _ \<Rightarrow>
           bindE (case rfile of None \<Rightarrow> Inr s | Some f \<Rightarrow> fileclose e f s) (\<lambda>s.
           bindE (iunlockput e ip s) (\<lambda>s.
           bindE (end_op e s) (\<lambda>s. Inr (- 1, s))))))))))"

text \<open>The end of \<open>sys_mkdir\<close> and \<open>sys_mknod\<close>, after \<open>create\<close> or a failed argument.\<close>

definition made :: "'z filev_scheme env \<Rightarrow> nat option \<times> 'z filev_scheme \<Rightarrow> (cint \<times> 'z filev_scheme) res" where
  "made e r =
     (case r of
        (None, s) \<Rightarrow> bindE (end_op e s) (\<lambda>s. Inr (- 1, s))
      | (Some ip, s) \<Rightarrow> bindE (iunlockput e ip s) (\<lambda>s. bindE (end_op e s) (\<lambda>s. Inr (0, s))))"

definition sys_mkdir :: "'z filev_scheme env \<Rightarrow> 'z filev_scheme \<Rightarrow> (cint \<times> 'z filev_scheme) res" where
  "sys_mkdir e s =
     bindE (begin_op e s) (\<lambda>s.
     bindE (argstr 0 s) (\<lambda>(r, s).
     bindE (case r of None \<Rightarrow> Inr (None, s) | Some path \<Rightarrow> create e path T_DIR 0 0 s) (made e)))"

definition sys_mknod :: "'z filev_scheme env \<Rightarrow> 'z filev_scheme \<Rightarrow> (cint \<times> 'z filev_scheme) res" where
  "sys_mknod e s =
     bindE (begin_op e s) (\<lambda>s.
     bindE (argstr 0 s) (\<lambda>(r, s).
       case r of
         None \<Rightarrow> made e (None, s)
       | Some path \<Rightarrow>
     bindE (argint 1 s) (\<lambda>(r, s).
       case r of
         None \<Rightarrow> made e (None, s)
       | Some major \<Rightarrow>
     bindE (argint 2 s) (\<lambda>(r, s).
       case r of
         None \<Rightarrow> made e (None, s)
       | Some minor \<Rightarrow> bindE (create e path T_DEV (ucast major) (ucast minor) s) (made e)))))"

definition sys_chdir :: "'z filev_scheme env \<Rightarrow> 'z filev_scheme \<Rightarrow> (cint \<times> 'z filev_scheme) res" where
  "sys_chdir e s =
     bindE (curproc s) (\<lambda>(p, s).
     bindE (begin_op e s) (\<lambda>s.
     bindE (argstr 0 s) (\<lambda>(r, s).
     bindE (case r of None \<Rightarrow> Inr (None, s) | Some path \<Rightarrow> namei e path s) (\<lambda>(r, s).
       case r of
         None \<Rightarrow> bindE (end_op e s) (\<lambda>s. Inr (- 1, s))
       | Some ip \<Rightarrow>
     bindE (ilock e ip s) (\<lambda>s.
       if i_type (inodes s ip) \<noteq> T_DIR then
         bindE (iunlockput e ip s) (\<lambda>s. bindE (end_op e s) (\<lambda>s. Inr (- 1, s)))
       else
     bindE (iunlock ip s) (\<lambda>s.
     bindE (case p_cwd (procs s p) of None \<Rightarrow> Inl (Fault ''cwd'') | Some old \<Rightarrow> iput e old s) (\<lambda>s.
     bindE (end_op e s) (\<lambda>s.
     Inr (0, upd_proc p (\<lambda>q. q\<lparr>p_cwd := Some ip\<rparr>) s)))))))))"

definition sys_pipe :: "'z filev_scheme env \<Rightarrow> 'z filev_scheme \<Rightarrow> (cint \<times> 'z filev_scheme) res" where
  "sys_pipe e s =
     bindE (argptr 0 8 s) (\<lambda>(r, s).
       case r of
         None \<Rightarrow> Inr (- 1, s)
       | Some fd \<Rightarrow>
     bindE (pipealloc e s) (\<lambda>(r, s).
       case r of
         None \<Rightarrow> Inr (- 1, s)
       | Some (rfile, wfile) \<Rightarrow>
     bindE (fdalloc rfile s) (\<lambda>(fd0, s).
     bindE (case fd0 of None \<Rightarrow> Inr (None, s) | Some _ \<Rightarrow> fdalloc wfile s) (\<lambda>(fd1, s).
       case (fd0, fd1) of
         (Some a, Some b) \<Rightarrow>
           bindE (uwrites fd (word_bytes (of_nat a)) s) (\<lambda>s.
           bindE (uwrites (fd + 4) (word_bytes (of_nat b)) s) (\<lambda>s. Inr (0, s)))
       | _ \<Rightarrow>
           bindE (case fd0 of
                    None \<Rightarrow> Inr s
                  | Some a \<Rightarrow>
                      bindE (curproc s) (\<lambda>(p, s).
                      Inr (upd_proc p (\<lambda>q. q\<lparr>p_ofile := (p_ofile q)(a := None)\<rparr>) s))) (\<lambda>s.
           bindE (fileclose e rfile s) (\<lambda>s.
           bindE (fileclose e wfile s) (\<lambda>s. Inr (- 1, s))))))))"

end
