(* ===== verification/Exec.thy ===== *)
theory Exec
  imports Sysfile
begin

text \<open>
  Running a program (\<open>exec\<close> of src/source/exec.c, \<open>loaduvm\<close> of src/source/vm.c, \<open>sys_exec\<close> of
  src/source/sysfile.c and the headers of src/source/elf.h). The arguments are C strings given by
  their characters; \<open>ustack\<close> is written to the new stack as bytes.
\<close>

section \<open>Program headers\<close>

abbreviation (input) ELF_MAGIC :: uint where "ELF_MAGIC \<equiv> 0x464C457F"
abbreviation (input) ELF_PROG_LOAD :: uint where "ELF_PROG_LOAD \<equiv> 1"

record elfhdr =
  elf_magic :: uint
  elf_elf :: "uchar list"
  elf_type :: ushort
  elf_machine :: ushort
  elf_version :: uint
  elf_entry :: uint
  elf_phoff :: uint
  elf_shoff :: uint
  elf_flags :: uint
  elf_ehsize :: ushort
  elf_phentsize :: ushort
  elf_phnum :: ushort
  elf_shentsize :: ushort
  elf_shnum :: ushort
  elf_shstrndx :: ushort

record proghdr =
  ph_type :: uint
  ph_off :: uint
  ph_vaddr :: uint
  ph_paddr :: uint
  ph_filesz :: uint
  ph_memsz :: uint
  ph_flags :: uint
  ph_align :: uint

definition ld_elfhdr :: "uchar list \<Rightarrow> elfhdr" where
  "ld_elfhdr bs =
     (let d = (\<lambda>i. bs ! i)
      in \<lparr>elf_magic = ld32 d 0, elf_elf = take 12 (drop 4 bs), elf_type = ld16 d 16, elf_machine = ld16 d 18,
          elf_version = ld32 d 20, elf_entry = ld32 d 24, elf_phoff = ld32 d 28, elf_shoff = ld32 d 32,
          elf_flags = ld32 d 36, elf_ehsize = ld16 d 40, elf_phentsize = ld16 d 42, elf_phnum = ld16 d 44,
          elf_shentsize = ld16 d 46, elf_shnum = ld16 d 48, elf_shstrndx = ld16 d 50\<rparr>)"

definition ld_proghdr :: "uchar list \<Rightarrow> proghdr" where
  "ld_proghdr bs =
     (let d = (\<lambda>i. bs ! i)
      in \<lparr>ph_type = ld32 d 0, ph_off = ld32 d 4, ph_vaddr = ld32 d 8, ph_paddr = ld32 d 12, ph_filesz = ld32 d 16,
          ph_memsz = ld32 d 20, ph_flags = ld32 d 24, ph_align = ld32 d 28\<rparr>)"

section \<open>Loading\<close>

text \<open>
  The loop of \<open>loaduvm\<close> over the page indices; \<open>False\<close> is -1. The bytes read are stored at the kernel
  address of the page.
\<close>

fun loaduvm_loop ::
  "'z ciov_scheme env \<Rightarrow> uint \<Rightarrow> uint \<Rightarrow> nat \<Rightarrow> uint \<Rightarrow> uint \<Rightarrow> nat list \<Rightarrow> 'z ciov_scheme \<Rightarrow> (bool \<times> 'z ciov_scheme) res"
where
  "loaduvm_loop e pgdir addr ip offset sz [] s = Inr (True, s)"
| "loaduvm_loop e pgdir addr ip offset sz (k # ks) s =
     (let i = of_nat k * PGSIZE in
      bindE (walkpgdir pgdir (addr + i) False s) (\<lambda>(pte, s).
        case pte of
          None \<Rightarrow> Inl (Panic ''loaduvm: address should exist'')
        | Some p \<Rightarrow>
            let pa = PTE_ADDR (ld_pte s p);
                n = (if sz - i < PGSIZE then sz - i else PGSIZE) in
            bindE (readi e ip (offset + i) n s) (\<lambda>(r, s).
              case r of
                None \<Rightarrow> Inr (False, s)
              | Some bs \<Rightarrow>
                  let s = memmove_in (length bs) (P2V pa) (\<lambda>j. bs ! j) s in
                  if length bs \<noteq> unat n then Inr (False, s)
                  else loaduvm_loop e pgdir addr ip offset sz ks s)))"

definition loaduvm ::
  "'z ciov_scheme env \<Rightarrow> uint \<Rightarrow> uint \<Rightarrow> nat \<Rightarrow> uint \<Rightarrow> uint \<Rightarrow> 'z ciov_scheme \<Rightarrow> (bool \<times> 'z ciov_scheme) res" where
  "loaduvm e pgdir addr ip offset sz s =
     (if addr mod PGSIZE \<noteq> 0 then Inl (Panic ''loaduvm: addr must be page aligned'')
      else loaduvm_loop e pgdir addr ip offset sz [0..<(unat sz + 4095) div 4096] s)"

text \<open>The loop over the program headers; the result is the size, or \<open>None\<close> for \<open>goto bad\<close>.\<close>

fun load_segments ::
  "'z ciov_scheme env \<Rightarrow> uint \<Rightarrow> nat \<Rightarrow> uint \<Rightarrow> nat \<Rightarrow> uint \<Rightarrow> 'z ciov_scheme \<Rightarrow> (uint option \<times> 'z ciov_scheme) res"
where
  "load_segments e pgdir ip off 0 sz s = Inr (Some sz, s)"
| "load_segments e pgdir ip off (Suc n) sz s =
     bindE (readi e ip off 32 s) (\<lambda>(r, s).
       case r of
         None \<Rightarrow> Inr (None, s)
       | Some bs \<Rightarrow>
           if length bs \<noteq> 32 then Inr (None, s)
           else
             let ph = ld_proghdr bs in
             if ph_type ph \<noteq> ELF_PROG_LOAD then load_segments e pgdir ip (off + 32) n sz s
             else if ph_memsz ph < ph_filesz ph then Inr (None, s)
             else if ph_vaddr ph + ph_memsz ph < ph_vaddr ph then Inr (None, s)
             else
               bindE (allocuvm pgdir sz (ph_vaddr ph + ph_memsz ph) s) (\<lambda>(sz, s).
                 if sz = 0 then Inr (None, s)
                 else if ph_vaddr ph mod PGSIZE \<noteq> 0 then Inr (None, s)
                 else
                   bindE (loaduvm e pgdir (ph_vaddr ph) ip (ph_off ph) (ph_filesz ph) s) (\<lambda>(ok, s).
                     if ok then load_segments e pgdir ip (off + 32) n sz s else Inr (None, s))))"

section \<open>The new stack\<close>

text \<open>
  The loop that pushes the argument strings: the stack pointer and the addresses of the strings.
\<close>

fun push_args ::
  "uint \<Rightarrow> nat \<Rightarrow> uint \<Rightarrow> uint list \<Rightarrow> uchar list list \<Rightarrow> 'z vmv_scheme \<Rightarrow> ((uint \<times> uint list) option \<times> 'z vmv_scheme) res"
where
  "push_args pgdir argc sp ps [] s = Inr (Some (sp, ps), s)"
| "push_args pgdir argc sp ps (a # as) s =
     (if argc \<ge> MAXARG then Inr (None, s)
      else
        let sp = (sp - (of_nat (length a) + 1)) AND NOT 3;
            str = (\<lambda>i. if i < length a then a ! i else 0) in
        bindE (copyout pgdir sp str (of_nat (length a) + 1) s) (\<lambda>(ok, s).
          if \<not> ok then Inr (None, s) else push_args pgdir (argc + 1) sp (ps @ [sp]) as s))"

text \<open>\<open>ustack\<close>: a return address, \<open>argc\<close>, \<open>argv\<close>, the addresses of the strings and a null.\<close>

definition ustack :: "uint \<Rightarrow> uint list \<Rightarrow> uint list" where
  "ustack sp ps =
     [0xffffffff, of_nat (length ps), sp - (of_nat (length ps) + 1) * 4] @ ps @ [0]"

text \<open>The part of the path after the last slash.\<close>

definition last_elem :: "uchar list \<Rightarrow> uchar list" where
  "last_elem path = rev (takeWhile (\<lambda>c. c \<noteq> SLASH) (rev path))"

section \<open>exec\<close>

text \<open>The label \<open>bad\<close>: \<open>pgdir\<close> is freed when it is not 0, \<open>ip\<close> released when it is still held.\<close>

definition exec_bad ::
  "'z filev_scheme env \<Rightarrow> uint \<Rightarrow> nat option \<Rightarrow> 'z filev_scheme \<Rightarrow> (cint \<times> 'z filev_scheme) res" where
  "exec_bad e pgdir ip s =
     bindE (if pgdir \<noteq> 0 then freevm pgdir s else Inr s) (\<lambda>s.
     bindE (case ip of None \<Rightarrow> Inr s | Some i \<Rightarrow> bindE (iunlockput e i s) (end_op e)) (\<lambda>s. Inr (- 1, s)))"

text \<open>The stack, the arguments and the switch to the new image.\<close>

definition exec_commit ::
  "'z filev_scheme env \<Rightarrow> nat \<Rightarrow> uint \<Rightarrow> uint \<Rightarrow> uint \<Rightarrow> uchar list \<Rightarrow> uchar list list \<Rightarrow> 'z filev_scheme \<Rightarrow>
   (cint \<times> 'z filev_scheme) res" where
  "exec_commit e cur pgdir sz entry path argv s =
     (let sz = PGROUNDUP sz in
      bindE (allocuvm pgdir sz (sz + 2 * PGSIZE) s) (\<lambda>(sz, s).
        if sz = 0 then exec_bad e pgdir None s
        else
      bindE (clearpteu pgdir (sz - 2 * PGSIZE) s) (\<lambda>s.
      bindE (push_args pgdir 0 sz [] argv s) (\<lambda>(r, s).
        case r of
          None \<Rightarrow> exec_bad e pgdir None s
        | Some (sp, ps) \<Rightarrow>
            let us = concat (map word_bytes (ustack sp ps));
                sp = sp - (3 + of_nat (length ps) + 1) * 4 in
      bindE (copyout pgdir sp (\<lambda>i. us ! i) (of_nat (length us)) s) (\<lambda>(ok, s).
        if \<not> ok then exec_bad e pgdir None s
        else
          let oldpgdir = p_pgdir (procs s cur);
              s = upd_proc cur (\<lambda>q. q\<lparr>p_name := proc_name (map (char_of \<circ> unat) (last_elem path)),
                    p_pgdir := pgdir, p_sz := sz, p_tf := (p_tf q)\<lparr>tf_eip := entry, tf_esp := sp\<rparr>\<rparr>) s in
      bindE (switchuvm (Some cur) s) (\<lambda>s.
      bindE (freevm oldpgdir s) (\<lambda>s. Inr (0, s))))))))"

definition exec ::
  "'z filev_scheme env \<Rightarrow> uchar list \<Rightarrow> uchar list list \<Rightarrow> 'z filev_scheme \<Rightarrow> (cint \<times> 'z filev_scheme) res" where
  "exec e path argv s =
     bindE (curproc s) (\<lambda>(cur, s).
     bindE (begin_op e s) (\<lambda>s.
       let pid = p_pid (procs s cur);
           s = find_and_set_sched_queue LOTTERY pid s;
           s = find_and_set_lottery_ticket 500 pid s;
           s = find_and_set_burst_time 0 pid s in
     bindE (namei e path s) (\<lambda>(r, s).
       case r of
         None \<Rightarrow> bindE (end_op e s) (\<lambda>s. bindE (cprintf (''exec: fail'' @ [CHR 0x0A]) [] s) (\<lambda>s. Inr (- 1, s)))
       | Some ip \<Rightarrow>
     bindE (ilock e ip s) (\<lambda>s.
     bindE (readi e ip 0 52 s) (\<lambda>(r, s).
       case r of
         None \<Rightarrow> exec_bad e 0 (Some ip) s
       | Some bs \<Rightarrow>
           let elf = ld_elfhdr bs in
           if length bs \<noteq> 52 \<or> elf_magic elf \<noteq> ELF_MAGIC then exec_bad e 0 (Some ip) s
           else
     bindE (setupkvm s) (\<lambda>(pgdir, s).
       if pgdir = 0 then exec_bad e 0 (Some ip) s
       else
     bindE (load_segments e pgdir ip (elf_phoff elf) (unat (elf_phnum elf)) 0 s) (\<lambda>(r, s).
       case r of
         None \<Rightarrow> exec_bad e pgdir (Some ip) s
       | Some sz \<Rightarrow>
     bindE (iunlockput e ip s) (\<lambda>s.
     bindE (end_op e s) (exec_commit e cur pgdir sz (elf_entry elf) path argv)))))))))"

text \<open>The loop of \<open>sys_exec\<close> that collects the arguments, with \<open>n\<close> entries of \<open>argv\<close> left.\<close>

fun fetch_args :: "nat \<Rightarrow> uint \<Rightarrow> 'z procv_scheme \<Rightarrow> (uchar list list option \<times> 'z procv_scheme) res" where
  "fetch_args 0 a s = Inr (None, s)"
| "fetch_args (Suc n) a s =
     bindE (fetchint a s) (\<lambda>(r, s).
       case r of
         None \<Rightarrow> Inr (None, s)
       | Some uarg \<Rightarrow>
           if uarg = 0 then Inr (Some [], s)
           else
             bindE (fetchstr uarg s) (\<lambda>(r, s).
               case r of
                 None \<Rightarrow> Inr (None, s)
               | Some str \<Rightarrow>
                   bindE (fetch_args n (a + 4) s) (\<lambda>(r, s). Inr (map_option ((#) str) r, s))))"

definition sys_exec :: "'z filev_scheme env \<Rightarrow> 'z filev_scheme \<Rightarrow> (cint \<times> 'z filev_scheme) res" where
  "sys_exec e s =
     bindE (argstr 0 s) (\<lambda>(r, s).
       case r of
         None \<Rightarrow> Inr (- 1, s)
       | Some path \<Rightarrow>
     bindE (argint 1 s) (\<lambda>(r, s).
       case r of
         None \<Rightarrow> Inr (- 1, s)
       | Some uargv \<Rightarrow>
     bindE (fetch_args MAXARG uargv s) (\<lambda>(r, s).
       case r of
         None \<Rightarrow> Inr (- 1, s)
       | Some argv \<Rightarrow> exec e path argv s)))"

end
