(* ===== verification/Kbd.thy ===== *)
theory Kbd
  imports Prelude
begin

text \<open>
  The keyboard driver (src/source/kbd.c) with its tables (src/source/kbd.h). A call of \<open>kbdgetc\<close> reads the
  status port and, when a byte is there, the data port: its argument is that byte or \<open>None\<close>. The static
  variable \<open>shift\<close> is the state.
\<close>

section \<open>Tables\<close>

abbreviation (input) SHIFT :: uint where "SHIFT \<equiv> 1"
abbreviation (input) CTL :: uint where "CTL \<equiv> 2"
abbreviation (input) ALT :: uint where "ALT \<equiv> 4"
abbreviation (input) CAPSLOCK :: uint where "CAPSLOCK \<equiv> 8"
abbreviation (input) NUMLOCK :: uint where "NUMLOCK \<equiv> 16"
abbreviation (input) SCROLLLOCK :: uint where "SCROLLLOCK \<equiv> 32"
abbreviation (input) E0ESC :: uint where "E0ESC \<equiv> 64"

text \<open>An array given by its first elements and the designated ones; the rest is 0.\<close>

definition tbl :: "nat list \<Rightarrow> (nat \<times> nat) list \<Rightarrow> nat \<Rightarrow> uint" where
  "tbl xs ds i = (if i < length xs then of_nat (xs ! i) else case map_of ds i of Some v \<Rightarrow> of_nat v | None \<Rightarrow> 0)"

definition shiftcode :: "nat \<Rightarrow> uint" where
  "shiftcode = tbl
     []
     [(0x1D, 0x02), (0x2A, 0x01), (0x36, 0x01), (0x38, 0x04), (0x9D, 0x02), (0xB8, 0x04)]"

definition togglecode :: "nat \<Rightarrow> uint" where
  "togglecode = tbl
     []
     [(0x3A, 0x08), (0x45, 0x10), (0x46, 0x20)]"

definition normalmap :: "nat \<Rightarrow> uint" where
  "normalmap = tbl
     [0x00, 0x1B, 0x31, 0x32, 0x33, 0x34, 0x35, 0x36, 0x37, 0x38, 0x39, 0x30, 0x2D, 0x3D, 0x08, 0x09,
      0x71, 0x77, 0x65, 0x72, 0x74, 0x79, 0x75, 0x69, 0x6F, 0x70, 0x5B, 0x5D, 0x0A, 0x00, 0x61, 0x73,
      0x64, 0x66, 0x67, 0x68, 0x6A, 0x6B, 0x6C, 0x3B, 0x27, 0x60, 0x00, 0x5C, 0x7A, 0x78, 0x63, 0x76,
      0x62, 0x6E, 0x6D, 0x2C, 0x2E, 0x2F, 0x00, 0x2A, 0x00, 0x20, 0x00, 0x00, 0x00, 0x00, 0x00, 0x00,
      0x00, 0x00, 0x00, 0x00, 0x00, 0x00, 0x00, 0x37, 0x38, 0x39, 0x2D, 0x34, 0x35, 0x36, 0x2B, 0x31,
      0x32, 0x33, 0x30, 0x2E, 0x00, 0x00, 0x00, 0x00]
     [(0x97, 0xE0), (0x9C, 0x0A), (0xB5, 0x2F), (0xC8, 0xE2), (0xC9, 0xE6), (0xCB, 0xE4), (0xCD, 0xE5), (0xCF, 0xE1), (0xD0, 0xE3), (0xD1, 0xE7), (0xD2, 0xE8), (0xD3, 0xE9)]"

definition shiftmap :: "nat \<Rightarrow> uint" where
  "shiftmap = tbl
     [0x00, 0x1B, 0x21, 0x40, 0x23, 0x24, 0x25, 0x5E, 0x26, 0x2A, 0x28, 0x29, 0x5F, 0x2B, 0x08, 0x09,
      0x51, 0x57, 0x45, 0x52, 0x54, 0x59, 0x55, 0x49, 0x4F, 0x50, 0x7B, 0x7D, 0x0A, 0x00, 0x41, 0x53,
      0x44, 0x46, 0x47, 0x48, 0x4A, 0x4B, 0x4C, 0x3A, 0x22, 0x7E, 0x00, 0x7C, 0x5A, 0x58, 0x43, 0x56,
      0x42, 0x4E, 0x4D, 0x3C, 0x3E, 0x3F, 0x00, 0x2A, 0x00, 0x20, 0x00, 0x00, 0x00, 0x00, 0x00, 0x00,
      0x00, 0x00, 0x00, 0x00, 0x00, 0x00, 0x00, 0x37, 0x38, 0x39, 0x2D, 0x34, 0x35, 0x36, 0x2B, 0x31,
      0x32, 0x33, 0x30, 0x2E, 0x00, 0x00, 0x00, 0x00]
     [(0x97, 0xE0), (0x9C, 0x0A), (0xB5, 0x2F), (0xC8, 0xE2), (0xC9, 0xE6), (0xCB, 0xE4), (0xCD, 0xE5), (0xCF, 0xE1), (0xD0, 0xE3), (0xD1, 0xE7), (0xD2, 0xE8), (0xD3, 0xE9)]"

definition ctlmap :: "nat \<Rightarrow> uint" where
  "ctlmap = tbl
     [0x00, 0x00, 0x00, 0x00, 0x00, 0x00, 0x00, 0x00, 0x00, 0x00, 0x00, 0x00, 0x00, 0x00, 0x00, 0x00,
      0x11, 0x17, 0x05, 0x12, 0x14, 0x19, 0x15, 0x09, 0x0F, 0x10, 0x00, 0x00, 0x0D, 0x00, 0x01, 0x13,
      0x04, 0x06, 0x07, 0x08, 0x0A, 0x0B, 0x0C, 0x00, 0x00, 0x00, 0x00, 0x1C, 0x1A, 0x18, 0x03, 0x16,
      0x02, 0x0E, 0x0D, 0x00, 0x00, 0xEF, 0x00, 0x00]
     [(0x97, 0xE0), (0x9C, 0x0D), (0xB5, 0xEF), (0xC8, 0xE2), (0xC9, 0xE6), (0xCB, 0xE4), (0xCD, 0xE5), (0xCF, 0xE1), (0xD0, 0xE3), (0xD1, 0xE7), (0xD2, 0xE8), (0xD3, 0xE9)]"

section \<open>The driver\<close>

text \<open>\<open>charcode[shift & (CTL | SHIFT)][data]\<close>\<close>

definition charcode :: "uint \<Rightarrow> nat \<Rightarrow> uint" where
  "charcode k = (if k = 0 then normalmap else if k = SHIFT then shiftmap else ctlmap)"

definition caps :: "uint \<Rightarrow> uint \<Rightarrow> uint" where
  "caps shift c =
     (if shift AND CAPSLOCK \<noteq> 0 then
        if 0x61 \<le> c \<and> c \<le> 0x7A then c + (0x41 - 0x61)
        else if 0x41 \<le> c \<and> c \<le> 0x5A then c + (0x61 - 0x41)
        else c
      else c)"

text \<open>The character, 0 for none, and the new \<open>shift\<close>; without a byte the code returns -1.\<close>

definition kbdgetc :: "uchar option \<Rightarrow> uint \<Rightarrow> uint option \<times> uint" where
  "kbdgetc port shift =
     (case port of
        None \<Rightarrow> (None, shift)
      | Some byte \<Rightarrow>
          let data = ucast byte :: uint in
          if data = 0xE0 then (Some 0, shift OR E0ESC)
          else if data AND 0x80 \<noteq> 0 then
            let data = (if shift AND E0ESC \<noteq> 0 then data else data AND 0x7F)
            in (Some 0, shift AND NOT (shiftcode (unat data) OR E0ESC))
          else
            let (data, shift) =
                  (if shift AND E0ESC \<noteq> 0 then (data OR 0x80, shift AND NOT E0ESC) else (data, shift));
                shift = shift OR shiftcode (unat data);
                shift = shift XOR togglecode (unat data);
                c = charcode (shift AND (CTL OR SHIFT)) (unat data)
            in (Some (caps shift c), shift))"

text \<open>The characters \<open>kbdgetc\<close> returns for the bytes that have arrived, and the final \<open>shift\<close>.\<close>

fun kbd_chars :: "uchar list \<Rightarrow> uint \<Rightarrow> uint list \<times> uint" where
  "kbd_chars [] shift = ([], shift)"
| "kbd_chars (b # bs) shift =
     (case kbdgetc (Some b) shift of
        (Some c, shift) \<Rightarrow> (case kbd_chars bs shift of (cs, shift) \<Rightarrow> (c # cs, shift))
      | (None, shift) \<Rightarrow> ([], shift))"

end
