(* ===== verification/Trap.thy ===== *)
theory Trap
  imports Exec Kbd
begin

text \<open>
  Traps (src/source/trap.c) and the dispatch of system calls (\<open>syscall\<close> of src/source/syscall.c). The
  addresses of the entry points of vectors.S are an argument of \<open>tvinit\<close>. What the devices hold
  when an interrupt is handled is given by a record of inputs; an acknowledged interrupt is counted in
  \<open>eois\<close>. With the memory disk \<open>ideintr\<close> does nothing.
\<close>

section \<open>State\<close>

abbreviation (input) T_PGFLT :: uint where "T_PGFLT \<equiv> 14"
abbreviation (input) T_SYSCALL :: uint where "T_SYSCALL \<equiv> 64"
abbreviation (input) T_IRQ0 :: uint where "T_IRQ0 \<equiv> 32"
abbreviation (input) IRQ_TIMER :: uint where "IRQ_TIMER \<equiv> 0"
abbreviation (input) IRQ_KBD :: uint where "IRQ_KBD \<equiv> 1"
abbreviation (input) IRQ_COM1 :: uint where "IRQ_COM1 \<equiv> 4"
abbreviation (input) IRQ_IDE :: uint where "IRQ_IDE \<equiv> 14"
abbreviation (input) IRQ_SPURIOUS :: uint where "IRQ_SPURIOUS \<equiv> 31"

record trapv = forkv +
  idt :: "nat \<Rightarrow> gatedesc"
  idt_loaded :: bool
  kbd_shift :: uint
  eois :: nat

text \<open>
  Inputs: the bytes in the keyboard controller and in the serial port, the call stacks \<open>procdump\<close> prints,
  and what the register \<open>eax\<close> holds after a function that returns nothing.
\<close>

record inputs =
  in_kbd :: "uchar list"
  in_uart :: "uchar list"
  in_pcs :: "nat \<Rightarrow> uint list"
  in_eax :: uint

section \<open>The descriptor table\<close>

definition tvinit :: "(nat \<Rightarrow> uint) \<Rightarrow> 'z trapv_scheme \<Rightarrow> 'z trapv_scheme" where
  "tvinit vectors s =
     (let s = fold (\<lambda>i s. s\<lparr>idt := (idt s)(i := SETGATE False (push_bit 3 SEG_KCODE) (vectors i) 0)\<rparr>) [0..<256] s;
          s = s\<lparr>idt := (idt s)(64 := SETGATE True (push_bit 3 SEG_KCODE) (vectors 64) DPL_USER)\<rparr>
      in initlock Lk_ticks ''time'' s)"

definition idtinit :: "'z trapv_scheme \<Rightarrow> 'z trapv_scheme" where
  "idtinit s = s\<lparr>idt_loaded := True\<rparr>"

definition lapiceoi :: "'z trapv_scheme \<Rightarrow> 'z trapv_scheme" where
  "lapiceoi s = s\<lparr>eois := eois s + 1\<rparr>"

section \<open>System calls\<close>

text \<open>\<open>syscalls[num]()\<close>; a call without a result leaves \<open>eax\<close> to chance. \<open>None\<close> when there is no such call.\<close>

definition no_result :: "uint \<Rightarrow> 's res \<Rightarrow> (cint \<times> 's) option res" where
  "no_result a r = bindE r (\<lambda>s. Inr (Some (a, s)))"

definition syscalls ::
  "'z filev_scheme env \<Rightarrow> uint \<Rightarrow> cint \<Rightarrow> 'z filev_scheme \<Rightarrow> (cint \<times> 'z filev_scheme) option res" where
  "syscalls e a num s =
     (let ret = (\<lambda>r. bindE r (\<lambda>x. Inr (Some x))) in
      if num = 1 then ret (sys_fork s)
      else if num = 2 then ret (sys_exit e s)
      else if num = 3 then ret (sys_wait e s)
      else if num = 4 then ret (sys_pipe e s)
      else if num = 5 then ret (sys_read e s)
      else if num = 6 then ret (sys_kill s)
      else if num = 7 then ret (sys_exec e s)
      else if num = 8 then ret (sys_fstat e s)
      else if num = 9 then ret (sys_chdir e s)
      else if num = 10 then ret (sys_dup s)
      else if num = 11 then ret (sys_getpid s)
      else if num = 12 then ret (sys_sbrk s)
      else if num = 13 then ret (sys_sleep e s)
      else if num = 14 then ret (sys_uptime s)
      else if num = 15 then ret (sys_open e s)
      else if num = 16 then ret (sys_write e s)
      else if num = 17 then ret (sys_mknod e s)
      else if num = 18 then ret (sys_unlink e s)
      else if num = 19 then ret (sys_link e s)
      else if num = 20 then ret (sys_mkdir e s)
      else if num = 21 then ret (sys_close e s)
      else if num = 23 then ret (sys_getprocs s)
      else if num = 24 then no_result a (sys_set_burst_time s)
      else if num = 25 then no_result a (sys_set_priority s)
      else if num = 26 then no_result a (sys_set_lottery_ticket s)
      else if num = 27 then no_result a (sys_set_sched_queue s)
      else if num = 28 then no_result a (sys_show_processes_scheduling s)
      else if num = 29 then ret (sys_getNumFreePages s)
      else Inr None)"

definition set_eax :: "nat \<Rightarrow> uint \<Rightarrow> 'z procv_scheme \<Rightarrow> 'z procv_scheme" where
  "set_eax p v s = upd_proc p (\<lambda>q. q\<lparr>p_tf := (p_tf q)\<lparr>tf_eax := v\<rparr>\<rparr>) s"

definition syscall :: "'z filev_scheme env \<Rightarrow> uint \<Rightarrow> 'z filev_scheme \<Rightarrow> 'z filev_scheme res" where
  "syscall e a s =
     bindE (curproc s) (\<lambda>(p, s).
       let num = tf_eax (p_tf (procs s p)) in
       if num = 22 then
         bindE (argint 0 s) (\<lambda>(r, s).
         bindE (sys_incNum (case r of None \<Rightarrow> 0 | Some x \<Rightarrow> x) s) (\<lambda>(v, s). Inr (set_eax p v s)))
       else
         bindE (syscalls e a num s) (\<lambda>r.
           case r of None \<Rightarrow> Inr (set_eax p (- 1) s) | Some (v, s) \<Rightarrow> Inr (set_eax p v s)))"

section \<open>Traps\<close>

definition kbdintr :: "inputs \<Rightarrow> 'z trapv_scheme \<Rightarrow> 'z trapv_scheme res" where
  "kbdintr inp s =
     (case kbd_chars (in_kbd inp) (kbd_shift s) of (cs, shift) \<Rightarrow>
        consoleintr (in_pcs inp) cs (s\<lparr>kbd_shift := shift\<rparr>))"

text \<open>The bytes \<open>uartgetc\<close> returns until it returns -1.\<close>

definition uart_chars :: "uchar list \<Rightarrow> 'z trapv_scheme \<Rightarrow> uint list" where
  "uart_chars bs s = (if uart s then map ucast bs else [])"

definition uartintr :: "inputs \<Rightarrow> 'z trapv_scheme \<Rightarrow> 'z trapv_scheme res" where
  "uartintr inp s = consoleintr (in_pcs inp) (uart_chars (in_uart inp) s) s"

text \<open>\<open>if(myproc()->killed) exit();\<close> and the test at the end of \<open>trap\<close>.\<close>

definition exit_if_killed :: "'z filev_scheme env \<Rightarrow> 'z filev_scheme \<Rightarrow> 'z filev_scheme res" where
  "exit_if_killed e s = bindE (curproc s) (\<lambda>(p, s). if p_killed (procs s p) then exit e s else Inr s)"

definition user_exit :: "'z filev_scheme env \<Rightarrow> trapframe \<Rightarrow> 'z filev_scheme \<Rightarrow> 'z filev_scheme res" where
  "user_exit e tf s =
     bindE (myproc s) (\<lambda>(p, s).
       case p of
         None \<Rightarrow> Inr s
       | Some i \<Rightarrow> if p_killed (procs s i) \<and> tf_cs tf AND 3 = 3 then exit e s else Inr s)"

text \<open>The \<open>default\<close> branch of the switch.\<close>

definition unexpected :: "trapframe \<Rightarrow> 'z procv_scheme \<Rightarrow> 'z procv_scheme res" where
  "unexpected tf s =
     bindE (myproc s) (\<lambda>(p, s).
     bindE (cpuid s) (\<lambda>c.
       case p of
         Some i \<Rightarrow>
           if tf_cs tf AND 3 = 0 then
             bindE (cprintf (''unexpected trap %d from cpu %d eip %x (cr2=0x%x)'' @ [CHR 0x0A])
                      [CInt (tf_trapno tf), CInt (of_nat c), CInt (tf_eip tf), CInt (cr2 s)] s) (\<lambda>s.
             Inl (Panic ''trap''))
           else
             bindE (cprintf (''pid %d %s: trap %d err %d on cpu %d eip 0x%x addr 0x%x--kill proc'' @ [CHR 0x0A])
                      [CInt (p_pid (procs s i)), CStr (Some (p_name (procs s i))), CInt (tf_trapno tf),
                       CInt (tf_err tf), CInt (of_nat c), CInt (tf_eip tf), CInt (cr2 s)] s) (\<lambda>s.
             Inr (upd_proc i (\<lambda>q. q\<lparr>p_killed := True\<rparr>) s))
       | None \<Rightarrow>
           bindE (cprintf (''unexpected trap %d from cpu %d eip %x (cr2=0x%x)'' @ [CHR 0x0A])
                    [CInt (tf_trapno tf), CInt (of_nat c), CInt (tf_eip tf), CInt (cr2 s)] s) (\<lambda>s.
           Inl (Panic ''trap''))))"

text \<open>The switch of \<open>trap\<close> for everything that is not a system call.\<close>

definition dispatch :: "inputs \<Rightarrow> trapframe \<Rightarrow> 'z trapv_scheme \<Rightarrow> 'z trapv_scheme res" where
  "dispatch inp tf s =
     (let n = tf_trapno tf in
      if n = T_PGFLT then pagefault s
      else if n = T_IRQ0 + IRQ_TIMER then
        bindE (cpuid s) (\<lambda>c.
        bindE (if c = 0 then
                 bindE (acquire Lk_ticks s) (\<lambda>s.
                 bindE (wakeup Ch_ticks (s\<lparr>ticks := ticks s + 1\<rparr>)) (release Lk_ticks))
               else Inr s) (\<lambda>s. Inr (lapiceoi s)))
      else if n = T_IRQ0 + IRQ_IDE then Inr (lapiceoi s)
      else if n = T_IRQ0 + IRQ_IDE + 1 then Inr s
      else if n = T_IRQ0 + IRQ_KBD then bindE (kbdintr inp s) (\<lambda>s. Inr (lapiceoi s))
      else if n = T_IRQ0 + IRQ_COM1 then bindE (uartintr inp s) (\<lambda>s. Inr (lapiceoi s))
      else if n = T_IRQ0 + 7 \<or> n = T_IRQ0 + IRQ_SPURIOUS then
        bindE (cpuid s) (\<lambda>c.
        bindE (cprintf (''cpu%d: spurious interrupt at %x:%x'' @ [CHR 0x0A])
                 [CInt (of_nat c), CInt (ucast (tf_cs tf)), CInt (tf_eip tf)] s) (\<lambda>s. Inr (lapiceoi s)))
      else unexpected tf s)"

definition trap :: "'z trapv_scheme env \<Rightarrow> inputs \<Rightarrow> trapframe \<Rightarrow> 'z trapv_scheme \<Rightarrow> 'z trapv_scheme res" where
  "trap e inp tf s =
     (if tf_trapno tf = T_SYSCALL then
        bindE (exit_if_killed e s) (\<lambda>s.
        bindE (curproc s) (\<lambda>(p, s).
        bindE (syscall e (in_eax inp) (upd_proc p (\<lambda>q. q\<lparr>p_tf := tf\<rparr>) s)) (exit_if_killed e)))
      else
        bindE (dispatch inp tf s) (\<lambda>s.
        bindE (user_exit e tf s) (\<lambda>s.
        bindE (myproc s) (\<lambda>(p, s).
        bindE (case p of
                 None \<Rightarrow> Inr s
               | Some i \<Rightarrow>
                   if p_state (procs s i) = RUNNING \<and> tf_trapno tf = T_IRQ0 + IRQ_TIMER
                   then yield (e_sw e) s else Inr s) (user_exit e tf)))))"

end
