(* ===== verification/Log_Lemmas.thy ===== *)
theory Log_Lemmas
  imports Log
begin

text \<open>
  What the loops of log.c do to the disk, to the cache and to the history of writes.
\<close>

section \<open>Words in blocks\<close>

lemma ld32_st32 [simp]: "ld32 (st32 i v d) i = v"
proof (rule bit_word_eqI)
  fix n assume "n < LENGTH(32)"
  then show "bit (ld32 (st32 i v d) i) n = bit v n"
    by (cases "24 \<le> n"; cases "16 \<le> n") (auto simp: ld32_def st32_def bit_simps)
qed

lemma ld32_st32_other: "j + 4 \<le> i \<or> i + 4 \<le> j \<Longrightarrow> ld32 (st32 j v d) i = ld32 d i"
  by (auto simp: ld32_def st32_def)

text \<open>The header block the log writes for \<open>n\<close> block numbers, and what is read back from it.\<close>

definition hdr :: "cint \<Rightarrow> (nat \<Rightarrow> cint) \<Rightarrow> nat \<Rightarrow> block \<Rightarrow> block" where
  "hdr v blk n d = fold (\<lambda>i. st32 (4 + 4 * i) (blk i)) [0..<n] (st32 0 v d)"

lemma hdr_0: "hdr v blk 0 d = st32 0 v d"
  by (simp add: hdr_def)

lemma hdr_Suc: "hdr v blk (Suc n) d = st32 (4 + 4 * n) (blk n) (hdr v blk n d)"
  by (simp add: hdr_def)

lemma ld_hdr_n [simp]: "ld32 (hdr v blk n d) 0 = v"
  by (induction n) (simp_all add: hdr_0 hdr_Suc ld32_st32_other)

lemma ld_hdr_block: "i < n \<Longrightarrow> ld32 (hdr v blk n d) (4 + 4 * i) = blk i"
proof (induction n)
  case (Suc n)
  then show ?case by (cases "i = n") (simp_all add: hdr_Suc ld32_st32_other)
qed simp

section \<open>Writes to the disk\<close>

definition put_all :: "('b \<times> 'd) list \<Rightarrow> ('b \<Rightarrow> 'd) \<Rightarrow> 'b \<Rightarrow> 'd" where
  "put_all ws D = fold (\<lambda>(b, d) D. D(b := d)) ws D"

lemma put_all_Nil [simp]: "put_all [] D = D"
  by (simp add: put_all_def)

lemma put_all_append: "put_all (xs @ ys) D = put_all ys (put_all xs D)"
  by (simp add: put_all_def)

lemma put_all_snoc [simp]: "put_all (xs @ [(b, d)]) D = (put_all xs D)(b := d)"
  by (simp add: put_all_def)

lemma put_all_other: "b \<notin> fst ` set ws \<Longrightarrow> put_all ws D b = D b"
  by (induction ws rule: rev_induct) (auto simp: put_all_append put_all_def)

lemma put_all_map:
  assumes "inj_on f {..<n}" "k < n"
  shows "put_all (map (\<lambda>i. (f i, g i)) [0..<n]) D (f k) = g k"
  using assms
proof (induction n)
  case (Suc n)
  show ?case
  proof (cases "k = n")
    case False
    then have "f k \<noteq> f n" using Suc.prems by (auto simp: inj_on_def)
    then show ?thesis using Suc False by (simp add: inj_on_def)
  qed simp
qed simp

section \<open>Copying a block through the cache\<close>

lemma dirty_buffer:
  assumes "cache_ok c s H" "b \<in> dirty_blocks s"
  shows "buffer_of s b \<noteq> None"
proof -
  obtain i where i: "i < NBUF" "dirty s i" "b_blockno (bufs s i) = b" using assms(2) by (auto simp: dirty_blocks_def)
  moreover have "b_dev (bufs s i) = 1" using cache_buf_ok [OF assms(1) i(1)] i(2) by (auto simp: buf_ok_def dirty_def)
  ultimately show ?thesis by (auto simp: buffer_of_None)
qed

lemma two_breads:
  assumes "cache_ok c s {}" "x < disksize s" "y < disksize s" "x \<noteq> y" "card (dirty_blocks s) < NBUF"
    and "y \<in> dirty_blocks s \<or> card (dirty_blocks s) + 1 < NBUF"
  obtains i j u t where "bread e 1 x s = Inr (i, u)" "bread e 1 y u = Inr (j, t)" "cache_ok c t {i, j}" "i \<noteq> j"
    "b_blockno (bufs t i) = x" "b_blockno (bufs t j) = y" "b_data (bufs t i) = cval s x" "b_data (bufs t j) = cval s y"
    "cval t = cval s" "disk t = disk s" "dhist t = dhist s" "dirty_blocks t = dirty_blocks s" "clean t i" "clean t j"
    "bio_chg s t" "bio_chg s u"
proof -
  obtain i u where u: "bread e 1 x s = Inr (i, u)" "i < NBUF" "cache_ok c u {i}" "b_blockno (bufs u i) = x"
    "b_data (bufs u i) = cval s x" "cval u = cval s" "disk u = disk s" "dhist u = dhist s" "bio_chg s u"
    "dirty_blocks u = dirty_blocks s" "clean u i"
    by (rule bread_one [OF assms(1,2,5), of e]) (rule that)
  have y: "y < disksize u" "\<forall>k \<in> {i}. b_blockno (bufs u k) \<noteq> y" using assms(3,4) u(4) bio_chg_sel(3) [OF u(9)] by auto
  have fu: "buffer_of u y \<noteq> None \<or> (\<exists>k < NBUF. k \<notin> {i} \<and> \<not> dirty u k)"
    using assms(6) dirty_buffer [OF u(3), of y] free_buffer [OF u(3)] u(10) by auto
  obtain j t where t: "bread e 1 y u = Inr (j, t)" "j \<notin> {i}"
    "cache_ok c t (insert j {i})" "b_blockno (bufs t j) = y" "b_data (bufs t j) = cval u y" "cval t = cval u"
    "disk t = disk u" "dhist t = dhist u" "bio_chg u t" "\<forall>k \<in> {i}. bufs t k = bufs u k" "dirty t = dirty u"
    "dirty_blocks t = dirty_blocks u" "clean t j"
    by (rule bread_spec [OF u(3) y fu, of e]) (rule that)
  have "clean t i" using u(11) t(7,10,11) by (simp add: clean_def)
  then show ?thesis using u t bio_chg_trans [OF u(9) t(9)] by (intro that [of i u j t]) (auto simp: insert_commute)
qed

lemma dirty_blocks_write:
  assumes "cache_ok c s H" "p < NBUF" "b_dev (bufs s p) = 1" "\<And>k. dirty t k = (dirty s k \<and> k \<noteq> p)"
    and "\<And>k. b_blockno (bufs t k) = b_blockno (bufs s k)"
  shows "dirty_blocks t = dirty_blocks s - {b_blockno (bufs s p)}"
proof -
  have "b_blockno (bufs s k) \<noteq> b_blockno (bufs s p)" if "k < NBUF" "dirty s k" "k \<noteq> p" for k
    using cache_uniq [OF assms(1) that(1) assms(2) _ assms(3)] cache_buf_ok [OF assms(1) that(1)] that(2,3)
    by (auto simp: buf_ok_def dirty_def)
  then show ?thesis unfolding dirty_blocks_def assms(4,5) by auto
qed

lemma copy_held:
  assumes "cache_ok c s {p, q}" "p \<noteq> q" "clean s q"
  defines "b \<equiv> b_blockno (bufs s p)" and "d \<equiv> b_data (bufs s q)"
  obtains t where "bindE (bwrite p (upd_buf p (\<lambda>x. x\<lparr>b_data := d\<rparr>) s)) (\<lambda>s. bindE (brelse q s) (brelse p)) = Inr t"
    "cache_ok c t {}" "cval t = (cval s)(b := d)" "disk t = (disk s)(b := d)" "dhist t = dhist s @ [(b, d)]"
    "dirty_blocks t = dirty_blocks s - {b}" "bio_chg s t"
proof -
  have pq_in: "p \<in> {p, q}" "q \<in> {p, q}" by simp_all
  note p = held [OF assms(1) pq_in(1)] and q = held [OF assms(1) pq_in(2)]
  let ?u = "upd_buf p (\<lambda>x. x\<lparr>b_flags := b_flags (bufs s p), b_data := d\<rparr>) s"
  have e: "upd_buf p (\<lambda>x. x\<lparr>b_data := d\<rparr>) s = ?u" by (simp add: upd_buf_def)
  have u: "cache_ok c ?u {p, q}" "cval ?u = (cval s)(b := d)"
    unfolding b_def using p(7) by (auto intro!: held_upd [OF assms(1)])
  obtain v where v: "bwrite p ?u = Inr v" "cache_ok c v {p, q}" "cval v = cval ?u" "bio_chg ?u v"
    "disk v = (disk s)(b := d)" "dhist v = dhist s @ [(b, d)]" "bufs v = (bufs ?u)(p := (bufs ?u p)\<lparr>b_flags := B_VALID\<rparr>)"
    using bwrite_spec [OF u(1), of p] unfolding b_def by auto
  have bq: "b_blockno (bufs s q) \<noteq> b" unfolding b_def using cache_uniq [OF assms(1) q(1) p(1) q(5) p(5)] assms(2) by auto
  then have "dirty v q \<or> b_data (bufs v q) = disk v (b_blockno (bufs v q))"
    using assms(2,3) v(5,7) by (simp add: clean_def dirty_def)
  then obtain w where w: "brelse q v = Inr w" "cache_ok c w ({p, q} - {q})" "cval w = cval v" "bio_chg v w" "disk w = disk v"
    "dhist w = dhist v" "bufs w = (bufs v)(q := (bufs v q)\<lparr>b_refcnt := 0\<rparr>)"
    using brelse_spec [OF v(2), of q] by auto
  have pq: "{p, q} - {q} = {p}" using assms(2) by auto
  have "b_data (bufs w p) = disk w (b_blockno (bufs w p))" using w(5,7) v(5,7) assms(2) by (simp add: b_def)
  then obtain t where t: "brelse p w = Inr t" "cache_ok c t ({p} - {p})" "cval t = cval w" "bio_chg w t" "disk t = disk w"
    "dhist t = dhist w" "bufs t = (bufs w)(p := (bufs w p)\<lparr>b_refcnt := 0\<rparr>)"
    using brelse_spec [OF w(2) [unfolded pq], of p] by auto
  have "dirty t k = (dirty s k \<and> k \<noteq> p)" for k using t(7) w(7) v(7) assms(2) by (simp add: dirty_def)
  moreover have "b_blockno (bufs t k) = b_blockno (bufs s k)" for k using t(7) w(7) v(7) by simp
  ultimately have "dirty_blocks t = dirty_blocks s - {b}" unfolding b_def by (rule dirty_blocks_write [OF assms(1) p(1,5)])
  moreover have "bio_chg s t" using bio_chg_trans [OF bio_chg_upd [of s p] bio_chg_trans [OF v(4) bio_chg_trans [OF w(4) t(4)]]] .
  moreover have "bindE (bwrite p (upd_buf p (\<lambda>x. x\<lparr>b_data := d\<rparr>) s)) (\<lambda>s. bindE (brelse q s) (brelse p)) = Inr t"
    unfolding e using v(1) w(1) t(1) by simp
  ultimately show ?thesis using u(2) v(3,5,6) w(3,5,6) t(2,3,5,6) by (intro that [of t]) simp_all
qed


section \<open>The loops\<close>

text \<open>The fields of the log are not the cache's.\<close>

lemma buf_truncate:
  "cache_ok c (bufv.truncate s) H = cache_ok c s H" "cval (bufv.truncate s) = cval s" "dirty (bufv.truncate s) = dirty s"
  "dirty_blocks (bufv.truncate s) = dirty_blocks s" "clean (bufv.truncate s) = clean s"
proof -
  have sel: "bufs (bufv.truncate s) = bufs s" "bnext (bufv.truncate s) = bnext s" "bprev (bufv.truncate s) = bprev s"
    "slocks (bufv.truncate s) = slocks s" "disk (bufv.truncate s) = disk s" "disksize (bufv.truncate s) = disksize s"
    by (simp_all add: bufv.truncate_def)
  have q: "quiet c (bufv.truncate s) = quiet c s" "mypid c (bufv.truncate s) = mypid c s"
    by (rule quiet_cong; simp add: same_cpuv_def bufv.truncate_def) (simp add: mypid_def bufv.truncate_def)
  show "cache_ok c (bufv.truncate s) H = cache_ok c s H" by (simp only: cache_ok_def buf_ok_def q sel)
  show "cval (bufv.truncate s) = cval s" by (rule ext) (simp only: cval_def buffer_of_def sel)
  show d: "dirty (bufv.truncate s) = dirty s" by (rule ext) (simp only: dirty_def sel)
  show "dirty_blocks (bufv.truncate s) = dirty_blocks s" by (simp only: dirty_blocks_def d sel)
  show "clean (bufv.truncate s) = clean s" by (rule ext) (simp only: clean_def d sel)
qed

lemma buf_cong:
  assumes "bufv.truncate t = bufv.truncate s"
  shows "cache_ok c t H = cache_ok c s H" "cval t = cval s" "dirty t = dirty s" "dirty_blocks t = dirty_blocks s" "clean t = clean s"
  using buf_truncate [where s = s] buf_truncate [where s = t] unfolding assms by simp_all

lemma lh_buf [simp]:
  "cache_ok c (s\<lparr>lh_n := n\<rparr>) H = cache_ok c s H" "cache_ok c (s\<lparr>lh_block := f\<rparr>) H = cache_ok c s H"
  "cval (s\<lparr>lh_n := n\<rparr>) = cval s" "cval (s\<lparr>lh_block := f\<rparr>) = cval s"
  "dirty (s\<lparr>lh_n := n\<rparr>) = dirty s" "dirty (s\<lparr>lh_block := f\<rparr>) = dirty s"
  "dirty_blocks (s\<lparr>lh_n := n\<rparr>) = dirty_blocks s" "dirty_blocks (s\<lparr>lh_block := f\<rparr>) = dirty_blocks s"
  "clean (s\<lparr>lh_n := n\<rparr>) = clean s" "clean (s\<lparr>lh_block := f\<rparr>) = clean s"
  by (rule buf_cong; simp add: bufv.truncate_def)+

lemma log_frame:
  assumes "bio_chg s (t :: 'z logv_scheme)"
  shows "log_dev t = log_dev s" "log_start t = log_start s" "lh_n t = lh_n s" "lh_block t = lh_block s"
    "disksize t = disksize s" "lh_idx t = lh_idx s"
proof -
  have "bufv.more t = bufv.more s" by (rule bio_chg_sel(4) [OF assms])
  then show "log_dev t = log_dev s" "log_start t = log_start s" "lh_n t = lh_n s" "lh_block t = lh_block s" "lh_idx t = lh_idx s"
    by (cases s; cases t; simp add: lh_idx_def)+
qed (rule bio_chg_sel(3) [OF assms])

lemma bio_chg_lh:
  assumes "bio_chg s t"
  shows "bio_chg (s\<lparr>lh_n := n, lh_block := f\<rparr>) (t\<lparr>lh_n := n, lh_block := f\<rparr>)"
proof -
  have "bufv.more t = bufv.more s" by (rule bio_chg_sel(4) [OF assms])
  then have "bufv.more (t\<lparr>lh_n := n, lh_block := f\<rparr>) = bufv.more (s\<lparr>lh_n := n, lh_block := f\<rparr>)" by (cases s; cases t; simp)
  then show ?thesis using assms by (simp add: bio_chg_def procv.truncate_def)
qed

text \<open>
  Where the log is: \<open>LOGSIZE\<close> blocks from \<open>log.start\<close> on. \<open>log_geo s n\<close>: the first \<open>n\<close> block numbers of the
  header are different blocks of the disk outside the log.
\<close>

definition in_log :: "'z logv_scheme \<Rightarrow> uint \<Rightarrow> bool" where
  "in_log s b \<longleftrightarrow> unat (log_start s) \<le> unat b \<and> unat b < unat (log_start s) + LOGSIZE"

definition log_at :: "'z logv_scheme \<Rightarrow> nat \<Rightarrow> uint" where
  "log_at s i = log_start s + of_nat i + 1"

definition log_geo :: "'z logv_scheme \<Rightarrow> nat \<Rightarrow> bool" where
  "log_geo s n \<longleftrightarrow> log_dev s = 1 \<and> n < LOGSIZE \<and> unat (log_start s) + LOGSIZE \<le> unat (disksize s) \<and>
     (\<forall>i < n. lh_block s i < disksize s \<and> \<not> in_log s (lh_block s i)) \<and> inj_on (lh_block s) {..<n}"

lemma unat_log_at:
  assumes "log_geo s n" "i < n"
  shows "unat (log_at s i) = unat (log_start s) + i + 1"
proof -
  have "unat (disksize s) < 2 ^ 32" using unsigned_less [of "disksize s"] by simp
  then have m: "unat (log_start s) + i + 1 < 2 ^ 32" using assms by (simp add: log_geo_def)
  have "unat (log_at s i) = unat (word_of_nat (unat (log_start s) + i + 1) :: uint)" by (simp add: log_at_def ac_simps)
  also have "\<dots> = unat (log_start s) + i + 1" unfolding unsigned_of_nat using take_bit_nat_eq_self [OF m] by simp
  finally show ?thesis .
qed

lemma log_geoD:
  assumes "log_geo s n"
  shows "log_dev s = 1" "n < LOGSIZE" "log_start s < disksize s" "in_log s (log_start s)" "inj_on (log_at s) {..<n}"
    "\<And>i. i < n \<Longrightarrow> lh_block s i < disksize s \<and> \<not> in_log s (lh_block s i)" "inj_on (lh_block s) {..<n}"
    "\<And>i. i < n \<Longrightarrow> log_at s i < disksize s \<and> in_log s (log_at s i) \<and> log_at s i \<noteq> log_start s"
proof -
  show "log_start s < disksize s" using assms by (simp add: log_geo_def word_less_nat_alt)
  show "inj_on (log_at s) {..<n}"
  proof (rule inj_onI)
    fix i j assume "i \<in> {..<n}" "j \<in> {..<n}" "log_at s i = log_at s j"
    then have "unat (log_start s) + i + 1 = unat (log_start s) + j + 1"
      using unat_log_at [OF assms, of i] unat_log_at [OF assms, of j] by (metis lessThan_iff)
    then show "i = j" by simp
  qed
  show "log_at s i < disksize s \<and> in_log s (log_at s i) \<and> log_at s i \<noteq> log_start s" if "i < n" for i
  proof -
    note u = unat_log_at [OF assms that]
    have "unat (log_at s i) \<noteq> unat (log_start s)" unfolding u by simp
    then have "log_at s i \<noteq> log_start s" by metis
    moreover have "unat (log_start s) + LOGSIZE \<le> unat (disksize s)" "n < LOGSIZE" using assms by (simp_all add: log_geo_def)
    ultimately show ?thesis using that unfolding in_log_def word_less_nat_alt u by simp
  qed
qed (use assms in \<open>simp_all add: log_geo_def in_log_def\<close>)

lemma log_geo_frame:
  assumes "bio_chg s (t :: 'z logv_scheme)"
  shows "log_geo t = log_geo s" "log_at t = log_at s" "in_log t = in_log s"
  by (intro ext; simp add: log_geo_def in_log_def log_at_def log_frame [OF assms])+

text \<open>The writes of \<open>write_log\<close> and of \<open>install_trans\<close>.\<close>

definition log_writes :: "'z logv_scheme \<Rightarrow> nat \<Rightarrow> (uint \<times> block) list" where
  "log_writes s n = map (\<lambda>i. (log_at s i, cval s (lh_block s i))) [0..<n]"

definition home_writes :: "'z logv_scheme \<Rightarrow> nat \<Rightarrow> (uint \<times> block) list" where
  "home_writes s n = map (\<lambda>i. (lh_block s i, cval s (log_at s i))) [0..<n]"

lemma log_writes_Suc: "log_writes s (Suc k) = log_writes s k @ [(log_at s k, cval s (lh_block s k))]"
  by (simp add: log_writes_def)

lemma home_writes_Suc: "home_writes s (Suc k) = home_writes s k @ [(lh_block s k, cval s (log_at s k))]"
  by (simp add: home_writes_def)

lemma log_writes_other:
  assumes "log_geo s n" "k \<le> n" "\<not> in_log s b \<or> b = log_start s"
  shows "put_all (log_writes s k) D b = D b"
  using log_geoD(8) [OF assms(1)] assms(2,3) by (intro put_all_other) (auto simp: log_writes_def)

lemma home_writes_other:
  assumes "log_geo s n" "k \<le> n" "in_log s b"
  shows "put_all (home_writes s k) D b = D b"
  using log_geoD(6) [OF assms(1)] assms(2,3) by (intro put_all_other) (auto simp: home_writes_def)

lemma rd_lh_ok [simp]: "i < 30 \<Longrightarrow> rd_lh i s = Inr (lh_block s i)"
  by (simp add: rd_lh_def)

lemma write_one_ok:
  assumes "cache_ok c s {}" "log_geo s n" "i < n" "dirty_blocks s = lh_block s ` {..<n}"
  obtains t where "write_one e i s = Inr t" "cache_ok c t {}" "bio_chg s t" "dirty_blocks t = dirty_blocks s"
    "disk t = (disk s)(log_at s i := cval s (lh_block s i))" "cval t = (cval s)(log_at s i := cval s (lh_block s i))"
    "dhist t = dhist s @ [(log_at s i, cval s (lh_block s i))]"
proof -
  note g = log_geoD [OF assms(2)]
  let ?x = "log_at s i" and ?y = "lh_block s i"
  have b: "?x < disksize s" "?y < disksize s" "?x \<noteq> ?y" using g(6) [OF assms(3)] g(8) [OF assms(3)] by auto
  have "card (dirty_blocks s) = n" using g(7) by (simp add: assms(4) card_image)
  then have k: "card (dirty_blocks s) < NBUF" "?y \<in> dirty_blocks s \<or> card (dirty_blocks s) + 1 < NBUF"
    using g(2) assms(3,4) by auto
  obtain p q u v where r: "bread e 1 ?x s = Inr (p, u)" "bread e 1 ?y u = Inr (q, v)" "cache_ok c v {p, q}" "p \<noteq> q"
    "b_blockno (bufs v p) = ?x" "b_blockno (bufs v q) = ?y" "b_data (bufs v p) = cval s ?x" "b_data (bufs v q) = cval s ?y"
    "cval v = cval s" "disk v = disk s" "dhist v = dhist s" "dirty_blocks v = dirty_blocks s" "clean v p" "clean v q"
    "bio_chg s v" "bio_chg s u"
    by (rule two_breads [OF assms(1) b k, of e]) (rule that)
  obtain t where t: "bindE (bwrite p (upd_buf p (\<lambda>x. x\<lparr>b_data := b_data (bufs v q)\<rparr>) v)) (\<lambda>s. bindE (brelse q s) (brelse p)) = Inr t"
    "cache_ok c t {}" "cval t = (cval v)(b_blockno (bufs v p) := b_data (bufs v q))"
    "disk t = (disk v)(b_blockno (bufs v p) := b_data (bufs v q))"
    "dhist t = dhist v @ [(b_blockno (bufs v p), b_data (bufs v q))]"
    "dirty_blocks t = dirty_blocks v - {b_blockno (bufs v p)}" "bio_chg v t"
    by (rule copy_held [OF r(3,4,14)]) (rule that)
  have "write_one e i s = Inr t"
    using r(1,2) t(1) g(1,2) assms(3) log_frame [OF r(16)] by (simp add: write_one_def log_at_def Let_def)
  moreover have "?x \<notin> dirty_blocks s" unfolding assms(4) using g(6) g(8) [OF assms(3)] by auto
  ultimately show ?thesis using t r bio_chg_trans [OF r(15) t(7)] by (intro that [of t]) simp_all
qed

lemma install_one_ok:
  assumes "cache_ok c s {}" "log_geo s n" "i < n" "dirty_blocks s = {} \<or> lh_block s i \<in> dirty_blocks s"
    and "card (dirty_blocks s) < NBUF"
  obtains t where "install_one e i s = Inr t" "cache_ok c t {}" "bio_chg s t" "dirty_blocks t = dirty_blocks s - {lh_block s i}"
    "disk t = (disk s)(lh_block s i := cval s (log_at s i))" "cval t = (cval s)(lh_block s i := cval s (log_at s i))"
    "dhist t = dhist s @ [(lh_block s i, cval s (log_at s i))]"
proof -
  note g = log_geoD [OF assms(2)]
  let ?x = "log_at s i" and ?y = "lh_block s i"
  have b: "?x < disksize s" "?y < disksize s" "?x \<noteq> ?y" using g(6) [OF assms(3)] g(8) [OF assms(3)] by auto
  have k: "?y \<in> dirty_blocks s \<or> card (dirty_blocks s) + 1 < NBUF" using assms(4) by auto
  obtain q p u v where r: "bread e 1 ?x s = Inr (q, u)" "bread e 1 ?y u = Inr (p, v)" "cache_ok c v {q, p}" "q \<noteq> p"
    "b_blockno (bufs v q) = ?x" "b_blockno (bufs v p) = ?y" "b_data (bufs v q) = cval s ?x" "b_data (bufs v p) = cval s ?y"
    "cval v = cval s" "disk v = disk s" "dhist v = dhist s" "dirty_blocks v = dirty_blocks s" "clean v q" "clean v p"
    "bio_chg s v" "bio_chg s u"
    by (rule two_breads [OF assms(1) b assms(5) k, of e]) (rule that)
  have pq: "cache_ok c v {p, q}" "p \<noteq> q" using r(3,4) by (simp_all add: insert_commute)
  obtain t where t: "bindE (bwrite p (upd_buf p (\<lambda>x. x\<lparr>b_data := b_data (bufs v q)\<rparr>) v)) (\<lambda>s. bindE (brelse q s) (brelse p)) = Inr t"
    "cache_ok c t {}" "cval t = (cval v)(b_blockno (bufs v p) := b_data (bufs v q))"
    "disk t = (disk v)(b_blockno (bufs v p) := b_data (bufs v q))"
    "dhist t = dhist v @ [(b_blockno (bufs v p), b_data (bufs v q))]"
    "dirty_blocks t = dirty_blocks v - {b_blockno (bufs v p)}" "bio_chg v t"
    by (rule copy_held [OF pq r(13)]) (rule that)
  have "install_one e i s = Inr t"
    using r(1,2) t(1) g(1,2) assms(3) log_frame [OF r(16)] by (simp add: install_one_def log_at_def Let_def)
  then show ?thesis using t r bio_chg_trans [OF r(15) t(7)] by (intro that [of t]) simp_all
qed

lemma write_loop:
  assumes "cache_ok c s {}" "log_geo s n" "dirty_blocks s = lh_block s ` {..<n}" "k \<le> n"
  shows "\<exists>t. foldE (write_one e) [0..<k] s = Inr t \<and> cache_ok c t {} \<and> bio_chg s t \<and> dirty_blocks t = dirty_blocks s \<and>
    disk t = put_all (log_writes s k) (disk s) \<and> cval t = put_all (log_writes s k) (cval s) \<and>
    dhist t = dhist s @ log_writes s k"
  using assms(4)
proof (induction k)
  case 0
  then show ?case using assms(1) by (simp add: log_writes_def)
next
  case (Suc k)
  then obtain t where t: "foldE (write_one e) [0..<k] s = Inr t" "cache_ok c t {}" "bio_chg s t" "dirty_blocks t = dirty_blocks s"
    "disk t = put_all (log_writes s k) (disk s)" "cval t = put_all (log_writes s k) (cval s)"
    "dhist t = dhist s @ log_writes s k" by auto
  have g: "log_geo t n" "k < n" "dirty_blocks t = lh_block t ` {..<n}"
    using assms(2,3) Suc.prems t(4) log_geo_frame(1) [OF t(3)] log_frame(4) [OF t(3)] by simp_all
  obtain u where u: "write_one e k t = Inr u" "cache_ok c u {}" "bio_chg t u" "dirty_blocks u = dirty_blocks t"
    "disk u = (disk t)(log_at t k := cval t (lh_block t k))" "cval u = (cval t)(log_at t k := cval t (lh_block t k))"
    "dhist u = dhist t @ [(log_at t k, cval t (lh_block t k))]"
    by (rule write_one_ok [OF t(2) g, of e]) (rule that)
  have "cval t (lh_block s k) = cval s (lh_block s k)"
    unfolding t(6) using log_geoD(6) [OF assms(2) g(2)] g(2) by (intro log_writes_other [OF assms(2)]) auto
  then show ?case using u t bio_chg_trans [OF t(3) u(3)] log_geo_frame(2) [OF t(3)] log_frame(4) [OF t(3)]
    by (intro exI [of _ u]) (simp add: foldE_append log_writes_Suc)
qed

lemma install_loop:
  assumes "cache_ok c s {}" "log_geo s n" "dirty_blocks s = {} \<or> dirty_blocks s = lh_block s ` {..<n}" "k \<le> n"
  shows "\<exists>t. foldE (install_one e) [0..<k] s = Inr t \<and> cache_ok c t {} \<and> bio_chg s t \<and>
    dirty_blocks t = dirty_blocks s - lh_block s ` {..<k} \<and> disk t = put_all (home_writes s k) (disk s) \<and>
    cval t = put_all (home_writes s k) (cval s) \<and> dhist t = dhist s @ home_writes s k"
  using assms(4)
proof (induction k)
  case 0
  then show ?case using assms(1) by (simp add: home_writes_def)
next
  case (Suc k)
  then obtain t where t: "foldE (install_one e) [0..<k] s = Inr t" "cache_ok c t {}" "bio_chg s t"
    "dirty_blocks t = dirty_blocks s - lh_block s ` {..<k}" "disk t = put_all (home_writes s k) (disk s)"
    "cval t = put_all (home_writes s k) (cval s)" "dhist t = dhist s @ home_writes s k" by auto
  note f = log_geo_frame(2) [OF t(3)] log_frame(4) [OF t(3)]
  have g: "log_geo t n" "k < n" using assms(2) Suc.prems log_geo_frame(1) [OF t(3)] by simp_all
  have "lh_block s k \<notin> lh_block s ` {..<k}" using log_geoD(7) [OF assms(2)] g(2) by (force simp: inj_on_def)
  then have d: "dirty_blocks t = {} \<or> lh_block t k \<in> dirty_blocks t" using assms(3) g(2) t(4) f(2) by auto
  have "finite (lh_block s ` {..<n})" "card (lh_block s ` {..<n}) = n" using log_geoD(7) [OF assms(2)] by (simp_all add: card_image)
  then have "card (dirty_blocks t) \<le> n" unfolding t(4) using assms(3) card_mono [of "lh_block s ` {..<n}"] by auto
  then have c: "card (dirty_blocks t) < NBUF" using log_geoD(2) [OF assms(2)] by simp
  obtain u where u: "install_one e k t = Inr u" "cache_ok c u {}" "bio_chg t u" "dirty_blocks u = dirty_blocks t - {lh_block t k}"
    "disk u = (disk t)(lh_block t k := cval t (log_at t k))" "cval u = (cval t)(lh_block t k := cval t (log_at t k))"
    "dhist u = dhist t @ [(lh_block t k, cval t (log_at t k))]"
    by (rule install_one_ok [OF t(2) g d c, of e]) (rule that)
  have "cval t (log_at s k) = cval s (log_at s k)"
    unfolding t(6) using log_geoD(8) [OF assms(2) g(2)] g(2) by (intro home_writes_other [OF assms(2)]) auto
  moreover have "dirty_blocks u = dirty_blocks s - lh_block s ` {..<Suc k}" unfolding u(4) t(4) f by (auto simp: lessThan_Suc)
  ultimately show ?case using u(1-3,5-) t bio_chg_trans [OF t(3) u(3)] f
    by (intro exI [of _ u]) (simp add: foldE_append home_writes_Suc)
qed

text \<open>The header block, written and read.\<close>

lemma write_head_loop:
  assumes "k \<le> LOGSIZE"
  shows "foldE (\<lambda>i s. bindE (rd_lh i s) (\<lambda>b. Inr (upd_buf p (\<lambda>x. x\<lparr>b_data := st32 (4 + 4 * i) b (b_data x)\<rparr>) s))) [0..<k]
      (upd_buf p (\<lambda>x. x\<lparr>b_data := st32 0 v (b_data x)\<rparr>) s) =
    Inr (upd_buf p (\<lambda>x. x\<lparr>b_data := hdr v (lh_block s) k (b_data x)\<rparr>) s)"
  using assms
proof (induction k)
  case 0
  then show ?case by (simp add: hdr_0)
next
  case (Suc k)
  have "lh_block (upd_buf p f s) = lh_block s" for f by (simp add: upd_buf_def)
  moreover have "upd_buf p f (upd_buf p g s) = upd_buf p (f \<circ> g) s" for f g by (simp add: upd_buf_def)
  ultimately show ?case using Suc by (simp add: foldE_append hdr_Suc comp_def)
qed

lemma write_head_ok:
  assumes "cache_ok c s {}" "log_geo s n" "nat (sint (lh_n s)) \<le> LOGSIZE" "card (dirty_blocks s) < NBUF" "log_start s \<notin> dirty_blocks s"
  defines "d \<equiv> hdr (lh_n s) (lh_block s) (nat (sint (lh_n s))) (cval s (log_start s))"
  obtains t where "write_head e s = Inr t" "cache_ok c t {}" "bio_chg s t" "dirty_blocks t = dirty_blocks s"
    "disk t = (disk s)(log_start s := d)" "cval t = (cval s)(log_start s := d)" "dhist t = dhist s @ [(log_start s, d)]"
proof -
  note g = log_geoD [OF assms(2)]
  obtain p u where u: "bread e 1 (log_start s) s = Inr (p, u)" "p < NBUF" "cache_ok c u {p}" "b_blockno (bufs u p) = log_start s"
    "b_data (bufs u p) = cval s (log_start s)" "cval u = cval s" "disk u = disk s" "dhist u = dhist s" "bio_chg s u"
    "dirty u = dirty s" "dirty_blocks u = dirty_blocks s"
    by (rule bread_one [OF assms(1) g(3) assms(4), of e]) (rule that)
  have pin: "p \<in> {p}" by simp
  note h = held [OF u(3) pin]
  let ?f = "b_flags (bufs u p)"
  let ?v = "upd_buf p (\<lambda>x. x\<lparr>b_flags := ?f, b_data := d\<rparr>) u"
  have e: "upd_buf p (\<lambda>x. x\<lparr>b_data := hdr (lh_n u) (lh_block u) (nat (sint (lh_n u))) (b_data x)\<rparr>) u = ?v"
    using u(5) log_frame [OF u(9)] by (simp add: upd_buf_def d_def)
  have v: "cache_ok c ?v {p}" "cval ?v = (cval s)(log_start s := d)"
    using h(7) held_upd [OF u(3) pin, of ?f d] u(4,6) by auto
  obtain w where w: "bwrite p ?v = Inr w" "cache_ok c w {p}" "cval w = cval ?v" "bio_chg ?v w"
    "disk w = (disk s)(log_start s := d)" "dhist w = dhist s @ [(log_start s, d)]"
    "bufs w = (bufs ?v)(p := (bufs ?v p)\<lparr>b_flags := B_VALID\<rparr>)"
    using bwrite_spec [OF v(1) pin] u(4,7,8) by auto
  have "b_data (bufs w p) = disk w (b_blockno (bufs w p))" using w(5,7) u(4) by simp
  then obtain t where t: "brelse p w = Inr t" "cache_ok c t ({p} - {p})" "cval t = cval w" "bio_chg w t" "disk t = disk w"
    "dhist t = dhist w" "bufs t = (bufs w)(p := (bufs w p)\<lparr>b_refcnt := 0\<rparr>)"
    using brelse_spec [OF w(2) pin] by auto
  have "dirty t k = (dirty u k \<and> k \<noteq> p)" for k using t(7) w(7) by (simp add: dirty_def)
  moreover have "b_blockno (bufs t k) = b_blockno (bufs u k)" for k using t(7) w(7) by simp
  ultimately have "dirty_blocks t = dirty_blocks u - {b_blockno (bufs u p)}" by (rule dirty_blocks_write [OF u(3) h(1,5)])
  then have db: "dirty_blocks t = dirty_blocks s" using u(4,11) assms(5) by auto
  have "lh_idx u = [0..<nat (sint (lh_n u))]" "nat (sint (lh_n u)) \<le> LOGSIZE" using assms(3) log_frame [OF u(9)] by (simp_all add: lh_idx_def)
  moreover have "lh_n (upd_buf p f u) = lh_n u" "lh_idx (upd_buf p f u) = lh_idx u" for f by (simp_all add: upd_buf_def lh_idx_def)
  ultimately have "write_head e s = bindE (bwrite p ?v) (brelse p)"
    using u(1) g(1) write_head_loop [of "nat (sint (lh_n u))" p "lh_n u" u] unfolding e by (simp add: write_head_def Let_def)
  then have "write_head e s = Inr t" using w(1) t(1) by simp
  moreover have "bio_chg s t" by (rule bio_chg_trans [OF u(9) bio_chg_trans [OF bio_chg_upd bio_chg_trans [OF w(4) t(4)]]])
  ultimately show ?thesis using t w v db by (intro that [of t]) simp_all
qed

lemma read_head_loop:
  assumes "k \<le> LOGSIZE"
  shows "foldE (\<lambda>i. wr_lh i (f i)) [0..<k] s = Inr (s\<lparr>lh_block := \<lambda>i. if i < k then f i else lh_block s i\<rparr>)"
  using assms
proof (induction k)
  case (Suc k)
  have "(\<lambda>i. if i < k then f i else lh_block s i)(k := f k) = (\<lambda>i. if i < Suc k then f i else lh_block s i)" by auto
  then show ?case using Suc by (simp add: foldE_append wr_lh_def)
qed simp

lemma read_head_ok:
  fixes s :: "'z logv_scheme"
  assumes "cache_ok c s {}" "log_dev s = 1" "log_start s < disksize s" "card (dirty_blocks s) < NBUF"
  defines "h \<equiv> cval s (log_start s)"
  defines "r \<equiv> s\<lparr>lh_n := ld32 h 0, lh_block := \<lambda>i. if i < nat (sint (ld32 h 0)) then ld32 h (4 + 4 * i) else lh_block s i\<rparr>"
  assumes "nat (sint (ld32 h 0)) \<le> LOGSIZE"
  obtains t where "read_head e s = Inr t" "cache_ok c t {}" "bio_chg r t" "dirty_blocks t = dirty_blocks s"
    "disk t = disk s" "cval t = cval s" "dhist t = dhist s"
proof -
  obtain p u where u: "bread e 1 (log_start s) s = Inr (p, u)" "p < NBUF" "cache_ok c u {p}" "b_blockno (bufs u p) = log_start s"
    "b_data (bufs u p) = cval s (log_start s)" "cval u = cval s" "disk u = disk s" "dhist u = dhist s" "bio_chg s u"
    "dirty_blocks u = dirty_blocks s" "clean u p"
    by (rule bread_one [OF assms(1,3,4), of e]) (rule that)
  note hd = u(5) [folded h_def]
  let ?n = "nat (sint (ld32 h 0))"
  let ?v = "u\<lparr>lh_n := ld32 h 0, lh_block := \<lambda>i. if i < ?n then ld32 h (4 + 4 * i) else lh_block s i\<rparr>"
  have v: "cache_ok c ?v {p}" "clean ?v p" using u(3,11) by simp_all
  obtain t where t: "brelse p ?v = Inr t" "cache_ok c t {}" "cval t = cval ?v" "bio_chg ?v t" "disk t = disk ?v"
    "dhist t = dhist ?v" "dirty_blocks t = dirty_blocks ?v"
    by (rule brelse_one [OF v]) (rule that)
  have "dirty_blocks t = dirty_blocks s" using u(10) t(7) by simp
  moreover have "read_head e s = brelse p ?v"
    using u(1) hd assms(2) read_head_loop [OF assms(7), of "\<lambda>i. ld32 h (4 + 4 * i)" "u\<lparr>lh_n := ld32 h 0\<rparr>"] log_frame(4) [OF u(9)]
    by (simp add: read_head_def Let_def lh_idx_def cong: if_cong)
  moreover have "bio_chg r t" unfolding r_def by (rule bio_chg_trans [OF bio_chg_lh [OF u(9)] t(4)])
  ultimately show ?thesis using t u(6-8) by (intro that [of t]) simp_all
qed

end
