(* ===== verification/Log_Crash.thy ===== *)
theory Log_Crash
  imports Log_Lemmas
begin

text \<open>
  Crash safety of the redo log. The first part is about a disk alone: a header block that lists the blocks
  of a transaction and slots that hold their new contents. Whatever prefix of the writes of a commit is
  on the disk when the machine stops, replaying the log gives all the changes of the transaction or none
  of them. The second part shows that \<open>commit\<close> makes these writes and that \<open>recover_from_log\<close> is that
  replay.
\<close>

section \<open>A redo log on a disk\<close>

definition replay :: "('d \<Rightarrow> 'b list) \<Rightarrow> 'b \<Rightarrow> (nat \<Rightarrow> 'b) \<Rightarrow> ('b \<Rightarrow> 'd) \<Rightarrow> 'b \<Rightarrow> 'd" where
  "replay dec hb slot D =
     put_all (map (\<lambda>i. (dec (D hb) ! i, D (slot i))) [0..<length (dec (D hb))]) D"

definition tx_writes :: "('b list \<Rightarrow> 'd \<Rightarrow> 'd) \<Rightarrow> 'b \<Rightarrow> (nat \<Rightarrow> 'b) \<Rightarrow> 'b list \<Rightarrow> ('b \<Rightarrow> 'd) \<Rightarrow> 'd \<Rightarrow> 'd \<Rightarrow> ('b \<times> 'd) list" where
  "tx_writes enc hb slot bs V h h' =
     map (\<lambda>i. (slot i, V (bs ! i))) [0..<length bs] @ (hb, enc bs h) #
     map (\<lambda>i. (bs ! i, V (bs ! i))) [0..<length bs] @ [(hb, enc [] h')]"

text \<open>Header block and slots are apart from each other and from the blocks of the transaction.\<close>

definition apart :: "'b \<Rightarrow> (nat \<Rightarrow> 'b) \<Rightarrow> 'b list \<Rightarrow> bool" where
  "apart hb slot bs \<longleftrightarrow> distinct bs \<and> inj_on slot {..<length bs} \<and> hb \<notin> slot ` {..<length bs} \<and>
     set bs \<inter> insert hb (slot ` {..<length bs}) = {}"

lemma put_all_same:
  assumes "\<And>b d. (b, d) \<in> set ws \<Longrightarrow> d = f b"
  shows "put_all ws D b = (if b \<in> fst ` set ws then f b else D b)"
  using assms
proof (induction ws rule: rev_induct)
  case (snoc w ws)
  obtain x d where w: "w = (x, d)" by fastforce
  then have "put_all ws D b = (if b \<in> fst ` set ws then f b else D b)" "d = f x" using snoc by auto
  then show ?case using w by auto
qed simp

lemma put_all_val: "put_all ws D b = D b \<or> (b, put_all ws D b) \<in> set ws"
  by (induction ws rule: rev_induct) (auto simp: put_all_append put_all_def split: if_splits)

lemma tx_writes_blocks: "fst ` set (tx_writes enc hb slot bs V h h') \<subseteq> insert hb (slot ` {..<length bs} \<union> set bs)"
  by (auto simp: tx_writes_def)

locale header_codec =
  fixes enc :: "'b list \<Rightarrow> 'd \<Rightarrow> 'd" and dec :: "'d \<Rightarrow> 'b list" and cap :: nat
  assumes dec_enc: "length bs \<le> cap \<Longrightarrow> dec (enc bs d) = bs"
begin

lemma crash_before:
  assumes "apart hb slot bs" "dec (D hb) = []" "k \<le> length bs" "b \<notin> slot ` {..<length bs}"
  shows "replay dec hb slot (put_all (take k (tx_writes enc hb slot bs V h h')) D) b = D b"
proof -
  let ?W = "map (\<lambda>i. (slot i, V (bs ! i))) [0..<k]"
  have t: "take k (tx_writes enc hb slot bs V h h') = ?W" using assms(3) by (simp add: tx_writes_def take_map)
  have o: "put_all ?W D x = D x" if "x \<notin> slot ` {..<length bs}" for x
    using that assms(3) by (intro put_all_other) auto
  have "dec (put_all ?W D hb) = []" using o [of hb] assms(1,2) by (simp add: apart_def)
  then show ?thesis using o [OF assms(4)] by (simp add: t replay_def)
qed

lemma crash_between:
  assumes "apart hb slot bs" "length bs \<le> cap" "j \<le> length bs" "b \<noteq> hb" "b \<notin> slot ` {..<length bs}"
    and "\<And>x. x \<notin> set bs \<Longrightarrow> V x = D x"
  shows "replay dec hb slot (put_all (take (Suc (length bs) + j) (tx_writes enc hb slot bs V h h')) D) b = V b"
proof -
  let ?n = "length bs"
  let ?L = "map (\<lambda>i. (slot i, V (bs ! i))) [0..<?n]" and ?H = "map (\<lambda>i. (bs ! i, V (bs ! i))) [0..<j]"
  let ?C = "put_all (take (Suc ?n + j) (tx_writes enc hb slot bs V h h')) D"
  have t: "take (Suc ?n + j) (tx_writes enc hb slot bs V h h') = ?L @ [(hb, enc bs h)] @ ?H"
    using assms(3) by (simp add: tx_writes_def take_map)
  have H: "put_all ?H E x = (if x \<in> (!) bs ` {..<j} then V x else E x)" for E x
    by (subst put_all_same [where f = V]) (auto simp: image_iff)
  have home: "x \<in> set bs" if "x \<in> (!) bs ` {..<j}" for x using that assms(3) by auto
  have C: "?C x = (if x \<in> (!) bs ` {..<j} then V x else if x = hb then enc bs h else put_all ?L D x)" for x
    unfolding t put_all_append H by (simp add: put_all_def)
  have hb: "dec (?C hb) = bs" using assms(1,2) home dec_enc unfolding C apart_def by auto
  have sl: "?C (slot i) = V (bs ! i)" if "i < ?n" for i
    using that assms(1) home [of "slot i"] put_all_map [of slot ?n i "\<lambda>i. V (bs ! i)" D] unfolding C apart_def by auto
  have m: "map (\<lambda>i. (bs ! i, ?C (slot i))) [0..<?n] = map (\<lambda>i. (bs ! i, V (bs ! i))) [0..<?n]" using sl by simp
  have "replay dec hb slot ?C b = put_all (map (\<lambda>i. (bs ! i, V (bs ! i))) [0..<?n]) ?C b" unfolding replay_def hb m ..
  also have "\<dots> = (if b \<in> set bs then V b else ?C b)"
    by (subst put_all_same [where f = V]) (auto simp: image_iff in_set_conv_nth)
  also have "\<dots> = V b"
  proof (cases "b \<in> set bs")
    case False
    then have "?C b = put_all ?L D b" using home assms(4) unfolding C by auto
    also have "\<dots> = D b" using assms(5) by (intro put_all_other) auto
    finally show ?thesis using False assms(6) by simp
  qed simp
  finally show ?thesis .
qed

lemma crash_after:
  assumes "apart hb slot bs" "b \<noteq> hb" "b \<notin> slot ` {..<length bs}" "\<And>x. x \<notin> set bs \<Longrightarrow> V x = D x"
  shows "replay dec hb slot (put_all (tx_writes enc hb slot bs V h h') D) b = V b"
proof -
  let ?n = "length bs"
  let ?L = "map (\<lambda>i. (slot i, V (bs ! i))) [0..<?n]" and ?H = "map (\<lambda>i. (bs ! i, V (bs ! i))) [0..<?n]"
  let ?C = "put_all (tx_writes enc hb slot bs V h h') D"
  have t: "tx_writes enc hb slot bs V h h' = ((?L @ [(hb, enc bs h)]) @ ?H) @ [(hb, enc [] h')]" by (simp add: tx_writes_def)
  have "dec (?C hb) = []" unfolding t put_all_snoc using dec_enc [of "[]"] by simp
  then have "replay dec hb slot ?C b = ?C b" by (simp add: replay_def)
  also have "\<dots> = put_all ?H (put_all (?L @ [(hb, enc bs h)]) D) b" 
    using assms(2) unfolding t put_all_snoc put_all_append [of "?L @ [(hb, enc bs h)]"] by simp
  also have "\<dots> = (if b \<in> set bs then V b else put_all (?L @ [(hb, enc bs h)]) D b)"
    by (subst put_all_same [where f = V]) (auto simp: image_iff in_set_conv_nth)
  also have "\<dots> = V b"
  proof (cases "b \<in> set bs")
    case False
    then have "put_all (?L @ [(hb, enc bs h)]) D b = D b" using assms(2,3) by (intro put_all_other) auto
    then show ?thesis using False assms(4) by simp
  qed simp
  finally show ?thesis .
qed

text \<open>The header lists nothing or the whole transaction.\<close>

lemma crash_header:
  assumes "apart hb slot bs" "length bs \<le> cap" "dec (D hb) = []"
  shows "dec (put_all (take k (tx_writes enc hb slot bs V h h')) D hb) \<in> {[], bs}"
proof -
  let ?v = "put_all (take k (tx_writes enc hb slot bs V h h')) D hb"
  have "?v = enc bs h \<or> ?v = enc [] h'" if "(hb, ?v) \<in> set (tx_writes enc hb slot bs V h h')"
    using that assms(1) by (auto simp: tx_writes_def apart_def)
  moreover have "?v = D hb \<or> (hb, ?v) \<in> set (tx_writes enc hb slot bs V h h')"
    using put_all_val [of "take k (tx_writes enc hb slot bs V h h')" D hb] set_take_subset by fast
  ultimately show ?thesis using assms(2,3) dec_enc [of bs] dec_enc [of "[]"] by auto
qed

text \<open>Every crash point of a commit.\<close>

lemma crash_atomic:
  assumes "apart hb slot bs" "length bs \<le> cap" "dec (D hb) = []" "b \<noteq> hb" "b \<notin> slot ` {..<length bs}"
    and "\<And>x. x \<notin> set bs \<Longrightarrow> V x = D x"
  shows "replay dec hb slot (put_all (take k (tx_writes enc hb slot bs V h h')) D) b = (if k \<le> length bs then D b else V b)"
proof -
  have l: "length (tx_writes enc hb slot bs V h h') = 2 * length bs + 2" by (simp add: tx_writes_def)
  consider "k \<le> length bs" | j where "k = Suc (length bs) + j" "j \<le> length bs" | "2 * length bs + 2 \<le> k"
  proof -
    have "k \<le> length bs \<or> (k = Suc (length bs) + (k - Suc (length bs)) \<and> k - Suc (length bs) \<le> length bs) \<or> 2 * length bs + 2 \<le> k" by linarith
    then show ?thesis using that by blast
  qed
  then show ?thesis
  proof cases
    case 1
    then show ?thesis using crash_before [where D = D, OF assms(1,3) 1 assms(5)] by simp
  next
    case (2 j)
    then show ?thesis using crash_between [where D = D and V = V, OF assms(1,2) 2(2) assms(4-6)] by simp
  next
    case 3
    then have "take k (tx_writes enc hb slot bs V h h') = tx_writes enc hb slot bs V h h'" using l by simp
    then show ?thesis using crash_after [where D = D and V = V, OF assms(1,4-6)] 3 by simp
  qed
qed

end

section \<open>The log of the kernel\<close>

text \<open>The header block as \<open>write_head\<close> stores it and as \<open>read_head\<close> loads it.\<close>

definition st_head :: "uint list \<Rightarrow> block \<Rightarrow> block" where
  "st_head bs = hdr (of_nat (length bs)) ((!) bs) (length bs)"

definition ld_head :: "block \<Rightarrow> uint list" where
  "ld_head d = map (\<lambda>i. ld32 d (4 + 4 * i)) [0..<nat (sint (ld32 d 0))]"

lemma nat_sint_of_nat: "n \<le> LOGSIZE \<Longrightarrow> nat (sint (of_nat n :: uint)) = n"
  by (simp add: signed_of_nat signed_take_bit_int_eq_self)

interpretation lh: header_codec st_head ld_head LOGSIZE
proof
  fix bs :: "uint list" and d assume "length bs \<le> LOGSIZE"
  then show "ld_head (st_head bs d) = bs"
    unfolding ld_head_def st_head_def by (intro nth_equalityI) (simp_all add: nat_sint_of_nat ld_hdr_block)
qed

lemma hdr_cong: "(\<And>i. i < n \<Longrightarrow> f i = g i) \<Longrightarrow> hdr v f n d = hdr v g n d"
  unfolding hdr_def by (rule fold_cong) simp_all

text \<open>The blocks of the transaction in memory.\<close>

definition tx_blocks :: "'z logv_scheme \<Rightarrow> uint list" where
  "tx_blocks s = map (lh_block s) (lh_idx s)"

lemma length_tx [simp]: "length (tx_blocks s) = nat (sint (lh_n s))"
  by (simp add: tx_blocks_def lh_idx_def)

lemma st_head_tx:
  assumes "sint (lh_n s) \<ge> 0"
  shows "hdr (lh_n s) (lh_block s) (nat (sint (lh_n s))) d = st_head (tx_blocks s) d"
proof -
  let ?n = "nat (sint (lh_n s))"
  have n: "of_nat ?n = lh_n s" using assms by (simp flip: of_int_of_nat)
  have "hdr (lh_n s) (lh_block s) ?n d = hdr (lh_n s) ((!) (map (lh_block s) [0..<?n])) ?n d" by (rule hdr_cong) simp
  then show ?thesis unfolding st_head_def tx_blocks_def lh_idx_def length_map length_upt by (simp only: n diff_zero)
qed

lemma tx_apart:
  assumes "log_geo s (nat (sint (lh_n s)))"
  shows "apart (log_start s) (log_at s) (tx_blocks s)"
proof -
  note g = log_geoD [OF assms]
  have "distinct (tx_blocks s)" using g(7) by (simp add: tx_blocks_def lh_idx_def distinct_map lessThan_atLeast0)
  moreover have "log_start s \<notin> log_at s ` {..<nat (sint (lh_n s))}" using g(8) by (metis imageE lessThan_iff)
  moreover have "x \<notin> insert (log_start s) (log_at s ` {..<nat (sint (lh_n s))})" if "x \<in> set (tx_blocks s)" for x
  proof -
    obtain i where "i < nat (sint (lh_n s))" "x = lh_block s i" using \<open>x \<in> set (tx_blocks s)\<close> by (auto simp: tx_blocks_def lh_idx_def)
    then show ?thesis using g(4) g(6) [of i] g(8) by (metis imageE insertE lessThan_iff)
  qed
  ultimately show ?thesis unfolding apart_def disjoint_iff using g(5) by simp
qed

lemma log_geo_lh_n [simp]: "log_geo (s\<lparr>lh_n := v\<rparr>) n = log_geo s n"
  by (simp add: log_geo_def in_log_def)

lemma bio_chg_lh_n:
  assumes "bio_chg s t"
  shows "bio_chg (s\<lparr>lh_n := n\<rparr>) (t\<lparr>lh_n := n\<rparr>)"
proof -
  have "t\<lparr>lh_n := n, lh_block := lh_block s\<rparr> = t\<lparr>lh_n := n\<rparr>" unfolding log_frame(4) [OF assms, symmetric] by simp
  then show ?thesis using bio_chg_lh [OF assms, where n = n and f = "lh_block s"] by simp
qed

text \<open>Once the log and the header are written, the blocks are installed from their copies in the log.\<close>

lemma home_writes_tx:
  assumes "log_geo s (nat (sint (lh_n s)))" "lh_block u = lh_block s" "log_at u = log_at s"
    and "cval u = (put_all (log_writes s (nat (sint (lh_n s)))) (cval s))(log_start s := d)"
  shows "home_writes u (nat (sint (lh_n s))) = map (\<lambda>i. (tx_blocks s ! i, cval s (tx_blocks s ! i))) [0..<length (tx_blocks s)]"
proof -
  note g = log_geoD [OF assms(1)]
  have "cval u (log_at s i) = cval s (lh_block s i)" if "i < nat (sint (lh_n s))" for i
    using put_all_map [OF g(5) that, of "\<lambda>i. cval s (lh_block s i)" "cval s"] g(8) [OF that] by (simp add: assms(4) log_writes_def)
  then show ?thesis unfolding home_writes_def assms(2,3) length_tx by (simp add: tx_blocks_def lh_idx_def)
qed

lemma log_writes_tx: "log_writes s (nat (sint (lh_n s))) = map (\<lambda>i. (log_at s i, cval s (tx_blocks s ! i))) [0..<length (tx_blocks s)]"
  unfolding length_tx by (simp add: log_writes_def tx_blocks_def lh_idx_def)

lemma installed:
  assumes "log_geo s (nat (sint (lh_n s)))" "\<not> in_log s b" "b \<notin> set (tx_blocks s) \<Longrightarrow> D b = cval s b"
    and "W = map (\<lambda>i. (tx_blocks s ! i, cval s (tx_blocks s ! i))) [0..<length (tx_blocks s)]"
  shows "put_all W ((put_all (log_writes s (nat (sint (lh_n s)))) D)(log_start s := d)) b = cval s b"
proof -
  have "b \<noteq> log_start s" using assms(2) log_geoD(4) [OF assms(1)] by auto
  moreover have "put_all W E b = (if b \<in> set (tx_blocks s) then cval s b else E b)" for E
    unfolding assms(4) by (subst put_all_same [where f = "cval s"]) (auto simp: image_iff in_set_conv_nth)
  ultimately show ?thesis using log_writes_other [OF assms(1) order_refl, of b D] assms(2,3) by simp
qed

text \<open>What \<open>commit\<close> writes, and what it leaves.\<close>

lemma commit_ok:
  assumes "cache_ok c s {}" "log_geo s (nat (sint (lh_n s)))" "sint (lh_n s) > 0" "dirty_blocks s = set (tx_blocks s)"
  obtains t h h' where "commit e s = Inr t" "cache_ok c t {}" "dirty_blocks t = {}" "lh_n t = 0"
    "dhist t = dhist s @ tx_writes st_head (log_start s) (log_at s) (tx_blocks s) (cval s) h h'"
    "\<And>b. \<not> in_log s b \<Longrightarrow> disk t b = cval s b" "\<And>b. \<not> in_log s b \<Longrightarrow> cval t b = cval s b"
    "ld_head (disk t (log_start s)) = []" "bio_chg (s\<lparr>lh_n := 0\<rparr>) t"
proof -
  let ?n = "nat (sint (lh_n s))"
  note g = log_geoD [OF assms(2)]
  have db: "dirty_blocks s = lh_block s ` {..<?n}" using assms(4) by (auto simp: tx_blocks_def lh_idx_def)
  then have cd: "card (dirty_blocks s) < NBUF" "log_start s \<notin> dirty_blocks s" using g(2,4,6,7) by (auto simp: card_image)
  obtain t where t: "write_log e s = Inr t" "cache_ok c t {}" "bio_chg s t" "dirty_blocks t = dirty_blocks s"
    "disk t = put_all (log_writes s ?n) (disk s)" "cval t = put_all (log_writes s ?n) (cval s)"
    "dhist t = dhist s @ log_writes s ?n"
    using write_loop [OF assms(1,2) db order_refl, of e] unfolding write_log_def lh_idx_def by auto
  note ft = log_frame [OF t(3)] log_geo_frame [OF t(3)]
  have gt: "log_geo t (nat (sint (lh_n t)))" "nat (sint (lh_n t)) \<le> LOGSIZE" "card (dirty_blocks t) < NBUF" "log_start t \<notin> dirty_blocks t"
    using assms(2) g(2) cd t(4) ft by simp_all
  define h where "h = cval t (log_start s)"
  obtain u where u: "write_head e t = Inr u" "cache_ok c u {}" "bio_chg t u" "dirty_blocks u = dirty_blocks t"
    "disk u = (disk t)(log_start s := st_head (tx_blocks s) h)" "cval u = (cval t)(log_start s := st_head (tx_blocks s) h)"
    "dhist u = dhist t @ [(log_start s, st_head (tx_blocks s) h)]"
    using write_head_ok [OF t(2) gt, of e thesis] assms(3) st_head_tx [of s] unfolding ft h_def by simp
  note bu = bio_chg_trans [OF t(3) u(3)]
  note fu = log_frame [OF bu] log_geo_frame [OF bu]
  have gu: "log_geo u ?n" "dirty_blocks u = {} \<or> dirty_blocks u = lh_block u ` {..<?n}" using assms(2) u(4) t(4) db fu by simp_all
  obtain v where v: "install_trans e u = Inr v" "cache_ok c v {}" "bio_chg u v" "dirty_blocks v = dirty_blocks u - lh_block u ` {..<?n}"
    "disk v = put_all (home_writes u ?n) (disk u)" "cval v = put_all (home_writes u ?n) (cval u)" "dhist v = dhist u @ home_writes u ?n"
    using install_loop [OF u(2) gu order_refl, of e] fu(6) unfolding install_trans_def lh_idx_def by auto
  note bv = bio_chg_trans [OF bu v(3)]
  note fv = log_frame [OF bv] log_geo_frame [OF bv]
  note home = home_writes_tx [OF assms(2) fu(4,8) u(6) [unfolded t(6)]]
  define h' where "h' = cval v (log_start s)"
  let ?v = "v\<lparr>lh_n := 0\<rparr>"
  have gv: "cache_ok c ?v {}" "log_geo ?v ?n" "nat (sint (lh_n ?v)) \<le> LOGSIZE" "card (dirty_blocks ?v) < NBUF" "log_start ?v \<notin> dirty_blocks ?v"
    and dv: "dirty_blocks v = {}"
    using v(2,4) assms(2) fv u(4) t(4) db fu(4) by simp_all
  obtain w where w: "write_head e ?v = Inr w" "cache_ok c w {}" "bio_chg ?v w" "dirty_blocks w = {}"
    "disk w = (disk v)(log_start s := st_head [] h')" "cval w = (cval v)(log_start s := st_head [] h')"
    "dhist w = dhist v @ [(log_start s, st_head [] h')]"
    using write_head_ok [OF gv, of e thesis] fv dv by (simp add: h'_def st_head_def hdr_0)
  have cl: "b \<notin> set (tx_blocks s) \<Longrightarrow> disk s b = cval s b" for b using cval_clean [OF assms(1), of b] assms(4) by simp
  have "commit e s = Inr w" using assms(3) t(1) u(1) v(1) w(1) by (simp add: commit_def)
  moreover have "dhist w = dhist s @ tx_writes st_head (log_start s) (log_at s) (tx_blocks s) (cval s) h h'"
    unfolding w(7) v(7) u(7) t(7) home log_writes_tx tx_writes_def by simp
  moreover have "b \<noteq> log_start s" if "\<not> in_log s b" for b using that g(4) by auto
  then have "disk w b = cval s b" "cval w b = cval s b" if "\<not> in_log s b" for b
    unfolding w(5,6) v(5,6) u(5,6) t(5,6) using that
    by (simp_all add: installed [where D = "disk s", OF assms(2) that cl home] installed [where D = "cval s", OF assms(2) that refl home])
  moreover have "lh_n w = 0" using log_frame(3) [OF w(3)] by simp
  moreover have "ld_head (disk w (log_start s)) = []" unfolding w(5) using lh.dec_enc [of "[]"] by simp
  moreover have "bio_chg (s\<lparr>lh_n := 0\<rparr>) w" by (rule bio_chg_trans [OF bio_chg_lh_n [OF bv] w(3)])
  ultimately show ?thesis using w(2,4) by (intro that [of w h h'])
qed

text \<open>Recovery replays the log and clears the header.\<close>

definition head_ok :: "'z logv_scheme \<Rightarrow> uint list \<Rightarrow> bool" where
  "head_ok s bs \<longleftrightarrow> length bs < LOGSIZE \<and> unat (log_start s) + LOGSIZE \<le> unat (disksize s) \<and>
     (\<forall>b \<in> set bs. b < disksize s \<and> \<not> in_log s b) \<and> distinct bs"

lemma recover_ok:
  fixes s :: "'z logv_scheme"
  assumes "cache_ok c s {}" "dirty_blocks s = {}" "log_dev s = 1" "head_ok s (ld_head (disk s (log_start s)))"
  obtains t where "recover_from_log e s = Inr t" "cache_ok c t {}" "dirty_blocks t = {}" "lh_n t = 0" "log_start t = log_start s"
    "\<And>b. b \<noteq> log_start s \<Longrightarrow> disk t b = replay ld_head (log_start s) (log_at s) (disk s) b"
    "ld_head (disk t (log_start s)) = []" "log_dev t = 1" "disksize t = disksize s"
proof -
  let ?h = "disk s (log_start s)"
  let ?n = "nat (sint (ld32 ?h 0))"
  define r where "r = s\<lparr>lh_n := ld32 ?h 0, lh_block := \<lambda>i. if i < ?n then ld32 ?h (4 + 4 * i) else lh_block s i\<rparr>"
  have cv: "cval s = disk s" using cval_clean [OF assms(1)] assms(2) by (intro ext) simp
  have ln: "length (ld_head ?h) = ?n" by (simp add: ld_head_def)
  have bk: "lh_block r i = ld_head ?h ! i" "ld_head ?h ! i \<in> set (ld_head ?h)" if "i < ?n" for i
    using that ln by (simp_all add: r_def ld_head_def)
  have "unat (log_start s) + LOGSIZE \<le> unat (disksize s)" "?n < LOGSIZE" using assms(4) ln by (simp_all add: head_ok_def)
  moreover have "inj_on (lh_block r) {..<?n}"
    using assms(4) bk(1) ln by (auto simp: head_ok_def inj_on_def nth_eq_iff_index_eq)
  moreover have "\<forall>i < ?n. lh_block r i < disksize s \<and> \<not> in_log s (lh_block r i)"
    using assms(4) bk by (simp add: head_ok_def)
  moreover have rs: "log_dev r = log_dev s" "log_start r = log_start s" "disksize r = disksize s" "in_log r = in_log s" "log_at r = log_at s"
    "lh_n r = ld32 ?h 0" by (simp_all add: r_def fun_eq_iff in_log_def log_at_def)
  ultimately have gr: "log_geo r ?n" using assms(3) by (simp add: log_geo_def)
  note g = log_geoD [OF gr, unfolded rs]
  have n: "nat (sint (ld32 (cval s (log_start s)) 0)) \<le> LOGSIZE" "card (dirty_blocks s) < NBUF" using g(2) assms(2) by (simp_all add: cv)
  obtain t where t: "read_head e s = Inr t" "cache_ok c t {}" "bio_chg r t" "dirty_blocks t = {}" "disk t = disk s" "cval t = disk s"
    using read_head_ok [OF assms(1,3) g(3) n(2,1), of e thesis] unfolding cv assms(2) by (simp add: r_def)
  note ft = log_frame [OF t(3)] log_geo_frame [OF t(3)]
  have gt: "log_geo t ?n" "dirty_blocks t = {} \<or> dirty_blocks t = lh_block t ` {..<?n}" using gr t(4) ft by simp_all
  obtain u where u: "install_trans e t = Inr u" "cache_ok c u {}" "bio_chg t u" "dirty_blocks u = dirty_blocks t - lh_block t ` {..<?n}"
    "disk u = put_all (home_writes t ?n) (disk t)"
    using install_loop [OF t(2) gt order_refl, of e] ft(3) rs(6) unfolding install_trans_def lh_idx_def by auto
  note fu = log_frame [OF bio_chg_trans [OF t(3) u(3)]] log_geo_frame [OF bio_chg_trans [OF t(3) u(3)]]
  let ?u = "u\<lparr>lh_n := 0\<rparr>"
  have gu: "cache_ok c ?u {}" "log_geo ?u ?n" "nat (sint (lh_n ?u)) \<le> LOGSIZE" "card (dirty_blocks ?u) < NBUF" "log_start ?u \<notin> dirty_blocks ?u"
    using u(2,4) gr t(4) fu by simp_all
  obtain w where w: "write_head e ?u = Inr w" "cache_ok c w {}" "bio_chg ?u w" "dirty_blocks w = {}"
    "disk w = (disk u)(log_start s := st_head [] (cval u (log_start s)))"
    using write_head_ok [OF gu, of e thesis] fu rs u(4) t(4) by (simp add: st_head_def hdr_0)
  have "home_writes t ?n = map (\<lambda>i. (ld_head ?h ! i, disk s (log_at s i))) [0..<length (ld_head ?h)]"
    unfolding home_writes_def ln ft t(6) rs using bk(1) by simp
  then have "disk u = replay ld_head (log_start s) (log_at s) (disk s)" unfolding u(5) t(5) replay_def by simp
  moreover have "recover_from_log e s = Inr w" using t(1) u(1) w(1) by (simp add: recover_from_log_def)
  moreover have "lh_n w = 0" "log_start w = log_start s" "log_dev w = 1" "disksize w = disksize s"
    using log_frame [OF w(3)] fu rs assms(3) by simp_all
  ultimately show ?thesis using w lh.dec_enc [of "[]"] by (intro that [of w]) simp_all
qed

section \<open>Starting the log\<close>

lemma readsb_ok:
  assumes "cache_ok c s {}" "dirty_blocks s = {}" "1 < disksize s"
  obtains t sb where "readsb e 1 s = Inr (sb, t)" "sb_logstart sb = ld32 (disk s 1) 16" "cache_ok c t {}" "bio_chg s t"
    "dirty_blocks t = {}" "disk t = disk s"
proof -
  have cv: "cval s 1 = disk s 1" using cval_clean [OF assms(1)] assms(2) by simp
  obtain p u where u: "bread e 1 1 s = Inr (p, u)" "cache_ok c u {p}" "b_data (bufs u p) = cval s 1" "disk u = disk s" "bio_chg s u"
    "dirty_blocks u = dirty_blocks s" "clean u p"
    by (rule bread_one [OF assms(1,3), of e]) (simp add: assms(2), rule that)
  obtain t where t: "brelse p u = Inr t" "cache_ok c t {}" "bio_chg u t" "disk t = disk u" "dirty_blocks t = dirty_blocks u"
    by (rule brelse_one [OF u(2,7)]) (rule that)
  have "\<exists>sb. readsb e 1 s = Inr (sb, t) \<and> sb_logstart sb = ld32 (disk s 1) 16"
    using u(1,3) t(1) cv by (simp add: readsb_def Let_def)
  then obtain sb where "readsb e 1 s = Inr (sb, t)" "sb_logstart sb = ld32 (disk s 1) 16" by blast
  then show ?thesis using u(4,6) t(2,4,5) bio_chg_trans [OF u(5) t(3)] assms(2) by (intro that [of sb t]) simp_all
qed

lemma cache_initlock:
  assumes "cache_ok c s H"
  shows "cache_ok c (initlock l nm s) H"
proof -
  have "quiet c s" using assms by (simp add: cache_ok_def)
  then have "quiet c (initlock l nm s)" by (auto simp: quiet_def initlock_def lock_defs)
  moreover have "mypid c (initlock l nm s) = mypid c s" by (simp add: mypid_def initlock_def upd_lock_def)
  moreover have "bufs (initlock l nm s) = bufs s" "bnext (initlock l nm s) = bnext s" "bprev (initlock l nm s) = bprev s"
    "slocks (initlock l nm s) = slocks s" "disk (initlock l nm s) = disk s" "disksize (initlock l nm s) = disksize s"
    by (simp_all add: initlock_def upd_lock_def)
  ultimately show ?thesis using assms unfolding cache_ok_def buf_ok_def by simp
qed

text \<open>
  Between transactions and inside them: the changed blocks are those of the header in memory, and the
  header on the disk is empty.
\<close>

definition log_ok :: "nat \<Rightarrow> 'z logv_scheme \<Rightarrow> bool" where
  "log_ok c s \<longleftrightarrow> cache_ok c s {} \<and> log_geo s (nat (sint (lh_n s))) \<and> sint (lh_n s) \<ge> 0 \<and>
     dirty_blocks s = set (tx_blocks s) \<and> ld_head (disk s (log_start s)) = []"

text \<open>A kernel that starts on a disk: nothing is cached that is not on the disk.\<close>

definition boots :: "nat \<Rightarrow> uint \<Rightarrow> (uint \<Rightarrow> block) \<Rightarrow> 'z logv_scheme \<Rightarrow> bool" where
  "boots c n D r \<longleftrightarrow> cache_ok c r {} \<and> dirty_blocks r = {} \<and> disk r = D \<and> disksize r = n"

text \<open>The super block, block 1, says where the log is, and no transaction changes it.\<close>

definition sb_ok :: "'z logv_scheme \<Rightarrow> bool" where
  "sb_ok s \<longleftrightarrow> 1 < disksize s \<and> \<not> in_log s 1 \<and> 1 \<notin> set (tx_blocks s) \<and> ld32 (disk s 1) 16 = log_start s"

lemma initlog_ok:
  fixes s :: "'z logv_scheme"
  assumes "boots c n D s" "1 < n" "ld32 (D 1) 16 = lstart" "unat lstart + LOGSIZE \<le> unat n" "length (ld_head (D lstart)) < LOGSIZE"
    and "\<forall>b \<in> set (ld_head (D lstart)). b < n \<and> \<not> (unat lstart \<le> unat b \<and> unat b < unat lstart + LOGSIZE)"
    and "distinct (ld_head (D lstart))"
  obtains t where "initlog e 1 s = Inr t" "log_ok c t" "lh_n t = 0" "log_start t = lstart" "disksize t = n"
    "\<And>b. b \<noteq> lstart \<Longrightarrow> disk t b = replay ld_head lstart (\<lambda>i. lstart + of_nat i + 1) D b"
proof -
  let ?s = "initlock Lk_log ''log'' s"
  have b: "cache_ok c s {}" "dirty_blocks s = {}" "disk s = D" "disksize s = n" using assms(1) by (simp_all add: boots_def)
  have i: "dirty_blocks ?s = {}" "1 < disksize ?s" "disk ?s = D" "disksize ?s = n"
    using b(2-4) assms(2) by (simp_all add: initlock_def upd_lock_def dirty_blocks_def dirty_def)
  obtain t sb where t: "readsb e 1 ?s = Inr (sb, t)" "sb_logstart sb = ld32 (disk ?s 1) 16" "cache_ok c t {}" "bio_chg ?s t"
    "dirty_blocks t = {}" "disk t = disk ?s"
    by (rule readsb_ok [OF cache_initlock [OF b(1)] i(1,2)]) (rule that)
  let ?r = "t\<lparr>log_start := lstart, log_size := sb_nlog sb, log_dev := 1\<rparr>"
  have tr: "bufv.truncate ?r = bufv.truncate t" by (simp add: bufv.truncate_def)
  have sel: "log_start ?r = lstart" "disk ?r = D" "disksize ?r = n" "log_at ?r = (\<lambda>i. lstart + of_nat i + 1)"
    using t(6) i bio_chg_sel(3) [OF t(4)] by (simp_all add: fun_eq_iff log_at_def)
  have r: "cache_ok c ?r {}" "dirty_blocks ?r = {}" "log_dev ?r = 1" "head_ok ?r (ld_head (disk ?r (log_start ?r)))"
    unfolding buf_cong [OF tr] sel using t(3,5) assms(4-7) by (simp_all add: head_ok_def in_log_def sel)
  obtain u where u: "recover_from_log e ?r = Inr u" "cache_ok c u {}" "dirty_blocks u = {}" "lh_n u = 0" "log_start u = log_start ?r"
    "\<And>b. b \<noteq> log_start ?r \<Longrightarrow> disk u b = replay ld_head (log_start ?r) (log_at ?r) (disk ?r) b"
    "ld_head (disk u (log_start ?r)) = []" "log_dev u = 1" "disksize u = disksize ?r"
    by (rule recover_ok [OF r, of e]) (rule that)
  have "initlog e 1 s = Inr u" using t(1,2) u(1) i assms(3) by (simp add: initlog_def Let_def)
  moreover have "log_ok c u" using u assms(4) sel by (simp add: log_ok_def log_geo_def tx_blocks_def lh_idx_def)
  ultimately show ?thesis using u sel by (intro that [of u]) simp_all
qed

text \<open>A crash after \<open>k\<close> writes of a commit, and the next start.\<close>

lemma crash_recovers:
  fixes s :: "'z logv_scheme" and r :: "'y logv_scheme"
  assumes "log_ok c s" "sb_ok s" and ws_def: "ws = tx_writes st_head (log_start s) (log_at s) (tx_blocks s) (cval s) h h'"
    and "boots c' (disksize s) (put_all (take k ws) (disk s)) r"
  obtains u where "initlog e 1 r = Inr u" "log_ok c' u" "lh_n u = 0"
    "\<And>b. \<not> in_log s b \<Longrightarrow> disk u b = (if k \<le> nat (sint (lh_n s)) then disk s b else cval s b)"
proof -
  let ?D = "put_all (take k ws) (disk s)" and ?l = "log_start s"
  have s: "cache_ok c s {}" "log_geo s (nat (sint (lh_n s)))" "dirty_blocks s = set (tx_blocks s)" "ld_head (disk s ?l) = []"
    using assms(1) by (simp_all add: log_ok_def)
  note g = log_geoD [OF s(2)] and ap = tx_apart [OF s(2)]
  have le: "length (tx_blocks s) \<le> LOGSIZE" "length (tx_blocks s) < LOGSIZE" using g(2) by simp_all
  have hd: "ld_head (?D ?l) \<in> {[], tx_blocks s}" unfolding ws_def by (rule lh.crash_header [where D = "disk s", OF ap le(1) s(4)])
  have sl: "in_log s b" if "b \<in> log_at s ` {..<length (tx_blocks s)}" for b using that g(8) by (auto simp del: One_nat_def)
  have "fst ` set (take k ws) \<subseteq> fst ` set ws" by (rule image_mono [OF set_take_subset])
  also have "\<dots> \<subseteq> insert ?l (log_at s ` {..<length (tx_blocks s)} \<union> set (tx_blocks s))" unfolding ws_def by (rule tx_writes_blocks)
  moreover have "1 \<noteq> ?l" "1 \<notin> log_at s ` {..<length (tx_blocks s)}" "1 \<notin> set (tx_blocks s)"
    using assms(2) g(4) sl by (auto simp: sb_ok_def simp del: length_tx)
  ultimately have "1 \<notin> fst ` set (take k ws)" by blast
  then have "?D 1 = disk s 1" by (rule put_all_other)
  then have b1: "ld32 (?D 1) 16 = ?l" "1 < disksize s" using assms(2) by (simp_all add: sb_ok_def)
  have tb: "b < disksize s \<and> \<not> in_log s b" if "b \<in> set (tx_blocks s)" for b using that g(6) by (auto simp: tx_blocks_def lh_idx_def)
  have "unat ?l + LOGSIZE \<le> unat (disksize s)" using s(2) by (simp add: log_geo_def)
  moreover have "length (ld_head (?D ?l)) < LOGSIZE" using hd le(2) by auto
  moreover have "\<forall>b \<in> set (ld_head (?D ?l)). b < disksize s \<and> \<not> (unat ?l \<le> unat b \<and> unat b < unat ?l + LOGSIZE)"
    using hd tb unfolding in_log_def by auto
  moreover have "distinct (ld_head (?D ?l))" using hd ap by (auto simp: apart_def)
  ultimately obtain u where u: "initlog e 1 r = Inr u" "log_ok c' u" "lh_n u = 0"
    "\<And>b. b \<noteq> ?l \<Longrightarrow> disk u b = replay ld_head ?l (\<lambda>i. ?l + of_nat i + 1) ?D b"
    using initlog_ok [OF assms(4) b1(2,1), of e thesis] by blast
  have cl: "b \<notin> set (tx_blocks s) \<Longrightarrow> cval s b = disk s b" for b using cval_clean [OF s(1), of b] s(3) by simp
  have "disk u b = (if k \<le> nat (sint (lh_n s)) then disk s b else cval s b)" if "\<not> in_log s b" for b
  proof -
    have nb: "b \<noteq> ?l" "b \<notin> log_at s ` {..<length (tx_blocks s)}" using that g(4) sl by auto
    have "log_at s = (\<lambda>i. ?l + of_nat i + 1)" by (simp add: fun_eq_iff log_at_def)
    then show ?thesis
      using u(4) [OF nb(1)] lh.crash_atomic [where D = "disk s" and V = "cval s", OF ap le(1) s(4) nb cl, of k h h']
      unfolding ws_def by simp
  qed
  then show ?thesis using u by (intro that)
qed

end
