(* ===== verification/Log_Ops.thy ===== *)
theory Log_Ops
  imports Log_Crash
begin

text \<open>
  The operations of log.c that clients call: \<open>begin_op\<close>, \<open>log_write\<close> and \<open>end_op\<close>. A block changed through
  the cache and logged keeps \<open>log_ok\<close>; the last \<open>end_op\<close> of a transaction commits it.
\<close>

section \<open>Logging a block\<close>

text \<open>Everything but the cache and the header in memory is as it was.\<close>

definition log_chg :: "'z logv_scheme \<Rightarrow> 'z logv_scheme \<Rightarrow> bool" where
  "log_chg s t \<longleftrightarrow> bio_chg (s\<lparr>lh_n := lh_n t, lh_block := lh_block t\<rparr>) t"

lemma log_chg_refl [simp]: "log_chg s s"
  by (simp add: log_chg_def)

lemma bio_log_chg:
  assumes "bio_chg s t"
  shows "log_chg s t"
proof -
  have "s\<lparr>lh_n := lh_n t, lh_block := lh_block t\<rparr> = s" using log_frame [OF assms] by simp
  then show ?thesis using assms by (simp add: log_chg_def)
qed

lemma log_chg_trans:
  assumes "log_chg s t" "log_chg t u"
  shows "log_chg s u"
  using bio_chg_lh [OF assms(1) [unfolded log_chg_def], where n = "lh_n u" and f = "lh_block u"] assms(2)
  by (auto simp: log_chg_def intro: bio_chg_trans)

lemma log_chg_sel:
  assumes "log_chg s (t :: 'z logv_scheme)"
  shows "log_dev t = log_dev s" "log_start t = log_start s" "log_size t = log_size s" "log_outstanding t = log_outstanding s"
    "log_committing t = log_committing s" "disksize t = disksize s" "logv.more t = logv.more s" "quiet c t = quiet c s"
    "in_log t = in_log s" "log_at t = log_at s"
proof -
  note b = assms [unfolded log_chg_def]
  have "bufv.more t = bufv.more (s\<lparr>lh_n := lh_n t, lh_block := lh_block t\<rparr>)" by (rule bio_chg_sel(4) [OF b])
  then show l: "log_dev t = log_dev s" "log_start t = log_start s" "log_size t = log_size s" "log_outstanding t = log_outstanding s"
    "log_committing t = log_committing s" "logv.more t = logv.more s"
    by (cases s; cases t; simp)+
  show "disksize t = disksize s" using bio_chg_sel(3) [OF b] by simp
  have "quiet c (s\<lparr>lh_n := n, lh_block := f\<rparr>) = quiet c s" for n f by (rule quiet_cong) (simp_all add: same_cpuv_def)
  then show "quiet c t = quiet c s" using bio_chg_sel(1) [OF b] by simp
  show "in_log t = in_log s" "log_at t = log_at s" by (simp_all add: fun_eq_iff in_log_def log_at_def l)
qed

text \<open>The room \<open>log_write\<close> asks for.\<close>

definition log_room :: "'z logv_scheme \<Rightarrow> bool" where
  "log_room s \<longleftrightarrow> sint (lh_n s) + 1 < sint (log_size s) \<and> sint (log_size s) \<le> int LOGSIZE \<and> 1 \<le> sint (log_outstanding s)"

lemma sint_small: "- (2 ^ 31) \<le> i \<Longrightarrow> i < 2 ^ 31 \<Longrightarrow> sint (of_int i :: cint) = i"
  by (simp add: signed_of_int signed_take_bit_int_eq_self)

lemma sint_pm_1:
  shows "- (2 ^ 31) < sint x \<Longrightarrow> sint (x - 1 :: cint) = sint x - 1" "sint x + 1 < 2 ^ 31 \<Longrightarrow> sint (x + 1 :: cint) = sint x + 1"
proof -
  have b: "- (2 ^ 31) \<le> sint x" "sint x < 2 ^ 31" using sint_greater_eq [of x] sint_less [of x] by simp_all
  show "sint (x - 1) = sint x - 1" if "- (2 ^ 31) < sint x" using sint_small [of "sint x - 1"] b that by simp
  show "sint (x + 1) = sint x + 1" if "sint x + 1 < 2 ^ 31" using sint_small [of "sint x + 1"] b that by simp
qed

lemma log_write_eq:
  fixes s :: "'z logv_scheme" and i :: nat
  assumes "quiet c s" "log_room s" "sint (lh_n s) \<ge> 0"
  defines "b \<equiv> b_blockno (bufs s i)"
  shows "log_write i s = Inr (upd_buf i (\<lambda>x. x\<lparr>b_flags := b_flags x OR B_DIRTY\<rparr>)
    (s\<lparr>lh_block := (lh_block s)(absorb_idx b s := b),
       lh_n := if absorb_idx b s = nat (sint (lh_n s)) then lh_n s + 1 else lh_n s\<rparr>))"
proof -
  have r: "sint (lh_n s) < int LOGSIZE" "sint (lh_n s) < sint (log_size s - 1)" "\<not> sint (log_outstanding s) < 1"
    using assms(2,3) by (simp_all add: log_room_def sint_pm_1)
  have ab: "absorb_idx b s \<le> nat (sint (lh_n s))" by (auto simp: absorb_idx_def lh_idx_def find_upt split: option.split)
  then have k: "absorb_idx b s < LOGSIZE" using r(1) assms(3) by simp
  let ?a = "acquired c Lk_log s"
  have l: "lh_n ?a = lh_n s" "lh_block ?a = lh_block s" by (simp_all add: lock_defs)
  then have a: "absorb_idx x ?a = absorb_idx x s" for x by (simp only: absorb_idx_def lh_idx_def)
  have z: "?a\<lparr>lh_block := f, lh_n := lh_n s\<rparr> = ?a\<lparr>lh_block := f\<rparr>" for f by (simp add: lock_defs)
  let ?t = "upd_buf i (\<lambda>x. x\<lparr>b_flags := b_flags x OR B_DIRTY\<rparr>)
    (?a\<lparr>lh_block := (lh_block s)(absorb_idx b s := b), lh_n := if absorb_idx b s = nat (sint (lh_n s)) then lh_n s + 1 else lh_n s\<rparr>)"
  have "log_write i s = release Lk_log ?t"
    using r k by (simp add: log_write_def quiet_acquired(1) [OF assms(1)] wr_lh_def a l z flip: b_def)
  also have "\<dots> = Inr (?t\<lparr>fl_if := fl_if s, cpus := cpus s, locks := locks s\<rparr>)"
    by (rule quiet_release [OF assms(1)]) (simp add: same_cpuv_def upd_buf_def)
  finally show ?thesis by (simp add: upd_buf_def lock_defs)
qed

text \<open>The header in memory after a block has been logged.\<close>

lemma absorb_spec:
  assumes "sint (lh_n s) \<ge> 0" "inj_on (lh_block s) {..<nat (sint (lh_n s))}"
  shows "b \<in> set (tx_blocks s) \<Longrightarrow> absorb_idx b s < nat (sint (lh_n s)) \<and> lh_block s (absorb_idx b s) = b"
    "b \<notin> set (tx_blocks s) \<Longrightarrow> absorb_idx b s = nat (sint (lh_n s))"
proof -
  have t: "b \<in> set (tx_blocks s) \<longleftrightarrow> find (\<lambda>i. lh_block s i = b) (lh_idx s) \<noteq> None"
    by (auto simp: tx_blocks_def find_None_iff)
  show "absorb_idx b s < nat (sint (lh_n s)) \<and> lh_block s (absorb_idx b s) = b" if "b \<in> set (tx_blocks s)"
    using that t by (auto simp: absorb_idx_def lh_idx_def find_upt split: option.split)
  show "absorb_idx b s = nat (sint (lh_n s))" if "b \<notin> set (tx_blocks s)"
    using that t by (auto simp: absorb_idx_def lh_idx_def)
qed

lemma logged_geo:
  fixes s t :: "'z logv_scheme"
  assumes "log_geo s (nat (sint (lh_n s)))" "sint (lh_n s) \<ge> 0" "sint (lh_n s) + 1 < int LOGSIZE" "b < disksize s" "\<not> in_log s b"
    and "t = s\<lparr>lh_block := (lh_block s)(absorb_idx b s := b),
      lh_n := if absorb_idx b s = nat (sint (lh_n s)) then lh_n s + 1 else lh_n s\<rparr>"
  shows "log_geo t (nat (sint (lh_n t)))" "sint (lh_n t) \<ge> 0" "set (tx_blocks t) = insert b (set (tx_blocks s))"
proof -
  note g = log_geoD [OF assms(1)]
  note ab = absorb_spec [OF assms(2) g(7)]
  have "log_geo t (nat (sint (lh_n t))) \<and> sint (lh_n t) \<ge> 0 \<and> set (tx_blocks t) = insert b (set (tx_blocks s))"
  proof (cases "b \<in> set (tx_blocks s)")
    case True
    then have "absorb_idx b s \<noteq> nat (sint (lh_n s))" "(lh_block s)(absorb_idx b s := b) = lh_block s" using ab(1) [OF True] by auto
    then have "t = s" using assms(6) by simp
    then show ?thesis using True assms(1,2) by auto
  next
    case False
    let ?n = "nat (sint (lh_n s))"
    have n: "sint (lh_n t) = sint (lh_n s) + 1" "lh_block t = (lh_block s)(?n := b)" "nat (sint (lh_n s) + 1) = Suc ?n"
      using ab(2) [OF False] assms(2,3,6) by (simp_all add: sint_pm_1)
    have out: "b \<noteq> lh_block s i" if "i < ?n" for i using False that by (auto simp: tx_blocks_def lh_idx_def)
    have "log_geo t (Suc ?n)" using assms(1-6) out n(2)
      by (auto simp: log_geo_def in_log_def less_Suc_eq lessThan_Suc inj_on_def)
    moreover have "set (tx_blocks t) = insert b (set (tx_blocks s))"
      unfolding tx_blocks_def lh_idx_def n by (auto simp: less_Suc_eq)
    ultimately show ?thesis using n assms(2) by simp
  qed
  then show "log_geo t (nat (sint (lh_n t)))" "sint (lh_n t) \<ge> 0" "set (tx_blocks t) = insert b (set (tx_blocks s))" by simp_all
qed

lemma logged_buffer:
  fixes d :: block
  assumes "cache_ok c s {i}"
  defines "t \<equiv> upd_buf i (\<lambda>x. x\<lparr>b_flags := B_VALID OR B_DIRTY, b_data := d\<rparr>) s"
  shows "cache_ok c t {i}" "cval t = (cval s)(b_blockno (bufs s i) := d)" "clean t i" "bio_chg s t"
    "dirty_blocks t = insert (b_blockno (bufs s i)) (dirty_blocks s)"
proof -
  have i: "i \<in> {i}" by simp
  note h = held [OF assms(1) i]
  show "cache_ok c t {i}" "cval t = (cval s)(b_blockno (bufs s i) := d)"
    unfolding t_def by (rule held_upd [OF assms(1) i]; simp)+
  show "clean t i" "bio_chg s t" by (simp_all add: t_def clean_def dirty_def)
  have "dirty t k = (dirty s k \<or> k = i)" "b_blockno (bufs t k) = b_blockno (bufs s k)" for k by (simp_all add: t_def dirty_def)
  then show "dirty_blocks t = insert (b_blockno (bufs s i)) (dirty_blocks s)" using h(1) by (auto simp: dirty_blocks_def)
qed

lemma lh_swap: "s\<lparr>lh_block := f, lh_n := n\<rparr> = s\<lparr>lh_n := n, lh_block := f\<rparr>"
  by (cases s) simp

lemma log_held:
  fixes s u :: "'z logv_scheme"
  assumes "log_ok c s" "log_room s" "\<not> in_log s b"
    and u: "cache_ok c u {i}" "b_blockno (bufs u i) = b" "cval u = cval s" "disk u = disk s" "dhist u = dhist s" "bio_chg s u"
      "dirty_blocks u = dirty_blocks s"
  shows "\<exists>t. bindE (log_write i (upd_buf i (\<lambda>x. x\<lparr>b_data := d\<rparr>) u)) (brelse i) = Inr t \<and> log_ok c t \<and> log_chg s t \<and>
    cval t = (cval s)(b := d) \<and> disk t = disk s \<and> dhist t = dhist s \<and> set (tx_blocks t) = insert b (set (tx_blocks s))"
proof -
  have s: "log_geo s (nat (sint (lh_n s)))" "sint (lh_n s) \<ge> 0" "dirty_blocks s = set (tx_blocks s)" "ld_head (disk s (log_start s)) = []"
    using assms(1) by (simp_all add: log_ok_def)
  have i: "i \<in> {i}" by simp
  note h = held [OF u(1) i]
  let ?v = "upd_buf i (\<lambda>x. x\<lparr>b_data := d\<rparr>) u"
  have bv: "bio_chg s ?v" by (rule bio_chg_trans [OF u(6) bio_chg_upd])
  note f = log_frame [OF u(6)] log_geo_frame [OF u(6)]
  have lv: "lh_n ?v = lh_n s" "lh_block ?v = lh_block s" using f by (simp_all add: upd_buf_def)
  have mv: "log_size ?v = log_size s" "log_outstanding ?v = log_outstanding s" using log_chg_sel [OF bio_log_chg [OF bv]] by simp_all
  have q: "quiet c ?v" "log_room ?v" "sint (lh_n ?v) \<ge> 0"
    using bio_chg_sel(1) [OF bv] u(1) bio_chg_sel(1) [OF u(6)] assms(2) s(2) lv mv by (simp_all add: log_room_def cache_ok_def)
  have av: "absorb_idx b ?v = absorb_idx b u" by (simp only: absorb_idx_def lh_idx_def lv f(3,4))
  let ?w = "upd_buf i (\<lambda>x. x\<lparr>b_flags := B_VALID OR B_DIRTY, b_data := d\<rparr>) u"
  note w = logged_buffer [OF u(1), of d]
  define t where "t = ?w\<lparr>lh_block := (lh_block u)(absorb_idx b u := b), lh_n := if absorb_idx b u = nat (sint (lh_n u)) then lh_n u + 1 else lh_n u\<rparr>"
  have fl: "b_flags (bufs u i) OR B_DIRTY = B_VALID OR B_DIRTY" and bn: "b_blockno (bufs ?v i) = b" using h(7) u(2) by auto
  have com: "upd_buf i (\<lambda>x. x\<lparr>b_flags := b_flags x OR B_DIRTY\<rparr>) (?v\<lparr>lh_block := g, lh_n := n\<rparr>) = ?w\<lparr>lh_block := g, lh_n := n\<rparr>" for g n
    using fl by (cases "bufs u i"; cases u) (simp add: upd_buf_def)
  have lw: "log_write i ?v = Inr t"
    unfolding log_write_eq [OF q] bn com av lv t_def by (simp only: f(3,4))
  have t: "cache_ok c t {i}" "clean t i" "cval t = (cval s)(b := d)" "dirty_blocks t = insert b (dirty_blocks s)" "disk t = disk s" "dhist t = dhist s"
    using w u by (simp_all add: t_def)
  obtain r where r: "brelse i t = Inr r" "cache_ok c r {}" "cval r = cval t" "bio_chg t r" "disk r = disk t" "dhist r = dhist t"
    "dirty_blocks r = dirty_blocks t"
    by (rule brelse_one [OF t(1,2)]) (rule that)
  define a where "a = s\<lparr>lh_block := (lh_block s)(absorb_idx b s := b), lh_n := if absorb_idx b s = nat (sint (lh_n s)) then lh_n s + 1 else lh_n s\<rparr>"
  have au: "absorb_idx b u = absorb_idx b s" by (simp only: absorb_idx_def lh_idx_def f(3,4))
  have "bio_chg a t"
    unfolding a_def t_def au f(3,4) lh_swap by (rule bio_chg_lh [OF bio_chg_trans [OF u(6) w(4)]])
  then have ar: "bio_chg a r" by (rule bio_chg_trans [OF _ r(4)])
  note fr = log_frame [OF ar] log_geo_frame [OF ar]
  have "sint (lh_n s) + 1 < int LOGSIZE" "b < disksize s" using assms(2) h(6) u(2) f by (simp_all add: log_room_def)
  note ga = logged_geo [OF s(1,2) this assms(3) a_def]
  have tx: "tx_blocks r = tx_blocks a" by (simp add: tx_blocks_def fr)
  have "log_start a = log_start s" "a\<lparr>lh_n := lh_n r, lh_block := lh_block r\<rparr> = s\<lparr>lh_n := lh_n r, lh_block := lh_block r\<rparr>"
    by (simp_all add: a_def)
  then have "log_ok c r" "log_chg s r" unfolding log_ok_def using ga s(3,4) r t fr tx bio_log_chg [OF ar] by (simp_all add: log_chg_def)
  then show ?thesis using lw r t tx ga(3) by (intro exI [of _ r]) simp
qed

section \<open>Transactions\<close>

lemma log_fields:
  "log_ok c (s\<lparr>log_outstanding := x\<rparr>) = log_ok c s" "log_ok c (s\<lparr>log_committing := y\<rparr>) = log_ok c s"
  "cval (s\<lparr>log_outstanding := x\<rparr>) = cval s" "cval (s\<lparr>log_committing := y\<rparr>) = cval s"
  "quiet c (s\<lparr>log_outstanding := x\<rparr>) = quiet c s" "quiet c (s\<lparr>log_committing := y\<rparr>) = quiet c s"
proof -
  have t: "bufv.truncate (s\<lparr>log_outstanding := x\<rparr>) = bufv.truncate s" "bufv.truncate (s\<lparr>log_committing := y\<rparr>) = bufv.truncate s"
    by (simp_all add: bufv.truncate_def)
  show "cval (s\<lparr>log_outstanding := x\<rparr>) = cval s" "cval (s\<lparr>log_committing := y\<rparr>) = cval s" by (rule buf_cong [OF t(1)], rule buf_cong [OF t(2)])
  show "log_ok c (s\<lparr>log_outstanding := x\<rparr>) = log_ok c s" "log_ok c (s\<lparr>log_committing := y\<rparr>) = log_ok c s"
    unfolding log_ok_def buf_cong [OF t(1)] buf_cong [OF t(2)] by (simp_all add: log_geo_def in_log_def tx_blocks_def lh_idx_def)
  show "quiet c (s\<lparr>log_outstanding := x\<rparr>) = quiet c s" "quiet c (s\<lparr>log_committing := y\<rparr>) = quiet c s"
    by (rule quiet_cong; simp add: same_cpuv_def)+
qed

lemma log_section:
  assumes "quiet c s"
  shows "acquire Lk_log s = Inr (acquired c Lk_log s)"
    "release Lk_log ((acquired c Lk_log s)\<lparr>log_outstanding := x, log_committing := y\<rparr>) = Inr (s\<lparr>log_outstanding := x, log_committing := y\<rparr>)"
    "wakeup Ch_log ((acquired c Lk_log s)\<lparr>log_outstanding := x, log_committing := y\<rparr>) = Inr ((acquired c Lk_log s)\<lparr>log_outstanding := x, log_committing := y\<rparr>)"
    "log_outstanding (acquired c Lk_log s) = log_outstanding s" "log_committing (acquired c Lk_log s) = log_committing s"
    "lh_n (acquired c Lk_log s) = lh_n s"
proof -
  note a = quiet_acquired [OF assms, where l = Lk_log]
  let ?t = "(acquired c Lk_log s)\<lparr>log_outstanding := x, log_committing := y\<rparr>"
  show "acquire Lk_log s = Inr (acquired c Lk_log s)" by (rule a(1))
  show "release Lk_log ?t = Inr (s\<lparr>log_outstanding := x, log_committing := y\<rparr>)"
    by (subst quiet_release [OF assms]) (simp add: same_cpuv_def, simp add: lock_defs)
  have sc: "same_cpuv (acquired c Lk_log s) ?t" by (simp add: same_cpuv_def)
  have "cpu_ok ?t c" "lk_free ?t Lk_ptable" "0 < ncli (cpus ?t c)" using a(2-4) same_cpuv_cong [OF sc] by simp_all
  moreover have "procs ?t = procs s" by (simp add: lock_defs)
  then have "\<forall>i < NPROC. woken Ch_log (procs ?t i) = procs ?t i" using quiet_idle [OF assms] by simp
  ultimately show "wakeup Ch_log ?t = Inr ?t" by (intro wakeup_quiet) simp_all
qed (simp_all add: lock_defs)

lemma log_section1:
  assumes "quiet c s"
  shows "release Lk_log ((acquired c Lk_log s)\<lparr>log_outstanding := x\<rparr>) = Inr (s\<lparr>log_outstanding := x\<rparr>)"
    "wakeup Ch_log ((acquired c Lk_log s)\<lparr>log_outstanding := x\<rparr>) = Inr ((acquired c Lk_log s)\<lparr>log_outstanding := x\<rparr>)"
    "release Lk_log ((acquired c Lk_log s)\<lparr>log_committing := y\<rparr>) = Inr (s\<lparr>log_committing := y\<rparr>)"
    "wakeup Ch_log ((acquired c Lk_log s)\<lparr>log_committing := y\<rparr>) = Inr ((acquired c Lk_log s)\<lparr>log_committing := y\<rparr>)"
proof -
  have e: "(acquired c Lk_log s)\<lparr>log_outstanding := x, log_committing := log_committing s\<rparr> = (acquired c Lk_log s)\<lparr>log_outstanding := x\<rparr>"
    "(acquired c Lk_log s)\<lparr>log_outstanding := log_outstanding s, log_committing := y\<rparr> = (acquired c Lk_log s)\<lparr>log_committing := y\<rparr>"
    by (simp_all add: lock_defs)
  note l = log_section(2,3) [OF assms, where x = x and y = "log_committing s", unfolded e]
  note m = log_section(2,3) [OF assms, where x = "log_outstanding s" and y = y, unfolded e]
  show "release Lk_log ((acquired c Lk_log s)\<lparr>log_outstanding := x\<rparr>) = Inr (s\<lparr>log_outstanding := x\<rparr>)"
    "wakeup Ch_log ((acquired c Lk_log s)\<lparr>log_outstanding := x\<rparr>) = Inr ((acquired c Lk_log s)\<lparr>log_outstanding := x\<rparr>)"
    using l by simp_all
  show "release Lk_log ((acquired c Lk_log s)\<lparr>log_committing := y\<rparr>) = Inr (s\<lparr>log_committing := y\<rparr>)"
    "wakeup Ch_log ((acquired c Lk_log s)\<lparr>log_committing := y\<rparr>) = Inr ((acquired c Lk_log s)\<lparr>log_committing := y\<rparr>)"
    using m by simp_all
qed

lemmas log_sections = log_section log_section1

lemma begin_op_ok:
  assumes "quiet c s" "log_committing s = 0" "sint (lh_n s + (log_outstanding s + 1) * of_nat MAXOPBLOCKS) \<le> int LOGSIZE"
  shows "begin_op e s = Inr (s\<lparr>log_outstanding := log_outstanding s + 1\<rparr>)"
  using assms(2,3) by (simp add: begin_op_def begin_op_loop.simps log_sections [OF assms(1)])

lemma end_op_more:
  assumes "quiet c s" "log_committing s = 0" "log_outstanding s \<noteq> 1"
  shows "end_op e s = Inr (s\<lparr>log_outstanding := log_outstanding s - 1\<rparr>)"
  using assms(2,3) by (simp add: end_op_def log_sections [OF assms(1)])

lemma end_op_last:
  assumes "quiet c s" "log_committing s = 0" "log_outstanding s = 1"
    and "commit e (s\<lparr>log_outstanding := 0, log_committing := 1\<rparr>) = Inr t" "quiet c t"
  shows "end_op e s = Inr (t\<lparr>log_committing := 0\<rparr>)"
  using assms(2-4) by (simp add: end_op_def log_sections [OF assms(1)] log_sections [OF assms(5)])

lemma end_op_panics: "quiet c s \<Longrightarrow> log_committing s \<noteq> 0 \<Longrightarrow> end_op e s = Inl (Panic ''log.committing'')"
  by (simp add: end_op_def log_sections Let_def)

text \<open>The last \<open>end_op\<close> of a transaction puts it on the disk, whole or not at all.\<close>

lemma end_op_commits:
  fixes s :: "'z logv_scheme"
  assumes "log_ok c s" "log_committing s = 0" "log_outstanding s = 1"
  obtains t ws where "end_op e s = Inr t" "log_ok c t" "lh_n t = 0" "log_outstanding t = 0" "log_committing t = 0"
    "dhist t = dhist s @ ws" "\<And>b. \<not> in_log s b \<Longrightarrow> disk t b = cval s b \<and> cval t b = cval s b"
    "ws = [] \<and> lh_n s = 0 \<or> (\<exists>h h'. ws = tx_writes st_head (log_start s) (log_at s) (tx_blocks s) (cval s) h h')"
proof -
  let ?s = "s\<lparr>log_outstanding := 0, log_committing := 1\<rparr>"
  have s: "cache_ok c s {}" "sint (lh_n s) \<ge> 0" "dirty_blocks s = set (tx_blocks s)" "quiet c s"
    using assms(1) by (simp_all add: log_ok_def cache_ok_def)
  have k: "log_ok c ?s" using assms(1) by (simp add: log_fields)
  have cl: "disk s b = cval s b" if "lh_n s = 0" for b
    using cval_clean [OF s(1), of b] s(3) that by (simp add: tx_blocks_def lh_idx_def)
  show ?thesis
  proof (cases "sint (lh_n s) = 0")
    case True
    then have z: "lh_n s = 0" by (intro signed_word_eqI) simp
    have "commit e ?s = Inr ?s" by (simp add: commit_def z)
    then have "end_op e s = Inr (?s\<lparr>log_committing := 0\<rparr>)" using k by (intro end_op_last [OF s(4) assms(2,3)]) (simp_all add: log_fields s(4))
    then show ?thesis using z cl [OF z] assms(1) by (intro that [of "?s\<lparr>log_committing := 0\<rparr>" "[]"]) (simp_all add: log_fields)
  next
    case False
    have c: "cache_ok c ?s {}" "log_geo ?s (nat (sint (lh_n ?s)))" "sint (lh_n ?s) > 0" "dirty_blocks ?s = set (tx_blocks ?s)"
      using k False s(2) by (simp_all add: log_ok_def)
    have sel: "cval ?s = cval s" "log_at ?s = log_at s" "in_log ?s = in_log s" "tx_blocks ?s = tx_blocks s"
      by (simp_all add: log_fields fun_eq_iff log_at_def in_log_def tx_blocks_def lh_idx_def)
    obtain t h h' where t: "commit e ?s = Inr t" "cache_ok c t {}" "dirty_blocks t = {}" "lh_n t = 0"
      "dhist t = dhist ?s @ tx_writes st_head (log_start ?s) (log_at ?s) (tx_blocks ?s) (cval ?s) h h'"
      "\<And>b. \<not> in_log ?s b \<Longrightarrow> disk t b = cval ?s b" "\<And>b. \<not> in_log ?s b \<Longrightarrow> cval t b = cval ?s b"
      "ld_head (disk t (log_start ?s)) = []" "bio_chg (?s\<lparr>lh_n := 0\<rparr>) t"
      by (rule commit_ok [OF c, of e]) (rule that)
    note f = log_frame [OF t(9)] and f' = log_chg_sel [OF bio_log_chg [OF t(9)]]
    have "log_ok c t" using t(2-4,8) f c(2) by (simp add: log_ok_def log_geo_def tx_blocks_def lh_idx_def)
    moreover have "quiet c t" using t(2) by (simp add: cache_ok_def)
    then have "end_op e s = Inr (t\<lparr>log_committing := 0\<rparr>)" by (intro end_op_last [OF s(4) assms(2,3) t(1)])
    ultimately show ?thesis using t f' unfolding sel
      by (intro that [of "t\<lparr>log_committing := 0\<rparr>" "tx_writes st_head (log_start s) (log_at s) (tx_blocks s) (cval s) h h'"]) (auto simp: log_fields)
  qed
qed

end
