(* ===== verification/Fs_Lemmas.thy ===== *)
theory Fs_Lemmas
  imports Log_Ops Fs
begin

text \<open>
  What the block and inode operations of fs.c do inside a transaction: each changes the blocks it names,
  as the cache shows them, and keeps \<open>log_ok\<close>. The disk itself changes only at the commit.
\<close>

section \<open>Changing a block\<close>

text \<open>Block \<open>b\<close> has been changed to \<open>d\<close> and logged; nothing else has changed.\<close>

definition logged :: "nat \<Rightarrow> 'z logv_scheme \<Rightarrow> uint \<Rightarrow> block \<Rightarrow> 'z logv_scheme \<Rightarrow> bool" where
  "logged c s b d t \<longleftrightarrow> log_ok c t \<and> log_chg s t \<and> cval t = (cval s)(b := d) \<and> disk t = disk s \<and> dhist t = dhist s \<and>
     set (tx_blocks t) = insert b (set (tx_blocks s))"

text \<open>The log has room for \<open>k\<close> more blocks.\<close>

definition log_space :: "'z logv_scheme \<Rightarrow> nat \<Rightarrow> bool" where
  "log_space s k \<longleftrightarrow> int (card (set (tx_blocks s)) + k) < sint (log_size s) \<and> sint (log_size s) \<le> int LOGSIZE \<and>
     1 \<le> sint (log_outstanding s)"

lemma lh_n_card:
  assumes "log_ok c s"
  shows "sint (lh_n s) = int (card (set (tx_blocks s)))"
proof -
  have "apart (log_start s) (log_at s) (tx_blocks s)" "sint (lh_n s) \<ge> 0" using assms tx_apart [of s] by (simp_all add: log_ok_def)
  then show ?thesis by (simp add: apart_def distinct_card)
qed

lemma log_space_room: "log_ok c s \<Longrightarrow> log_space s (Suc k) \<Longrightarrow> log_room s"
  by (simp add: log_space_def log_room_def lh_n_card)

lemma log_space_logged:
  assumes "log_space s (Suc k)" "logged c s b d t"
  shows "log_space t k"
proof -
  have "card (set (tx_blocks t)) \<le> Suc (card (set (tx_blocks s)))" using assms(2) by (simp add: logged_def card_insert_if)
  moreover have "log_size t = log_size s" "log_outstanding t = log_outstanding s"
    using assms(2) by (simp_all add: logged_def log_chg_sel)
  ultimately show ?thesis using assms(1) by (auto simp: log_space_def)
qed

lemma log_ok_few:
  assumes "log_ok c s"
  shows "cache_ok c s {}" "card (dirty_blocks s) < NBUF"
proof -
  show "cache_ok c s {}" using assms by (simp add: log_ok_def)
  have "card (dirty_blocks s) \<le> length (tx_blocks s)" using assms by (simp add: log_ok_def card_length del: length_tx)
  then show "card (dirty_blocks s) < NBUF" using assms by (simp add: log_ok_def log_geo_def)
qed

lemma log_ok_bio:
  fixes s t :: "'z logv_scheme"
  assumes "log_ok c s" "cache_ok c t {}" "bio_chg s t" "disk t = disk s" "dirty_blocks t = dirty_blocks s"
  shows "log_ok c t" "tx_blocks t = tx_blocks s"
  using assms log_frame [OF assms(3)] log_geo_frame [OF assms(3)] by (simp_all add: log_ok_def tx_blocks_def)

text \<open>A block is read; then it is released, or changed, logged and released.\<close>

lemma read_block:
  fixes s :: "'z logv_scheme"
  assumes "log_ok c s" "b < disksize s"
  obtains i u where "bread e 1 b s = Inr (i, u)" "b_data (bufs u i) = cval s b" "bio_chg s u"
    "\<exists>t. brelse i u = Inr t \<and> log_ok c t \<and> bio_chg s t \<and> cval t = cval s \<and> disk t = disk s \<and> tx_blocks t = tx_blocks s"
    "\<And>f. log_room s \<Longrightarrow> \<not> in_log s b \<Longrightarrow> \<exists>t. bindE (log_write i (edit i f u)) (brelse i) = Inr t \<and> logged c s b (f (cval s b)) t"
proof -
  note few = log_ok_few [OF assms(1)]
  obtain i u where u: "bread e 1 b s = Inr (i, u)" "i < NBUF" "cache_ok c u {i}" "b_blockno (bufs u i) = b"
    "b_data (bufs u i) = cval s b" "cval u = cval s" "disk u = disk s" "dhist u = dhist s" "bio_chg s u" "dirty u = dirty s"
    "dirty_blocks u = dirty_blocks s" "clean u i"
    by (rule bread_one [OF few(1) assms(2) few(2), of e]) (rule that)
  obtain t where t: "brelse i u = Inr t" "cache_ok c t {}" "cval t = cval u" "bio_chg u t" "disk t = disk u" "dhist t = dhist u"
    "dirty t = dirty u" "dirty_blocks t = dirty_blocks u"
    by (rule brelse_one [OF u(3,12)]) (rule that)
  have bt: "bio_chg s t" by (rule bio_chg_trans [OF u(9) t(4)])
  have "\<exists>t. brelse i u = Inr t \<and> log_ok c t \<and> bio_chg s t \<and> cval t = cval s \<and> disk t = disk s \<and> tx_blocks t = tx_blocks s"
    using t u bt log_ok_bio [OF assms(1) t(2) bt] by (intro exI [of _ t]) simp
  moreover have "\<exists>t. bindE (log_write i (edit i f u)) (brelse i) = Inr t \<and> logged c s b (f (cval s b)) t"
    if "log_room s" "\<not> in_log s b" for f
  proof -
    have "edit i f u = upd_buf i (\<lambda>x. x\<lparr>b_data := f (cval s b)\<rparr>) u" using u(5) by (simp add: edit_def upd_buf_def)
    then show ?thesis using log_held [OF assms(1) that u(3,4,6-9,11), of "f (cval s b)"] by (simp add: logged_def)
  qed
  ultimately show ?thesis using u(1,5,9) by (intro that [of i u])
qed

lemma bzero_ok:
  fixes s :: "'z fsv_scheme"
  assumes "log_ok c s" "log_space s 1" "b < disksize s" "\<not> in_log s b"
  obtains t where "bzero e 1 b s = Inr t" "logged c s b (\<lambda>i. 0) t"
proof -
  have r: "log_room s" using log_space_room [OF assms(1), of 0] assms(2) by simp
  obtain i u where u: "bread e 1 b s = Inr (i, u)"
    "\<And>f. log_room s \<Longrightarrow> \<not> in_log s b \<Longrightarrow> \<exists>t. bindE (log_write i (edit i f u)) (brelse i) = Inr t \<and> logged c s b (f (cval s b)) t"
    by (rule read_block [OF assms(1,3), of e]) (rule that)
  obtain t where "bindE (log_write i (edit i (\<lambda>d i. 0) u)) (brelse i) = Inr t" "logged c s b (\<lambda>i. 0) t"
    using u(2) [OF r assms(4), of "\<lambda>d i. 0"] by blast
  then show ?thesis using u(1) by (intro that [of t]) (simp_all add: bzero_def)
qed

section \<open>The free map\<close>

lemma bm_test_bit: "bm_test d k \<longleftrightarrow> bit (d (k div 8)) (k mod 8)"
  by (simp add: bm_test_def bit_iff_and_push_bit_not_eq_0)

lemma div_mod_8: "(j :: nat) div 8 = k div 8 \<Longrightarrow> j mod 8 = k mod 8 \<Longrightarrow> j = k"
  by (metis div_mult_mod_eq)

lemma bm_test_set: "bm_test (bm_set k d) j \<longleftrightarrow> j = k \<or> bm_test d j"
  using div_mod_8 [of j k] by (auto simp: bm_test_bit bm_set_def bit_simps)

lemma bm_test_clear: "bm_test (bm_clear k d) j \<longleftrightarrow> j \<noteq> k \<and> bm_test d j"
  using div_mod_8 [of j k] by (auto simp: bm_test_bit bm_clear_def bit_simps)

lemma bm_clear_set: "\<not> bm_test d k \<Longrightarrow> bm_clear k (bm_set k d) = d"
  by (rule ext, rule bit_eqI) (auto simp: bm_clear_def bm_set_def bm_test_bit bit_simps)

text \<open>The super block in a block, and whether a block of the disk is in use.\<close>

definition sb_at :: "block \<Rightarrow> superblock" where
  "sb_at d = \<lparr>sb_size = ld32 d 0, sb_nblocks = ld32 d 4, sb_ninodes = ld32 d 8, sb_nlog = ld32 d 12,
     sb_logstart = ld32 d 16, sb_inodestart = ld32 d 20, sb_bmapstart = ld32 d 24\<rparr>"

definition used :: "'z fsv_scheme \<Rightarrow> uint \<Rightarrow> bool" where
  "used s b \<longleftrightarrow> bm_test (cval s (BBLOCK b (fs_sb s))) (unat (b mod BPB))"

text \<open>
  The free map of a file system as mkfs.c makes it: the blocks of the map are blocks of the file system,
  not in the log and not the super block; super block, log and map are marked as in use.
\<close>

definition map_ok :: "'z fsv_scheme \<Rightarrow> bool" where
  "map_ok s \<longleftrightarrow> sb_at (cval s 1) = fs_sb s \<and> 1 < sb_size (fs_sb s) \<and> sb_size (fs_sb s) \<le> disksize s \<and>
     unat (sb_size (fs_sb s)) + unat BPB < 2 ^ 32 \<and> used s 1 \<and> (\<forall>b < sb_size (fs_sb s). in_log s b \<longrightarrow> used s b) \<and>
     (\<forall>b < sb_size (fs_sb s). BBLOCK b (fs_sb s) < sb_size (fs_sb s) \<and> \<not> in_log s (BBLOCK b (fs_sb s)) \<and>
        BBLOCK b (fs_sb s) \<noteq> 1 \<and> used s (BBLOCK b (fs_sb s)))"

lemma bblock_same: "BBLOCK x sb = BBLOCK b sb \<Longrightarrow> unat (x mod BPB) = unat (b mod BPB) \<Longrightarrow> x = b"
proof -
  assume e: "BBLOCK x sb = BBLOCK b sb" "unat (x mod BPB) = unat (b mod BPB)"
  have "x div BPB = b div BPB" using e(1) by (simp add: BBLOCK_def)
  moreover have "x mod BPB = b mod BPB" using e(2) by (rule unsigned_word_eqI)
  ultimately show "x = b" by (metis div_mult_mod_eq)
qed

lemma used_edit:
  assumes "cval t = (cval s)(BBLOCK b (fs_sb s) := f (cval s (BBLOCK b (fs_sb s))))" "fs_sb t = fs_sb s"
  shows "f = bm_set (unat (b mod BPB)) \<Longrightarrow> used t x \<longleftrightarrow> x = b \<or> used s x"
    "f = bm_clear (unat (b mod BPB)) \<Longrightarrow> used t x \<longleftrightarrow> x \<noteq> b \<and> used s x"
  using bblock_same [of x "fs_sb s" b] by (auto simp: used_def assms bm_test_set bm_test_clear)

lemma logged_fs:
  fixes s t :: "'z fsv_scheme"
  assumes "log_chg s t"
  shows "fs_sb t = fs_sb s" "inodes t = inodes s" "in_log t = in_log s" "disksize t = disksize s"
proof -
  have "logv.more t = logv.more s" by (rule log_chg_sel(7) [OF assms])
  then show "fs_sb t = fs_sb s" "inodes t = inodes s" by (cases s; cases t; simp)+
qed (rule log_chg_sel(9) [OF assms], rule log_chg_sel(6) [OF assms])

text \<open>The inner loop of \<open>balloc\<close>.\<close>

lemma takeWhile_upt: "(\<And>i. i < n \<Longrightarrow> P i \<longleftrightarrow> i < m) \<Longrightarrow> takeWhile P [0..<n] = [0..<min n m]"
proof (induction n)
  case (Suc n)
  then show ?case by (cases "n < m") (auto simp: takeWhile_append min_def)
qed simp

lemma bm_find_spec:
  assumes "unat b + unat BPB < 2 ^ 32" "b < sz"
  shows "bm_find d b sz = Some bi \<Longrightarrow> bi < 4096 \<and> unat (b + of_nat bi) = unat b + bi \<and> b + of_nat bi < sz \<and> \<not> bm_test d bi \<and> (\<forall>j < bi. bm_test d j)"
    "bm_find d b sz = None \<Longrightarrow> i < 4096 \<Longrightarrow> unat b + i < unat sz \<Longrightarrow> bm_test d i"
proof -
  have un: "unat (b + of_nat i) = unat b + i" if "i < 4096" for i
  proof -
    have "unat b + i < 2 ^ 32" using that assms(1) by simp
    then have "unat (of_nat (unat b + i) :: uint) = unat b + i" unfolding unsigned_of_nat using take_bit_nat_eq_self by simp
    then show ?thesis by simp
  qed
  have "b + of_nat i < sz \<longleftrightarrow> i < unat sz - unat b" if "i < 4096" for i
    using un [OF that] assms(2) by (auto simp: word_less_nat_alt)
  then have "takeWhile (\<lambda>bi. b + of_nat bi < sz) [0..<4096] = [0..<min 4096 (unat sz - unat b)]" by (rule takeWhile_upt)
  then have f: "bm_find d b sz = find (\<lambda>bi. \<not> bm_test d bi) [0..<min 4096 (unat sz - unat b)]" by (simp add: bm_find_def)
  show "bi < 4096 \<and> unat (b + of_nat bi) = unat b + bi \<and> b + of_nat bi < sz \<and> \<not> bm_test d bi \<and> (\<forall>j < bi. bm_test d j)" if "bm_find d b sz = Some bi"
    using that un [of bi] unfolding f by (auto simp: find_upt word_less_nat_alt)
  show "bm_test d i" if "bm_find d b sz = None" "i < 4096" "unat b + i < unat sz"
    using that unfolding f by (auto simp: find_None_iff)
qed

text \<open>What \<open>balloc\<close> has done when it returns block \<open>x\<close>.\<close>

definition allocated :: "nat \<Rightarrow> 'z fsv_scheme \<Rightarrow> uint \<Rightarrow> 'z fsv_scheme \<Rightarrow> bool" where
  "allocated c s x t \<longleftrightarrow> log_ok c t \<and> map_ok t \<and> log_chg s t \<and> disk t = disk s \<and> x < sb_size (fs_sb s) \<and> \<not> used s x \<and>
     (\<forall>y < x. used s y) \<and> (\<forall>y < sb_size (fs_sb s). used t y \<longleftrightarrow> y = x \<or> used s y) \<and> cval t x = (\<lambda>i. 0) \<and>
     (\<forall>y. y \<noteq> x \<longrightarrow> y \<noteq> BBLOCK x (fs_sb s) \<longrightarrow> cval t y = cval s y) \<and>
     cval t (BBLOCK x (fs_sb s)) = bm_set (unat (x mod BPB)) (cval s (BBLOCK x (fs_sb s))) \<and>
     set (tx_blocks t) = insert x (insert (BBLOCK x (fs_sb s)) (set (tx_blocks s)))"

lemma map_ok_upd:
  fixes s t :: "'z fsv_scheme"
  assumes "map_ok s" "log_chg s t" "cval t 1 = cval s 1"
    and "\<And>y. y < sb_size (fs_sb s) \<Longrightarrow> used s y \<Longrightarrow> y = 1 \<or> in_log s y \<or> (\<exists>b < sb_size (fs_sb s). y = BBLOCK b (fs_sb s)) \<Longrightarrow> used t y"
  shows "map_ok t"
proof -
  note f = logged_fs [OF assms(2)]
  note m = assms(1) [unfolded map_ok_def]
  have "used t 1" using m assms(4) [of 1] by simp
  moreover have "\<forall>b < sb_size (fs_sb s). in_log s b \<longrightarrow> used t b" using m assms(4) by blast
  moreover have "\<forall>b < sb_size (fs_sb s). used t (BBLOCK b (fs_sb s))" using m assms(4) by blast
  ultimately show ?thesis using m unfolding map_ok_def f assms(3) by blast
qed

lemma map_ok_bio:
  fixes s t :: "'z fsv_scheme"
  assumes "map_ok s" "bio_chg s t" "cval t = cval s"
  shows "map_ok t" "used t = used s"
proof -
  have f: "fs_sb t = fs_sb s" by (rule logged_fs(1) [OF bio_log_chg [OF assms(2)]])
  then show u: "used t = used s" by (simp add: fun_eq_iff used_def assms(3))
  show "map_ok t" by (rule map_ok_upd [OF assms(1) bio_log_chg [OF assms(2)]]) (simp_all add: u assms(3))
qed

lemma map_okD:
  assumes "map_ok s" "x < sb_size (fs_sb s)"
  shows "x < disksize s" "BBLOCK x (fs_sb s) < disksize s" "\<not> in_log s (BBLOCK x (fs_sb s))" "BBLOCK x (fs_sb s) \<noteq> 1"
    "\<not> used s x \<Longrightarrow> \<not> in_log s x \<and> x \<noteq> 1" "\<not> used s x \<Longrightarrow> y < sb_size (fs_sb s) \<Longrightarrow> BBLOCK y (fs_sb s) \<noteq> x"
    "unat (sb_size (fs_sb s)) + 4096 < 2 ^ 32"
  using assms by (auto simp: map_ok_def)

lemma allocatedI:
  fixes s t :: "'z fsv_scheme"
  assumes "map_ok s" "x < sb_size (fs_sb s)" "\<not> used s x" "\<forall>y < x. used s y"
    and u: "logged c s (BBLOCK x (fs_sb s)) (bm_set (unat (x mod BPB)) (cval s (BBLOCK x (fs_sb s)))) u"
    and t: "logged c u x (\<lambda>i. 0) t"
  shows "allocated c s x t"
proof -
  note m = map_okD [OF assms(1,2)]
  have lc: "log_chg s u" "log_chg u t" "log_chg s t" using u t log_chg_trans by (auto simp: logged_def)
  note fu = logged_fs [OF lc(1)] and ft = logged_fs [OF lc(3)]
  have cu: "cval u = (cval s)(BBLOCK x (fs_sb s) := bm_set (unat (x mod BPB)) (cval s (BBLOCK x (fs_sb s))))" using u by (simp add: logged_def)
  have ct: "cval t = (cval u)(x := (\<lambda>i. 0))" using t by (simp add: logged_def)
  have uu: "used u y \<longleftrightarrow> y = x \<or> used s y" for y by (rule used_edit(1) [OF cu fu(1) refl])
  have ut: "used t y \<longleftrightarrow> used u y" if "y < sb_size (fs_sb s)" for y
    using m(6) [OF assms(3) that] by (simp add: used_def ct ft fu)
  have "cval t 1 = cval s 1" using m(4) m(5) [OF assms(3)] by (simp add: ct cu)
  then have "map_ok t" by (rule map_ok_upd [OF assms(1) lc(3)]) (simp add: ut uu)
  moreover have "cval t y = cval s y" if "y \<noteq> x" "y \<noteq> BBLOCK x (fs_sb s)" for y using that by (simp add: ct cu)
  moreover have "log_ok c t" "disk t = disk s" "set (tx_blocks t) = insert x (insert (BBLOCK x (fs_sb s)) (set (tx_blocks s)))"
    using u t by (simp_all add: logged_def)
  moreover have "cval t (BBLOCK x (fs_sb s)) = bm_set (unat (x mod BPB)) (cval s (BBLOCK x (fs_sb s)))"
    using m(6) [OF assms(3,2)] by (simp add: ct cu)
  ultimately show ?thesis using assms(2-4) lc(3) ut uu unfolding allocated_def by (simp add: ct)
qed

text \<open>Block numbers as a multiple of \<open>BPB\<close> and the position in a block of the map.\<close>

lemma bit_of_block:
  assumes "unat b = 4096 * k" "i < 4096" "unat (b + of_nat i) = unat b + i"
  shows "BBLOCK (b + of_nat i) sb = BBLOCK b sb" "unat ((b + of_nat i) mod BPB) = i"
proof -
  have "unat ((b + of_nat i) div BPB) = k" "unat (b div BPB) = k" "unat ((b + of_nat i) mod BPB) = i"
    using assms by (simp_all add: unat_div unat_mod)
  then show "BBLOCK (b + of_nat i) sb = BBLOCK b sb" "unat ((b + of_nat i) mod BPB) = i"
    unfolding BBLOCK_def by (metis unsigned_word_eqI, simp)
qed

lemma allocated_bio:
  fixes s t :: "'z fsv_scheme"
  assumes "bio_chg s t" "cval t = cval s" "disk t = disk s" "tx_blocks t = tx_blocks s" "allocated c t x u"
  shows "allocated c s x u"
proof -
  note lc = bio_log_chg [OF assms(1)]
  have f: "fs_sb t = fs_sb s" by (rule logged_fs(1) [OF lc])
  have "used t = used s" by (simp add: fun_eq_iff used_def assms(2) f)
  then show ?thesis using assms(2-5) log_chg_trans [OF lc, of u] unfolding allocated_def f by simp
qed

lemma balloc_hit:
  fixes s :: "'z fsv_scheme"
  assumes "log_ok c s" "map_ok s" "log_space s 2" "x < sb_size (fs_sb s)" "\<not> used s x" "\<forall>y < x. used s y"
    and i: "\<And>f. log_room s \<Longrightarrow> \<not> in_log s (BBLOCK x (fs_sb s)) \<Longrightarrow>
      \<exists>t. bindE (log_write i (edit i f u)) (brelse i) = Inr t \<and> logged c s (BBLOCK x (fs_sb s)) (f (cval s (BBLOCK x (fs_sb s)))) t"
  shows "\<exists>t. bindE (log_write i (edit i (bm_set (unat (x mod BPB))) u)) (\<lambda>s. bindE (brelse i s) (\<lambda>s.
      bindE (bzero e 1 x s) (\<lambda>s. Inr (x, s)))) = Inr (x, t) \<and> allocated c s x t"
proof -
  note m = map_okD [OF assms(2,4)]
  have sp: "log_space s (Suc 1)" using assms(3) by (simp add: numeral_2_eq_2)
  obtain v where v: "bindE (log_write i (edit i (bm_set (unat (x mod BPB))) u)) (brelse i) = Inr v"
    "logged c s (BBLOCK x (fs_sb s)) (bm_set (unat (x mod BPB)) (cval s (BBLOCK x (fs_sb s)))) v"
    using i [OF log_space_room [OF assms(1) sp] m(3)] by blast
  have lv: "log_ok c v" "log_chg s v" using v(2) by (simp_all add: logged_def)
  note f = logged_fs [OF lv(2)]
  have "x < disksize v" "\<not> in_log v x" using m(1) m(5) [OF assms(5)] f by simp_all
  then obtain t where t: "bzero e 1 x v = Inr t" "logged c v x (\<lambda>i. 0) t"
    by (rule bzero_ok [OF lv(1) log_space_logged [OF sp v(2)], of x e]) (rule that)
  have "bindE (log_write i (edit i (bm_set (unat (x mod BPB))) u)) (\<lambda>s. bindE (brelse i s) (\<lambda>s. bindE (bzero e 1 x s) (\<lambda>s. Inr (x, s)))) = Inr (x, t)"
    using t(1) arg_cong [OF v(1), of "\<lambda>m. bindE m (\<lambda>s. bindE (bzero e 1 x s) (\<lambda>s. Inr (x, s)))"] by (simp add: bindE_assoc)
  then show ?thesis using allocatedI [OF assms(2,4-6) v(2) t(2)] by blast
qed

lemma balloc_loop_ok:
  fixes s :: "'z fsv_scheme"
  assumes "log_ok c s" "map_ok s" "log_space s 2" "unat b = 4096 * k" "\<forall>y < b. y < sb_size (fs_sb s) \<longrightarrow> used s y"
    and "unat (sb_size (fs_sb s)) div 4096 + 1 \<le> n + k"
  shows "if \<exists>x < sb_size (fs_sb s). \<not> used s x then \<exists>x t. balloc_loop n e 1 b s = Inr (x, t) \<and> allocated c s x t
    else balloc_loop n e 1 b s = Inl (Panic ''balloc: out of blocks'')"
  using assms
proof (induction n arbitrary: b k s)
  case 0
  have "unat (sb_size (fs_sb s)) < unat b" using 0(4,6) by simp
  then have "\<not> b < sb_size (fs_sb s)" "\<forall>x < sb_size (fs_sb s). used s x"
    using 0(5) by (auto simp: word_less_nat_alt)
  then show ?case by (simp add: balloc_loop.simps)
next
  case (Suc n)
  let ?sz = "sb_size (fs_sb s)"
  show ?case
  proof (cases "b < ?sz")
    case False
    then have "\<forall>x < ?sz. used s x" using Suc.prems(5) by auto
    then show ?thesis using False by (simp add: balloc_loop.simps)
  next
    case True
    note m = map_okD [OF Suc.prems(2) True]
    have nb: "unat b + unat BPB < 2 ^ 32" using m(7) True by (simp add: word_less_nat_alt)
    obtain i u where u: "bread e 1 (BBLOCK b (fs_sb s)) s = Inr (i, u)" "b_data (bufs u i) = cval s (BBLOCK b (fs_sb s))" "bio_chg s u"
      "\<exists>t. brelse i u = Inr t \<and> log_ok c t \<and> bio_chg s t \<and> cval t = cval s \<and> disk t = disk s \<and> tx_blocks t = tx_blocks s"
      "\<And>f. log_room s \<Longrightarrow> \<not> in_log s (BBLOCK b (fs_sb s)) \<Longrightarrow>
        \<exists>t. bindE (log_write i (edit i f u)) (brelse i) = Inr t \<and> logged c s (BBLOCK b (fs_sb s)) (f (cval s (BBLOCK b (fs_sb s)))) t"
      by (rule read_block [OF Suc.prems(1) m(2), of e]) (rule that)
    have fu: "fs_sb u = fs_sb s" by (rule logged_fs(1) [OF bio_log_chg [OF u(3)]])
    have bits: "used s (b + of_nat j) \<longleftrightarrow> bm_test (cval s (BBLOCK b (fs_sb s))) j" if "j < 4096" "unat (b + of_nat j) = unat b + j" for j
      using bit_of_block [OF Suc.prems(4) that] by (simp add: used_def)
    have off: "y = b + of_nat (unat y - unat b)" if "b \<le> y" for y
      using that by (intro unsigned_word_eqI) (simp add: word_le_nat_alt)
    show ?thesis
    proof (cases "bm_find (cval s (BBLOCK b (fs_sb s))) b ?sz")
      case (Some bi)
      let ?x = "b + of_nat bi"
      note f = bm_find_spec(1) [OF nb True Some]
      note p = bit_of_block [OF Suc.prems(4), where i = bi]
      have x: "?x < ?sz" "\<not> used s ?x" "BBLOCK ?x (fs_sb s) = BBLOCK b (fs_sb s)" "unat (?x mod BPB) = bi" using f bits p by simp_all
      have "used s y" if "y < ?x" for y
      proof (cases "y < b")
        case True
        then show ?thesis using Suc.prems(5) that x(1) by auto
      next
        case False
        then have "unat y - unat b < bi" "unat (b + of_nat (unat y - unat b)) = unat b + (unat y - unat b)"
          using that f off [of y] by (auto simp: word_less_nat_alt)
        then show ?thesis using bits [of "unat y - unat b"] f off [of y] False by auto
      qed
      then have "\<forall>y < ?x. used s y" by simp
      from balloc_hit [OF Suc.prems(1-3) x(1,2) this u(5) [folded x(3)], of e] show ?thesis
        using u(1,2) fu Some x True by (auto simp: balloc_loop.simps)
    next
      case None
      obtain t where t: "brelse i u = Inr t" "log_ok c t" "bio_chg s t" "cval t = cval s" "disk t = disk s" "tx_blocks t = tx_blocks s"
        using u(4) by blast
      note lc = log_chg_sel [OF bio_log_chg [OF t(3)]] and mt = map_ok_bio [OF Suc.prems(2) t(3,4)]
      have ft: "fs_sb t = fs_sb s" by (rule logged_fs(1) [OF bio_log_chg [OF t(3)]])
      have ub: "unat (b + 4096) = 4096 * Suc k" using nb Suc.prems(4) by (simp add: unat_word_ariths)
      have "used s y" if y: "y < b + 4096" "y < ?sz" for y
      proof (cases "y < b")
        case False
        then have j: "unat y - unat b < 4096" "unat b + (unat y - unat b) = unat y"
          using y ub Suc.prems(4) by (auto simp: word_less_nat_alt)
        then show ?thesis
          using bits [of "unat y - unat b"] bm_find_spec(2) [OF nb True None j(1)] y(2) False off [of y] by (auto simp: word_less_nat_alt)
      qed (use Suc.prems(5) y(2) in blast)
      then have "if \<exists>x < sb_size (fs_sb t). \<not> used t x then \<exists>x u. balloc_loop n e 1 (b + 4096) t = Inr (x, u) \<and> allocated c t x u
          else balloc_loop n e 1 (b + 4096) t = Inl (Panic ''balloc: out of blocks'')"
        using Suc.prems(3,6) t(6) lc ft mt(2) by (intro Suc.IH [OF t(2) mt(1) _ ub]) (simp_all add: log_space_def)
      moreover have "balloc_loop (Suc n) e 1 b s = balloc_loop n e 1 (b + 4096) t"
        using u(1,2) fu None t(1) True by (subst balloc_loop.simps) simp
      ultimately show ?thesis using allocated_bio [OF t(3-6)] ft mt(2) by (auto split: if_splits)
    qed
  qed
qed

lemma balloc_ok:
  fixes s :: "'z fsv_scheme"
  assumes "log_ok c s" "map_ok s" "log_space s 2"
  shows "if \<exists>x < sb_size (fs_sb s). \<not> used s x then \<exists>x t. balloc e 1 s = Inr (x, t) \<and> allocated c s x t
    else balloc e 1 s = Inl (Panic ''balloc: out of blocks'')"
proof -
  have z: "unat (0 :: uint) = 4096 * 0" "\<forall>y < 0. y < sb_size (fs_sb s) \<longrightarrow> used s y"
    "unat (sb_size (fs_sb s)) div 4096 + 1 \<le> unat (sb_size (fs_sb s)) div 4096 + 1 + 0" "unat (4096 :: uint) = 4096" by simp_all
  show ?thesis unfolding balloc_def z(4) by (rule balloc_loop_ok [OF assms z(1-3)])
qed

lemma readsb_log:
  fixes s :: "'z logv_scheme"
  assumes "log_ok c s" "1 < disksize s"
  obtains t where "readsb e 1 s = Inr (sb_at (cval s 1), t)" "log_ok c t" "bio_chg s t" "cval t = cval s" "disk t = disk s" "tx_blocks t = tx_blocks s"
proof -
  obtain i u where u: "bread e 1 1 s = Inr (i, u)" "b_data (bufs u i) = cval s 1"
    "\<exists>t. brelse i u = Inr t \<and> log_ok c t \<and> bio_chg s t \<and> cval t = cval s \<and> disk t = disk s \<and> tx_blocks t = tx_blocks s"
    by (rule read_block [OF assms, of e]) (rule that)
  then show ?thesis by (auto simp: readsb_def sb_at_def Let_def intro: that)
qed

text \<open>\<open>bfree\<close> reads the super block again; its copy in \<open>sb\<close> stays the same.\<close>

lemma bfree_start:
  fixes s :: "'z fsv_scheme"
  assumes "log_ok c s" "map_ok s" "x < sb_size (fs_sb s)"
  obtains t where "log_ok c t" "bio_chg s t" "cval t = cval s" "disk t = disk s" "tx_blocks t = tx_blocks s"
    "bfree e 1 x s = bindE (bread e 1 (BBLOCK x (fs_sb s)) t) (\<lambda>(bp, s).
       if \<not> bm_test (b_data (bufs s bp)) (unat (x mod BPB)) then Inl (Panic ''freeing free block'')
       else bindE (log_write bp (edit bp (bm_clear (unat (x mod BPB))) s)) (brelse bp))"
proof -
  have m: "1 < disksize s" "sb_at (cval s 1) = fs_sb s" using assms(2) by (auto simp: map_ok_def)
  obtain t where t: "readsb e 1 s = Inr (sb_at (cval s 1), t)" "log_ok c t" "bio_chg s t" "cval t = cval s" "disk t = disk s"
    "tx_blocks t = tx_blocks s"
    by (rule readsb_log [OF assms(1) m(1), of e]) (rule that)
  have "t\<lparr>fs_sb := fs_sb s\<rparr> = t" using logged_fs(1) [OF bio_log_chg [OF t(3)]] by (cases t) simp
  then show ?thesis using t m(2) by (intro that [of t]) (simp_all add: bfree_def Let_def)
qed

lemma bfree_ok:
  fixes s :: "'z fsv_scheme"
  assumes "log_ok c s" "map_ok s" "x < sb_size (fs_sb s)"
  shows "log_space s 1 \<Longrightarrow> used s x \<Longrightarrow> \<exists>t. bfree e 1 x s = Inr t \<and> log_ok c t \<and> log_chg s t \<and> disk t = disk s \<and> (\<forall>y. used t y \<longleftrightarrow> y \<noteq> x \<and> used s y) \<and>
      cval t = (cval s)(BBLOCK x (fs_sb s) := bm_clear (unat (x mod BPB)) (cval s (BBLOCK x (fs_sb s))))"
    "\<not> used s x \<Longrightarrow> bfree e 1 x s = Inl (Panic ''freeing free block'')"
proof -
  let ?b = "BBLOCK x (fs_sb s)"
  note m = map_okD [OF assms(2,3)]
  obtain v where v: "log_ok c v" "bio_chg s v" "cval v = cval s" "disk v = disk s" "tx_blocks v = tx_blocks s"
    "bfree e 1 x s = bindE (bread e 1 ?b v) (\<lambda>(bp, s).
       if \<not> bm_test (b_data (bufs s bp)) (unat (x mod BPB)) then Inl (Panic ''freeing free block'')
       else bindE (log_write bp (edit bp (bm_clear (unat (x mod BPB))) s)) (brelse bp))"
    by (rule bfree_start [OF assms, of e]) (rule that)
  note lv = bio_log_chg [OF v(2)]
  note sel = log_chg_sel [OF lv] and fv = logged_fs [OF lv]
  have bd: "?b < disksize v" using m(2) fv by simp
  obtain i u where u: "bread e 1 ?b v = Inr (i, u)" "b_data (bufs u i) = cval v ?b"
    "\<And>f. log_room v \<Longrightarrow> \<not> in_log v ?b \<Longrightarrow> \<exists>t. bindE (log_write i (edit i f u)) (brelse i) = Inr t \<and> logged c v ?b (f (cval v ?b)) t"
    by (rule read_block [OF v(1) bd, of e]) (rule that)
  have test: "bm_test (b_data (bufs u i)) (unat (x mod BPB)) \<longleftrightarrow> used s x" by (simp add: u(2) v(3) used_def)
  show "bfree e 1 x s = Inl (Panic ''freeing free block'')" if "\<not> used s x" using that test by (simp add: v(6) u(1))
  show "\<exists>t. bfree e 1 x s = Inr t \<and> log_ok c t \<and> log_chg s t \<and> disk t = disk s \<and> (\<forall>y. used t y \<longleftrightarrow> y \<noteq> x \<and> used s y) \<and>
      cval t = (cval s)(?b := bm_clear (unat (x mod BPB)) (cval s ?b))" if "log_space s 1" "used s x"
  proof -
    have "log_space v (Suc 0)" using that(1) v(5) sel by (simp add: log_space_def)
    then have "log_room v" "\<not> in_log v ?b" using log_space_room [OF v(1)] m(3) fv by simp_all
    then obtain t where t: "bindE (log_write i (edit i (bm_clear (unat (x mod BPB))) u)) (brelse i) = Inr t"
      "logged c v ?b (bm_clear (unat (x mod BPB)) (cval v ?b)) t" using u(3) by blast
    have lt: "log_ok c t" "log_chg s t" "disk t = disk s" "cval t = (cval s)(?b := bm_clear (unat (x mod BPB)) (cval s ?b))"
      using t(2) v(3,4) log_chg_trans [OF lv] by (auto simp: logged_def)
    show ?thesis
      using that test lt t(1) used_edit(2) [OF lt(4) logged_fs(1) [OF lt(2)] refl] by (intro exI [of _ t]) (simp add: v(6) u(1))
  qed
qed

section \<open>Inodes on the disk\<close>

lemma ld16_st16 [simp]: "ld16 (st16 i v d) i = v"
proof (rule bit_word_eqI)
  fix n assume "n < LENGTH(16)"
  then show "bit (ld16 (st16 i v d) i) n = bit v n"
    by (cases "8 \<le> n") (auto simp: ld16_def st16_def bit_simps)
qed

lemma ld_st_other:
  "j + 2 \<le> i \<or> i + 2 \<le> j \<Longrightarrow> ld16 (st16 j v d) i = ld16 d i" "j + 4 \<le> i \<or> i + 2 \<le> j \<Longrightarrow> ld16 (st32 j w d) i = ld16 d i"
  "j + 2 \<le> i \<or> i + 4 \<le> j \<Longrightarrow> ld32 (st16 j v d) i = ld32 d i" "j + 4 \<le> i \<or> i + 4 \<le> j \<Longrightarrow> ld32 (st32 j w d) i = ld32 d i"
  by (auto simp: ld16_def st16_def ld32_def st32_def)

lemma st_addrs:
  fixes a :: "nat \<Rightarrow> uint" and i :: nat
  defines "F n \<equiv> fold (\<lambda>k. st32 (i + 12 + 4 * k) (a k)) [0..<n]"
  shows "k < n \<Longrightarrow> ld32 (F n d) (i + 12 + 4 * k) = a k" "j + 2 \<le> i + 12 \<or> i + 12 + 4 * n \<le> j \<Longrightarrow> ld16 (F n d) j = ld16 d j"
    "j + 4 \<le> i + 12 \<or> i + 12 + 4 * n \<le> j \<Longrightarrow> ld32 (F n d) j = ld32 d j"
proof -
  show "ld32 (F n d) (i + 12 + 4 * k) = a k" if "k < n"
    using that
  proof (induction n)
    case (Suc n)
    then show ?case by (cases "k = n") (simp_all add: F_def ld_st_other(4))
  qed simp
  show "ld16 (F n d) j = ld16 d j" if "j + 2 \<le> i + 12 \<or> i + 12 + 4 * n \<le> j"
    using that by (induction n) (auto simp: F_def ld_st_other(2))
  show "ld32 (F n d) j = ld32 d j" if "j + 4 \<le> i + 12 \<or> i + 12 + 4 * n \<le> j"
    using that by (induction n) (auto simp: F_def ld_st_other(4))
qed

text \<open>Two on-disk inodes agree on all their fields.\<close>

definition same_dinode :: "dinode \<Rightarrow> dinode \<Rightarrow> bool" where
  "same_dinode x y \<longleftrightarrow> d_type x = d_type y \<and> d_major x = d_major y \<and> d_minor x = d_minor y \<and> d_nlink x = d_nlink y \<and>
     d_size x = d_size y \<and> (\<forall>k \<le> NDIRECT. d_addrs x k = d_addrs y k)"

lemma ld_st_dinode: "same_dinode (ld_dinode (st_dinode i x d) i) x"
  unfolding same_dinode_def ld_dinode_def st_dinode_def Let_def by (simp add: st_addrs ld_st_other del: upt_Suc)

lemma ld_st_dinode_other:
  assumes "i + 64 \<le> j \<or> j + 64 \<le> i"
  shows "same_dinode (ld_dinode (st_dinode i x d) j) (ld_dinode d j)"
proof -
  have "ld16 (st_dinode i x d) m = ld16 d m" if "m + 2 \<le> i \<or> i + 64 \<le> m" for m
    using that unfolding st_dinode_def Let_def by (auto simp: st_addrs ld_st_other simp del: upt_Suc)
  moreover have "ld32 (st_dinode i x d) m = ld32 d m" if "m + 4 \<le> i \<or> i + 64 \<le> m" for m
    using that unfolding st_dinode_def Let_def by (auto simp: st_addrs ld_st_other simp del: upt_Suc)
  ultimately show ?thesis using assms unfolding same_dinode_def ld_dinode_def by auto
qed

text \<open>The on-disk inode \<open>n\<close> as the cache shows it, and the fields of an inode in memory.\<close>

definition dinode_of :: "'z fsv_scheme \<Rightarrow> uint \<Rightarrow> dinode" where
  "dinode_of s n = ld_dinode (cval s (IBLOCK n (fs_sb s))) (dino_off n)"

definition fields_of :: "inode \<Rightarrow> dinode" where
  "fields_of x = \<lparr>d_type = i_type x, d_major = i_major x, d_minor = i_minor x, d_nlink = i_nlink x, d_size = i_size x, d_addrs = i_addrs x\<rparr>"

lemma dino_off_apart:
  assumes "IBLOCK m sb = IBLOCK n sb" "m \<noteq> n"
  shows "dino_off n + 64 \<le> dino_off m \<or> dino_off m + 64 \<le> dino_off n"
proof -
  have "m div IPB = n div IPB" using assms(1) by (simp add: IBLOCK_def)
  then have "m mod IPB \<noteq> n mod IPB" using assms(2) by (metis div_mult_mod_eq)
  then have "unat (m mod IPB) \<noteq> unat (n mod IPB)" by (metis unsigned_word_eqI)
  then show ?thesis unfolding dino_off_def by arith
qed

lemma iupdate_ok:
  fixes s :: "'z fsv_scheme" and ip :: nat
  assumes "log_ok c s" "log_space s 1" "i_dev (inodes s ip) = 1"
  defines "n \<equiv> i_inum (inodes s ip)"
  assumes "IBLOCK n (fs_sb s) < disksize s" "\<not> in_log s (IBLOCK n (fs_sb s))"
  obtains t where "iupdate e ip s = Inr t"
    "logged c s (IBLOCK n (fs_sb s)) (st_dinode (dino_off n) (fields_of (inodes s ip)) (cval s (IBLOCK n (fs_sb s)))) t"
proof -
  let ?b = "IBLOCK n (fs_sb s)"
  have r: "log_room s" using log_space_room [OF assms(1), of 0] assms(2) by simp
  obtain i u where u: "bread e 1 ?b s = Inr (i, u)" "bio_chg s u"
    "\<And>f. log_room s \<Longrightarrow> \<not> in_log s ?b \<Longrightarrow> \<exists>t. bindE (log_write i (edit i f u)) (brelse i) = Inr t \<and> logged c s ?b (f (cval s ?b)) t"
    by (rule read_block [OF assms(1,5), of e]) (rule that)
  have iu: "inodes u = inodes s" by (rule logged_fs(2) [OF bio_log_chg [OF u(2)]])
  obtain t where "bindE (log_write i (edit i (st_dinode (dino_off n) (fields_of (inodes s ip))) u)) (brelse i) = Inr t"
    "logged c s ?b (st_dinode (dino_off n) (fields_of (inodes s ip)) (cval s ?b)) t"
    using u(3) [OF r assms(6)] by blast
  then show ?thesis using u(1) assms(3) iu by (intro that [of t]) (simp_all add: iupdate_def fields_of_def Let_def n_def)
qed

end
