(* ===== verification/Fs_Example.thy ===== *)
theory Fs_Example
  imports Fs_Lemmas Proc_Example
begin

text \<open>
  What \<open>binit\<close> sets up, and a concrete state in the middle of a transaction: the disk has the layout
  mkfs.c gives it (1000 blocks, the log at 2, inodes at 32, the free map at 58); block 500 has been
  changed and logged.
\<close>

section \<open>The list \<open>binit\<close> builds\<close>

lemma link_front_list:
  assumes "dll (bnext s) (bprev s) xs" "b \<notin> set xs"
  shows "dll (bnext (link_front b s)) (bprev (link_front b s)) (b # xs)"
  using dll_link [OF assms] by (simp add: link_front_def Let_def)

lemma initsleeplock_links:
  "bnext (initsleeplock l nm s) = bnext s" "bprev (initsleeplock l nm s) = bprev s" "bufs (initsleeplock l nm s) = bufs s"
  by (simp_all add: initsleeplock_def initlock_def upd_lock_def upd_sl_def)

lemma binit_loop:
  assumes "dll (bnext s) (bprev s) []"
  shows "dll (bnext (fold (\<lambda>b s. link_front b (initsleeplock (Sl_buf b) nm s)) [0..<n] s))
    (bprev (fold (\<lambda>b s. link_front b (initsleeplock (Sl_buf b) nm s)) [0..<n] s)) (rev [0..<n])"
proof (induction n)
  case (Suc n)
  then show ?case by simp (intro link_front_list; simp add: initsleeplock_links)
qed (use assms in simp)

lemma binit_list: "dll (bnext (binit s)) (bprev (binit s)) (rev [0..<NBUF])"
  unfolding binit_def Let_def by (rule binit_loop) (simp add: dll_def)

section \<open>The state\<close>

definition fx_sb :: superblock where
  "fx_sb = \<lparr>sb_size = 1000, sb_nblocks = 941, sb_ninodes = 200, sb_nlog = 30, sb_logstart = 2, sb_inodestart = 32, sb_bmapstart = 58\<rparr>"

definition fx_sb_block :: block where
  "fx_sb_block = st32 0 1000 (st32 4 941 (st32 8 200 (st32 12 30 (st32 16 2 (st32 20 32 (st32 24 58 (\<lambda>i. 0)))))))"

definition fx_disk :: "uint \<Rightarrow> block" where
  "fx_disk = (\<lambda>b i. 0)(1 := fx_sb_block, 58 := (\<lambda>i. if i < 8 then 255 else 0))"

definition fx_buf :: buf where
  "fx_buf = \<lparr>b_flags = 0, b_dev = 0, b_blockno = 0, b_refcnt = 0, b_qnext = None, b_data = (\<lambda>i. 0)\<rparr>"

definition fx_bufv :: bufv where
  "fx_bufv = slpv.extend (procv.extend px_state (slpv.fields (\<lambda>l. \<lparr>sl_locked = 0, sl_name = [], sl_pid = 0\<rparr>)))
     (bufv.fields (\<lambda>i. fx_buf) (\<lambda>p. Head) (\<lambda>p. Head) fx_disk [] 1000)"

definition fx_inode :: inode where
  "fx_inode = \<lparr>i_dev = 1, i_inum = 5, i_ref = 1, i_valid = True, i_type = 2, i_major = 0, i_minor = 0, i_nlink = 1,
     i_size = 512, i_addrs = (\<lambda>k. 0)(0 := 500)\<rparr>"

text \<open>The kernel after the start, and inside a transaction that has changed block 500.\<close>

definition fx_boot :: fsv where
  "fx_boot = logv.extend (bufv.extend (fx_bufv\<lparr>bnext := bnext (binit fx_bufv), bprev := bprev (binit fx_bufv)\<rparr>)
       (logv.fields 2 30 0 0 1 0 (\<lambda>i. 0)))
     (fsv.fields fx_sb (\<lambda>i. fx_inode) (\<lambda>i. None) (\<lambda>i. None))"

definition fx_state :: fsv where
  "fx_state = fx_boot\<lparr>bufs := (bufs fx_boot)(0 := fx_buf\<lparr>b_flags := 6, b_dev := 1, b_blockno := 500, b_data := (\<lambda>i. 7)\<rparr>),
     lh_n := 1, lh_block := (\<lambda>i. 0)(0 := 500), log_outstanding := 1\<rparr>"

lemma fx_boot_sel [simp]:
  "bufs fx_boot = (\<lambda>i. fx_buf)" "disk fx_boot = fx_disk" "dhist fx_boot = []" "disksize fx_boot = 1000" "lh_n fx_boot = 0"
  "log_start fx_boot = 2" "log_size fx_boot = 30" "log_outstanding fx_boot = 0" "log_committing fx_boot = 0" "log_dev fx_boot = 1"
  "fs_sb fx_boot = fx_sb" "inodes fx_boot = (\<lambda>i. fx_inode)" "slocks fx_boot = (\<lambda>l. \<lparr>sl_locked = 0, sl_name = [], sl_pid = 0\<rparr>)"
  "dll (bnext fx_boot) (bprev fx_boot) (rev [0..<NBUF])"
  using binit_list [of fx_bufv] by (simp_all add: fx_boot_def fx_bufv_def fsv.defs logv.defs bufv.defs slpv.defs procv.defs)

lemma fx_boot_quiet: "quiet 0 fx_boot"
proof -
  have c: "same_cpuv px_state fx_boot" "procs fx_boot = procs px_state"
    by (simp_all add: same_cpuv_def fx_boot_def fx_bufv_def fsv.defs logv.defs bufv.defs slpv.defs procv.defs)
  have "quiet 0 px_state"
    by (auto simp: quiet_def px_state_def lock_defs px_cpus_def ex_locks_def px_procs_def px_unused_def)
  then show ?thesis by (simp only: quiet_cong [OF c])
qed

lemma fx_boot_cache: "cache_ok 0 fx_boot {}"
  using fx_boot_quiet fx_boot_sel(14)
  by (intro cache_okI [where p = "mypid 0 fx_boot"]) (auto simp: buf_ok_def fx_buf_def)

lemma fx_state_sel [simp]:
  "bufs fx_state = (\<lambda>i. fx_buf)(0 := fx_buf\<lparr>b_flags := 6, b_dev := 1, b_blockno := 500, b_data := (\<lambda>i. 7)\<rparr>)"
  "disk fx_state = fx_disk" "dhist fx_state = []" "disksize fx_state = 1000" "lh_n fx_state = 1" "lh_block fx_state = (\<lambda>i. 0)(0 := 500)"
  "log_start fx_state = 2" "log_size fx_state = 30" "log_outstanding fx_state = 1" "log_committing fx_state = 0" "log_dev fx_state = 1"
  "fs_sb fx_state = fx_sb" "inodes fx_state = (\<lambda>i. fx_inode)" "slocks fx_state = (\<lambda>l. \<lparr>sl_locked = 0, sl_name = [], sl_pid = 0\<rparr>)"
  "dll (bnext fx_state) (bprev fx_state) (rev [0..<NBUF])"
  using fx_boot_sel(14) by (simp_all add: fx_state_def)

lemma fx_quiet: "quiet 0 fx_state" and fx_pid: "mypid 0 fx_state = mypid 0 fx_boot"
proof -
  have c: "same_cpuv fx_boot fx_state" "procs fx_state = procs fx_boot" by (simp_all add: fx_state_def same_cpuv_def)
  show "quiet 0 fx_state" using fx_boot_quiet by (simp only: quiet_cong [OF c])
  show "mypid 0 fx_state = mypid 0 fx_boot" by (simp add: mypid_def fx_state_def)
qed

lemma fx_cache: "cache_ok 0 fx_state {}"
  using fx_quiet fx_state_sel(15)
  by (intro cache_okI [where p = "mypid 0 fx_state"]) (auto simp: buf_ok_def fx_buf_def split: if_splits)

lemma fx_dirty: "dirty_blocks fx_boot = {}" "dirty_blocks fx_state = {500}"
  by (auto simp: dirty_blocks_def dirty_def fx_buf_def intro!: exI [of _ 0])

lemma fx_log_ok: "log_ok 0 fx_boot" "log_ok 0 fx_state"
proof -
  have "ld_head (fx_disk 2) = []" by (simp add: ld_head_def fx_disk_def ld32_def)
  then show "log_ok 0 fx_boot" "log_ok 0 fx_state"
    using fx_boot_cache fx_cache fx_dirty by (simp_all add: log_ok_def log_geo_def tx_blocks_def lh_idx_def in_log_def inj_on_def)
qed

lemma fx_space: "log_space fx_state k \<longleftrightarrow> k < 29"
  by (auto simp: log_space_def tx_blocks_def lh_idx_def)

lemma fx_cval: "cval fx_state = fx_disk(500 := (\<lambda>i. 7))"
proof
  fix b
  show "cval fx_state b = (fx_disk(500 := (\<lambda>i. 7))) b"
  proof (cases "b = 500")
    case True
    then show ?thesis using cval_buf [OF fx_cache, of 0 500] by (simp add: fx_buf_def)
  next
    case False
    then show ?thesis using cval_clean [OF fx_cache, of b] fx_dirty by simp
  qed
qed

lemma fx_sb_at: "sb_at fx_sb_block = fx_sb"
  by (simp add: sb_at_def fx_sb_def fx_sb_block_def ld32_st32_other)

lemma fx_bblock: "b < 1000 \<Longrightarrow> BBLOCK b fx_sb = 58 \<and> unat (b mod BPB) = unat b"
proof -
  assume "b < 1000"
  then have u: "unat b < 1000" by (simp add: word_less_nat_alt)
  then have "unat (b div BPB) = unat (0 :: uint)" by (simp add: unat_div)
  then have "b div BPB = 0" by (rule unsigned_word_eqI)
  then show ?thesis using u by (simp add: BBLOCK_def fx_sb_def unat_mod)
qed

lemma fx_used: "b < 1000 \<Longrightarrow> used fx_state b \<longleftrightarrow> unat b < 64"
proof -
  assume b: "b < 1000"
  have "bit (255 :: 8 word) k" if "k < 8" for k
  proof -
    have "(255 :: 8 word) = - 1" by simp
    then show ?thesis using that by (simp only: bit_minus_1_iff) simp
  qed
  then have "bm_test (\<lambda>i. if i < 8 then 255 else 0) (unat b) \<longleftrightarrow> unat b < 64" by (auto simp: bm_test_bit)
  then show ?thesis using fx_bblock [OF b] by (simp add: used_def fx_cval fx_disk_def)
qed

lemma fx_map_ok: "map_ok fx_state"
proof -
  have sz: "sb_size fx_sb = 1000" by (simp add: fx_sb_def)
  have "sb_at (cval fx_state 1) = fx_sb" by (simp add: fx_cval fx_disk_def fx_sb_at)
  moreover have "\<forall>b < 1000. in_log fx_state b \<longrightarrow> used fx_state b" by (simp add: fx_used in_log_def)
  moreover have "used fx_state 1" "used fx_state 58" "\<not> in_log fx_state 58" by (simp_all add: fx_used in_log_def)
  ultimately show ?thesis using fx_bblock by (simp add: map_ok_def sz)
qed

lemma fx_sb_ok: "sb_ok fx_state"
  by (simp add: sb_ok_def in_log_def tx_blocks_def lh_idx_def fx_disk_def fx_sb_block_def ld32_st32_other)

end
