(* ===== verification/Fs_Props.thy ===== *)
theory Fs_Props
  imports Fs_Example
begin

text \<open>
  The properties of the buffer cache, the log and the block and inode operations.
\<close>

section \<open>The log\<close>

definition fx_env :: "'s env" where
  "fx_env = \<lparr>e_fuel = 0, e_sw = Inr\<rparr>"

text \<open>
  C5. A transaction is atomic under crashes. When the last \<open>end_op\<close> of a transaction runs, it returns with
  every changed block on the disk. If instead the machine stops after any number \<open>k\<close> of its writes to the
  disk, the \<open>initlog\<close> of the next start returns with a disk that has, outside the log itself, either all the
  blocks as they were before the transaction or all the blocks as the transaction left them. Which one
  depends only on whether the header block has been written: write number \<open>lh.n + 1\<close>.
\<close>

theorem end_op_crash_safe:
  fixes s :: "'z logv_scheme"
  assumes "log_ok c s" "sb_ok s" "log_committing s = 0" "log_outstanding s = 1"
  shows "\<exists>t ws. end_op e s = Inr t \<and> log_ok c t \<and> lh_n t = 0 \<and> log_outstanding t = 0 \<and> dhist t = dhist s @ ws \<and>
    (\<forall>b. \<not> in_log s b \<longrightarrow> disk t b = cval s b \<and> cval t b = cval s b) \<and>
    (\<forall>k c' e' (r :: 'y logv_scheme). boots c' (disksize s) (put_all (take k ws) (disk s)) r \<longrightarrow>
      (\<exists>u. initlog e' 1 r = Inr u \<and> log_ok c' u \<and>
        (\<forall>b. \<not> in_log s b \<longrightarrow> disk u b = (if k \<le> nat (sint (lh_n s)) then disk s b else cval s b))))"
proof -
  obtain t ws where t: "end_op e s = Inr t" "log_ok c t" "lh_n t = 0" "log_outstanding t = 0" "log_committing t = 0"
    "dhist t = dhist s @ ws" "\<And>b. \<not> in_log s b \<Longrightarrow> disk t b = cval s b \<and> cval t b = cval s b"
    "ws = [] \<and> lh_n s = 0 \<or> (\<exists>h h'. ws = tx_writes st_head (log_start s) (log_at s) (tx_blocks s) (cval s) h h')"
    by (rule end_op_commits [OF assms(1,3,4), of e]) (rule that)
  have "\<exists>u. initlog e' 1 r = Inr u \<and> log_ok c' u \<and>
      (\<forall>b. \<not> in_log s b \<longrightarrow> disk u b = (if k \<le> nat (sint (lh_n s)) then disk s b else cval s b))"
    if "boots c' (disksize s) (put_all (take k ws) (disk s)) r" for k c' e' and r :: "'y logv_scheme"
    using t(8)
  proof
    assume z: "ws = [] \<and> lh_n s = 0"
    have b: "boots c' (disksize s) (put_all (take 0 (tx_writes st_head (log_start s) (log_at s) (tx_blocks s) (cval s) h h)) (disk s)) r" for h
      using that z by simp
    have "disk s x = cval s x" for x using log_ok_few(1) [OF assms(1)] z assms(1)
      by (subst cval_clean) (auto simp: log_ok_def tx_blocks_def lh_idx_def)
    then show ?thesis using crash_recovers [OF assms(1,2) refl b, of e'] by (metis le0)
  next
    assume "\<exists>h h'. ws = tx_writes st_head (log_start s) (log_at s) (tx_blocks s) (cval s) h h'"
    then obtain h h' where ws: "ws = tx_writes st_head (log_start s) (log_at s) (tx_blocks s) (cval s) h h'" by blast
    show ?thesis by (rule crash_recovers [OF assms(1,2) ws that, of e']) blast
  qed
  then show ?thesis using t by blast
qed

lemma fx_boots: "boots 0 1000 D (fx_boot\<lparr>disk := D\<rparr>)"
proof -
  have c: "same_cpuv fx_boot (fx_boot\<lparr>disk := D\<rparr>)" "procs (fx_boot\<lparr>disk := D\<rparr>) = procs fx_boot" by (simp_all add: same_cpuv_def)
  have "quiet 0 (fx_boot\<lparr>disk := D\<rparr>)" using fx_boot_quiet by (simp only: quiet_cong [OF c])
  then have "cache_ok 0 (fx_boot\<lparr>disk := D\<rparr>) {}"
    using fx_boot_sel(14) by (intro cache_okI [where p = "mypid 0 (fx_boot\<lparr>disk := D\<rparr>)"]) (auto simp: buf_ok_def fx_buf_def)
  moreover have "dirty_blocks (fx_boot\<lparr>disk := D\<rparr>) = {}" by (simp add: dirty_blocks_def dirty_def fx_buf_def)
  ultimately show ?thesis by (simp add: boots_def)
qed

theorem end_op_crash_safe_witness:
  "\<exists>t ws u v. end_op fx_env fx_state = Inr t \<and> disk t 500 = (\<lambda>i. 7) \<and> dhist t = ws \<and>
     initlog fx_env 1 (fx_boot\<lparr>disk := put_all (take 1 ws) fx_disk\<rparr>) = Inr u \<and> disk u 500 = (\<lambda>i. 0) \<and>
     initlog fx_env 1 (fx_boot\<lparr>disk := put_all (take 2 ws) fx_disk\<rparr>) = Inr v \<and> disk v 500 = (\<lambda>i. 7)"
proof -
  have n: "\<not> in_log fx_state 500" by (simp add: in_log_def)
  obtain t where t: "end_op fx_env fx_state = Inr t" "disk t 500 = cval fx_state 500"
    and r: "\<And>k c' e' (r :: fsv). boots c' 1000 (put_all (take k (dhist t)) fx_disk) r \<Longrightarrow> \<exists>u. initlog e' 1 r = Inr u \<and> log_ok c' u \<and>
        (\<forall>b. \<not> in_log fx_state b \<longrightarrow> disk u b = (if k \<le> 1 then disk fx_state b else cval fx_state b))"
    using end_op_crash_safe [OF fx_log_ok(2) fx_sb_ok, of fx_env, where ?'y = "\<lparr>fs_sb :: superblock, inodes :: nat \<Rightarrow> inode,
      devsw_read :: nat \<Rightarrow> devfn option, devsw_write :: nat \<Rightarrow> devfn option\<rparr>"] n by auto
  have "\<exists>u. initlog fx_env 1 (fx_boot\<lparr>disk := put_all (take k (dhist t)) fx_disk\<rparr>) = Inr u \<and>
      disk u 500 = (if k \<le> 1 then disk fx_state 500 else cval fx_state 500)" for k
    using r [OF fx_boots, of fx_env] n by blast
  from this [of 1] this [of 2] show ?thesis using t by (auto simp: fx_cval fx_disk_def)
qed

section \<open>The buffer cache\<close>

text \<open>
  C15. The cache is transparent: \<open>bread\<close> of a block of the disk returns a locked buffer with the block as the
  cache shows it (the buffered changes if there are any, else the contents of the disk), whatever buffer
  it has to recycle for that; \<open>brelse\<close> gives the buffer back. Neither changes what any block reads as,
  writes to the disk, or breaks the invariant of the cache.
\<close>

theorem bread_transparent:
  fixes s :: "'z bufv_scheme"
  assumes "cache_ok c s {}" "b < disksize s" "card (dirty_blocks s) < NBUF"
  shows "\<exists>i t u. bread e 1 b s = Inr (i, t) \<and> b_blockno (bufs t i) = b \<and> b_data (bufs t i) = cval s b \<and> cache_ok c t {i} \<and>
    cval t = cval s \<and> brelse i t = Inr u \<and> cache_ok c u {} \<and> cval u = cval s \<and> dirty_blocks u = dirty_blocks s \<and>
    disk u = disk s \<and> dhist u = dhist s"
proof -
  obtain i t where t: "bread e 1 b s = Inr (i, t)" "cache_ok c t {i}" "b_blockno (bufs t i) = b" "b_data (bufs t i) = cval s b"
    "cval t = cval s" "disk t = disk s" "dhist t = dhist s" "dirty_blocks t = dirty_blocks s" "clean t i"
    by (rule bread_one [OF assms, of e]) (rule that)
  obtain u where "brelse i t = Inr u" "cache_ok c u {}" "cval u = cval t" "disk u = disk t" "dhist u = dhist t" "dirty_blocks u = dirty_blocks t"
    by (rule brelse_one [OF t(2,9)]) (rule that)
  then show ?thesis using t by auto
qed

theorem bread_transparent_witness:
  "\<exists>i t u. bread fx_env 1 500 fx_state = Inr (i, t) \<and> b_data (bufs t i) = (\<lambda>i. 7) \<and> brelse i t = Inr u \<and> disk u 500 = (\<lambda>i. 0)"
  using bread_transparent [OF fx_cache, of 500 fx_env] by (auto simp: fx_dirty fx_cval fx_disk_def)

text \<open>The buffer for a block: the one that has it, else the unchanged one that was released longest ago.\<close>

definition lru_pick :: "'z bufv_scheme \<Rightarrow> nat list \<Rightarrow> uint \<Rightarrow> nat option" where
  "lru_pick s xs b = (case buffer_of s b of Some i \<Rightarrow> Some i | None \<Rightarrow> find (\<lambda>j. \<not> dirty s j) (rev xs))"

lemma bget_pick:
  assumes "cache_ok c s {}" "dll (bnext s) (bprev s) xs" "set xs = {..<NBUF}"
  shows "lru_pick s xs b = Some i \<Longrightarrow> i < NBUF \<and> (\<exists>f. bget e 1 b s = Inr (i, grabbed c i f s))"
    "lru_pick s xs b = None \<Longrightarrow> bget e 1 b s = Inl (Panic ''bget: no buffers'')"
proof -
  have q: "quiet c s" using assms(1) by (simp add: cache_ok_def)
  let ?P = "\<lambda>j. b_refcnt (bufs s j) = 0 \<and> b_flags (bufs s j) AND B_DIRTY = 0"
  have "?P j \<longleftrightarrow> \<not> dirty s j" if "j < NBUF" for j using cache_buf_ok [OF assms(1) that] by (auto simp: buf_ok_def dirty_def)
  then have p: "find ?P (rev xs) = find (\<lambda>j. \<not> dirty s j) (rev xs)" using assms(3) by (intro find_cong) auto
  have n: "find (\<lambda>j. b_dev (bufs s j) = 1 \<and> b_blockno (bufs s j) = b) xs = None" if "buffer_of s b = None"
    using that assms(3) by (auto simp: buffer_of_None find_None_iff)
  show "bget e 1 b s = Inl (Panic ''bget: no buffers'')" if "lru_pick s xs b = None"
    using that n p by (simp add: lru_pick_def bget_def quiet_acquired(1) [OF q] dll_scan [OF assms(2,3)] split: option.splits)
  show "i < NBUF \<and> (\<exists>f. bget e 1 b s = Inr (i, grabbed c i f s))" if k: "lru_pick s xs b = Some i"
  proof (cases "buffer_of s b")
    case None
    then have i: "find (\<lambda>j. \<not> dirty s j) (rev xs) = Some i" using k by (simp add: lru_pick_def)
    then have b: "i < NBUF" using find_SomeD [OF i] assms(3) by auto
    then have u: "sl_locked (slocks s (Sl_buf i)) = 0" using cache_buf_ok [OF assms(1)] by (simp add: buf_ok_def)
    show ?thesis
      using b i p n [OF None] by (auto simp: bget_def quiet_acquired(1) [OF q] dll_scan [OF assms(2,3)] grabbed_acquire [OF q u] Let_def)
  next
    case (Some j)
    then have "buffer_of s b = Some i" using k by (simp add: lru_pick_def)
    then show ?thesis using bget_hit [OF assms(1), of b i e] buffer_of_Some [OF assms(1)] by auto
  qed
qed

lemma bread_pick:
  assumes "cache_ok c s {}" "dll (bnext s) (bprev s) xs" "set xs = {..<NBUF}" "b < disksize s" "lru_pick s xs b = Some i"
  shows "\<exists>t. bread e 1 b s = Inr (i, t) \<and> cache_ok c t {i} \<and> bnext t = bnext s \<and> bprev t = bprev s"
proof -
  obtain f where g: "i < NBUF" "bget e 1 b s = Inr (i, grabbed c i f s)" using bget_pick(1) [OF assms(1-3,5), of e] by blast
  have fr: "buffer_of s b \<noteq> None \<or> (\<exists>j < NBUF. j \<notin> {} \<and> \<not> dirty s j)"
    using assms(3,5) find_SomeD [of "\<lambda>j. \<not> dirty s j" "rev xs" i] by (auto simp: lru_pick_def split: option.splits)
  obtain k g' where r: "bread e 1 b s = Inr (k, grabbed c k (loaded g' b (cval s b)) s)" "k < NBUF" "k \<notin> {}"
    "buffer_of s b = Some k \<or> buffer_of s b = None \<and> \<not> dirty s k"
    "g' = (if buffer_of s b = Some k \<and> b_flags (bufs s k) \<noteq> 0 then b_flags (bufs s k) else B_VALID)"
    by (rule bread_ok [OF assms(1,4) _ fr, of e]) (simp, rule that)
  have k: "k = i" using r(1) g(2) by (auto simp: bread_def bindE_eq_Inr split: if_splits)
  have "g' \<in> {B_VALID, B_VALID OR B_DIRTY}" using r(5) cache_buf_ok [OF assms(1) r(2)] by (auto simp: buf_ok_def)
  then have "cache_ok c (grabbed c k (loaded g' b (cval s b)) s) (insert k {})"
    using r(4) by (intro grabbed_cache [OF assms(1) r(2,3) assms(4)]) auto
  then show ?thesis using r(1) k by simp
qed

text \<open>
  C6. The doubly linked list of the cache implements least recently used replacement. \<open>binit\<close> builds the list
  of all the buffers. On a list \<open>xs\<close>, most recently released first, \<open>bread\<close> picks the buffer that has the
  block, or else the unchanged buffer nearest the end of \<open>xs\<close>, and panics only when there is none;
  \<open>brelse\<close> then moves the buffer to the front of \<open>xs\<close> and leaves the order of the others.
\<close>

theorem cache_lru:
  fixes s :: "'z bufv_scheme"
  assumes "cache_ok c s {}" "dll (bnext s) (bprev s) xs" "set xs = {..<NBUF}" "b < disksize s"
  shows "dll (bnext (binit s)) (bprev (binit s)) (rev [0..<NBUF]) \<and>
    (case lru_pick s xs b of
       None \<Rightarrow> bread e 1 b s = Inl (Panic ''bget: no buffers'')
     | Some i \<Rightarrow> \<exists>t u. bread e 1 b s = Inr (i, t) \<and> brelse i t = Inr u \<and> dll (bnext u) (bprev u) (to_front i xs))"
proof (cases "lru_pick s xs b")
  case None
  then show ?thesis using bget_pick(2) [OF assms(1-3) None, of e] binit_list by (simp add: bread_def)
next
  case (Some i)
  obtain t where t: "bread e 1 b s = Inr (i, t)" "cache_ok c t {i}" "bnext t = bnext s" "bprev t = bprev s"
    using bread_pick [OF assms Some, of e] by blast
  have "i \<in> set xs" using bget_pick(1) [OF assms(1-3) Some] assms(3) by auto
  then have "dll (bnext (link_front i (unlink_buf i t))) (bprev (link_front i (unlink_buf i t))) (to_front i xs)"
    using assms(2) t(3,4) by (intro dll_to_front) simp_all
  then show ?thesis using brelse_eq [OF t(2), of i] t(1) Some binit_list by simp
qed

theorem cache_lru_witness:
  "\<exists>t u. bread fx_env 1 7 fx_state = Inr (1, t) \<and> brelse 1 t = Inr u \<and> dll (bnext u) (bprev u) (to_front 1 (rev [0..<NBUF]))"
proof -
  have "buffer_of fx_state 7 = None" by (auto simp: buffer_of_None fx_buf_def)
  moreover have "rev (rev [0..<NBUF]) = 0 # 1 # [2..<NBUF]" by (simp add: upt_rec)
  ultimately have "lru_pick fx_state (rev [0..<NBUF]) 7 = Some 1" by (simp add: lru_pick_def dirty_def fx_buf_def)
  then show ?thesis using cache_lru [OF fx_cache fx_state_sel(15), of 7 fx_env] by (auto simp: lessThan_atLeast0)
qed

section \<open>Blocks\<close>

text \<open>
  C14. \<open>balloc\<close> inside a transaction with room for two more blocks returns the free block with the lowest
  number, cleared to zeros and marked in the free map, and changes no other block; the free map and the log
  stay well formed and the disk itself is not touched. It panics exactly when no block is free: the search
  always ends.
\<close>

theorem balloc_correct:
  fixes s :: "'z fsv_scheme"
  assumes "log_ok c s" "map_ok s" "log_space s 2"
  shows "if \<exists>x < sb_size (fs_sb s). \<not> used s x
    then \<exists>x t. balloc e 1 s = Inr (x, t) \<and> x < sb_size (fs_sb s) \<and> \<not> used s x \<and> (\<forall>y < x. used s y) \<and>
      (\<forall>y < sb_size (fs_sb s). used t y \<longleftrightarrow> y = x \<or> used s y) \<and> cval t x = (\<lambda>i. 0) \<and>
      (\<forall>y. y \<noteq> x \<longrightarrow> y \<noteq> BBLOCK x (fs_sb s) \<longrightarrow> cval t y = cval s y) \<and> log_ok c t \<and> map_ok t \<and> disk t = disk s
    else balloc e 1 s = Inl (Panic ''balloc: out of blocks'')"
proof -
  show ?thesis
  proof (cases "\<exists>x < sb_size (fs_sb s). \<not> used s x")
    case True
    then show ?thesis using balloc_ok [OF assms, of e] unfolding allocated_def if_P [OF True] by blast
  next
    case False
    show ?thesis using balloc_ok [OF assms, of e] unfolding if_not_P [OF False] .
  qed
qed

lemma fx_free: "\<exists>x < sb_size (fs_sb fx_state). \<not> used fx_state x"
  by (intro exI [of _ 64]) (simp add: fx_used fx_sb_def)

theorem balloc_correct_witness:
  "\<exists>x t. balloc fx_env 1 fx_state = Inr (x, t) \<and> x < 1000 \<and> \<not> used fx_state x \<and> used t x \<and> cval t x = (\<lambda>i. 0)"
proof -
  have "sb_size (fs_sb fx_state) = 1000" "log_space fx_state 2" by (simp_all add: fx_sb_def fx_space)
  then show ?thesis using balloc_correct [OF fx_log_ok(2) fx_map_ok, of fx_env] unfolding if_P [OF fx_free] by metis
qed

text \<open>
  C16. A block that \<open>balloc\<close> has returned can be given back: \<open>bfree\<close> then returns, every block of the file
  system is marked as it was before, and giving it back a second time panics. A block that is not in use
  cannot be freed.
\<close>

theorem bfree_balloc:
  fixes s :: "'z fsv_scheme"
  assumes "log_ok c s" "map_ok s" "log_space s 3" "balloc e 1 s = Inr (x, t)"
  shows "\<exists>u. bfree e 1 x t = Inr u \<and> log_ok c u \<and> map_ok u \<and> disk u = disk s \<and> (\<forall>y < sb_size (fs_sb s). used u y \<longleftrightarrow> used s y) \<and>
    (\<forall>y. y \<noteq> x \<longrightarrow> cval u y = cval s y) \<and> bfree e 1 x u = Inl (Panic ''freeing free block'')"
proof -
  have sp: "log_space s 2" using assms(3) by (auto simp: log_space_def)
  have a: "allocated c s x t" using balloc_ok [OF assms(1,2) sp, of e] assms(4) by (auto split: if_splits)
  then have t: "log_ok c t" "map_ok t" "log_chg s t" "disk t = disk s" "x < sb_size (fs_sb s)" "\<not> used s x"
    "\<And>y. y < sb_size (fs_sb s) \<Longrightarrow> used t y \<longleftrightarrow> y = x \<or> used s y"
    "\<And>y. y \<noteq> x \<Longrightarrow> y \<noteq> BBLOCK x (fs_sb s) \<Longrightarrow> cval t y = cval s y"
    "cval t (BBLOCK x (fs_sb s)) = bm_set (unat (x mod BPB)) (cval s (BBLOCK x (fs_sb s)))"
    "set (tx_blocks t) = insert x (insert (BBLOCK x (fs_sb s)) (set (tx_blocks s)))" by (simp_all add: allocated_def)
  note m = map_okD [OF assms(2) t(5)] and f = logged_fs [OF t(3)] and l = log_chg_sel [OF t(3)]
  have "card (set (tx_blocks t)) \<le> card (set (tx_blocks s)) + 2" unfolding t(10) by (simp add: card_insert_if)
  then have st: "log_space t 1" using assms(3) l by (auto simp: log_space_def)
  have xt: "x < sb_size (fs_sb t)" "used t x" using t(5,7) f by simp_all
  obtain u where u: "bfree e 1 x t = Inr u" "log_ok c u" "log_chg t u" "disk u = disk t" "\<And>y. used u y \<longleftrightarrow> y \<noteq> x \<and> used t y"
    "cval u = (cval t)(BBLOCK x (fs_sb t) := bm_clear (unat (x mod BPB)) (cval t (BBLOCK x (fs_sb t))))"
    using bfree_ok(1) [OF t(1,2) xt(1) st xt(2), of e] by blast
  have cu: "cval u y = cval s y" if "y \<noteq> x" for y
    using that t(8) [of y] t(6,9) bm_clear_set [of "cval s (BBLOCK x (fs_sb s))"] unfolding u(6) f by (simp add: used_def)
  have us: "used u y \<longleftrightarrow> used s y" if "y < sb_size (fs_sb s)" for y using t(6) t(7) [OF that] u(5) by auto
  have mu: "map_ok u" using m(5) [OF t(6)] by (intro map_ok_upd [OF assms(2) log_chg_trans [OF t(3) u(3)]]) (simp_all add: cu us)
  have "x < sb_size (fs_sb u)" "\<not> used u x" using xt(1) logged_fs(1) [OF u(3)] u(5) by simp_all
  then have "bfree e 1 x u = Inl (Panic ''freeing free block'')" by (rule bfree_ok(2) [OF u(2) mu])
  then show ?thesis using u(1,2,4) t(4) mu us cu by (intro exI [of _ u]) simp
qed

theorem bfree_balloc_witness:
  "\<exists>x t u. balloc fx_env 1 fx_state = Inr (x, t) \<and> bfree fx_env 1 x t = Inr u \<and> map_ok u \<and>
     bfree fx_env 1 x u = Inl (Panic ''freeing free block'')"
proof -
  obtain x t where "balloc fx_env 1 fx_state = Inr (x, t)"
    using balloc_ok [OF fx_log_ok(2) fx_map_ok, of fx_env] unfolding if_P [OF fx_free] by (auto simp: fx_space)
  then show ?thesis using bfree_balloc [OF fx_log_ok(2) fx_map_ok, of fx_env x t] by (auto simp: fx_space)
qed

section \<open>Inodes\<close>

text \<open>
  C17. \<open>iupdate\<close> writes the inode it is given: reading inode \<open>ip->inum\<close> back gives every field of \<open>ip\<close>, all
  thirteen block addresses included; every other inode of the disk, those in the same block included, reads
  as before, and so does every other block. The change is in the transaction, not yet on the disk.
\<close>

theorem iupdate_roundtrip:
  fixes s :: "'z fsv_scheme" and ip :: nat
  assumes "log_ok c s" "log_space s 1" "i_dev (inodes s ip) = 1" "IBLOCK (i_inum (inodes s ip)) (fs_sb s) < disksize s"
    and "\<not> in_log s (IBLOCK (i_inum (inodes s ip)) (fs_sb s))"
  shows "\<exists>t. iupdate e ip s = Inr t \<and> same_dinode (dinode_of t (i_inum (inodes s ip))) (fields_of (inodes s ip)) \<and>
    (\<forall>m. m \<noteq> i_inum (inodes s ip) \<longrightarrow> same_dinode (dinode_of t m) (dinode_of s m)) \<and>
    (\<forall>b. b \<noteq> IBLOCK (i_inum (inodes s ip)) (fs_sb s) \<longrightarrow> cval t b = cval s b) \<and> log_ok c t \<and> disk t = disk s"
proof -
  let ?n = "i_inum (inodes s ip)"
  obtain t where t: "iupdate e ip s = Inr t"
    "logged c s (IBLOCK ?n (fs_sb s)) (st_dinode (dino_off ?n) (fields_of (inodes s ip)) (cval s (IBLOCK ?n (fs_sb s)))) t"
    by (rule iupdate_ok [OF assms, of e]) (rule that)
  have l: "log_ok c t" "log_chg s t" "disk t = disk s"
    "cval t = (cval s)(IBLOCK ?n (fs_sb s) := st_dinode (dino_off ?n) (fields_of (inodes s ip)) (cval s (IBLOCK ?n (fs_sb s))))"
    using t(2) by (simp_all add: logged_def)
  note f = logged_fs [OF l(2)]
  have "same_dinode (dinode_of t ?n) (fields_of (inodes s ip))" unfolding dinode_of_def f l(4) by (simp add: ld_st_dinode)
  moreover have "same_dinode (dinode_of t m) (dinode_of s m)" if "m \<noteq> ?n" for m
  proof (cases "IBLOCK m (fs_sb s) = IBLOCK ?n (fs_sb s)")
    case True
    then show ?thesis unfolding dinode_of_def f l(4) using dino_off_apart [OF True that] by (simp add: ld_st_dinode_other)
  qed (simp add: dinode_of_def f l(4) same_dinode_def)
  ultimately show ?thesis using t(1) l by (intro exI [of _ t]) simp
qed

theorem iupdate_roundtrip_witness:
  "\<exists>t. iupdate fx_env 3 fx_state = Inr t \<and> d_size (dinode_of t 5) = 512 \<and> d_addrs (dinode_of t 5) 0 = 500 \<and>
     d_type (dinode_of t 6) = d_type (dinode_of fx_state 6)"
proof -
  have "IBLOCK 5 fx_sb = 32" by (simp add: IBLOCK_def fx_sb_def)
  then show ?thesis
    using iupdate_roundtrip [OF fx_log_ok(2), of 3 fx_env] by (auto simp: fx_space fx_inode_def in_log_def same_dinode_def fields_of_def)
qed

end
