(* ===== verification/Pipe_Props.thy ===== *)
theory Pipe_Props
  imports File Fs_Example
begin

text \<open>
  Pipes as queues. The ring buffer of a pipe, with its two counters that are never reset, is a bounded queue
  of bytes; \<open>pipewrite\<close> and \<open>piperead\<close> are its operations.
\<close>

section \<open>Bounded queues\<close>

datatype 'a qop = Put 'a | Get nat

text \<open>
  A sequence of operations on a queue with \<open>len\<close> elements in it and room for \<open>cap\<close>: what went in, what came out,
  and the queue at the end; nothing when an element is put into a full queue.
\<close>

fun queue_run ::
  "('q \<Rightarrow> nat) \<Rightarrow> ('a \<Rightarrow> 'q \<Rightarrow> 'q) \<Rightarrow> (nat \<Rightarrow> 'q \<Rightarrow> 'a list \<times> 'q) \<Rightarrow> nat \<Rightarrow> 'a qop list \<Rightarrow> 'q \<Rightarrow> ('a list \<times> 'a list \<times> 'q) option"
where
  "queue_run len put get cap [] q = Some ([], [], q)"
| "queue_run len put get cap (Put a # os) q =
     (if len q < cap then map_option (\<lambda>(i, out, r). (a # i, out, r)) (queue_run len put get cap os (put a q)) else None)"
| "queue_run len put get cap (Get n # os) q =
     map_option (\<lambda>(i, out, r). (i, fst (get n q) @ out, r)) (queue_run len put get cap os (snd (get n q)))"

locale bounded_queue =
  fixes cont :: "'q \<Rightarrow> 'a list" and inv :: "'q \<Rightarrow> bool" and put :: "'a \<Rightarrow> 'q \<Rightarrow> 'q"
    and get :: "nat \<Rightarrow> 'q \<Rightarrow> 'a list \<times> 'q" and cap :: nat
  assumes put_ok: "inv q \<Longrightarrow> length (cont q) < cap \<Longrightarrow> inv (put a q) \<and> cont (put a q) = cont q @ [a]"
    and get_ok: "inv q \<Longrightarrow> fst (get n q) = take n (cont q) \<and> inv (snd (get n q)) \<and> cont (snd (get n q)) = drop n (cont q)"
begin

lemma puts_ok:
  assumes "inv q" "length (cont q) + length as \<le> cap"
  shows "inv (fold put as q) \<and> cont (fold put as q) = cont q @ as"
  using assms
proof (induction as arbitrary: q)
  case (Cons a as)
  then have "inv (put a q)" "cont (put a q) = cont q @ [a]" using put_ok [of q a] by simp_all
  then show ?case using Cons.IH [of "put a q"] Cons.prems(2) by simp
qed simp

text \<open>What goes in comes out, once and in order, however reads and writes are interleaved.\<close>

lemma fifo:
  "inv q \<Longrightarrow> queue_run (\<lambda>q. length (cont q)) put get cap os q = Some (i, out, r) \<Longrightarrow> inv r \<and> cont q @ i = out @ cont r"
proof (induction os arbitrary: q i out r)
  case (Cons x os)
  show ?case
  proof (cases x)
    case (Put a)
    then obtain i' where r: "length (cont q) < cap" "queue_run (\<lambda>q. length (cont q)) put get cap os (put a q) = Some (i', out, r)" "i = a # i'"
      using Cons.prems(2) by (auto split: if_splits)
    then show ?thesis using Cons.IH [OF _ r(2)] Cons.prems(1) put_ok [of q a] by auto
  next
    case (Get n)
    then obtain out' where r: "queue_run (\<lambda>q. length (cont q)) put get cap os (snd (get n q)) = Some (i, out', r)" "out = fst (get n q) @ out'"
      using Cons.prems(2) by auto
    then show ?thesis using Cons.IH [OF _ r(1)] Cons.prems(1) get_ok [of q n] by (metis append.assoc append_take_drop_id)
  qed
qed auto

end

section \<open>The ring buffer\<close>

definition pipe_len :: "pipe \<Rightarrow> nat" where
  "pipe_len x = unat (pi_nwrite x - pi_nread x)"

definition pipe_bytes :: "pipe \<Rightarrow> uchar list" where
  "pipe_bytes x = map (\<lambda>i. pi_data x ((unat (pi_nread x) + i) mod PIPESIZE)) [0..<pipe_len x]"

definition pipe_inv :: "pipe \<Rightarrow> bool" where
  "pipe_inv x \<longleftrightarrow> pipe_len x \<le> PIPESIZE"

text \<open>The counters wrap at \<open>2^32\<close>, a multiple of the size of the buffer.\<close>

lemma unat_plus_mod: "unat (a + b :: uint) mod 512 = (unat a + unat b) mod 512"
  by (simp add: unat_word_ariths mod_mod_cancel)

lemma pipe_get1:
  assumes "pi_nread x \<noteq> pi_nwrite x" "pipe_inv x"
  defines "y \<equiv> x\<lparr>pi_nread := pi_nread x + 1\<rparr>"
  shows "pipe_inv y" "pipe_bytes x = pi_data x (unat (pi_nread x) mod PIPESIZE) # pipe_bytes y"
proof -
  have "pi_nwrite x - pi_nread x \<noteq> 0" using assms(1) by simp
  then have "unat (pi_nwrite x - pi_nread x - 1) = unat (pi_nwrite x - pi_nread x) - 1" "0 < unat (pi_nwrite x - pi_nread x)"
    by (simp_all add: unat_minus_one unat_gt_0)
  then have l: "pipe_len x = Suc (pipe_len y)" by (simp add: pipe_len_def y_def diff_diff_eq [symmetric])
  then show "pipe_inv y" using assms(2) by (simp add: pipe_inv_def)
  have "(unat (pi_nread x + 1) + i) mod 512 = (unat (pi_nread x) + Suc i) mod 512" for i
  proof -
    have "(unat (pi_nread x + 1) + i) mod 512 = (unat (pi_nread x + 1) mod 512 + i) mod 512" by (simp only: mod_add_left_eq)
    also have "\<dots> = (unat (pi_nread x) + 1 + i) mod 512" unfolding unat_plus_mod by (simp only: mod_add_left_eq unat_1)
    finally show ?thesis by simp
  qed
  then show "pipe_bytes x = pi_data x (unat (pi_nread x) mod PIPESIZE) # pipe_bytes y"
    unfolding pipe_bytes_def l upt_conv_Cons [OF zero_less_Suc] by (simp add: y_def map_Suc_upt [symmetric] del: upt_Suc)
qed

lemma pipe_get_spec:
  "pipe_inv x \<Longrightarrow> fst (pipe_get n x) = take n (pipe_bytes x) \<and> pipe_inv (snd (pipe_get n x)) \<and>
     pipe_bytes (snd (pipe_get n x)) = drop n (pipe_bytes x)"
proof (induction n x rule: pipe_get.induct)
  case (2 n x)
  show ?case
  proof (cases "pi_nread x = pi_nwrite x")
    case True
    then have "pipe_bytes x = []" by (simp add: pipe_bytes_def pipe_len_def)
    then show ?thesis using True 2 by simp
  next
    case False
    then show ?thesis using pipe_get1 [OF False 2(2)] 2(1) [OF False refl] by (simp add: case_prod_beta Let_def)
  qed
qed simp

lemma pipe_put_spec:
  assumes "pipe_inv x" "length (pipe_bytes x) < PIPESIZE"
  shows "pipe_inv (pipe_put c x) \<and> pipe_bytes (pipe_put c x) = pipe_bytes x @ [c]"
proof -
  let ?n = "pipe_len x"
  have n: "?n < 512" using assms(2) by (simp add: pipe_bytes_def)
  have "unat (pi_nwrite x - pi_nread x + 1) = Suc ?n" using n by (simp add: pipe_len_def unat_word_ariths)
  then have l: "pipe_len (pipe_put c x) = Suc ?n" by (simp add: pipe_len_def pipe_put_def algebra_simps)
  have "unat (pi_nwrite x) mod 512 = (unat (pi_nread x) + ?n) mod 512"
    using unat_plus_mod [of "pi_nread x" "pi_nwrite x - pi_nread x"] by (simp add: pipe_len_def)
  moreover have "(unat (pi_nread x) + i) mod 512 \<noteq> (unat (pi_nread x) + ?n) mod 512" if "i < ?n" for i
  proof
    assume "(unat (pi_nread x) + i) mod 512 = (unat (pi_nread x) + ?n) mod 512"
    then have "512 dvd (unat (pi_nread x) + ?n) - (unat (pi_nread x) + i)"
      using that mod_eq_dvd_iff_nat [of "unat (pi_nread x) + i" "unat (pi_nread x) + ?n" 512] by simp
    then show False using that n by (auto dest: dvd_imp_le)
  qed
  ultimately show ?thesis
    using n by (simp add: pipe_bytes_def pipe_inv_def l) (simp add: pipe_put_def)
qed

interpretation pipeq: bounded_queue pipe_bytes pipe_inv pipe_put pipe_get PIPESIZE
proof
  fix q a assume "pipe_inv q" "length (pipe_bytes q) < PIPESIZE"
  then show "pipe_inv (pipe_put a q) \<and> pipe_bytes (pipe_put a q) = pipe_bytes q @ [a]" by (rule pipe_put_spec)
next
  fix q n assume "pipe_inv q"
  then show "fst (pipe_get n q) = take n (pipe_bytes q) \<and> pipe_inv (snd (pipe_get n q)) \<and> pipe_bytes (snd (pipe_get n q)) = drop n (pipe_bytes q)"
    by (rule pipe_get_spec)
qed

section \<open>The operations on the pipe\<close>

text \<open>The process can take the lock of the pipe and the lock of the process table.\<close>

definition pipe_ready :: "nat \<Rightarrow> uint \<Rightarrow> 'z filev_scheme \<Rightarrow> bool" where
  "pipe_ready c p s \<longleftrightarrow> cpu_ok s c \<and> lk_free s (Lk_pipe p) \<and> lk_free s Lk_ptable"

lemma pipe_wakeup_release:
  assumes "pipe_ready c p s"
  shows "\<exists>t. wakeup ch ((acquired c (Lk_pipe p) s)\<lparr>pipes := x\<rparr>) = Inr t \<and>
    (\<exists>u. release (Lk_pipe p) t = Inr u \<and> pipes u = x \<and> pipe_ready c p u \<and>
      procs u = (\<lambda>i. if i < NPROC then woken ch (procs s i) else procs s i))"
proof -
  have r: "cpu_ok s c" "lk_free s (Lk_pipe p)" "lk_free s Lk_ptable" using assms by (simp_all add: pipe_ready_def)
  let ?a = "acquired c (Lk_pipe p) s"
  let ?b = "?a\<lparr>pipes := x\<rparr>"
  define w where "w = ?b\<lparr>procs := \<lambda>i. if i < NPROC then woken ch (procs ?b i) else procs ?b i\<rparr>"
  have sb: "same_cpuv ?a ?b" "same_cpuv ?a w" by (simp_all add: same_cpuv_def w_def)
  have "cpu_ok ?a c" "lk_free ?a Lk_ptable" "0 < ncli (cpus ?a c)" using r by (auto simp: lock_defs)
  then have "cpu_ok ?b c" "lk_free ?b Lk_ptable" "0 < ncli (cpus w c)" using same_cpuv_cong [OF sb(1)] sb(2) by (simp_all add: same_cpuv_def)
  then have "wakeup ch ?b = Inr w" using wakeup_ok [of ?b c ch] touch_nested [of w c] by (simp add: w_def)
  moreover define u where "u = w\<lparr>fl_if := fl_if s, cpus := cpus (touch c s), locks := locks s\<rparr>"
  have "release (Lk_pipe p) w = Inr u" unfolding u_def by (rule release_restores [OF r(1,2) sb(2)])
  moreover have "pipes u = x" "procs u = (\<lambda>i. if i < NPROC then woken ch (procs s i) else procs s i)"
    by (simp_all add: u_def w_def lock_defs fun_eq_iff)
  moreover have "same_cpuv (touch c s) u" by (simp add: same_cpuv_def u_def w_def)
  then have "pipe_ready c p u" using r by (simp add: pipe_ready_def same_cpuv_cong)
  ultimately show ?thesis by blast
qed

lemma pipe_not_full: "pipe_len x < PIPESIZE \<Longrightarrow> pi_nwrite x \<noteq> pi_nread x + of_nat PIPESIZE"
  by (auto simp: pipe_len_def)

lemma pipewrite_loop_ok:
  assumes "pipe_inv (pipes s p)" "length (pipe_bytes (pipes s p)) + length bs \<le> PIPESIZE"
  shows "pipewrite_loop e p bs s = Inr (True, s\<lparr>pipes := (pipes s)(p := fold pipe_put bs (pipes s p))\<rparr>)"
  using assms
proof (induction bs arbitrary: s)
  case (Cons b bs)
  let ?t = "upd_pipe p (pipe_put b) s"
  have "pipe_len (pipes s p) < PIPESIZE" using Cons.prems(2) by (simp add: pipe_bytes_def)
  then have "await_room (e_fuel e) e p s = Inr (True, s)" using pipe_not_full by (subst await_room.simps) auto
  moreover have "pipewrite_loop e p bs ?t = Inr (True, ?t\<lparr>pipes := (pipes ?t)(p := fold pipe_put bs (pipes ?t p))\<rparr>)"
    using Cons.prems pipe_put_spec [OF Cons.prems(1), of b] by (intro Cons.IH) (simp_all add: upd_pipe_def)
  moreover have "?t\<lparr>pipes := (pipes ?t)(p := fold pipe_put bs (pipes ?t p))\<rparr> = s\<lparr>pipes := (pipes s)(p := fold pipe_put (b # bs) (pipes s p))\<rparr>"
    unfolding upd_pipe_def by simp
  ultimately show ?case unfolding pipewrite_loop.simps by (simp only: bindE_Inr prod.case if_True)
qed simp

lemma pipe_acquired_sel [simp]: "pipes (acquired c l s) = pipes s"
  by (simp add: lock_defs)

lemma pipewrite_ok:
  assumes "pipe_ready c p s" "pipe_inv (pipes s p)" "length (pipe_bytes (pipes s p)) + length bs \<le> PIPESIZE"
  shows "\<exists>t. pipewrite e p bs s = Inr (True, t) \<and> pipe_ready c p t \<and> pipe_inv (pipes t p) \<and>
    pipe_bytes (pipes t p) = pipe_bytes (pipes s p) @ bs \<and> (\<forall>q. q \<noteq> p \<longrightarrow> pipes t q = pipes s q) \<and>
    procs t = (\<lambda>i. if i < NPROC then woken (Ch_nread p) (procs s i) else procs s i)"
proof -
  let ?a = "acquired c (Lk_pipe p) s"
  let ?x = "(pipes s)(p := fold pipe_put bs (pipes s p))"
  have "acquire (Lk_pipe p) s = Inr ?a" using assms(1) by (intro acquire_ok) (simp_all add: pipe_ready_def)
  moreover have "pipewrite_loop e p bs ?a = Inr (True, ?a\<lparr>pipes := ?x\<rparr>)" using pipewrite_loop_ok [of ?a p bs e] assms(2,3) by simp
  moreover obtain t u where "wakeup (Ch_nread p) (?a\<lparr>pipes := ?x\<rparr>) = Inr t" "release (Lk_pipe p) t = Inr u" "pipes u = ?x" "pipe_ready c p u"
    "procs u = (\<lambda>i. if i < NPROC then woken (Ch_nread p) (procs s i) else procs s i)"
    using pipe_wakeup_release [OF assms(1)] by blast
  ultimately show ?thesis using pipeq.puts_ok [OF assms(2,3)] by (intro exI [of _ u]) (simp add: pipewrite_def)
qed

lemma piperead_ok:
  assumes "pipe_ready c p s" "pipe_inv (pipes s p)" "pipe_bytes (pipes s p) \<noteq> [] \<or> \<not> pi_writeopen (pipes s p)"
  shows "\<exists>t. piperead e p n s = Inr (Some (take (nat (sint n)) (pipe_bytes (pipes s p))), t) \<and> pipe_ready c p t \<and> pipe_inv (pipes t p) \<and>
    pipe_bytes (pipes t p) = drop (nat (sint n)) (pipe_bytes (pipes s p)) \<and> (\<forall>q. q \<noteq> p \<longrightarrow> pipes t q = pipes s q)"
proof -
  let ?a = "acquired c (Lk_pipe p) s"
  let ?g = "pipe_get (nat (sint n)) (pipes s p)"
  let ?x = "(pipes s)(p := snd ?g)"
  have "acquire (Lk_pipe p) s = Inr ?a" using assms(1) by (intro acquire_ok) (simp_all add: pipe_ready_def)
  moreover have "await_data (e_fuel e) e p ?a = Inr (True, ?a)"
    using assms(3) by (subst await_data.simps) (auto simp: pipe_bytes_def pipe_len_def)
  moreover obtain t u where "wakeup (Ch_nwrite p) (?a\<lparr>pipes := ?x\<rparr>) = Inr t" "release (Lk_pipe p) t = Inr u" "pipes u = ?x" "pipe_ready c p u"
    using pipe_wakeup_release [OF assms(1)] by blast
  ultimately show ?thesis
    using pipe_get_spec [OF assms(2), of "nat (sint n)"] by (intro exI [of _ u]) (simp add: piperead_def case_prod_beta Let_def)
qed

text \<open>
  C8. A pipe is a first-in first-out queue of bytes. A write of bytes that fit appends them to the contents of
  the ring buffer; a following read of at most \<open>n\<close> bytes returns the first \<open>n\<close> bytes of the contents and
  leaves the rest, also when the counters \<open>nread\<close> and \<open>nwrite\<close> have wrapped; no other pipe changes. Over any
  sequence of single writes that fit and reads, what has come out followed by what is still in the buffer
  is what was in the buffer followed by what has gone in.
\<close>

theorem pipe_fifo:
  fixes s :: "'z filev_scheme"
  assumes "pipe_ready c p s" "pipe_inv (pipes s p)" "length (pipe_bytes (pipes s p)) + length bs \<le> PIPESIZE" "bs \<noteq> []"
  shows "(\<exists>t u. pipewrite e p bs s = Inr (True, t) \<and> pipe_bytes (pipes t p) = pipe_bytes (pipes s p) @ bs \<and>
      piperead e p n t = Inr (Some (take (nat (sint n)) (pipe_bytes (pipes s p) @ bs)), u) \<and> pipe_inv (pipes u p) \<and>
      pipe_bytes (pipes u p) = drop (nat (sint n)) (pipe_bytes (pipes s p) @ bs) \<and> (\<forall>q. q \<noteq> p \<longrightarrow> pipes u q = pipes s q)) \<and>
    (\<forall>ops i out x. queue_run pipe_len pipe_put pipe_get PIPESIZE ops (pipes s p) = Some (i, out, x) \<longrightarrow> pipe_bytes (pipes s p) @ i = out @ pipe_bytes x)"
proof -
  obtain t where t: "pipewrite e p bs s = Inr (True, t)" "pipe_ready c p t" "pipe_inv (pipes t p)"
    "pipe_bytes (pipes t p) = pipe_bytes (pipes s p) @ bs" "\<And>q. q \<noteq> p \<Longrightarrow> pipes t q = pipes s q"
    using pipewrite_ok [OF assms(1-3), of e] by blast
  have nz: "pipe_bytes (pipes t p) \<noteq> [] \<or> \<not> pi_writeopen (pipes t p)" using t(4) assms(4) by simp
  have len: "(\<lambda>q. length (pipe_bytes q)) = pipe_len" by (simp add: pipe_bytes_def)
  show ?thesis using piperead_ok [OF t(2,3) nz, of e n] t pipeq.fifo [OF assms(2)] unfolding len by auto
qed

section \<open>A reader that waits\<close>

lemma pipe_resumes:
  fixes t :: "'z filev_scheme"
  assumes "cpu_ok t d" "ncli (cpus t d) = 1" "lk_held t d Lk_ptable" "lk_free t (Lk_pipe p)"
  shows "\<exists>v. bindE (resumed ie t) (awake (Lk_pipe p) i) = Inr (acquired d (Lk_pipe p) v) \<and> pipe_ready d p v \<and> pipes v = pipes t"
proof -
  let ?v = "released d Lk_ptable (upd_proc i (\<lambda>q. q\<lparr>p_chan := None\<rparr>) (upd_cpu d (\<lambda>k. k\<lparr>intena := ie\<rparr>) t))"
  have "pipes ?v = pipes t" by (simp add: lock_defs upd_proc_def)
  then show ?thesis using sleep_resumes [OF assms(1-4), where i = i and ie = ie] by (intro exI [of _ ?v]) (simp add: pipe_ready_def)
qed

text \<open>
  C18. A reader of an empty pipe is not left waiting. It gives up the CPU asleep on \<open>nread\<close> with the lock of the pipe
  free, so a writer gets in; the write puts its bytes into the pipe and makes the reader runnable. When the
  reader is switched to again and the pipe has bytes, \<open>piperead\<close> returns the first of them.
\<close>

theorem piperead_woken:
  fixes s :: "'z filev_scheme"
  assumes "pipe_ready c p s" "ncli (cpus s c) = 0" "cproc (cpus s c) = Some i" "i < NPROC" "\<not> p_killed (procs s i)"
    and "pipe_bytes (pipes s p) = []" "pipe_inv (pipes s p)" "pi_writeopen (pipes s p)" "0 < e_fuel e"
  shows "\<exists>a. lk_free a (Lk_pipe p) \<and> p_state (procs a i) = SLEEPING \<and> p_chan (procs a i) = Some (Ch_nread p) \<and>
    (\<forall>r d bs. pipe_ready d p r \<and> procs r i = procs a i \<and> pipes r p = pipes a p \<and> length bs \<le> PIPESIZE \<longrightarrow>
      (\<exists>r'. pipewrite e p bs r = Inr (True, r') \<and> p_state (procs r' i) = RUNNABLE \<and> pipe_bytes (pipes r' p) = bs)) \<and>
    (\<forall>t d. e_sw e a = Inr t \<and> cpu_ok t d \<and> ncli (cpus t d) = 1 \<and> lk_held t d Lk_ptable \<and> lk_free t (Lk_pipe p) \<and>
        pipe_inv (pipes t p) \<and> pipe_bytes (pipes t p) \<noteq> [] \<longrightarrow>
      (\<exists>u. piperead e p n s = Inr (Some (take (nat (sint n)) (pipe_bytes (pipes t p))), u)))"
proof -
  let ?b = "acquired c (Lk_pipe p) s"
  let ?a = "asleep c (Lk_pipe p) i (Ch_nread p) ?b"
  have r: "cpu_ok s c" "lk_free s (Lk_pipe p)" "lk_free s Lk_ptable" using assms(1) by (simp_all add: pipe_ready_def)
  have b: "cpu_ok ?b c" "lk_held ?b c (Lk_pipe p)" "ncli (cpus ?b c) = 1" "cproc (cpus ?b c) = Some i" "lk_free ?b Lk_ptable"
    using r assms(2,3) by (auto simp: lock_defs)
  have lk: "lk_free ?a (Lk_pipe p)" using released_acquired_other [OF b(1-3,5)] by (simp add: asleep_def paused_def Let_def)
  have st: "p_state (procs ?a i) = SLEEPING" "p_chan (procs ?a i) = Some (Ch_nread p)" "pipes ?a = pipes s"
    by (simp_all add: asleep_def paused_def Let_def) (simp_all add: lock_defs upd_proc_def)
  have eq: "pi_nread (pipes s p) = pi_nwrite (pipes s p)" using assms(6) by (auto simp: pipe_bytes_def pipe_len_def unat_eq_0)
  have wr: "\<exists>r'. pipewrite e p bs q = Inr (True, r') \<and> p_state (procs r' i) = RUNNABLE \<and> pipe_bytes (pipes r' p) = bs"
    if "pipe_ready d p q" "procs q i = procs ?a i" "pipes q p = pipes ?a p" "length bs \<le> PIPESIZE" for q d bs
  proof -
    have "pipe_bytes (pipes q p) = []" "pipe_inv (pipes q p)" using that(3) st(3) assms(6,7) by simp_all
    then show ?thesis using pipewrite_ok [OF that(1), of bs e] that(2,4) st(1,2) assms(4) by (auto simp: woken_def)
  qed
  have rd: "\<exists>u. piperead e p n s = Inr (Some (take (nat (sint n)) (pipe_bytes (pipes t p))), u)"
    if t: "e_sw e ?a = Inr t" "cpu_ok t d" "ncli (cpus t d) = 1" "lk_held t d Lk_ptable" "lk_free t (Lk_pipe p)"
      "pipe_inv (pipes t p)" "pipe_bytes (pipes t p) \<noteq> []" for t d
  proof -
    obtain v where v: "bindE (resumed (intena (cpus ?b c)) t) (awake (Lk_pipe p) i) = Inr (acquired d (Lk_pipe p) v)"
      "pipe_ready d p v" "pipes v = pipes t" using pipe_resumes [OF t(2-5)] by blast
    obtain k where k: "e_fuel e = Suc k" using assms(9) by (cases "e_fuel e") simp_all
    have "sleep (e_sw e) (Ch_nread p) (Lk_pipe p) ?b = Inr (acquired d (Lk_pipe p) v)"
      using sleep_ok [OF b(1-4), of "e_sw e" "Ch_nread p"] b(5) t(1) v(1) by simp
    moreover have "await_data k e p (acquired d (Lk_pipe p) v) = Inr (True, acquired d (Lk_pipe p) v)"
      using t(7) v(3) by (subst await_data.simps) (auto simp: pipe_bytes_def pipe_len_def)
    moreover have "\<not> p_killed (procs ?b i)" using assms(5) by (simp add: lock_defs)
    moreover have "curproc ?b = Inr (i, ?b)" using curproc_ok [OF b(1,4)] b(3) by (simp add: touch_nested)
    ultimately have "await_data (e_fuel e) e p ?b = Inr (True, acquired d (Lk_pipe p) v)"
      unfolding k using eq assms(8) by (subst await_data.simps) simp
    moreover have "acquire (Lk_pipe p) s = Inr ?b" using r by (intro acquire_ok)
    moreover obtain x y where "wakeup (Ch_nwrite p) ((acquired d (Lk_pipe p) v)\<lparr>pipes := (pipes v)(p := snd (pipe_get (nat (sint n)) (pipes v p)))\<rparr>) = Inr x"
      "release (Lk_pipe p) x = Inr y" using pipe_wakeup_release [OF v(2)] by blast
    ultimately show ?thesis
      using pipe_get_spec [OF t(6), of "nat (sint n)"] v(3) by (simp add: piperead_def case_prod_beta Let_def)
  qed
  show ?thesis using lk st wr rd by (intro exI [of _ ?a]) blast
qed

section \<open>A concrete pipe\<close>

text \<open>Pipe 7 holds the bytes 1 and 2, at the point where the counters wrap; pipe 9 is empty and open.\<close>

definition pp_pipe :: pipe where
  "pp_pipe = \<lparr>pi_data = (\<lambda>i. if i = 511 then 1 else 2), pi_nread = 0xffffffff, pi_nwrite = 1, pi_readopen = True, pi_writeopen = True\<rparr>"

definition pp_state :: filev where
  "pp_state = ciov.extend (fsv.extend fx_boot (ciov.fields (\<lambda>i. 0) 0 0 0 (\<lambda>i. None) 0 0 (\<lambda>i. 0) (\<lambda>i j. 0)))
     (filev.fields (\<lambda>f. \<lparr>f_type = FD_NONE, f_ref = 0, f_readable = False, f_writable = False, f_pipe = 0, f_ip = 0, f_off = 0\<rparr>)
       ((\<lambda>p. pp_pipe)(9 := pp_pipe\<lparr>pi_nread := 1\<rparr>)))"

lemma pp_same: "same_cpuv px_state pp_state" "procs pp_state = procs px_state"
  by (simp_all add: same_cpuv_def pp_state_def filev.defs ciov.defs fx_boot_def fx_bufv_def fsv.defs logv.defs bufv.defs slpv.defs procv.defs)

lemma pp_ready: "pipe_ready 0 p pp_state"
proof -
  have "cpu_ok px_state 0" "lk_free px_state (Lk_pipe p)" "lk_free px_state Lk_ptable"
    by (auto simp: px_state_def lock_defs px_cpus_def ex_locks_def)
  then show ?thesis by (simp add: pipe_ready_def same_cpuv_cong [OF pp_same(1)])
qed

lemma pp_pipes: "pipes pp_state 7 = pp_pipe" "pipe_inv pp_pipe" "pipe_bytes pp_pipe = [1, 2]"
  "pipes pp_state 9 = pp_pipe\<lparr>pi_nread := 1\<rparr>"
  by (simp_all add: pp_state_def filev.defs ciov.defs pipe_inv_def pipe_bytes_def pipe_len_def pp_pipe_def upt_rec)

theorem pipe_fifo_witness:
  "\<exists>t u. pipewrite \<lparr>e_fuel = 0, e_sw = Inr\<rparr> 7 [3, 4] pp_state = Inr (True, t) \<and>
     piperead \<lparr>e_fuel = 0, e_sw = Inr\<rparr> 7 3 t = Inr (Some [1, 2, 3], u) \<and> pipe_bytes (pipes u 7) = [4]"
  using pipe_fifo [OF pp_ready, of 7 "[3, 4]" "\<lparr>e_fuel = 0, e_sw = Inr\<rparr>" 3] pp_pipes by auto

definition pp_later :: filev where
  "pp_later = acquired 0 Lk_ptable (pp_state\<lparr>pipes := (pipes pp_state)(9 := pp_pipe)\<rparr>)"

definition pp_env :: "filev env" where
  "pp_env = \<lparr>e_fuel = 1, e_sw = (\<lambda>s. Inr pp_later)\<rparr>"

lemma pp_cpu: "ncli (cpus pp_state 0) = 0" "cproc (cpus pp_state 0) = Some 0" "\<not> p_killed (procs pp_state 0)"
  using pp_same by (simp_all add: same_cpuv_def px_state_def px_cpus_def px_procs_def px_unused_def)

lemma pp_later_ok:
  "cpu_ok pp_later 0" "ncli (cpus pp_later 0) = 1" "lk_held pp_later 0 Lk_ptable" "lk_free pp_later (Lk_pipe 9)" "pipes pp_later 9 = pp_pipe"
proof -
  let ?q = "pp_state\<lparr>pipes := (pipes pp_state)(9 := pp_pipe)\<rparr>"
  have "same_cpuv pp_state ?q" by (simp add: same_cpuv_def)
  then have "cpu_ok ?q 0" "lk_free ?q (Lk_pipe 9)" "ncli (cpus ?q 0) = 0"
    using pp_ready [of 9] pp_cpu(1) by (simp_all add: pipe_ready_def same_cpuv_cong)
  then show "cpu_ok pp_later 0" "ncli (cpus pp_later 0) = 1" "lk_held pp_later 0 Lk_ptable" "lk_free pp_later (Lk_pipe 9)" "pipes pp_later 9 = pp_pipe"
    unfolding pp_later_def by (auto simp: lock_defs)
qed

theorem piperead_woken_witness:
  "(\<exists>u. piperead pp_env 9 1 pp_state = Inr (Some [1], u)) \<and>
   (\<exists>(a :: filev) r'. pipewrite pp_env 9 [5] (pp_state\<lparr>procs := procs a, pipes := pipes a\<rparr>) = Inr (True, r') \<and>
     p_state (procs a 0) = SLEEPING \<and> p_state (procs r' 0) = RUNNABLE)"
proof -
  have e: "pipe_bytes (pipes pp_state 9) = []" "pipe_inv (pipes pp_state 9)" "pi_writeopen (pipes pp_state 9)" "0 < e_fuel pp_env"
    by (simp_all add: pp_pipes pipe_bytes_def pipe_inv_def pipe_len_def pp_pipe_def pp_env_def)
  have n: "(0 :: nat) < NPROC" by simp
  obtain a where a: "p_state (procs a 0) = SLEEPING"
    "\<And>r d bs. pipe_ready d 9 r \<and> procs r 0 = procs a 0 \<and> pipes r 9 = pipes a 9 \<and> length bs \<le> PIPESIZE \<Longrightarrow>
      \<exists>r'. pipewrite pp_env 9 bs r = Inr (True, r') \<and> p_state (procs r' 0) = RUNNABLE \<and> pipe_bytes (pipes r' 9) = bs"
    "\<And>t d. e_sw pp_env a = Inr t \<and> cpu_ok t d \<and> ncli (cpus t d) = 1 \<and> lk_held t d Lk_ptable \<and> lk_free t (Lk_pipe 9) \<and>
      pipe_inv (pipes t 9) \<and> pipe_bytes (pipes t 9) \<noteq> [] \<Longrightarrow>
      \<exists>u. piperead pp_env 9 1 pp_state = Inr (Some (take (nat (sint (1 :: cint))) (pipe_bytes (pipes t 9))), u)"
    using piperead_woken [OF pp_ready pp_cpu(1,2) n pp_cpu(3) e, of 1] by blast
  let ?r = "pp_state\<lparr>procs := procs a, pipes := pipes a\<rparr>"
  have "same_cpuv pp_state ?r" by (simp add: same_cpuv_def)
  then have "pipe_ready 0 9 ?r" using pp_ready [of 9] by (simp add: pipe_ready_def same_cpuv_cong)
  then have "\<exists>r'. pipewrite pp_env 9 [5] ?r = Inr (True, r') \<and> p_state (procs r' 0) = RUNNABLE" using a(2) [of 0 ?r "[5]"] by auto
  moreover have "\<exists>u. piperead pp_env 9 1 pp_state = Inr (Some [1], u)"
    using a(3) [of pp_later 0] pp_later_ok pp_pipes(2,3) by (simp add: pp_env_def)
  ultimately show ?thesis using a(1) by blast
qed

end
