(* ===== verification/Grep.thy ===== *)
theory Grep
  imports Prelude
begin

text \<open>
  The pattern matcher and the search loop of src/source/grep.c. A NUL-terminated string is the list of its
  characters, without the NUL; \<open>re[1]\<close> of a one-character string is the NUL. The characters of the
  buffer are a list too: \<open>buf\<close> up to \<open>m\<close>.
\<close>

section \<open>Matching\<close>

text \<open>
  The \<open>do\<close> loop of \<open>matchstar\<close> is a recursion on the text: try the rest of the pattern here, else go on
  past one more \<open>c\<close>.
\<close>

function matchhere :: "string \<Rightarrow> string \<Rightarrow> bool"
  and matchstar :: "char \<Rightarrow> string \<Rightarrow> string \<Rightarrow> bool" where
  "matchhere [] text = True"
| "matchhere (c # re) text =
     (if re \<noteq> [] \<and> hd re = CHR ''*'' then matchstar c (tl re) text
      else if c = CHR ''$'' \<and> re = [] then text = []
      else if text \<noteq> [] \<and> (c = CHR ''.'' \<or> c = hd text) then matchhere re (tl text)
      else False)"
| "matchstar c re text =
     (if matchhere re text then True
      else if text \<noteq> [] \<and> (hd text = c \<or> c = CHR ''.'') then matchstar c re (tl text)
      else False)"
  by pat_completeness auto
termination
  by (relation "measures [\<lambda>x. case x of Inl (re, text) \<Rightarrow> length re | Inr (c, re, text) \<Rightarrow> Suc (length re),
      \<lambda>x. case x of Inl (re, text) \<Rightarrow> 0 | Inr (c, re, text) \<Rightarrow> Suc (length text)]") (auto simp: neq_Nil_conv)

declare matchstar.simps [simp del]

text \<open>The \<open>do\<close> loop of \<open>match\<close>: every suffix of the text, the empty one included.\<close>

fun match_loop :: "string \<Rightarrow> string \<Rightarrow> bool" where
  "match_loop re [] = matchhere re []"
| "match_loop re (x # text) = (if matchhere re (x # text) then True else match_loop re text)"

definition match :: "string \<Rightarrow> string \<Rightarrow> bool" where
  "match re text = (if re \<noteq> [] \<and> hd re = CHR ''^'' then matchhere (tl re) text else match_loop re text)"

section \<open>Searching a file\<close>






section \<open>What a pattern means\<close>

text \<open>
  The reference: a pattern is a sequence of items, each one character, any character, or a repetition of
  one of these, perhaps ending with \<open>$\<close>. The texts an item stands for are a set, those of a sequence
  the concatenations.
\<close>

datatype item = One char | Star char

fun items :: "string \<Rightarrow> item list \<times> bool" where
  "items [] = ([], False)"
| "items (c # re) =
     (if re \<noteq> [] \<and> hd re = CHR ''*'' then let (is, e) = items (tl re) in (Star c # is, e)
      else if c = CHR ''$'' \<and> re = [] then ([], True)
      else let (is, e) = items re in (One c # is, e))"

definition fits :: "char \<Rightarrow> char \<Rightarrow> bool" where
  "fits c x \<longleftrightarrow> c = CHR ''.'' \<or> x = c"

fun lang :: "item list \<Rightarrow> string set" where
  "lang [] = {[]}"
| "lang (One c # is) = {x # w | x w. fits c x \<and> w \<in> lang is}"
| "lang (Star c # is) = {v @ w | v w. (\<forall>x \<in> set v. fits c x) \<and> w \<in> lang is}"

text \<open>The text has a match of the items that starts at the front, and ends at the end if it has to.\<close>

definition matches :: "item list \<times> bool \<Rightarrow> string \<Rightarrow> bool" where
  "matches p text \<longleftrightarrow> (\<exists>w u. text = w @ u \<and> w \<in> lang (fst p) \<and> (snd p \<longrightarrow> u = []))"

lemma matches_Nil: "matches ([], False) text" "matches ([], True) text \<longleftrightarrow> text = []"
  by (auto simp: matches_def)

lemma matchesI: "w \<in> lang is \<Longrightarrow> e \<longrightarrow> u = [] \<Longrightarrow> matches (is, e) (w @ u)"
  by (auto simp: matches_def)

lemma matchesE:
  assumes "matches (is, e) t"
  obtains w u where "t = w @ u" "w \<in> lang is" "e \<longrightarrow> u = []"
  using assms by (auto simp: matches_def)

lemma matches_One: "matches (One c # is, e) t \<longleftrightarrow> t \<noteq> [] \<and> fits c (hd t) \<and> matches (is, e) (tl t)"
proof
  assume "matches (One c # is, e) t"
  then obtain y u where y: "t = y @ u" "y \<in> lang (One c # is)" "e \<longrightarrow> u = []" by (blast elim: matchesE)
  then obtain x w where "y = x # w" "fits c x" "w \<in> lang is" by auto
  with y show "t \<noteq> [] \<and> fits c (hd t) \<and> matches (is, e) (tl t)" by (simp add: matchesI)
next
  assume a: "t \<noteq> [] \<and> fits c (hd t) \<and> matches (is, e) (tl t)"
  then obtain w u where w: "tl t = w @ u" "w \<in> lang is" "e \<longrightarrow> u = []" by (blast elim: matchesE)
  then have "t = (hd t # w) @ u" using a by (simp flip: w(1))
  moreover have "hd t # w \<in> lang (One c # is)" using a w(2) by simp
  ultimately show "matches (One c # is, e) t" using matchesI w(3) by metis
qed

lemma lang_StarI: "\<forall>x \<in> set v. fits c x \<Longrightarrow> w \<in> lang is \<Longrightarrow> v @ w \<in> lang (Star c # is)"
  by auto

lemma matches_Star:
  "matches (Star c # is, e) t \<longleftrightarrow> matches (is, e) t \<or> t \<noteq> [] \<and> fits c (hd t) \<and> matches (Star c # is, e) (tl t)"
proof
  assume "matches (Star c # is, e) t"
  then obtain y u where y: "t = y @ u" "y \<in> lang (Star c # is)" "e \<longrightarrow> u = []" by (blast elim: matchesE)
  then obtain v w where v: "y = v @ w" "\<forall>x \<in> set v. fits c x" "w \<in> lang is" by auto
  note t = y(1) [unfolded v(1)] v(2,3) y(3)
  show "matches (is, e) t \<or> t \<noteq> [] \<and> fits c (hd t) \<and> matches (Star c # is, e) (tl t)"
  proof (cases v)
    case Nil
    then show ?thesis using t by (simp add: matchesI)
  next
    case (Cons x v')
    then have "v' @ w \<in> lang (Star c # is)" using t by auto
    then have "matches (Star c # is, e) ((v' @ w) @ u)" using t(4) by (rule matchesI)
    then show ?thesis using t Cons by simp
  qed
next
  assume "matches (is, e) t \<or> t \<noteq> [] \<and> fits c (hd t) \<and> matches (Star c # is, e) (tl t)"
  then show "matches (Star c # is, e) t"
  proof
    assume "matches (is, e) t"
    then obtain w u where w: "t = w @ u" "w \<in> lang is" "e \<longrightarrow> u = []" by (blast elim: matchesE)
    then have "w \<in> lang (Star c # is)" using lang_StarI [of "[]" c w] by simp
    then show ?thesis using w matchesI by metis
  next
    assume a: "t \<noteq> [] \<and> fits c (hd t) \<and> matches (Star c # is, e) (tl t)"
    then obtain y u where y: "tl t = y @ u" "y \<in> lang (Star c # is)" "e \<longrightarrow> u = []" by (blast elim: matchesE)
    then obtain v' w where w: "y = v' @ w" "\<forall>x \<in> set v'. fits c x" "w \<in> lang is" by auto
    have t: "t = (hd t # y) @ u" using a by (simp flip: y(1))
    have "hd t # y \<in> lang (Star c # is)" using a w lang_StarI [of "hd t # v'" c w] by simp
    then show ?thesis using t y(3) matchesI by metis
  qed
qed

lemma matchhere_matches:
  "matchhere re text \<longleftrightarrow> matches (items re) text"
  "matchstar c re text \<longleftrightarrow> matches (Star c # fst (items re), snd (items re)) text"
proof (induction re "text" and c re "text" rule: matchhere_matchstar.induct)
  case (1 t)
  then show ?case by (simp add: matches_Nil)
next
  case (2 c re t)
  then show ?case by (auto simp: matches_Nil matches_One fits_def case_prod_beta)
next
  case (3 c re t)
  then show ?case by (subst matchstar.simps, subst matches_Star) (auto simp: fits_def)
qed

lemma match_loop_suffix: "match_loop re text \<longleftrightarrow> (\<exists>a b. text = a @ b \<and> matchhere re b)"
proof (induction "text")
  case (Cons x t)
  then show ?case by (auto simp: Cons_eq_append_conv)
qed auto

text \<open>
  C20. The matcher of grep is right for every pattern and every text: it finds a match exactly when some part
  of the text, at the front of it after \<open>^\<close> and at the end of it before \<open>$\<close>, is one of the texts the
  pattern stands for. In particular the greedy-looking loops of \<open>matchstar\<close> and \<open>match\<close> always end and
  miss nothing.
\<close>

theorem match_correct:
  "match re t \<longleftrightarrow> (if re \<noteq> [] \<and> hd re = CHR ''^'' then matches (items (tl re)) t else \<exists>a b. t = a @ b \<and> matches (items re) b)"
  unfolding match_def match_loop_suffix matchhere_matches ..

section \<open>Lines\<close>










end
