(* ===== verification/Sh.thy ===== *)
theory Sh
  imports Fcntl
begin

text \<open>
  The shell, src/source/sh.c: the parser of a command line, \<open>nulterminate\<close>, and \<open>runcmd\<close> and \<open>main\<close> as the tree
  of system calls they make. A pointer into the line buffer is an index; the buffer is a function from indices
  to characters. The allocations of the constructors are taken to succeed. A \<open>panic\<close> of the shell prints
  its message and exits; here it is \<open>Panic\<close> with the text that goes to descriptor 2.
\<close>

section \<open>Parsed commands\<close>

text \<open>
  \<open>Null\<close> is the null pointer. The entries of \<open>argv\<close> and \<open>eargv\<close> up to the first zero are a list of pairs.
\<close>

datatype cmd =
    Null
  | EXEC "(nat \<times> nat) list"
  | REDIR cmd nat nat cint nat
  | PIPE cmd cmd
  | LIST cmd cmd
  | BACK cmd

definition MAXARGS :: nat where "MAXARGS = 10"


definition execcmd :: cmd where
  "execcmd = EXEC []"

definition redircmd :: "cmd \<Rightarrow> nat \<Rightarrow> nat \<Rightarrow> cint \<Rightarrow> nat \<Rightarrow> cmd" where
  "redircmd subcmd file efile mode fd = REDIR subcmd file efile mode fd"

definition pipecmd :: "cmd \<Rightarrow> cmd \<Rightarrow> cmd" where
  "pipecmd left right = PIPE left right"

definition listcmd :: "cmd \<Rightarrow> cmd \<Rightarrow> cmd" where
  "listcmd left right = LIST left right"

definition backcmd :: "cmd \<Rightarrow> cmd" where
  "backcmd subcmd = BACK subcmd"

section \<open>Tokens\<close>

type_synonym line = "nat \<Rightarrow> char"

definition whitespace :: string where
  "whitespace = [CHR '' '', CHR 0x09, CHR 0x0D, CHR 0x0A, CHR 0x0B]"

definition symbols :: string where
  "symbols = ''<|>&;()''"

text \<open>\<open>strchr\<close> of ulib.c as a test: the string has no NUL inside and its NUL is not found.\<close>

definition strchr_user :: "string \<Rightarrow> char \<Rightarrow> bool" where
  "strchr_user str c \<longleftrightarrow> c \<in> set str"

text \<open>The loops \<open>while(s < es && ...) s++\<close>.\<close>

function skip_while :: "(char \<Rightarrow> bool) \<Rightarrow> line \<Rightarrow> nat \<Rightarrow> nat \<Rightarrow> nat" where
  "skip_while P b es s = (if s < es \<and> P (b s) then skip_while P b es (Suc s) else s)"
  by pat_completeness auto
termination by (relation "measure (\<lambda>(P, b, es, s). es - s)") auto

declare skip_while.simps [simp del]

definition skip_white :: "line \<Rightarrow> nat \<Rightarrow> nat \<Rightarrow> nat" where
  "skip_white b es s = skip_while (strchr_user whitespace) b es s"

text \<open>The result, \<open>*q\<close>, \<open>*eq\<close> and the new \<open>*ps\<close>.\<close>

definition gettoken :: "line \<Rightarrow> nat \<Rightarrow> nat \<Rightarrow> char \<times> nat \<times> nat \<times> nat" where
  "gettoken b es s =
     (let q = skip_white b es s;
          (ret, eq) =
            (if b q = CHR 0x00 then (b q, q)
             else if b q \<in> set ''|();&<'' then (b q, q + 1)
             else if b q = CHR ''>'' then
               (if b (q + 1) = CHR ''>'' then (CHR ''+'', q + 2) else (b q, q + 1))
             else (CHR ''a'', skip_while (\<lambda>c. \<not> strchr_user whitespace c \<and> \<not> strchr_user symbols c) b es q))
      in (ret, q, eq, skip_white b es eq))"

text \<open>\<open>gettoken(ps, es, 0, 0)\<close> where the result is not used\<close>

definition eat :: "line \<Rightarrow> nat \<Rightarrow> nat \<Rightarrow> nat" where
  "eat b es s = (case gettoken b es s of (_, _, _, s) \<Rightarrow> s)"

text \<open>The new \<open>*ps\<close> and the result.\<close>

definition peek :: "line \<Rightarrow> nat \<Rightarrow> nat \<Rightarrow> string \<Rightarrow> nat \<times> bool" where
  "peek b es s toks =
     (let s = skip_white b es s in (s, b s \<noteq> CHR 0x00 \<and> strchr_user toks (b s)))"

section \<open>Parsing\<close>

text \<open>
  Every loop and every recursive call takes one of \<open>n\<close> units of fuel, and the parser stops with \<open>Diverge\<close> when
  there are none left.
\<close>

fun parseredirs :: "nat \<Rightarrow> line \<Rightarrow> nat \<Rightarrow> cmd \<Rightarrow> nat \<Rightarrow> (cmd \<times> nat) res" where
  "parseredirs 0 b es cmd s = Inl Diverge"
| "parseredirs (Suc n) b es cmd s =
     (let (s, p) = peek b es s ''<>'' in
      if p then
        let (tok, _, _, s) = gettoken b es s;
            (t, q, eq, s) = gettoken b es s in
        if t \<noteq> CHR ''a'' then Inl (Panic ''missing file for redirection'')
        else parseredirs n b es
          (if tok = CHR ''<'' then redircmd cmd q eq O_RDONLY 0
           else if tok = CHR ''>'' then redircmd cmd q eq (O_WRONLY OR O_CREATE) 1
           else if tok = CHR ''+'' then redircmd cmd q eq (O_WRONLY OR O_CREATE) 1
           else cmd) s
      else Inr (cmd, s))"

text \<open>
  \<open>cmd->argv[argc] = q; cmd->eargv[argc] = eq\<close>, where \<open>cmd\<close> is the command with the arguments at the bottom of the
  redirections in \<open>ret\<close>.
\<close>

fun add_arg :: "nat \<times> nat \<Rightarrow> cmd \<Rightarrow> cmd" where
  "add_arg a (EXEC av) = EXEC (av @ [a])"
| "add_arg a (REDIR c f ef m fd) = REDIR (add_arg a c) f ef m fd"
| "add_arg a c = c"

text \<open>The loop of \<open>parseexec\<close>.\<close>

fun exec_args :: "nat \<Rightarrow> line \<Rightarrow> nat \<Rightarrow> nat \<Rightarrow> cmd \<Rightarrow> nat \<Rightarrow> (cmd \<times> nat) res" where
  "exec_args 0 b es argc ret s = Inl Diverge"
| "exec_args (Suc n) b es argc ret s =
     (let (s, p) = peek b es s ''|)&;'' in
      if p then Inr (ret, s)
      else
        let (tok, q, eq, s) = gettoken b es s in
        if tok = CHR 0x00 then Inr (ret, s)
        else if tok \<noteq> CHR ''a'' then Inl (Panic ''syntax'')
        else
          let ret = add_arg (q, eq) ret in
          if argc + 1 \<ge> MAXARGS then Inl (Panic ''too many args'')
          else bindE (parseredirs n b es ret s) (\<lambda>(ret, s). exec_args n b es (argc + 1) ret s))"

text \<open>The loop of \<open>parseline\<close>.\<close>

fun amps :: "nat \<Rightarrow> line \<Rightarrow> nat \<Rightarrow> cmd \<Rightarrow> nat \<Rightarrow> (cmd \<times> nat) res" where
  "amps 0 b es cmd s = Inl Diverge"
| "amps (Suc n) b es cmd s =
     (let (s, p) = peek b es s ''&'' in
      if p then let s = eat b es s in amps n b es (backcmd cmd) s
      else Inr (cmd, s))"

function (sequential) parseline :: "nat \<Rightarrow> line \<Rightarrow> nat \<Rightarrow> nat \<Rightarrow> (cmd \<times> nat) res"
  and parsepipe :: "nat \<Rightarrow> line \<Rightarrow> nat \<Rightarrow> nat \<Rightarrow> (cmd \<times> nat) res"
  and parseblock :: "nat \<Rightarrow> line \<Rightarrow> nat \<Rightarrow> nat \<Rightarrow> (cmd \<times> nat) res"
  and parseexec :: "nat \<Rightarrow> line \<Rightarrow> nat \<Rightarrow> nat \<Rightarrow> (cmd \<times> nat) res" where
  "parseline 0 b es s = Inl Diverge"
| "parseline (Suc n) b es s =
     bindE (parsepipe n b es s) (\<lambda>(cmd, s).
     bindE (amps n b es cmd s) (\<lambda>(cmd, s).
       let (s, p) = peek b es s '';'' in
       if p then
         let s = eat b es s
         in bindE (parseline n b es s) (\<lambda>(right, s). Inr (listcmd cmd right, s))
       else Inr (cmd, s)))"
| "parsepipe 0 b es s = Inl Diverge"
| "parsepipe (Suc n) b es s =
     bindE (parseexec n b es s) (\<lambda>(cmd, s).
       let (s, p) = peek b es s ''|'' in
       if p then
         let s = eat b es s
         in bindE (parsepipe n b es s) (\<lambda>(right, s). Inr (pipecmd cmd right, s))
       else Inr (cmd, s))"
| "parseblock 0 b es s = Inl Diverge"
| "parseblock (Suc n) b es s =
     (let (s, p) = peek b es s ''('' in
      if \<not> p then Inl (Panic ''parseblock'')
      else
        let s = eat b es s in
        bindE (parseline n b es s) (\<lambda>(cmd, s).
          let (s, p) = peek b es s '')'' in
          if \<not> p then Inl (Panic ''syntax - missing )'')
          else let s = eat b es s in parseredirs n b es cmd s))"
| "parseexec 0 b es s = Inl Diverge"
| "parseexec (Suc n) b es s =
     (let (s, p) = peek b es s ''('' in
      if p then parseblock n b es s
      else bindE (parseredirs n b es execcmd s) (\<lambda>(ret, s). exec_args n b es 0 ret s))"
  by pat_completeness auto
termination
  by (relation "measure (case_sum (case_sum fst fst) (case_sum fst fst))") simp_all

fun nulterminate :: "cmd \<Rightarrow> line \<Rightarrow> line" where
  "nulterminate Null b = b"
| "nulterminate (EXEC av) b = fold (\<lambda>(q, eq) b. b(eq := CHR 0x00)) av b"
| "nulterminate (REDIR cmd file efile mode fd) b = (nulterminate cmd b)(efile := CHR 0x00)"
| "nulterminate (PIPE left right) b = nulterminate right (nulterminate left b)"
| "nulterminate (LIST left right) b = nulterminate right (nulterminate left b)"
| "nulterminate (BACK cmd) b = nulterminate cmd b"

text \<open>The string that starts at an index; \<open>n\<close> bounds its length.\<close>

fun cstr :: "nat \<Rightarrow> line \<Rightarrow> nat \<Rightarrow> string" where
  "cstr 0 b q = []"
| "cstr (Suc n) b q = (if b q = CHR 0x00 then [] else b q # cstr n b (Suc q))"

text \<open>\<open>sizeof(buf)\<close> in \<open>main\<close>\<close>

definition nbuf :: nat where "nbuf = 100"

definition parsecmd :: "nat \<Rightarrow> line \<Rightarrow> (cmd \<times> line) res" where
  "parsecmd n b =
     (let es = length (cstr nbuf b 0) in
      bindE (parseline n b es 0) (\<lambda>(cmd, s).
        let (s, _) = peek b es s [] in
        if s \<noteq> es then Inl (Panic (''leftovers: '' @ cstr nbuf b s @ [CHR 0x0A] @ ''syntax''))
        else Inr (cmd, nulterminate cmd b)))"

section \<open>Running\<close>

text \<open>
  What a process of the shell does next, as a tree of system calls. A call whose result is tested has one
  branch for each outcome: \<open>Sys_open\<close> and \<open>Sys_pipe\<close> for failure and success, \<open>Sys_fork\<close> for failure, for the child
  and for the parent. \<open>Sys_exec\<close> goes on only when \<open>exec\<close> fails. The two descriptors of \<open>pipe(p)\<close> are named in
  the calls that use them.
\<close>

datatype fdesc = Fd nat | P0 | P1

datatype prog =
    Sys_exit
  | Sys_exec string "string list" prog
  | Sys_printf nat string prog
  | Sys_close fdesc prog
  | Sys_open string cint prog prog
  | Sys_dup fdesc prog
  | Sys_pipe prog prog
  | Sys_fork prog prog prog
  | Sys_wait prog
  | Sys_chdir string prog prog

definition panic_user :: "string \<Rightarrow> prog" where
  "panic_user m = Sys_printf 2 (m @ [CHR 0x0A]) Sys_exit"

definition fork1 :: "prog \<Rightarrow> prog \<Rightarrow> prog" where
  "fork1 child parent = Sys_fork (panic_user ''fork'') child parent"

fun runcmd :: "line \<Rightarrow> cmd \<Rightarrow> prog" where
  "runcmd b Null = Sys_exit"
| "runcmd b (EXEC av) =
     (case map (\<lambda>(q, eq). cstr nbuf b q) av of
        [] \<Rightarrow> Sys_exit
      | a # as \<Rightarrow> Sys_exec a (a # as) (Sys_printf 2 (''exec '' @ a @ '' failed'' @ [CHR 0x0A]) Sys_exit))"
| "runcmd b (REDIR cmd file efile mode fd) =
     Sys_close (Fd fd) (Sys_open (cstr nbuf b file) mode
       (Sys_printf 2 (''open '' @ cstr nbuf b file @ '' failed'' @ [CHR 0x0A]) Sys_exit)
       (runcmd b cmd))"
| "runcmd b (LIST left right) = fork1 (runcmd b left) (Sys_wait (runcmd b right))"
| "runcmd b (PIPE left right) =
     Sys_pipe (panic_user ''pipe'')
       (fork1 (Sys_close (Fd 1) (Sys_dup P1 (Sys_close P0 (Sys_close P1 (runcmd b left)))))
       (fork1 (Sys_close (Fd 0) (Sys_dup P0 (Sys_close P0 (Sys_close P1 (runcmd b right)))))
       (Sys_close P0 (Sys_close P1 (Sys_wait (Sys_wait Sys_exit))))))"
| "runcmd b (BACK cmd) = fork1 (runcmd b cmd) Sys_exit"

text \<open>
  One turn of the loop of \<open>main\<close> on a line that \<open>getcmd\<close> has read; \<open>next\<close> is the next turn. The child parses the
  line in its own copy of the buffer.
\<close>

definition sh_child :: "nat \<Rightarrow> line \<Rightarrow> prog res" where
  "sh_child n b =
     (case parsecmd n b of
        Inr (cmd, b) \<Rightarrow> Inr (runcmd b cmd)
      | Inl (Panic m) \<Rightarrow> Inr (panic_user m)
      | Inl err \<Rightarrow> Inl err)"

definition sh_turn :: "nat \<Rightarrow> line \<Rightarrow> prog \<Rightarrow> prog res" where
  "sh_turn n b next =
     (if b 0 = CHR ''c'' \<and> b 1 = CHR ''d'' \<and> b 2 = CHR '' '' then
        let b = b(length (cstr nbuf b 0) - 1 := CHR 0x00);
            dir = cstr nbuf b 3
        in Inr (Sys_chdir dir (Sys_printf 2 (''cannot cd '' @ dir @ [CHR 0x0A]) next) next)
      else bindE (sh_child n b) (\<lambda>child. Inr (fork1 child (Sys_wait next))))"

end
