(* ===== verification/Sh_Parse.thy ===== *)
theory Sh_Parse
  imports Sh
begin

text \<open>
  The parser of the shell: every result of it is a command whose strings are words of the line, or a message;
  with \<open>4 * (es - s) + 4\<close> units of fuel it does not run out, and more fuel changes nothing.
\<close>

section \<open>Tokens of a line\<close>

text \<open>A line of \<open>es\<close> characters with its NUL, in the buffer.\<close>

definition nul_at :: "line \<Rightarrow> nat \<Rightarrow> bool" where
  "nul_at b es \<longleftrightarrow> es < nbuf \<and> b es = CHR 0x00 \<and> (\<forall>i < es. b i \<noteq> CHR 0x00)"

definition word_char :: "char \<Rightarrow> bool" where
  "word_char c \<longleftrightarrow> c \<noteq> CHR 0x00 \<and> c \<notin> set whitespace \<and> c \<notin> set symbols"

text \<open>The characters from \<open>q\<close> to \<open>eq\<close> are a word: no character of it ends a word, and the next one does.\<close>

definition is_word :: "line \<Rightarrow> nat \<times> nat \<Rightarrow> bool" where
  "is_word b x \<longleftrightarrow> fst x < snd x \<and> snd x < nbuf \<and> (\<forall>i. fst x \<le> i \<and> i < snd x \<longrightarrow> word_char (b i)) \<and> \<not> word_char (b (snd x))"

lemma skip_while_spec:
  "s \<le> es \<Longrightarrow> s \<le> skip_while P b es s \<and> skip_while P b es s \<le> es \<and> (\<forall>i. s \<le> i \<and> i < skip_while P b es s \<longrightarrow> P (b i)) \<and>
     (skip_while P b es s < es \<longrightarrow> \<not> P (b (skip_while P b es s)))"
proof (induction P b es s rule: skip_while.induct)
  case (1 P b es s)
  show ?case
  proof (cases "s < es \<and> P (b s)")
    case True
    then have eq: "skip_while P b es s = skip_while P b es (Suc s)" by (subst skip_while.simps) simp
    have "P (b i)" if "s \<le> i" "i < skip_while P b es (Suc s)" for i using that True 1 by (cases "i = s") auto
    then show ?thesis using True 1 unfolding eq by auto
  next
    case False
    then have eq: "skip_while P b es s = s" by (subst skip_while.simps) auto
    show ?thesis using False 1(2) unfolding eq by auto
  qed
qed

lemma skip_white_spec:
  assumes "nul_at b es" "s \<le> es"
  shows "s \<le> skip_white b es s" "skip_white b es s \<le> es" "b (skip_white b es s) \<notin> set whitespace"
    "b (skip_white b es s) \<noteq> CHR 0x00 \<longleftrightarrow> skip_white b es s < es"
proof -
  let ?t = "skip_white b es s"
  have t: "s \<le> ?t" "?t \<le> es" "?t < es \<Longrightarrow> b ?t \<notin> set whitespace"
    using skip_while_spec [OF assms(2), of "strchr_user whitespace" b] by (auto simp: skip_white_def strchr_user_def)
  then show "s \<le> ?t" "?t \<le> es" by simp_all
  show "b ?t \<notin> set whitespace" using t assms(1) by (cases "?t < es") (auto simp: nul_at_def whitespace_def)
  show "b ?t \<noteq> CHR 0x00 \<longleftrightarrow> ?t < es" using t(2) assms(1) by (cases "?t = es") (auto simp: nul_at_def)
qed

lemma gettoken_spec:
  assumes "nul_at b es" "s \<le> es" "gettoken b es s = (tok, q, eq, s')"
  shows "s \<le> q" "q \<le> eq" "eq \<le> s'" "s' \<le> es" "tok \<noteq> CHR 0x00 \<Longrightarrow> s < s'" "tok = CHR ''a'' \<Longrightarrow> is_word b (q, eq)"
    "tok = CHR 0x00 \<Longrightarrow> s' = es"
proof -
  let ?W = "\<lambda>c. \<not> strchr_user whitespace c \<and> \<not> strchr_user symbols c"
  have q: "q = skip_white b es s" "s' = skip_white b es eq" using assms(3) by (auto simp: gettoken_def Let_def split: prod.splits)
  note sk = skip_white_spec [OF assms(1,2), folded q(1)]
  have w: "q \<le> skip_while ?W b es q" "skip_while ?W b es q \<le> es" "\<And>i. q \<le> i \<Longrightarrow> i < skip_while ?W b es q \<Longrightarrow> ?W (b i)"
    "skip_while ?W b es q < es \<Longrightarrow> \<not> ?W (b (skip_while ?W b es q))"
    using skip_while_spec [OF sk(2), of ?W b] by auto
  have nul: "b i \<noteq> CHR 0x00 \<longleftrightarrow> i < es" if "i \<le> es" for i using assms(1) that by (cases "i = es") (auto simp: nul_at_def)
  consider (nul) "b q = CHR 0x00" | (sym) "b q \<in> set ''|();&<''" | (gg) "b q = CHR ''>''" "b (q + 1) = CHR ''>''"
    | (g) "b q = CHR ''>''" "b (q + 1) \<noteq> CHR ''>''" | (wd) "b q \<noteq> CHR 0x00" "b q \<notin> set ''|();&<''" "b q \<noteq> CHR ''>''" by blast
  then have cs: "b q = CHR 0x00 \<and> tok = CHR 0x00 \<and> eq = q \<or>
    q < es \<and> tok \<noteq> CHR 0x00 \<and> tok \<noteq> CHR ''a'' \<and> q < eq \<and> eq \<le> es \<or>
    q < es \<and> b q \<notin> set symbols \<and> tok = CHR ''a'' \<and> eq = skip_while ?W b es q"
  proof cases
    case gg
    then have "q < es" using nul [OF sk(2)] by simp
    moreover from this have "q + 1 < es" using nul [of "q + 1"] gg(2) by simp
    ultimately show ?thesis using gg assms(3) by (auto simp: gettoken_def Let_def q(1) [symmetric])
  next
    case wd
    then show ?thesis using nul [OF sk(2)] assms(3) by (auto simp: gettoken_def Let_def q(1) [symmetric] symbols_def)
  qed (use nul [OF sk(2)] assms(3) in \<open>auto simp: gettoken_def Let_def q(1) [symmetric]\<close>)
  moreover have "q < eq \<and> is_word b (q, eq)" if "q < es" "b q \<notin> set symbols" "eq = skip_while ?W b es q"
  proof -
    have "?W (b q)" using that(2) sk(3) by (simp add: strchr_user_def)
    then have lt: "q < eq" using w(1,4) that(1,3) by (cases "eq = q") auto
    have "\<not> word_char (b eq)" using w(2,4) that(3) nul [of eq] by (cases "eq < es") (auto simp: word_char_def strchr_user_def)
    moreover have "\<forall>i. q \<le> i \<and> i < eq \<longrightarrow> word_char (b i)"
      using w(2,3) that(3) nul by (auto simp: word_char_def strchr_user_def)
    moreover have "eq < nbuf" using w(2) that(3) assms(1) by (simp add: nul_at_def)
    ultimately show ?thesis using lt by (simp add: is_word_def)
  qed
  ultimately have r: "q \<le> eq" "eq \<le> es" "tok \<noteq> CHR 0x00 \<Longrightarrow> q < eq" "tok = CHR ''a'' \<Longrightarrow> is_word b (q, eq)" "tok = CHR 0x00 \<Longrightarrow> eq = es"
    using w(2) sk(2,4) by auto
  note e = skip_white_spec [OF assms(1) r(2), folded q(2)]
  show "s \<le> q" "q \<le> eq" "eq \<le> s'" "s' \<le> es" "tok \<noteq> CHR 0x00 \<Longrightarrow> s < s'" "tok = CHR ''a'' \<Longrightarrow> is_word b (q, eq)"
    "tok = CHR 0x00 \<Longrightarrow> s' = es"
    using r e sk(1) by auto
qed

lemma peek_spec:
  assumes "nul_at b es" "s \<le> es" "peek b es s toks = (s', p)"
  shows "s \<le> s'" "s' \<le> es" "p \<Longrightarrow> s' < eat b es s'" "p \<Longrightarrow> eat b es s' \<le> es" "p \<Longrightarrow> b s' \<in> set toks"
proof -
  have s': "s' = skip_white b es s" "p \<longleftrightarrow> b s' \<noteq> CHR 0x00 \<and> b s' \<in> set toks" using assms(3) by (auto simp: peek_def Let_def strchr_user_def)
  note sk = skip_white_spec [OF assms(1,2), folded s'(1)]
  show "s \<le> s'" "s' \<le> es" "p \<Longrightarrow> b s' \<in> set toks" using sk s'(2) by simp_all
  obtain tok q eq t where g: "gettoken b es s' = (tok, q, eq, t)" using prod_cases4 by blast
  note tk = gettoken_spec [OF assms(1) sk(2) g]
  show "p \<Longrightarrow> eat b es s' \<le> es" using tk(4) by (simp add: eat_def g)
  show "p \<Longrightarrow> s' < eat b es s'" using tk(5,7) sk(4) s'(2) by (cases "tok = CHR 0x00") (auto simp: eat_def g)
qed

section \<open>The parser ends\<close>

text \<open>The number of arguments of a simple command under its redirections.\<close>

fun nargs :: "cmd \<Rightarrow> nat option" where
  "nargs (EXEC av) = Some (length av)"
| "nargs (REDIR c f ef m fd) = nargs c"
| "nargs c = None"

text \<open>Every string of a command is a word of the line, the arguments fit with the zero after them, and only 0 and 1 are redirected.\<close>

fun cmd_ok :: "line \<Rightarrow> cmd \<Rightarrow> bool" where
  "cmd_ok b Null \<longleftrightarrow> False"
| "cmd_ok b (EXEC av) \<longleftrightarrow> length av < MAXARGS \<and> (\<forall>x \<in> set av. is_word b x)"
| "cmd_ok b (REDIR c f ef m fd) \<longleftrightarrow> cmd_ok b c \<and> is_word b (f, ef) \<and> fd < 2"
| "cmd_ok b (PIPE l r) \<longleftrightarrow> cmd_ok b l \<and> cmd_ok b r"
| "cmd_ok b (LIST l r) \<longleftrightarrow> cmd_ok b l \<and> cmd_ok b r"
| "cmd_ok b (BACK c) \<longleftrightarrow> cmd_ok b c"

lemma nargs_add_arg: "nargs c = Some k \<Longrightarrow> nargs (add_arg a c) = Some (Suc k)"
  by (induction c) auto

lemma cmd_ok_add_arg:
  "cmd_ok b c \<Longrightarrow> nargs c = Some k \<Longrightarrow> Suc k < MAXARGS \<Longrightarrow> is_word b a \<Longrightarrow> cmd_ok b (add_arg a c)"
  by (induction c) auto

text \<open>A result of the parser at \<open>s\<close>: a message of \<open>panic\<close>, or a command and a position from \<open>s\<close> on.\<close>

definition parsed :: "line \<Rightarrow> nat \<Rightarrow> nat \<Rightarrow> (cmd \<Rightarrow> bool) \<Rightarrow> (cmd \<times> nat) res \<Rightarrow> bool" where
  "parsed b es s P r \<longleftrightarrow>
     (case r of Inl e \<Rightarrow> \<exists>m. e = Panic m | Inr (c, s') \<Rightarrow> cmd_ok b c \<and> s \<le> s' \<and> s' \<le> es \<and> P c)"

lemma parsed_Panic [simp]: "parsed b es s P (Inl (Panic m))"
  by (simp add: parsed_def)

lemma parsed_Inr [simp]: "parsed b es s P (Inr (c, s')) \<longleftrightarrow> cmd_ok b c \<and> s \<le> s' \<and> s' \<le> es \<and> P c"
  by (simp add: parsed_def)

lemma parsed_mono: "parsed b es s' P r \<Longrightarrow> s \<le> s' \<Longrightarrow> (\<And>c. P c \<Longrightarrow> Q c) \<Longrightarrow> parsed b es s Q r"
  by (auto simp: parsed_def split: sum.splits)

lemma parsed_bind:
  assumes "parsed b es s P m" "\<And>c s'. cmd_ok b c \<Longrightarrow> s \<le> s' \<Longrightarrow> s' \<le> es \<Longrightarrow> P c \<Longrightarrow> parsed b es s Q (f (c, s'))"
  shows "parsed b es s Q (bindE m f)"
proof (cases m)
  case (Inr x)
  then show ?thesis using assms(1) assms(2) [of "fst x" "snd x"] by (cases x) simp
qed (use assms(1) in \<open>simp add: parsed_def\<close>)

lemma parsed_bind_on:
  assumes "parsed b es s P m" "\<And>c s'. cmd_ok b c \<Longrightarrow> s \<le> s' \<Longrightarrow> s' \<le> es \<Longrightarrow> P c \<Longrightarrow> parsed b es s' Q (f (c, s'))"
  shows "parsed b es s Q (bindE m f)"
  by (rule parsed_bind [OF assms(1)], rule parsed_mono [OF assms(2)])

lemma parseredirs_parsed:
  assumes "nul_at b es" "s \<le> es" "cmd_ok b c" "es - s < n"
  shows "parsed b es s (\<lambda>c'. nargs c' = nargs c) (parseredirs n b es c s)"
  using assms(2-)
proof (induction n arbitrary: c s)
  case (Suc n)
  obtain s1 p where pk: "peek b es s ''<>'' = (s1, p)" by fastforce
  note k = peek_spec [OF assms(1) Suc.prems(1) pk]
  show ?case
  proof (cases p)
    case True
    obtain tok q1 eq1 s2 where g: "gettoken b es s1 = (tok, q1, eq1, s2)" using prod_cases4 by blast
    have s2: "s1 < s2" "s2 \<le> es" using k(3,4) [OF True] by (simp_all add: eat_def g)
    obtain t q eq s3 where g2: "gettoken b es s2 = (t, q, eq, s3)" using prod_cases4 by blast
    note w = gettoken_spec [OF assms(1) s2(2) g2]
    show ?thesis
    proof (cases "t = CHR ''a''")
      case True2: True
      let ?c = "if tok = CHR ''<'' then redircmd c q eq O_RDONLY 0 else if tok = CHR ''>'' then redircmd c q eq (O_WRONLY OR O_CREATE) 1
        else if tok = CHR ''+'' then redircmd c q eq (O_WRONLY OR O_CREATE) 1 else c"
      have c: "cmd_ok b ?c" "nargs ?c = nargs c" using Suc.prems(2) w(6) True2 by (simp_all add: redircmd_def)
      have "parsed b es s3 (\<lambda>c'. nargs c' = nargs ?c) (parseredirs n b es ?c s3)"
        using w(1-4) s2 k(1) Suc.prems(3) by (intro Suc.IH c(1)) auto
      then have "parsed b es s (\<lambda>c'. nargs c' = nargs c) (parseredirs n b es ?c s3)"
        by (rule parsed_mono) (use w(1-4) s2 k(1) c(2) in auto)
      then show ?thesis using True True2 by (simp add: pk g g2)
    qed (simp add: pk g g2 True)
  qed (use k Suc.prems(2) in \<open>simp add: pk\<close>)
qed simp

lemma exec_args_parsed:
  assumes "nul_at b es" "s \<le> es" "cmd_ok b c" "nargs c = Some argc" "es - s < n"
  shows "parsed b es s (\<lambda>c'. True) (exec_args n b es argc c s)"
  using assms(2-)
proof (induction n arbitrary: argc c s)
  case (Suc n)
  obtain s1 p where pk: "peek b es s ''|)&;'' = (s1, p)" by fastforce
  note k = peek_spec [OF assms(1) Suc.prems(1) pk]
  obtain tok q eq s2 where g: "gettoken b es s1 = (tok, q, eq, s2)" using prod_cases4 by blast
  note w = gettoken_spec [OF assms(1) k(2) g]
  show ?case
  proof (cases "\<not> p \<and> tok = CHR ''a'' \<and> argc + 1 < MAXARGS")
    case True
    let ?c = "add_arg (q, eq) c"
    have c: "cmd_ok b ?c" "nargs ?c = Some (argc + 1)" using Suc.prems(2,3) w(6) True by (simp_all add: cmd_ok_add_arg nargs_add_arg)
    have s2: "s < s2" using w(5) k(1) True by simp
    have "parsed b es s (\<lambda>c'. True) (bindE (parseredirs n b es ?c s2) (\<lambda>(ret, s). exec_args n b es (argc + 1) ret s))"
    proof (rule parsed_mono [OF parsed_bind])
      show "parsed b es s2 (\<lambda>c'. nargs c' = nargs ?c) (parseredirs n b es ?c s2)"
        using s2 w(4) Suc.prems(4) by (intro parseredirs_parsed assms(1) c(1)) auto
      show "parsed b es s2 (\<lambda>c'. True) (case (d, t) of (ret, s) \<Rightarrow> exec_args n b es (argc + 1) ret s)"
        if "cmd_ok b d" "s2 \<le> t" "t \<le> es" "nargs d = nargs ?c" for d t
        using parsed_mono [OF Suc.IH [OF that(3,1)]] that c(2) s2 Suc.prems(4) by auto
    qed (use s2 in auto)
    then show ?thesis using True by (simp add: pk g)
  next
    case False
    then show ?thesis using k(1,2) w(1-4) Suc.prems(2) by (auto simp: pk g)
  qed
qed simp

lemma amps_parsed:
  assumes "nul_at b es" "s \<le> es" "cmd_ok b c" "es - s < n"
  shows "parsed b es s (\<lambda>c'. True) (amps n b es c s)"
  using assms(2-)
proof (induction n arbitrary: c s)
  case (Suc n)
  obtain s1 p where pk: "peek b es s ''&'' = (s1, p)" by fastforce
  note k = peek_spec [OF assms(1) Suc.prems(1) pk]
  show ?case
  proof (cases p)
    case True
    then have "parsed b es (eat b es s1) (\<lambda>c'. True) (amps n b es (backcmd c) (eat b es s1))"
      using k Suc.prems by (intro Suc.IH) (auto simp: backcmd_def)
    then have "parsed b es s (\<lambda>c'. True) (amps n b es (backcmd c) (eat b es s1))"
      by (rule parsed_mono) (use k(1) k(3) [OF True] in auto)
    then show ?thesis using True by (simp add: pk)
  qed (use k Suc.prems(2) in \<open>simp add: pk\<close>)
qed simp

text \<open>An operator and what follows it.\<close>

lemma right_side_parsed:
  assumes "nul_at b es" "s \<le> es" "cmd_ok b d" "\<And>r. cmd_ok b r \<Longrightarrow> cmd_ok b (K d r)"
    and "\<And>v. s < v \<Longrightarrow> v \<le> es \<Longrightarrow> parsed b es v (\<lambda>c. True) (f v)"
  shows "parsed b es s (\<lambda>c. True) (let (s, p) = peek b es s toks in
    if p then let s = eat b es s in bindE (f s) (\<lambda>(right, s). Inr (K d right, s)) else Inr (d, s))"
proof -
  obtain v p where pk: "peek b es s toks = (v, p)" by fastforce
  note k = peek_spec [OF assms(1,2) pk]
  let ?v = "eat b es v"
  have "parsed b es s (\<lambda>c. True) (bindE (f ?v) (\<lambda>(right, s). Inr (K d right, s)))" if p
  proof (rule parsed_mono [OF parsed_bind])
    show "parsed b es ?v (\<lambda>c. True) (f ?v)" using k(1) k(3,4) [OF that] by (intro assms(5)) auto
  qed (use assms(4) k(1) k(3) [OF that] in auto)
  then show ?thesis using k(1,2) assms(3) by (auto simp: pk)
qed

lemma parseblock_parsed:
  assumes "nul_at b es" "s \<le> es" "es - s \<le> n"
    and "\<And>v. s < v \<Longrightarrow> v \<le> es \<Longrightarrow> parsed b es v (\<lambda>c. True) (parseline n b es v)"
  shows "parsed b es s (\<lambda>c. True) (parseblock (Suc n) b es s)"
proof -
  obtain v p where pk: "peek b es s ''('' = (v, p)" by fastforce
  note k = peek_spec [OF assms(1,2) pk]
  let ?v = "eat b es v"
  have "parsed b es s (\<lambda>c. True) (bindE (parseline n b es ?v) (\<lambda>(cmd, s). let (s, p) = peek b es s '')'' in
      if \<not> p then Inl (Panic ''syntax - missing )'') else let s = eat b es s in parseredirs n b es cmd s))" if p
  proof (rule parsed_mono [OF parsed_bind])
    show "parsed b es ?v (\<lambda>c. True) (parseline n b es ?v)" using k(1) k(3,4) [OF that] by (intro assms(4)) auto
    fix c t assume t: "cmd_ok b c" "?v \<le> t" "t \<le> es"
    obtain w q where pw: "peek b es t '')'' = (w, q)" by fastforce
    note kw = peek_spec [OF assms(1) t(3) pw]
    have "parsed b es ?v (\<lambda>c. True) (parseredirs n b es c (eat b es w))" if q
      using kw(3,4) [OF that] kw(1) t k(1) k(3,4) [OF \<open>p\<close>] assms(3)
      by (intro parsed_mono [OF parseredirs_parsed [OF assms(1) _ t(1)]]) auto
    then show "parsed b es ?v (\<lambda>c. True) (case (c, t) of (cmd, s) \<Rightarrow> let (s, p) = peek b es s '')'' in
      if \<not> p then Inl (Panic ''syntax - missing )'') else let s = eat b es s in parseredirs n b es cmd s)"
      by (simp add: pw)
  qed (use k(1) k(3) [OF that] in auto)
  then show ?thesis by (simp add: pk)
qed

lemma parse_parsed:
  assumes "nul_at b es"
  shows
    "s \<le> es \<Longrightarrow> 4 * (es - s) + 3 < n \<Longrightarrow> parsed b es s (\<lambda>c. True) (parseline n b es s)"
    "s \<le> es \<Longrightarrow> 4 * (es - s) + 2 < n \<Longrightarrow> parsed b es s (\<lambda>c. True) (parsepipe n b es s)"
    "s \<le> es \<Longrightarrow> 4 * (es - s) < n \<Longrightarrow> parsed b es s (\<lambda>c. True) (parseblock n b es s)"
    "s \<le> es \<Longrightarrow> 4 * (es - s) + 1 < n \<Longrightarrow> parsed b es s (\<lambda>c. True) (parseexec n b es s)"
proof (induction n arbitrary: s)
  case (Suc n)
  {
    case 1
    let ?R = "\<lambda>(cmd, s). let (s, p) = peek b es s '';'' in
      if p then let s = eat b es s in bindE (parseline n b es s) (\<lambda>(right, s). Inr (LIST cmd right, s)) else Inr (cmd, s)"
    have "parsed b es u (\<lambda>c. True) (?R (d, u))" if "cmd_ok b d" "s \<le> u" "u \<le> es" for d u
      unfolding prod.case using 1 that by (intro right_side_parsed [where K = LIST] assms Suc.IH(1)) auto
    then have "parsed b es t (\<lambda>c. True) (bindE (amps n b es c t) ?R)" if "cmd_ok b c" "s \<le> t" "t \<le> es" for c t
      using 1 that by (intro parsed_bind_on [OF amps_parsed [OF assms]]) auto
    moreover have "parsed b es s (\<lambda>c. True) (parsepipe n b es s)" using 1 by (intro Suc.IH(2)) auto
    ultimately show ?case unfolding parseline.simps listcmd_def by (intro parsed_bind_on [where P = "\<lambda>c. True"]) auto
  next
    case 2
    let ?R = "\<lambda>(cmd, s). let (s, p) = peek b es s ''|'' in
      if p then let s = eat b es s in bindE (parsepipe n b es s) (\<lambda>(right, s). Inr (PIPE cmd right, s)) else Inr (cmd, s)"
    have "parsed b es u (\<lambda>c. True) (?R (d, u))" if "cmd_ok b d" "s \<le> u" "u \<le> es" for d u
      unfolding prod.case using 2 that by (intro right_side_parsed [where K = PIPE] assms Suc.IH(2)) auto
    moreover have "parsed b es s (\<lambda>c. True) (parseexec n b es s)" using 2 by (intro Suc.IH(4)) auto
    ultimately show ?case unfolding parsepipe.simps pipecmd_def
      by (intro parsed_bind_on [where P = "\<lambda>c. True"]) auto
  next
    case 3
    then show ?case by (intro parseblock_parsed assms Suc.IH(1)) auto
  next
    case 4
    obtain v p where pk: "peek b es s ''('' = (v, p)" by fastforce
    note k = peek_spec [OF assms 4(1) pk]
    have "parsed b es v (\<lambda>c. True) (parseblock n b es v)" using 4 k(1,2) by (intro Suc.IH(3)) auto
    moreover have "parsed b es v (\<lambda>c. True) (bindE (parseredirs n b es execcmd v) (\<lambda>(ret, s). exec_args n b es 0 ret s))"
    proof (rule parsed_bind)
      show "parsed b es v (\<lambda>c. nargs c = nargs execcmd) (parseredirs n b es execcmd v)"
        using 4 k(1,2) by (intro parseredirs_parsed assms) (auto simp: execcmd_def MAXARGS_def)
      show "parsed b es v (\<lambda>c. True) (case (c, t) of (ret, s) \<Rightarrow> exec_args n b es 0 ret s)"
        if "cmd_ok b c" "v \<le> t" "t \<le> es" "nargs c = nargs execcmd" for c t
        using that 4 k(1) parsed_mono [OF exec_args_parsed [OF assms that(3,1), of 0 n] that(2)] by (simp add: execcmd_def)
    qed
    ultimately show ?case using k(1) by (auto simp: pk intro: parsed_mono)
  }
qed simp_all

section \<open>More fuel changes nothing\<close>

definition fuel_le :: "'a res \<Rightarrow> 'a res \<Rightarrow> bool" where
  "fuel_le r r' \<longleftrightarrow> r = Inl Diverge \<or> r' = r"

lemma fuel_le_refl [simp, intro]: "fuel_le r r"
  by (simp add: fuel_le_def)

lemma fuel_le_Diverge [simp, intro]: "fuel_le (Inl Diverge) r"
  by (simp add: fuel_le_def)

lemma fuel_le_bind: "fuel_le m m' \<Longrightarrow> (\<And>x. fuel_le (f x) (f' x)) \<Longrightarrow> fuel_le (bindE m f) (bindE m' f')"
  by (cases m) (auto simp: fuel_le_def bindE_def split: sum.splits)

lemma parseredirs_more: "fuel_le (parseredirs n b es c s) (parseredirs (Suc n) b es c s)"
proof (induction n arbitrary: c s)
  case (Suc n)
  then show ?case by (subst (1 2) parseredirs.simps) (simp add: Let_def split: prod.split)
qed simp

lemma exec_args_more: "fuel_le (exec_args n b es k c s) (exec_args (Suc n) b es k c s)"
proof (induction n arbitrary: k c s)
  case (Suc n)
  have "fuel_le (bindE (parseredirs n b es d u) (\<lambda>(ret, s). exec_args n b es j ret s))
    (bindE (parseredirs (Suc n) b es d u) (\<lambda>(ret, s). exec_args (Suc n) b es j ret s))" for d u j
    using parseredirs_more Suc by (intro fuel_le_bind) (auto simp del: parseredirs.simps exec_args.simps split: prod.split)
  then show ?case
    by (subst (1 2) exec_args.simps) (simp add: Let_def del: parseredirs.simps exec_args.simps split: prod.split)
qed simp

lemma amps_more: "fuel_le (amps n b es c s) (amps (Suc n) b es c s)"
proof (induction n arbitrary: c s)
  case (Suc n)
  then show ?case by (subst (1 2) amps.simps) (simp add: Let_def split: prod.split)
qed simp

lemma parse_more:
  "fuel_le (parseline n b es s) (parseline (Suc n) b es s)"
  "fuel_le (parsepipe n b es s) (parsepipe (Suc n) b es s)"
  "fuel_le (parseblock n b es s) (parseblock (Suc n) b es s)"
  "fuel_le (parseexec n b es s) (parseexec (Suc n) b es s)"
proof (induction n arbitrary: s)
  case (Suc n)
  note more = Suc parseredirs_more exec_args_more amps_more
  note del = parseline.simps parsepipe.simps parseblock.simps parseexec.simps parseredirs.simps exec_args.simps amps.simps
  {
    case 1
    show ?case by (subst (1 2) parseline.simps) (auto simp: Let_def intro!: fuel_le_bind more simp del: del split: prod.split)
  next
    case 2
    show ?case by (subst (1 2) parsepipe.simps) (auto simp: Let_def intro!: fuel_le_bind more simp del: del split: prod.split)
  next
    case 3
    show ?case by (subst (1 2) parseblock.simps) (auto simp: Let_def intro!: fuel_le_bind more simp del: del split: prod.split)
  next
    case 4
    show ?case by (subst (1 2) parseexec.simps) (auto simp: Let_def intro!: fuel_le_bind more simp del: del split: prod.split)
  }
qed simp_all

lemma parseline_enough:
  assumes "parseline m b es s \<noteq> Inl Diverge" "m \<le> n"
  shows "parseline n b es s = parseline m b es s"
  using assms(2)
proof (induction n rule: dec_induct)
  case (step n)
  then show ?case using parse_more(1) [of n b es s] assms(1) by (simp add: fuel_le_def del: parseline.simps)
qed simp

end
