(* ===== verification/Sh_Print.thy ===== *)
theory Sh_Print
  imports Sh_Parse
begin

text \<open>
  Command lines as the grammar of the shell has them, how they are written, what they mean, and that the parser
  reads what is written back.
\<close>

section \<open>Command lines\<close>

datatype redir = R_in string | R_out string | R_append string

datatype sline = Line spipe nat "sline option"
  and spipe = Pipe sexec "spipe option"
  and sexec = Words "redir list" "(string \<times> redir list) list" | Block sline "redir list"

fun p_redir :: "redir \<Rightarrow> string" where
  "p_redir (R_in f) = ''< '' @ f @ '' ''"
| "p_redir (R_out f) = ''> '' @ f @ '' ''"
| "p_redir (R_append f) = ''>> '' @ f @ '' ''"

definition p_redirs :: "redir list \<Rightarrow> string" where
  "p_redirs rs = concat (map p_redir rs)"

definition p_words :: "(string \<times> redir list) list \<Rightarrow> string" where
  "p_words ws = concat (map (\<lambda>(w, rs). w @ '' '' @ p_redirs rs) ws)"

definition p_amps :: "nat \<Rightarrow> string" where
  "p_amps k = concat (replicate k ''& '')"

fun p_line :: "sline \<Rightarrow> string" and p_pipe :: "spipe \<Rightarrow> string" and p_exec :: "sexec \<Rightarrow> string" where
  "p_line (Line p k None) = p_pipe p @ p_amps k"
| "p_line (Line p k (Some l)) = p_pipe p @ p_amps k @ ''; '' @ p_line l"
| "p_pipe (Pipe e None) = p_exec e"
| "p_pipe (Pipe e (Some p)) = p_exec e @ ''| '' @ p_pipe p"
| "p_exec (Words rs ws) = p_redirs rs @ p_words ws"
| "p_exec (Block l rs) = ''( '' @ p_line l @ '') '' @ p_redirs rs"

text \<open>What a line means: commands with their strings.\<close>

datatype scmd = S_exec "string list" | S_redir scmd string uint nat | S_pipe scmd scmd | S_list scmd scmd | S_back scmd

fun m_redir :: "scmd \<Rightarrow> redir \<Rightarrow> scmd" where
  "m_redir c (R_in f) = S_redir c f O_RDONLY 0"
| "m_redir c (R_out f) = S_redir c f (O_WRONLY OR O_CREATE) 1"
| "m_redir c (R_append f) = S_redir c f (O_WRONLY OR O_CREATE) 1"

fun m_line :: "sline \<Rightarrow> scmd" and m_pipe :: "spipe \<Rightarrow> scmd" and m_exec :: "sexec \<Rightarrow> scmd" where
  "m_line (Line p k None) = (S_back ^^ k) (m_pipe p)"
| "m_line (Line p k (Some l)) = S_list ((S_back ^^ k) (m_pipe p)) (m_line l)"
| "m_pipe (Pipe e None) = m_exec e"
| "m_pipe (Pipe e (Some p)) = S_pipe (m_exec e) (m_pipe p)"
| "m_exec (Words rs ws) = foldl m_redir (S_exec (map fst ws)) (rs @ concat (map snd ws))"
| "m_exec (Block l rs) = foldl m_redir (m_line l) rs"

text \<open>Words are not empty, and there are fewer than ten in a simple command.\<close>

definition word_ok :: "string \<Rightarrow> bool" where
  "word_ok w \<longleftrightarrow> w \<noteq> [] \<and> (\<forall>c \<in> set w. word_char c)"

fun redir_ok :: "redir \<Rightarrow> bool" where
  "redir_ok (R_in f) = word_ok f"
| "redir_ok (R_out f) = word_ok f"
| "redir_ok (R_append f) = word_ok f"

definition redirs_ok :: "redir list \<Rightarrow> bool" where
  "redirs_ok rs \<longleftrightarrow> (\<forall>r \<in> set rs. redir_ok r)"

fun line_ok :: "sline \<Rightarrow> bool" and pipe_ok :: "spipe \<Rightarrow> bool" and exec_ok :: "sexec \<Rightarrow> bool" where
  "line_ok (Line p k None) = pipe_ok p"
| "line_ok (Line p k (Some l)) = (pipe_ok p \<and> line_ok l)"
| "pipe_ok (Pipe e None) = exec_ok e"
| "pipe_ok (Pipe e (Some p)) = (exec_ok e \<and> pipe_ok p)"
| "exec_ok (Words rs ws) = (redirs_ok rs \<and> (\<forall>(w, rs) \<in> set ws. word_ok w \<and> redirs_ok rs) \<and> length ws < MAXARGS)"
| "exec_ok (Block l rs) = (line_ok l \<and> redirs_ok rs)"

text \<open>A command with the strings that are at its places in the line.\<close>

fun strings :: "line \<Rightarrow> cmd \<Rightarrow> scmd" where
  "strings b Null = S_exec []"
| "strings b (EXEC av) = S_exec (map (\<lambda>(q, eq). map b [q..<eq]) av)"
| "strings b (REDIR c f ef m fd) = S_redir (strings b c) (map b [f..<ef]) m fd"
| "strings b (PIPE l r) = S_pipe (strings b l) (strings b r)"
| "strings b (LIST l r) = S_list (strings b l) (strings b r)"
| "strings b (BACK c) = S_back (strings b c)"

section \<open>The rest of a line\<close>

text \<open>
  From \<open>s\<close> on the line is \<open>str\<close> and then only white space. Where the parser is after a token is given by \<open>after\<close>: it
  has skipped all of the white space at the end of the line.
\<close>

definition rest_is :: "line \<Rightarrow> nat \<Rightarrow> nat \<Rightarrow> string \<Rightarrow> bool" where
  "rest_is b es s str \<longleftrightarrow> nul_at b es \<and> s + length str \<le> es \<and> (\<forall>i < length str. b (s + i) = str ! i) \<and>
     (\<forall>i. s + length str \<le> i \<and> i < es \<longrightarrow> b i \<in> set whitespace)"

definition starts :: "string \<Rightarrow> bool" where
  "starts str \<longleftrightarrow> str = [] \<or> hd str \<notin> set whitespace"

definition after :: "nat \<Rightarrow> string \<Rightarrow> nat \<Rightarrow> nat" where
  "after es v k = (if v = [] then es else k)"

lemma rest_append: "rest_is b es s (u @ v) \<Longrightarrow> rest_is b es (s + length u) v"
  by (auto simp: rest_is_def nth_append) (metis add.assoc add_diff_cancel_left' nat_add_left_cancel_less not_add_less1)

lemma rest_Cons: "rest_is b es s (c # v) \<longleftrightarrow> b s = c \<and> s < es \<and> rest_is b es (Suc s) v"
proof
  assume r: "rest_is b es s (c # v)"
  then show "b s = c \<and> s < es \<and> rest_is b es (Suc s) v" using rest_append [of b es s "[c]" v] by (auto simp: rest_is_def)
next
  assume "b s = c \<and> s < es \<and> rest_is b es (Suc s) v"
  then show "rest_is b es s (c # v)" by (auto simp: rest_is_def nth_Cons split: nat.split)
qed

lemma rest_after: "rest_is b es k v \<Longrightarrow> rest_is b es (after es v k) v"
  by (auto simp: after_def rest_is_def)

lemma rest_length: "rest_is b es s v \<Longrightarrow> s + length v \<le> es"
  by (simp add: rest_is_def)

lemma rest_map: "rest_is b es s (u @ v) \<Longrightarrow> map b [s..<s + length u] = u"
  by (auto simp: rest_is_def nth_append intro!: nth_equalityI)

lemma skip_while_rest:
  assumes "rest_is b es s (u @ v)" "\<forall>c \<in> set u. P c" "v \<noteq> []" "\<not> P (hd v)"
  shows "skip_while P b es s = s + length u"
  using assms
proof (induction u arbitrary: s)
  case Nil
  then show ?case by (subst skip_while.simps) (cases v; auto simp: rest_Cons)
next
  case (Cons c u)
  then have "skip_while P b es (Suc s) = Suc s + length u" by (auto simp: rest_Cons)
  then show ?case using Cons.prems by (subst skip_while.simps) (auto simp: rest_Cons)
qed

lemma skip_rest:
  assumes "rest_is b es s v" "starts v"
  shows "skip_white b es s = after es v s"
proof (cases "v = []")
  case True
  have s: "s \<le> es" "nul_at b es" using assms(1) by (simp_all add: rest_is_def)
  note sk = skip_white_spec [OF s(2,1)]
  have "\<not> skip_white b es s < es"
  proof
    assume "skip_white b es s < es"
    then have "b (skip_white b es s) \<in> set whitespace" using assms(1) True sk(1) by (simp add: rest_is_def)
    then show False using sk(3) by simp
  qed
  then show ?thesis using sk(2) True by (simp add: after_def)
next
  case False
  then show ?thesis using skip_while_rest [of b es s "[]" v "strchr_user whitespace"] assms
    by (simp add: skip_white_def starts_def strchr_user_def after_def)
qed

lemma skip_space: "rest_is b es s (CHR '' '' # v) \<Longrightarrow> starts v \<Longrightarrow> skip_white b es s = after es v (Suc s)"
  using skip_rest [of b es "Suc s" v] skip_while.simps [of "strchr_user whitespace" b es s]
  by (simp add: rest_Cons skip_white_def strchr_user_def whitespace_def)

lemma peek_rest:
  assumes "rest_is b es s v" "starts v"
  shows "peek b es s toks = (after es v s, v \<noteq> [] \<and> hd v \<in> set toks)"
proof -
  have n: "nul_at b es" using assms(1) by (simp add: rest_is_def)
  have "b (after es v s) \<noteq> CHR 0x00 \<and> b (after es v s) \<in> set toks \<longleftrightarrow> v \<noteq> [] \<and> hd v \<in> set toks"
  proof (cases v)
    case (Cons c u)
    then have "b s = c" "s < es" using assms(1) by (auto simp: rest_Cons)
    then show ?thesis using Cons n by (auto simp: nul_at_def after_def)
  qed (use n in \<open>auto simp: after_def nul_at_def\<close>)
  then show ?thesis using skip_rest [OF assms] by (simp add: peek_def strchr_user_def)
qed

lemma gettoken_sym:
  assumes "rest_is b es s (c # CHR '' '' # v)" "starts v" "c \<in> set ''|();&<''"
  shows "gettoken b es s = (c, s, s + 1, after es v (s + 2))" "eat b es s = after es v (s + 2)"
proof -
  have "skip_white b es s = s"
    using skip_rest [OF assms(1)] assms(2,3) by (auto simp: after_def starts_def whitespace_def)
  moreover have "skip_white b es (Suc s) = after es v (s + 2)" using skip_space [of b es "Suc s" v] assms(1,2) by (simp add: rest_Cons)
  moreover have "b s = c" "c \<noteq> CHR 0x00" using assms(1,3) by (auto simp: rest_Cons)
  ultimately show "gettoken b es s = (c, s, s + 1, after es v (s + 2))" using assms(3) by (simp add: gettoken_def Let_def)
  then show "eat b es s = after es v (s + 2)" by (simp add: eat_def)
qed

lemma gettoken_gt:
  assumes "rest_is b es s (CHR ''>'' # CHR '' '' # v)" "starts v"
  shows "gettoken b es s = (CHR ''>'', s, s + 1, after es v (s + 2))"
proof -
  have "skip_white b es s = s" using skip_rest [OF assms(1)] by (auto simp: after_def starts_def whitespace_def)
  moreover have "skip_white b es (Suc s) = after es v (s + 2)" using skip_space [of b es "Suc s" v] assms by (simp add: rest_Cons)
  ultimately show ?thesis using assms(1) by (simp add: gettoken_def Let_def rest_Cons)
qed

lemma gettoken_append:
  assumes "rest_is b es s (CHR ''>'' # CHR ''>'' # CHR '' '' # v)" "starts v"
  shows "gettoken b es s = (CHR ''+'', s, s + 2, after es v (s + 3))"
proof -
  have "skip_white b es s = s" using skip_rest [OF assms(1)] by (auto simp: after_def starts_def whitespace_def)
  moreover have "skip_white b es (s + 2) = after es v (s + 3)"
    using skip_space [of b es "s + 2" v] assms by (simp add: rest_Cons numeral_2_eq_2 numeral_3_eq_3)
  ultimately show ?thesis using assms(1) by (simp add: gettoken_def Let_def rest_Cons)
qed

lemma gettoken_word:
  assumes "rest_is b es s (w @ CHR '' '' # v)" "word_ok w" "starts v"
  shows "gettoken b es s = (CHR ''a'', s, s + length w, after es v (s + length w + 1))"
proof -
  let ?W = "\<lambda>c. \<not> strchr_user whitespace c \<and> \<not> strchr_user symbols c"
  obtain c u where w: "w = c # u" using assms(2) by (cases w) (auto simp: word_ok_def)
  have c: "word_char c" "b s = c" using assms(1,2) by (simp_all add: w word_ok_def rest_Cons)
  have "skip_white b es s = s" using skip_rest [OF assms(1)] c by (simp add: after_def starts_def w word_char_def)
  moreover have "skip_while ?W b es s = s + length w"
    using assms(1,2) by (intro skip_while_rest [of _ _ _ w "CHR '' '' # v"]) (auto simp: word_ok_def word_char_def strchr_user_def whitespace_def)
  moreover have "skip_white b es (s + length w) = after es v (s + length w + 1)" using skip_space [OF rest_append [OF assms(1)] assms(3)] by simp
  moreover have "b s \<noteq> CHR 0x00" "b s \<notin> set ''|();&<''" "b s \<noteq> CHR ''>''" using c by (auto simp: word_char_def symbols_def)
  ultimately show ?thesis by (simp add: gettoken_def Let_def)
qed

lemma gettoken_end: "rest_is b es s [] \<Longrightarrow> gettoken b es s = (CHR 0x00, es, es, es)"
  using skip_rest [of b es s "[]"] skip_rest [of b es es "[]"] by (auto simp: gettoken_def starts_def after_def rest_is_def nul_at_def)

section \<open>Reading back\<close>

lemma starts_append: "starts u \<Longrightarrow> starts v \<Longrightarrow> starts (u @ v)"
  by (cases u) (auto simp: starts_def)

lemma starts_redirs: "starts (p_redirs rs)"
proof (cases rs)
  case (Cons r rs')
  then show ?thesis by (cases r) (auto simp: p_redirs_def starts_def whitespace_def)
qed (simp add: p_redirs_def starts_def)

lemma starts_word: "word_ok w \<Longrightarrow> starts (w @ v)"
  by (cases w) (auto simp: word_ok_def starts_def word_char_def)

lemma starts_words: "\<forall>(w, rs) \<in> set ws. word_ok w \<and> redirs_ok rs \<Longrightarrow> starts (p_words ws)"
  by (cases ws) (auto simp: p_words_def starts_word, simp add: starts_def)

lemma starts_amps: "starts (p_amps k)"
  by (cases k) (auto simp: p_amps_def starts_def whitespace_def)

lemma starts_print: "line_ok l \<Longrightarrow> starts (p_line l)" "pipe_ok p \<Longrightarrow> starts (p_pipe p)" "exec_ok e \<Longrightarrow> starts (p_exec e)"
  by (induction l and p and e rule: p_line_p_pipe_p_exec.induct)
    (auto intro!: starts_append starts_redirs starts_words starts_amps, auto simp: starts_def whitespace_def)

lemma p_redirs_Cons: "p_redirs (r # rs) = p_redir r @ p_redirs rs"
  by (simp add: p_redirs_def)

lemma length_redirs: "length rs \<le> length (p_redirs rs)"
proof (induction rs)
  case (Cons r rs)
  then show ?case by (cases r) (simp_all add: p_redirs_Cons)
qed (simp add: p_redirs_def)

lemma parseredirs_step:
  assumes "rest_is b es s (p_redir r @ v)" "redir_ok r" "starts v"
  shows "\<exists>c'. parseredirs (Suc n) b es c s = parseredirs n b es c' (after es v (s + length (p_redir r))) \<and>
    strings b c' = m_redir (strings b c) r \<and> nargs c' = nargs c"
proof (cases r)
  case (R_in f)
  have r: "rest_is b es s (CHR ''<'' # CHR '' '' # f @ CHR '' '' # v)" using assms(1) R_in by simp
  have f: "word_ok f" "rest_is b es (s + 2) (f @ CHR '' '' # v)" using assms(2) R_in r by (simp_all add: rest_Cons)
  have "starts (f @ CHR '' '' # v)" using f(1) by (rule starts_word)
  then show ?thesis
    using gettoken_sym(1) [OF r] gettoken_word [OF f(2,1) assms(3)] peek_rest [OF r, of "''<>''"] rest_map [OF f(2)]
    by (intro exI [of _ "REDIR c (s + 2) (s + 2 + length f) O_RDONLY 0"]) (simp add: R_in starts_def whitespace_def after_def [of _ "_ # _"] after_def [of _ "_ @ _ # _"] redircmd_def)
next
  case (R_out f)
  have r: "rest_is b es s (CHR ''>'' # CHR '' '' # f @ CHR '' '' # v)" using assms(1) R_out by simp
  have f: "word_ok f" "rest_is b es (s + 2) (f @ CHR '' '' # v)" using assms(2) R_out r by (simp_all add: rest_Cons)
  have "starts (f @ CHR '' '' # v)" using f(1) by (rule starts_word)
  then show ?thesis
    using gettoken_gt [OF r] gettoken_word [OF f(2,1) assms(3)] peek_rest [OF r, of "''<>''"] rest_map [OF f(2)]
    by (intro exI [of _ "REDIR c (s + 2) (s + 2 + length f) (O_WRONLY OR O_CREATE) 1"]) (simp add: R_out starts_def whitespace_def after_def [of _ "_ # _"] after_def [of _ "_ @ _ # _"] redircmd_def)
next
  case (R_append f)
  have r: "rest_is b es s (CHR ''>'' # CHR ''>'' # CHR '' '' # f @ CHR '' '' # v)" using assms(1) R_append by simp
  have f: "word_ok f" "rest_is b es (s + 3) (f @ CHR '' '' # v)" using assms(2) R_append r by (simp_all add: rest_Cons numeral_3_eq_3)
  have "starts (f @ CHR '' '' # v)" using f(1) by (rule starts_word)
  then show ?thesis
    using gettoken_append [OF r] gettoken_word [OF f(2,1) assms(3)] peek_rest [OF r, of "''<>''"] rest_map [OF f(2)]
    by (intro exI [of _ "REDIR c (s + 3) (s + 3 + length f) (O_WRONLY OR O_CREATE) 1"]) (simp add: R_append starts_def whitespace_def after_def [of _ "_ # _"] after_def [of _ "_ @ _ # _"] redircmd_def eval_nat_numeral)
qed

lemma parseredirs_print:
  assumes "rest_is b es s (p_redirs rs @ v)" "redirs_ok rs" "starts v" "v = [] \<or> hd v \<notin> set ''<>''" "length rs < n"
  shows "\<exists>c'. parseredirs n b es c s = Inr (c', after es v (s + length (p_redirs rs))) \<and> strings b c' = foldl m_redir (strings b c) rs \<and> nargs c' = nargs c"
  using assms(1,2,5)
proof (induction rs arbitrary: n c s)
  case Nil
  then obtain m where "n = Suc m" by (cases n) auto
  then show ?case using Nil.prems peek_rest [of b es s v "''<>''"] assms(3,4) by (auto simp: p_redirs_def)
next
  case (Cons r rs)
  then obtain m where n: "n = Suc m" by (cases n) auto
  have r: "rest_is b es s (p_redir r @ p_redirs rs @ v)" "redir_ok r" "redirs_ok rs" "length rs < m"
    using Cons.prems n by (simp_all add: p_redirs_Cons redirs_ok_def)
  have "starts (p_redirs rs @ v)" by (intro starts_append starts_redirs assms(3))
  from parseredirs_step [OF r(1,2) this, of m c] obtain d where d:
    "parseredirs (Suc m) b es c s = parseredirs m b es d (after es (p_redirs rs @ v) (s + length (p_redir r)))" "strings b d = m_redir (strings b c) r" "nargs d = nargs c" by blast
  show ?case using Cons.IH [OF rest_after [OF rest_append [OF r(1)]] r(3,4), of d] d by (auto simp: n p_redirs_Cons after_def add.assoc)
qed

text \<open>An argument is added below the redirections.\<close>

fun s_add :: "scmd \<Rightarrow> string \<Rightarrow> scmd" where
  "s_add (S_exec av) w = S_exec (av @ [w])"
| "s_add (S_redir c f m fd) w = S_redir (s_add c w) f m fd"
| "s_add c w = c"

lemma strings_add_arg: "nargs c = Some k \<Longrightarrow> strings b (add_arg (q, eq) c) = s_add (strings b c) (map b [q..<eq])"
  by (induction c) auto

lemma s_add_redirs: "s_add (foldl m_redir c rs) w = foldl m_redir (s_add c w) rs"
proof (induction rs arbitrary: c)
  case (Cons r rs)
  then show ?case by (cases r) simp_all
qed simp

lemma s_adds: "foldl s_add (S_exec av) ws = S_exec (av @ ws)"
  by (induction ws arbitrary: av) auto

lemma s_adds_redirs: "foldl s_add (foldl m_redir c rs) ws = foldl m_redir (foldl s_add c ws) rs"
  by (induction ws arbitrary: c) (auto simp: s_add_redirs)

lemma p_words_Cons: "p_words ((w, rs) # ws) = w @ CHR '' '' # p_redirs rs @ p_words ws"
  by (simp add: p_words_def)

lemma hd_words_redir:
  assumes "\<forall>(w, rs) \<in> set ws. word_ok w \<and> redirs_ok rs" "v = [] \<or> hd v \<in> set ''|)&;''"
  shows "p_words ws @ v = [] \<or> hd (p_words ws @ v) \<notin> set ''<>''"
proof (cases ws)
  case Nil
  then show ?thesis using assms(2) by (auto simp: p_words_def)
next
  case (Cons y ws')
  then show ?thesis using assms(1) by (cases y; cases "fst y") (auto simp: p_words_Cons word_ok_def word_char_def symbols_def)
qed

lemma exec_args_print:
  assumes "rest_is b es s (p_words ws @ v)" "\<forall>(w, rs) \<in> set ws. word_ok w \<and> redirs_ok rs" "starts v"
    and "v = [] \<or> hd v \<in> set ''|)&;''" "nargs c = Some k" "k + length ws < MAXARGS" "length (p_words ws) < n"
  shows "\<exists>c'. exec_args n b es k c s = Inr (c', after es v (s + length (p_words ws))) \<and>
    strings b c' = foldl m_redir (foldl s_add (strings b c) (map fst ws)) (concat (map snd ws))"
  using assms(1,2,5-7)
proof (induction ws arbitrary: n c k s)
  case Nil
  then obtain m where "n = Suc m" by (cases n) auto
  then show ?case using Nil.prems(1) peek_rest [of b es s v "''|)&;''"] gettoken_end [of b es es] rest_after [of b es s v] assms(3,4) by (auto simp: p_words_def after_def)
next
  case (Cons x ws)
  obtain w rs where x: "x = (w, rs)" by fastforce
  obtain m where n: "n = Suc m" using Cons.prems(5) by (cases n) auto
  have r: "rest_is b es s (w @ CHR '' '' # p_redirs rs @ p_words ws @ v)" "word_ok w" "redirs_ok rs" "length rs + length (p_words ws) < m"
    using Cons.prems(1,2,5) length_redirs [of rs] by (simp_all add: x n p_words_Cons)
  have st: "starts (p_words ws @ v)" using Cons.prems(2) by (intro starts_append starts_words assms(3)) simp
  have st2: "starts (p_redirs rs @ p_words ws @ v)" by (intro starts_append starts_redirs st)
  obtain c0 w0 where w0: "w = c0 # w0" "word_char c0" using r(2) by (cases w) (auto simp: word_ok_def)
  have pk: "peek b es s ''|)&;'' = (s, False)" using peek_rest [OF r(1) starts_word [OF r(2)]] w0 by (auto simp: word_char_def symbols_def after_def)
  let ?t = "after es (p_redirs rs @ p_words ws @ v) (s + length w + 1)"
  have gt: "gettoken b es s = (CHR ''a'', s, s + length w, ?t)" by (rule gettoken_word [OF r(1,2) st2])
  have r2: "rest_is b es ?t (p_redirs rs @ p_words ws @ v)" using rest_append [OF r(1)] by (intro rest_after) (simp add: rest_Cons)
  let ?c = "add_arg (s, s + length w) c"
  have hd: "p_words ws @ v = [] \<or> hd (p_words ws @ v) \<notin> set ''<>''" using Cons.prems(2) by (intro hd_words_redir assms(4)) simp
  have nm: "length rs < m" "length (p_words ws) < m" using r(4) by simp_all
  let ?u = "after es (p_words ws @ v) (?t + length (p_redirs rs))"
  obtain d where d: "parseredirs m b es ?c ?t = Inr (d, ?u)"
    "strings b d = foldl m_redir (strings b ?c) rs" "nargs d = nargs ?c"
    using parseredirs_print [OF r2 r(3) st hd nm(1)] by blast
  have d3: "nargs d = Some (k + 1)" using d(3) Cons.prems(3) by (simp add: nargs_add_arg)
  have sc: "strings b ?c = s_add (strings b c) w" using strings_add_arg [OF Cons.prems(3)] rest_map [OF r(1)] by simp
  obtain c' where c': "exec_args m b es (k + 1) d ?u = Inr (c', after es v (?u + length (p_words ws)))"
    "strings b c' = foldl m_redir (foldl s_add (strings b d) (map fst ws)) (concat (map snd ws))"
    using Cons.IH [OF rest_after [OF rest_append [OF r2]] _ d3 _ nm(2)] Cons.prems(2,4) by auto
  have "after es v (?u + length (p_words ws)) = after es v (s + length (p_words (x # ws)))"
    by (simp add: x p_words_Cons after_def)
  then have "exec_args n b es k c s = Inr (c', after es v (s + length (p_words (x # ws))))"
    using pk gt d(1) c'(1) Cons.prems(4) by (simp add: n x)
  then show ?case using c'(2) d(2) sc by (simp add: x s_adds_redirs)
qed

lemma amps_print:
  assumes "rest_is b es s (p_amps k @ v)" "starts v" "v = [] \<or> hd v \<noteq> CHR ''&''" "k < n"
  shows "amps n b es c s = Inr ((BACK ^^ k) c, after es v (s + length (p_amps k)))"
  using assms(1,4)
proof (induction k arbitrary: n c s)
  case 0
  then obtain m where "n = Suc m" by (cases n) auto
  then show ?case using 0 peek_rest [of b es s v "''&''"] assms(2,3) by (auto simp: p_amps_def)
next
  case (Suc k)
  then obtain m where n: "n = Suc m" by (cases n) auto
  let ?t = "after es (p_amps k @ v) (s + 2)"
  have r: "rest_is b es s (CHR ''&'' # CHR '' '' # p_amps k @ v)" "rest_is b es ?t (p_amps k @ v)"
    using Suc.prems(1) by (simp_all add: p_amps_def rest_Cons rest_after)
  have st: "starts (p_amps k @ v)" by (intro starts_append starts_amps assms(2))
  have "peek b es s ''&'' = (s, True)" using peek_rest [OF r(1)] by (simp add: starts_def whitespace_def after_def)
  moreover have "eat b es s = ?t" using gettoken_sym(2) [OF r(1) st] by simp
  moreover have "amps m b es (BACK c) ?t = Inr ((BACK ^^ k) (BACK c), after es v (?t + length (p_amps k)))"
    using Suc.IH [OF r(2)] Suc.prems(2) n by simp
  moreover have "after es v (?t + length (p_amps k)) = after es v (s + length (p_amps (Suc k)))" by (simp add: after_def p_amps_def)
  ultimately show ?case by (simp add: n backcmd_def funpow_swap1)
qed

lemma length_amps: "length (p_amps k) = 2 * k"
  by (induction k) (simp_all add: p_amps_def)

lemma strings_backs: "strings b ((BACK ^^ k) c) = (S_back ^^ k) (strings b c)"
  by (induction k) auto

lemma peek_sym:
  assumes "rest_is b es s (c # CHR '' '' # v)" "starts v" "c \<in> set ''|();&<''"
  shows "peek b es s [c] = (s, True)" "eat b es s = after es v (s + 2)" "rest_is b es (after es v (s + 2)) v"
proof -
  have "starts (c # CHR '' '' # v)" using assms(3) by (auto simp: starts_def whitespace_def)
  then show "peek b es s [c] = (s, True)" using peek_rest [OF assms(1), of "[c]"] by (simp add: after_def)
  show "eat b es s = after es v (s + 2)" using gettoken_sym(2) [OF assms] .
  show "rest_is b es (after es v (s + 2)) v" using assms(1) by (intro rest_after) (simp add: rest_Cons)
qed

lemma peek_other: "rest_is b es s v \<Longrightarrow> starts v \<Longrightarrow> v = [] \<or> hd v \<noteq> c \<Longrightarrow> peek b es s [c] = (after es v s, False)"
  using peek_rest [of b es s v "[c]"] by auto

lemma after_Cons [simp]: "after es (c # v) k = k"
  by (simp add: after_def)

lemma after_add: "after es v (after es (u @ v) k + n) = after es v (k + n)" "after es v (after es v k) = after es v k"
  by (auto simp: after_def)

text \<open>The text of a simple command does not start with a bracket.\<close>

lemma hd_words:
  assumes "exec_ok (Words rs ws)" "v = [] \<or> hd v \<in> set ''|)&;''"
  shows "p_exec (Words rs ws) @ v = [] \<or> hd (p_exec (Words rs ws) @ v) \<noteq> CHR ''(''"
proof (cases rs)
  case Nil
  show ?thesis
  proof (cases ws)
    case (Cons y ws')
    then show ?thesis using assms(1) Nil by (cases y; cases "fst y") (auto simp: p_words_Cons p_redirs_def word_ok_def word_char_def symbols_def)
  qed (use Nil assms(2) in \<open>auto simp: p_words_def p_redirs_def\<close>)
next
  case (Cons r rs')
  then show ?thesis by (cases r) (auto simp: p_redirs_Cons)
qed

lemma words_print:
  assumes "rest_is b es s (p_exec (Words rs ws) @ v)" "exec_ok (Words rs ws)" "starts v" "v = [] \<or> hd v \<in> set ''|)&;''" "es - s < n"
  shows "\<exists>c. parseexec (Suc n) b es s = Inr (c, after es v (s + length (p_exec (Words rs ws)))) \<and> strings b c = m_exec (Words rs ws)"
proof -
  let ?s = "after es (p_redirs rs @ p_words ws @ v) s"
  let ?t = "after es (p_words ws @ v) (?s + length (p_redirs rs))"
  have ok: "redirs_ok rs" "\<forall>(w, rs) \<in> set ws. word_ok w \<and> redirs_ok rs" "length ws < MAXARGS" using assms(2) by simp_all
  have r: "rest_is b es ?s (p_redirs rs @ p_words ws @ v)" using assms(1) by (intro rest_after) simp
  have st: "starts (p_words ws @ v)" by (intro starts_append starts_words ok assms(3))
  have len: "length (p_redirs rs) + length (p_words ws) < n" using rest_length [OF assms(1)] assms(5) by simp
  then have nm: "length rs < n" "length (p_words ws) < n" using length_redirs [of rs] by simp_all
  obtain d where d: "parseredirs n b es execcmd ?s = Inr (d, ?t)" "strings b d = foldl m_redir (S_exec []) rs" "nargs d = Some 0"
    using parseredirs_print [OF r ok(1) st hd_words_redir [OF ok(2) assms(4)] nm(1), of execcmd] by (auto simp: execcmd_def)
  obtain c where "exec_args n b es 0 d ?t = Inr (c, after es v (?t + length (p_words ws)))"
    "strings b c = foldl m_redir (foldl s_add (strings b d) (map fst ws)) (concat (map snd ws))"
    using exec_args_print [OF rest_after [OF rest_append [OF r]] ok(2) assms(3,4) d(3) _ nm(2)] ok(3) by auto
  moreover have "after es v (?t + length (p_words ws)) = after es v (s + length (p_exec (Words rs ws)))" by (simp add: after_def)
  moreover have "peek b es s ''('' = (?s, False)"
    using peek_other [OF assms(1) starts_append [OF starts_print(3) [OF assms(2)] assms(3)] hd_words [OF assms(2,4)]] by simp
  ultimately show ?thesis using d by (simp add: s_adds_redirs s_adds)
qed

lemma parse_print:
  "rest_is b es s (p_line l @ v) \<Longrightarrow> line_ok l \<Longrightarrow> starts v \<Longrightarrow> v = [] \<or> hd v \<in> set '')'' \<Longrightarrow> 4 * (es - s) + 3 < n \<Longrightarrow>
    \<exists>c. parseline n b es s = Inr (c, after es v (s + length (p_line l))) \<and> strings b c = m_line l"
  "rest_is b es s (p_pipe p @ v) \<Longrightarrow> pipe_ok p \<Longrightarrow> starts v \<Longrightarrow> v = [] \<or> hd v \<in> set '')&;'' \<Longrightarrow> 4 * (es - s) + 2 < n \<Longrightarrow>
    \<exists>c. parsepipe n b es s = Inr (c, after es v (s + length (p_pipe p))) \<and> strings b c = m_pipe p"
  "rest_is b es s (p_exec e @ v) \<Longrightarrow> exec_ok e \<Longrightarrow> starts v \<Longrightarrow> v = [] \<or> hd v \<in> set ''|)&;'' \<Longrightarrow> 4 * (es - s) + 1 < n \<Longrightarrow>
    \<exists>c. parseexec n b es s = Inr (c, after es v (s + length (p_exec e))) \<and> strings b c = m_exec e"
proof (induction l and p and e arbitrary: n s v and n s v and n s v rule: p_line_p_pipe_p_exec.induct)
  case (5 rs ws)
  then obtain m where "n = Suc m" by (cases n) auto
  then show ?case using words_print [of b es s rs ws v m] 5 by auto
next
  case (3 e)
  then obtain m where n: "n = Suc m" by (cases n) auto
  have v: "v = [] \<or> hd v \<in> set ''|)&;''" "v = [] \<or> hd v \<noteq> CHR ''|''" using 3(5) by auto
  have r: "rest_is b es s (p_exec e @ v)" using 3(2) by simp
  obtain c where "parseexec m b es s = Inr (c, after es v (s + length (p_exec e)))" "strings b c = m_exec e"
    using 3(1) [OF r _ 3(4) v(1), of m] 3(3,6) n by auto
  then show ?case using peek_other [OF rest_after [OF rest_append [OF r]] 3(4) v(2)] by (simp add: n after_add)
next
  case (4 e p)
  then obtain m where n: "n = Suc m" by (cases n) auto
  let ?t = "s + length (p_exec e)"
  let ?u = "after es (p_pipe p @ v) (?t + 2)"
  have ok: "exec_ok e" "pipe_ok p" and r: "rest_is b es s (p_exec e @ CHR ''|'' # CHR '' '' # p_pipe p @ v)" using 4(3,4) by simp_all
  have st: "starts (p_pipe p @ v)" by (intro starts_append starts_print ok 4(5))
  obtain c where "parseexec m b es s = Inr (c, ?t)" "strings b c = m_exec e"
    using 4(1) [OF r ok(1), of m] 4(7) n by (auto simp: starts_def whitespace_def)
  moreover have pk: "peek b es ?t ''|'' = (?t, True)" "eat b es ?t = ?u" "rest_is b es ?u (p_pipe p @ v)"
    using peek_sym [OF rest_append [OF r] st] by simp_all
  moreover have "4 * (es - ?u) + 2 < m" using 4(7) n rest_length [OF r] by (auto simp: after_def)
  from 4(2) [OF pk(3) ok(2) 4(5,6) this] obtain d where "parsepipe m b es ?u = Inr (d, after es v (?u + length (p_pipe p)))" "strings b d = m_pipe p" by auto
  ultimately show ?case by (simp add: n pipecmd_def after_add add.assoc)
next
  case (1 p k)
  then obtain m where n: "n = Suc m" by (cases n) auto
  let ?t = "after es (p_amps k @ v) (s + length (p_pipe p))"
  have r: "rest_is b es s (p_pipe p @ p_amps k @ v)" using 1(2) by simp
  have st: "starts (p_amps k @ v)" by (intro starts_append starts_amps 1(4))
  have hd: "p_amps k @ v = [] \<or> hd (p_amps k @ v) \<in> set '')&;''" "v = [] \<or> hd v \<noteq> CHR ''&''" "v = [] \<or> hd v \<noteq> CHR '';''"
    using 1(5) by (cases k; auto simp: p_amps_def)+
  obtain c where "parsepipe m b es s = Inr (c, ?t)" "strings b c = m_pipe p"
    using 1(1) [OF r _ st hd(1), of m] 1(3,6) n by auto
  moreover have ra: "rest_is b es ?t (p_amps k @ v)" by (rule rest_after [OF rest_append [OF r]])
  moreover have "k < m" using rest_length [OF r] 1(6) n by (simp add: length_amps)
  from amps_print [OF ra 1(4) hd(2) this] have "amps m b es c ?t = Inr ((BACK ^^ k) c, after es v (?t + length (p_amps k)))" for c .
  moreover note peek_other [OF rest_after [OF rest_append [OF ra]] 1(4) hd(3)]
  ultimately show ?case by (simp add: n strings_backs after_add add.assoc)
next
  case (2 p k l)
  then obtain m where n: "n = Suc m" by (cases n) auto
  let ?v = "CHR '';'' # CHR '' '' # p_line l @ v"
  let ?t = "s + length (p_pipe p)"
  let ?u = "?t + length (p_amps k)"
  let ?w = "after es (p_line l @ v) (?u + 2)"
  have ok: "pipe_ok p" "line_ok l" and r: "rest_is b es s (p_pipe p @ p_amps k @ ?v)" using 2(3,4) by simp_all
  have sv: "starts ?v" by (simp add: starts_def whitespace_def)
  have st: "starts (p_amps k @ ?v)" "starts (p_line l @ v)" by (intro starts_append starts_amps sv starts_print ok 2(5))+
  have hd: "p_amps k @ ?v = [] \<or> hd (p_amps k @ ?v) \<in> set '')&;''" by (cases k) (auto simp: p_amps_def)
  obtain c where "parsepipe m b es s = Inr (c, ?t)" "strings b c = m_pipe p"
    using 2(1) [OF r ok(1) st(1) hd, of m] 2(7) n by (auto simp: after_def)
  moreover have "k < m" using rest_length [OF r] 2(7) n by (simp add: length_amps)
  then have "amps m b es c ?t = Inr ((BACK ^^ k) c, ?u)" for c using amps_print [OF rest_append [OF r] sv, of m c] by simp
  moreover have pk: "peek b es ?u '';'' = (?u, True)" "eat b es ?u = ?w" "rest_is b es ?w (p_line l @ v)"
    using peek_sym [OF rest_append [OF rest_append [OF r]] st(2)] by simp_all
  moreover have "4 * (es - ?w) + 3 < m" using 2(7) n rest_length [OF r] by (auto simp: after_def)
  from 2(2) [OF pk(3) ok(2) 2(5,6) this] obtain d where "parseline m b es ?w = Inr (d, after es v (?w + length (p_line l)))" "strings b d = m_line l" by auto
  ultimately show ?case by (simp add: n strings_backs listcmd_def after_add add.assoc)
next
  case (6 l rs)
  then obtain m where n: "n = Suc (Suc m)" by (cases n; cases "n - 1") auto
  let ?v = "CHR '')'' # CHR '' '' # p_redirs rs @ v"
  have r: "rest_is b es s (CHR ''('' # CHR '' '' # p_line l @ ?v)" and ok: "line_ok l" "redirs_ok rs" using 6(2,3) by simp_all
  have st3: "starts ?v" by (simp add: starts_def whitespace_def)
  have st: "starts (p_line l @ ?v)" "starts (p_redirs rs @ v)" by (intro starts_append starts_redirs starts_print ok st3 6(4))+
  have pk: "peek b es s ''('' = (s, True)" "eat b es s = s + 2" "rest_is b es (s + 2) (p_line l @ ?v)"
    using peek_sym [OF r st(1)] by (simp_all add: after_def)
  have es: "4 * (es - (s + 2)) + 3 < m" using 6(6) n rest_length [OF r] by simp
  let ?t = "s + 2 + length (p_line l)"
  let ?u = "after es (p_redirs rs @ v) (?t + 2)"
  obtain c where c: "parseline m b es (s + 2) = Inr (c, ?t)" "strings b c = m_line l"
    using 6(1) [OF pk(3) ok(1) st3 _ es] by auto
  have pt: "peek b es ?t '')'' = (?t, True)" "eat b es ?t = ?u" "rest_is b es ?u (p_redirs rs @ v)"
    using peek_sym [OF rest_append [OF pk(3)] st(2)] by simp_all
  have "length rs < m" using rest_length [OF r] 6(6) n length_redirs [of rs] by simp
  then obtain d where "parseredirs m b es c ?u = Inr (d, after es v (?u + length (p_redirs rs)))" "strings b d = foldl m_redir (m_line l) rs"
    using parseredirs_print [OF pt(3) ok(2) 6(4), of m c] 6(5) c(2) by auto
  then show ?case using pk c pt by (simp add: n after_add add.assoc)
qed

end
