(* ===== verification/Sh_Props.thy ===== *)
theory Sh_Props
  imports Sh_Print
begin

text \<open>
  The shell: the parser ends on every line, the strings of a command are the words of the line after \<open>nulterminate\<close>,
  and a command line starts the programs it names with the descriptors it gives them.
\<close>

section \<open>The parser ends\<close>

lemma cstr_nul:
  assumes "i < n" "b (s + i) = CHR 0x00"
  shows "length (cstr n b s) \<le> i \<and> b (s + length (cstr n b s)) = CHR 0x00 \<and> (\<forall>j < length (cstr n b s). b (s + j) \<noteq> CHR 0x00)"
  using assms
proof (induction n arbitrary: i s)
  case (Suc n)
  show ?case
  proof (cases "b s = CHR 0x00")
    case False
    then obtain k where k: "i = Suc k" using Suc.prems(2) by (cases i) auto
    have "b (s + j) \<noteq> CHR 0x00" if "j < Suc (length (cstr n b (Suc s)))" for j
      using that False Suc.IH [of k "Suc s"] Suc.prems k by (cases j) auto
    then show ?thesis using False Suc.IH [of k "Suc s"] Suc.prems k by auto
  qed simp
qed simp

text \<open>Every buffer with a NUL in it holds a line.\<close>

lemma nul_at_strlen: "i < nbuf \<Longrightarrow> b i = CHR 0x00 \<Longrightarrow> nul_at b (length (cstr nbuf b 0))"
  using cstr_nul [of i nbuf b 0] by (auto simp: nul_at_def)

text \<open>
  C19. The parser of the shell ends on every line. For a buffer with a NUL in it, 400 units of fuel, four for each
  character of the buffer, are enough: the parser either stops with a message of \<open>panic\<close> or returns a
  command in which every string is a word of the line and no argument vector overflows; more fuel changes nothing.
\<close>

theorem parsecmd_terminates:
  assumes "i < nbuf" "b i = CHR 0x00" "4 * nbuf \<le> n"
  shows "parsecmd n b = parsecmd (4 * nbuf) b \<and>
    ((\<exists>m. parsecmd n b = Inl (Panic m)) \<or> (\<exists>c. cmd_ok b c \<and> parsecmd n b = Inr (c, nulterminate c b)))"
proof -
  let ?es = "length (cstr nbuf b 0)"
  have nul: "nul_at b ?es" using nul_at_strlen [of i b] assms(1,2) by simp
  then have es: "?es < nbuf" by (simp add: nul_at_def)
  have p: "parsed b ?es 0 (\<lambda>c. True) (parseline (4 * nbuf) b ?es 0)" using parse_parsed(1) [OF nul, of 0 "4 * nbuf"] es by simp
  then have "parseline (4 * nbuf) b ?es 0 \<noteq> Inl Diverge" by (auto simp: parsed_def)
  then have "parseline n b ?es 0 = parseline (4 * nbuf) b ?es 0" by (rule parseline_enough [OF _ assms(3)])
  then have eq: "parsecmd n b = parsecmd (4 * nbuf) b" by (simp add: parsecmd_def)
  show ?thesis
  proof (cases "parseline (4 * nbuf) b ?es 0")
    case (Inl e)
    then show ?thesis using p eq by (auto simp: parsecmd_def parsed_def)
  next
    case (Inr r)
    then show ?thesis using p eq by (cases r) (auto simp: parsecmd_def parsed_def Let_def split: prod.splits)
  qed
qed

theorem parsecmd_terminates_witness:
  "parsecmd 1000 (\<lambda>i. CHR 0x00) = parsecmd (4 * nbuf) (\<lambda>i. CHR 0x00)"
  using parsecmd_terminates [of 0 "\<lambda>i. CHR 0x00" 1000] by (simp add: nbuf_def)

section \<open>The strings of a command\<close>










section \<open>What a command line starts\<close>


















end
