(* ===== verification/Mp.thy ===== *)
theory Mp
  imports Spinlock Mmu
begin

text \<open>
  Finding the processors, src/source/mp.c. The tables of the firmware are read through \<open>rd\<close>, memory as a function of
  kernel addresses. A pointer into them is a 32-bit word. The result carries what \<open>mpinit\<close> stores in \<open>lapic\<close> and
  \<open>ioapicid\<close> and what it writes to ports; the CPUs are those of the machine state.
\<close>

section \<open>The tables\<close>

definition mem_bytes :: "(uint \<Rightarrow> uchar) \<Rightarrow> uint \<Rightarrow> nat \<Rightarrow> uchar list" where
  "mem_bytes rd p n = map (\<lambda>i. rd (p + of_nat i)) [0..<n]"

definition mem16 :: "(uint \<Rightarrow> uchar) \<Rightarrow> uint \<Rightarrow> uint" where
  "mem16 rd p = ucast (rd p) OR push_bit 8 (ucast (rd (p + 1)))"

definition mem32 :: "(uint \<Rightarrow> uchar) \<Rightarrow> uint \<Rightarrow> uint" where
  "mem32 rd p = mem16 rd p OR push_bit 16 (mem16 rd (p + 2))"

text \<open>\<open>struct mp\<close>\<close>

abbreviation (input) sizeof_mp :: nat where "sizeof_mp \<equiv> 16"

definition mp_physaddr :: "(uint \<Rightarrow> uchar) \<Rightarrow> uint \<Rightarrow> uint" where
  "mp_physaddr rd p = mem32 rd (p + 4)"

definition mp_imcrp :: "(uint \<Rightarrow> uchar) \<Rightarrow> uint \<Rightarrow> uchar" where
  "mp_imcrp rd p = rd (p + 12)"

text \<open>\<open>struct mpconf\<close>\<close>

abbreviation (input) sizeof_mpconf :: uint where "sizeof_mpconf \<equiv> 44"

definition conf_length :: "(uint \<Rightarrow> uchar) \<Rightarrow> uint \<Rightarrow> uint" where
  "conf_length rd p = mem16 rd (p + 4)"

definition conf_version :: "(uint \<Rightarrow> uchar) \<Rightarrow> uint \<Rightarrow> uchar" where
  "conf_version rd p = rd (p + 6)"

definition conf_lapicaddr :: "(uint \<Rightarrow> uchar) \<Rightarrow> uint \<Rightarrow> uint" where
  "conf_lapicaddr rd p = mem32 rd (p + 36)"

text \<open>The types of the entries and their sizes; the second byte of a processor or I/O APIC entry is its id.\<close>

abbreviation (input) MPPROC :: uchar where "MPPROC \<equiv> 0x00"
abbreviation (input) MPBUS :: uchar where "MPBUS \<equiv> 0x01"
abbreviation (input) MPIOAPIC :: uchar where "MPIOAPIC \<equiv> 0x02"
abbreviation (input) MPIOINTR :: uchar where "MPIOINTR \<equiv> 0x03"
abbreviation (input) MPLINTR :: uchar where "MPLINTR \<equiv> 0x04"

abbreviation (input) sizeof_mpproc :: uint where "sizeof_mpproc \<equiv> 20"
abbreviation (input) sizeof_mpioapic :: uint where "sizeof_mpioapic \<equiv> 8"

section \<open>The search\<close>

text \<open>\<open>sum\<close>: the bytes are added as \<open>int\<close>s and the result is cut to a byte.\<close>

definition sum_bytes :: "(uint \<Rightarrow> uchar) \<Rightarrow> uint \<Rightarrow> nat \<Rightarrow> uchar" where
  "sum_bytes rd addr len = ucast (fold (\<lambda>b (s :: cint). s + ucast b) (mem_bytes rd addr len) 0)"

text \<open>The loop visits every sixteenth address from \<open>addr\<close> as long as it is below \<open>e\<close>.\<close>

definition mpsearch1 :: "(uint \<Rightarrow> uchar) \<Rightarrow> uint \<Rightarrow> nat \<Rightarrow> uint option" where
  "mpsearch1 rd a len =
     (let addr = P2V a;
          e = addr + of_nat len
      in find (\<lambda>p. mem_bytes rd p 4 = [0x5F, 0x4D, 0x50, 0x5F] \<and> sum_bytes rd p sizeof_mp = 0)
           (takeWhile (\<lambda>p. p < e) (map (\<lambda>k. addr + of_nat (k * sizeof_mp)) [0..<len div sizeof_mp])))"

definition mpsearch :: "(uint \<Rightarrow> uchar) \<Rightarrow> uint option" where
  "mpsearch rd =
     (let bda = P2V 0x400;
          p = push_bit 4 (push_bit 8 (ucast (rd (bda + 0x0F))) OR ucast (rd (bda + 0x0E))) in
      case (if p \<noteq> 0 then mpsearch1 rd p 1024
            else mpsearch1 rd ((push_bit 8 (ucast (rd (bda + 0x14))) OR ucast (rd (bda + 0x13))) * 1024 - 1024) 1024) of
        Some mp \<Rightarrow> Some mp
      | None \<Rightarrow> mpsearch1 rd 0xF0000 0x10000)"

text \<open>The result and \<open>*pmp\<close>.\<close>

definition mpconfig :: "(uint \<Rightarrow> uchar) \<Rightarrow> (uint \<times> uint) option" where
  "mpconfig rd =
     (case mpsearch rd of
        None \<Rightarrow> None
      | Some mp \<Rightarrow>
          if mp_physaddr rd mp = 0 then None
          else
            let conf = P2V (mp_physaddr rd mp) in
            if mem_bytes rd conf 4 \<noteq> [0x50, 0x43, 0x4D, 0x50] then None
            else if conf_version rd conf \<noteq> 1 \<and> conf_version rd conf \<noteq> 4 then None
            else if sum_bytes rd conf (unat (conf_length rd conf)) \<noteq> 0 then None
            else Some (conf, mp))"

section \<open>The configuration\<close>

record mpinfo =
  mp_lapic :: uint
  mp_ioapicid :: uchar
  mp_ports :: "(uint \<times> uchar) list"

text \<open>A processor entry: \<open>cpus[ncpu].apicid = proc->apicid; ncpu++\<close>\<close>

definition add_cpu :: "uchar \<Rightarrow> 'z cpuv_scheme \<Rightarrow> 'z cpuv_scheme" where
  "add_cpu i s =
     (if ncpu s < NCPU
      then s\<lparr>cpus := (cpus s)(ncpu s := (cpus s (ncpu s))\<lparr>apicid := i\<rparr>), ncpu := ncpu s + 1\<rparr>
      else s)"

text \<open>
  The loop over the entries, for at most \<open>n\<close> of them. The \<open>break\<close> of the last case leaves the \<open>switch\<close> and not the
  loop, and \<open>p\<close> stays where it is.
\<close>

fun mp_entries ::
  "nat \<Rightarrow> (uint \<Rightarrow> uchar) \<Rightarrow> uint \<Rightarrow> uint \<Rightarrow> uchar \<Rightarrow> bool \<Rightarrow> 'z cpuv_scheme \<Rightarrow> (uchar \<times> bool \<times> 'z cpuv_scheme) res"
where
  "mp_entries n rd e p ioapicid ismp s =
     (if \<not> p < e then Inr (ioapicid, ismp, s)
      else case n of 0 \<Rightarrow> Inl Diverge
      | Suc k \<Rightarrow>
          if rd p = MPPROC then mp_entries k rd e (p + sizeof_mpproc) ioapicid ismp (add_cpu (rd (p + 1)) s)
          else if rd p = MPIOAPIC then mp_entries k rd e (p + sizeof_mpioapic) (rd (p + 1)) ismp s
          else if rd p = MPBUS \<or> rd p = MPIOINTR \<or> rd p = MPLINTR then mp_entries k rd e (p + 8) ioapicid ismp s
          else mp_entries k rd e p ioapicid False s)"

declare mp_entries.simps [simp del]

text \<open>\<open>in23\<close> is what port 0x23 reads as.\<close>

definition mpinit :: "nat \<Rightarrow> (uint \<Rightarrow> uchar) \<Rightarrow> uchar \<Rightarrow> 'z cpuv_scheme \<Rightarrow> (mpinfo \<times> 'z cpuv_scheme) res" where
  "mpinit n rd in23 s =
     (case mpconfig rd of
        None \<Rightarrow> Inl (Panic ''Expect to run on an SMP'')
      | Some (conf, mp) \<Rightarrow>
          bindE (mp_entries n rd (conf + conf_length rd conf) (conf + sizeof_mpconf) 0 True s) (\<lambda>(ioapicid, ismp, s).
            if \<not> ismp then Inl (Panic ''Didn't find a suitable machine'')
            else
              Inr (\<lparr>mp_lapic = conf_lapicaddr rd conf, mp_ioapicid = ioapicid,
                    mp_ports = (if mp_imcrp rd mp \<noteq> 0 then [(0x22, 0x70), (0x23, in23 OR 1)] else [])\<rparr>, s)))"

section \<open>What the table says\<close>

text \<open>A table as the list of its entries, each with its type and its second byte.\<close>

definition entry_size :: "uchar \<Rightarrow> nat" where
  "entry_size t = (if t = MPPROC then 20 else 8)"

fun table_at :: "(uint \<Rightarrow> uchar) \<Rightarrow> uint \<Rightarrow> (uchar \<times> uchar) list \<Rightarrow> bool" where
  "table_at rd p [] = True"
| "table_at rd p ((t, i) # es) = (rd p = t \<and> rd (p + 1) = i \<and> table_at rd (p + of_nat (entry_size t)) es)"

definition table_size :: "(uchar \<times> uchar) list \<Rightarrow> nat" where
  "table_size es = sum_list (map (\<lambda>(t, i). entry_size t) es)"

definition known :: "uchar \<Rightarrow> bool" where
  "known t \<longleftrightarrow> t \<in> {MPPROC, MPBUS, MPIOAPIC, MPIOINTR, MPLINTR}"

definition cpu_ids :: "(uchar \<times> uchar) list \<Rightarrow> uchar list" where
  "cpu_ids es = map snd (filter (\<lambda>(t, i). t = MPPROC) es)"

definition last_ioapic :: "(uchar \<times> uchar) list \<Rightarrow> uchar \<Rightarrow> uchar" where
  "last_ioapic es x = last (x # map snd (filter (\<lambda>(t, i). t = MPIOAPIC) es))"

lemma table_size_Cons [simp]: "table_size ((t, i) # es) = entry_size t + table_size es"
  by (simp add: table_size_def)

lemma unat_plus_small:
  assumes "unat (p :: uint) + k \<le> unat (e :: uint)"
  shows "unat (p + of_nat k) = unat p + k"
proof -
  have "unat e < 2 ^ 32" using unsigned_less [of e, where 'a = nat] by simp
  then have "k mod 2 ^ 32 = k" "unat p + k < 2 ^ 32" using assms by simp_all
  then show ?thesis by (simp add: unat_word_ariths unat_of_nat)
qed

text \<open>The loop on a table of known entries.\<close>

lemma mp_entries_known:
  fixes s :: "'z cpuv_scheme"
  assumes "table_at rd p es" "\<forall>(t, i) \<in> set es. known t" "unat p + table_size es \<le> unat e"
  shows "mp_entries (length es + n) rd e p x ismp s =
    mp_entries n rd e (p + of_nat (table_size es)) (last_ioapic es x) ismp (fold add_cpu (cpu_ids es) s)"
  using assms
proof (induction es arbitrary: p x s)
  case Nil
  then show ?case by (simp add: table_size_def last_ioapic_def cpu_ids_def)
next
  case (Cons y es)
  obtain t i where y: "y = (t, i)" by fastforce
  let ?q = "p + of_nat (entry_size t)"
  have q: "unat ?q = unat p + entry_size t" using Cons.prems(3) unat_plus_small [of p "entry_size t" e] by (simp add: y)
  have "0 < entry_size t" by (simp add: entry_size_def)
  then have lt: "p < e" using Cons.prems(3) by (simp add: y uint_less_iff_unat)
  have IH: "mp_entries (length es + n) rd e ?q x' ismp s' =
    mp_entries n rd e (p + of_nat (table_size (y # es))) (last_ioapic es x') ismp (fold add_cpu (cpu_ids es) s')" for x' and s' :: "'z cpuv_scheme"
    using Cons.IH [of ?q x' s'] Cons.prems q by (simp add: y ac_simps)
  have "known t" "rd p = t" "rd (p + 1) = i" using Cons.prems(1,2) by (simp_all add: y)
  then show ?case
    using lt IH by (subst mp_entries.simps) (auto simp: y known_def entry_size_def cpu_ids_def last_ioapic_def)
qed

lemma mp_entries_short:
  assumes "table_at rd p es" "\<forall>(t, i) \<in> set es. known t" "unat p + table_size es \<le> unat e" "n < length es"
  shows "mp_entries n rd e p x ismp s = Inl Diverge"
proof -
  have "\<exists>us t i vs. es = us @ (t, i) # vs \<and> length us = n" using assms(4) by (metis id_take_nth_drop length_take less_imp_le min.absorb2 surj_pair)
  then obtain us t i vs where es: "es = us @ (t, i) # vs" "length us = n" by blast
  have app: "table_at rd q (a @ b) \<longleftrightarrow> table_at rd q a \<and> table_at rd (q + of_nat (table_size a)) b" for q a b
    by (induction a arbitrary: q) (auto simp: table_size_def ac_simps)
  have sz: "table_size es = table_size us + entry_size t + table_size vs" "0 < entry_size t" by (simp_all add: es table_size_def entry_size_def)
  have "mp_entries n rd e p x ismp s = mp_entries 0 rd e (p + of_nat (table_size us)) (last_ioapic us x) ismp (fold add_cpu (cpu_ids us) s)"
    using mp_entries_known [of rd p us e 0 x ismp s] assms(1-3) sz es by (auto simp: app)
  moreover have "p + of_nat (table_size us) < e" using unat_plus_small [of p "table_size us" e] assms(3) sz by (simp add: uint_less_iff_unat)
  ultimately show ?thesis by (simp add: mp_entries.simps)
qed

text \<open>The CPUs that have been added.\<close>

lemma fold_add_cpu:
  assumes "ncpu s \<le> NCPU"
  shows "ncpu (fold add_cpu is s) = min NCPU (ncpu s + length is) \<and>
    (\<forall>k. apicid (cpus (fold add_cpu is s) k) = (if ncpu s \<le> k \<and> k < min NCPU (ncpu s + length is) then is ! (k - ncpu s) else apicid (cpus s k)))"
  using assms
proof (induction "is" arbitrary: s)
  case (Cons i "is")
  have "ncpu (add_cpu i s) \<le> NCPU" using Cons.prems by (simp add: add_cpu_def)
  note IH = Cons.IH [OF this]
  show ?case
  proof (cases "ncpu s < NCPU")
    case True
    then have a: "ncpu (add_cpu i s) = ncpu s + 1" "\<And>k. apicid (cpus (add_cpu i s) k) = (if k = ncpu s then i else apicid (cpus s k))"
      by (simp_all add: add_cpu_def)
    show ?thesis using IH True by (auto simp: a nth_Cons' Suc_diff_le)
  next
    case False
    then have "add_cpu i s = s" by (simp add: add_cpu_def)
    then show ?thesis using IH Cons.prems False by auto
  qed
qed auto

lemma fold_add_cpu_same: "lapicid (fold add_cpu is s) = lapicid s" "fl_if (fold add_cpu is s) = fl_if s"
  by (induction "is" arbitrary: s) (auto simp: add_cpu_def)

lemma find_cpu_listed: "k < n \<Longrightarrow> apicid (cs (i + k)) = a \<Longrightarrow> \<exists>j. find_cpu n i a cs = Some j \<and> i \<le> j \<and> j \<le> i + k \<and> apicid (cs j) = a"
proof (induction n arbitrary: i k)
  case (Suc n)
  show ?case
  proof (cases "apicid (cs i) = a")
    case False
    then obtain m where m: "k = Suc m" using Suc.prems(2) by (cases k) auto
    then show ?thesis using Suc.IH [of m "Suc i"] Suc.prems False by auto
  qed simp
qed simp

text \<open>
  C22. \<open>mpinit\<close> finds the processors. When the firmware has a configuration table whose entries are all of the types
  the code knows, the loop over them ends, and the CPUs of the kernel are the processors of the table in its
  order, at most \<open>NCPU\<close> of them, with their APIC ids; \<open>mycpu\<close> then finds the executing CPU when it is one of them.
\<close>

theorem mpinit_correct:
  fixes s :: "'z cpuv_scheme"
  assumes "mpconfig rd = Some (conf, mp)" "table_at rd (conf + sizeof_mpconf) es" "\<forall>(t, i) \<in> set es. known t"
    and "conf + conf_length rd conf = conf + sizeof_mpconf + of_nat (table_size es)" "unat (conf + sizeof_mpconf) + table_size es < 2 ^ 32"
    and "ncpu s = 0" "length es \<le> n" "\<not> fl_if s"
  shows "\<exists>info t. mpinit n rd in23 s = Inr (info, t) \<and> mp_lapic info = conf_lapicaddr rd conf \<and>
    mp_ioapicid info = last_ioapic es 0 \<and> ncpu t = min NCPU (length (cpu_ids es)) \<and>
    (\<forall>k < ncpu t. apicid (cpus t k) = cpu_ids es ! k) \<and>
    (lapicid s \<in> set (take NCPU (cpu_ids es)) \<longrightarrow> (\<exists>c. mycpu t = Inr c \<and> apicid (cpus t c) = lapicid s))"
proof -
  let ?p = "conf + sizeof_mpconf" and ?e = "conf + conf_length rd conf" and ?t = "fold add_cpu (cpu_ids es) s"
  have e: "unat ?e = unat ?p + table_size es" using assms(5) unfolding assms(4) by (simp add: unat_word_ariths unat_of_nat)
  have "mp_entries n rd ?e ?p 0 True s = Inr (last_ioapic es 0, True, ?t)"
    using mp_entries_known [OF assms(2,3), of ?e "n - length es" 0 True s] mp_entries.simps [of "n - length es" rd ?e ?e] assms(7) e
    by (simp add: assms(4) [symmetric])
  then obtain info where i: "mpinit n rd in23 s = Inr (info, ?t)" "mp_lapic info = conf_lapicaddr rd conf" "mp_ioapicid info = last_ioapic es 0"
    by (simp add: mpinit_def assms(1))
  have nc: "ncpu ?t = min NCPU (length (cpu_ids es))" "\<And>k. k < ncpu ?t \<Longrightarrow> apicid (cpus ?t k) = cpu_ids es ! k"
    using fold_add_cpu [of s "cpu_ids es"] assms(6) by auto
  note same = fold_add_cpu_same [of "cpu_ids es" s]
  have "\<exists>c. mycpu ?t = Inr c \<and> apicid (cpus ?t c) = lapicid s" if l: "lapicid s \<in> set (take NCPU (cpu_ids es))"
  proof -
    obtain k where "k < length (take NCPU (cpu_ids es))" "take NCPU (cpu_ids es) ! k = lapicid s"
      using l unfolding in_set_conv_nth by blast
    then have k: "k < ncpu ?t" "apicid (cpus ?t k) = lapicid s" using nc by simp_all
    then show ?thesis using find_cpu_listed [of k "ncpu ?t" "cpus ?t" 0 "lapicid s"] assms(8) same by (auto simp: mycpu_def)
  qed
  then show ?thesis using i nc by blast
qed

text \<open>
  C23. On a table with an entry of another type \<open>mpinit\<close> never returns: the \<open>break\<close> leaves only the \<open>switch\<close>, the
  pointer is not advanced, and the panic after the loop is not reached.
\<close>

theorem mpinit_unknown_entry:
  assumes "mpconfig rd = Some (conf, mp)" "table_at rd (conf + sizeof_mpconf) es" "\<forall>(t, i) \<in> set es. known t"
    and "unat (conf + sizeof_mpconf) + table_size es < unat (conf + conf_length rd conf)"
    and "\<not> known (rd (conf + sizeof_mpconf + of_nat (table_size es)))"
  shows "mpinit n rd in23 s = Inl Diverge"
proof -
  let ?p = "conf + sizeof_mpconf" and ?e = "conf + conf_length rd conf"
  let ?q = "?p + of_nat (table_size es)"
  have "?q < ?e" using unat_plus_small [of ?p "table_size es" ?e] assms(4) by (simp add: uint_less_iff_unat)
  then have stuck: "mp_entries m rd ?e ?q x b u = Inl Diverge" for m x b and u :: "'a cpuv_scheme"
    using assms(5) by (induction m arbitrary: x b) (subst mp_entries.simps; auto simp: known_def)+
  have "mp_entries n rd ?e ?p 0 True s = Inl Diverge"
  proof (cases "n < length es")
    case True
    then show ?thesis using mp_entries_short [OF assms(2,3), of ?e n 0 True s] assms(4) by simp
  next
    case False
    then show ?thesis using mp_entries_known [OF assms(2,3), of ?e "n - length es" 0 True s] assms(4) stuck by simp
  qed
  then show ?thesis by (simp add: mpinit_def assms(1))
qed

section \<open>A machine with two processors\<close>

text \<open>
  The floating pointer is at 0x9FC00, where the extended BIOS data area starts, the configuration table at 0x1000:
  two processors with the ids 5 and 7 and an I/O APIC between them. The type \<open>t\<close> of the last entry and the
  checksum \<open>c\<close> are left open.
\<close>

definition mx_conf :: "uchar \<Rightarrow> uchar \<Rightarrow> uchar list" where
  "mx_conf t c = [0x50, 0x43, 0x4D, 0x50, 0x5C, 0, 4, c] @ replicate 26 0 @ [3, 0, 0, 0, 0xE0, 0xFE, 0, 0, 0, 0] @
     [0, 5, 0x14, 3] @ replicate 16 0 @ [2, 1, 0x11, 1, 0, 0, 0xC0, 0xFE] @ [t, 7] @ replicate 18 0"

definition mx_rd :: "uchar \<Rightarrow> uchar \<Rightarrow> uint \<Rightarrow> uchar" where
  "mx_rd t c a =
     (if unat (a - 0x80001000) < 92 then mx_conf t c ! unat (a - 0x80001000)
      else if unat (a - 0x8009FC00) < 16 then [0x5F, 0x4D, 0x50, 0x5F, 0, 0x10, 0, 0, 1, 4, 0x90, 0, 0, 0, 0, 0] ! unat (a - 0x8009FC00)
      else if a = 0x8000040E then 0xC0 else if a = 0x8000040F then 0x9F else 0)"

lemma mx_bytes: "n \<le> 92 \<Longrightarrow> mem_bytes (mx_rd t c) 0x80001000 n = take n (mx_conf t c)"
  by (rule nth_equalityI) (auto simp: mem_bytes_def mx_rd_def mx_conf_def unat_of_nat)

lemma mx_search: "mpsearch (mx_rd t c) = Some 0x8009FC00"
proof -
  have "[0..<64 :: nat] = 0 # [1..<64]" by (simp add: upt_conv_Cons)
  then have "mpsearch1 (mx_rd t c) 0x9FC00 1024 = Some 0x8009FC00"
    by (simp add: mpsearch1_def P2V_def mem_bytes_def sum_bytes_def mx_rd_def upt_rec)
  then show ?thesis by (simp add: mpsearch_def P2V_def mx_rd_def)
qed

lemma fold_zeros: "((\<lambda>s. s) ^^ n) (x :: cint) = x"
  by (induction n) auto

lemma mx_config:
  assumes "(t, c) = (0, 0x99) \<or> (t, c) = (9, 0x90)"
  shows "mpconfig (mx_rd t c) = Some (0x80001000, 0x8009FC00)"
proof -
  have h: "mp_physaddr (mx_rd t c) 0x8009FC00 = 0x1000" "conf_length (mx_rd t c) 0x80001000 = 92" "conf_version (mx_rd t c) 0x80001000 = 4"
    by (simp_all add: mp_physaddr_def mem32_def mem16_def conf_length_def conf_version_def mx_rd_def mx_conf_def)
  have "sum_bytes (mx_rd t c) 0x80001000 92 = 0"
    using assms by (auto simp: sum_bytes_def mx_bytes mx_conf_def fold_zeros)
  then show ?thesis by (simp add: mpconfig_def mx_search h P2V_def mx_bytes) (simp add: mx_conf_def)
qed

definition mx_cpu :: cpuv where
  "mx_cpu = \<lparr>lapicid = 7, fl_if = False, cpus = (\<lambda>c. \<lparr>apicid = 0, ncli = 0, intena = False, cproc = None, started = False\<rparr>),
     ncpu = 0, locks = (\<lambda>l. \<lparr>locked = 0, lname = [], lcpu = None\<rparr>)\<rparr>"

lemma mx_table: "table_at (mx_rd t c) (0x80001000 + sizeof_mpconf) [(0, 5), (2, 1)]"
  "mx_rd t c (0x80001000 + sizeof_mpconf + 28) = t" "mx_rd t c (0x80001000 + sizeof_mpconf + 29) = 7" "conf_length (mx_rd t c) 0x80001000 = 92"
  by (simp_all add: mx_rd_def mx_conf_def entry_size_def conf_length_def mem16_def nth_append)

theorem mpinit_correct_witness:
  "\<exists>info t. mpinit 3 (mx_rd 0 0x99) 0 mx_cpu = Inr (info, t) \<and> ncpu t = 2 \<and> apicid (cpus t 0) = 5 \<and> apicid (cpus t 1) = 7 \<and> mycpu t = Inr 1"
proof -
  let ?es = "[(0, 5), (2, 1), (0, 7)] :: (uchar \<times> uchar) list"
  have "table_at (mx_rd 0 0x99) (0x80001000 + sizeof_mpconf) ?es" using mx_table [of 0 "0x99"] by (simp add: entry_size_def)
  moreover have "\<forall>(t, i) \<in> set ?es. known t" by (simp add: known_def)
  moreover have sz: "table_size ?es = 48" "cpu_ids ?es = [5, 7]" by (simp_all add: table_size_def entry_size_def cpu_ids_def)
  ultimately obtain info t where r: "mpinit 3 (mx_rd 0 0x99) 0 mx_cpu = Inr (info, t)" "ncpu t = 2" "\<forall>k < ncpu t. apicid (cpus t k) = [5, 7] ! k"
    "\<exists>c. mycpu t = Inr c \<and> apicid (cpus t c) = 7"
    using mpinit_correct [OF mx_config [of 0 "0x99"], of ?es mx_cpu 3 0] mx_table(4) [of 0 "0x99"] by (auto simp: mx_cpu_def)
  then obtain c where c: "mycpu t = Inr c" "apicid (cpus t c) = 7" by blast
  have a: "apicid (cpus t 0) = 5" "apicid (cpus t 1) = 7" using r(2,3) by simp_all
  have "find_cpu 2 0 x (cpus t) = Some c \<Longrightarrow> c < 2" for x by (auto simp: numeral_2_eq_2 split: if_splits)
  then have "c < 2" using c(1) r(2) by (auto simp: mycpu_def split: if_splits option.splits)
  then have "c = 1" using a c(2) by (cases "c = 0") auto
  then show ?thesis using r(1,2) a c(1) by blast
qed

theorem mpinit_unknown_entry_witness: "mpinit 1000 (mx_rd 9 0x90) 0 mx_cpu = Inl Diverge"
proof -
  have "table_size [(0, 5), (2, 1 :: uchar)] = 28" "\<forall>(t, i) \<in> set [(0, 5), (2, 1 :: uchar)]. known t"
    by (simp_all add: table_size_def entry_size_def known_def)
  then show ?thesis
    using mpinit_unknown_entry [OF mx_config [of 9 "0x90"] mx_table(1), of 1000 0 mx_cpu] mx_table(2,4) [of 9 "0x90"] by (simp add: known_def)
qed

end
