(* ===== verification/Mutex.thy ===== *)
theory Mutex
  imports Spinlock
begin

text \<open>
  One spin lock used by several CPUs at once. \<open>acquire\<close> and \<open>release\<close> of src/source/spinlock.c are split at the accesses
  to the lock that other CPUs can see, each of them one step of one CPU, and the steps of all CPUs are
  interleaved. A CPU on its own takes exactly the steps that the functions of \<open>Spinlock\<close> compute.
\<close>

section \<open>Steps\<close>

text \<open>
  Where a CPU is: outside, in the loop of \<open>acquire\<close>, after its exchange has read 0, between \<open>acquire\<close> and \<open>release\<close>,
  in \<open>release\<close> after \<open>lk->cpu = 0\<close>, or stopped by a panic.
\<close>

datatype mpc = Outside | Spinning | Taken | Critical | Leaving | Panicked

record mstate =
  mlock :: spinlock
  mpc :: "nat \<Rightarrow> mpc"

text \<open>The test of \<open>holding\<close> on CPU \<open>c\<close>.\<close>

definition holds :: "spinlock \<Rightarrow> nat \<Rightarrow> bool" where
  "holds k c \<longleftrightarrow> locked k \<noteq> 0 \<and> lcpu k = Some c"

inductive mstep :: "nat \<Rightarrow> mstate \<Rightarrow> mstate \<Rightarrow> bool" where
  enter: "mpc m c = Outside \<Longrightarrow> \<not> holds (mlock m) c \<Longrightarrow> mstep c m (m\<lparr>mpc := (mpc m)(c := Spinning)\<rparr>)"
| enter_panic: "mpc m c = Outside \<Longrightarrow> holds (mlock m) c \<Longrightarrow> mstep c m (m\<lparr>mpc := (mpc m)(c := Panicked)\<rparr>)"
| spin: "mpc m c = Spinning \<Longrightarrow> locked (mlock m) \<noteq> 0 \<Longrightarrow> mstep c m (m\<lparr>mlock := (mlock m)\<lparr>locked := 1\<rparr>\<rparr>)"
| take: "mpc m c = Spinning \<Longrightarrow> locked (mlock m) = 0 \<Longrightarrow>
    mstep c m (m\<lparr>mlock := (mlock m)\<lparr>locked := 1\<rparr>, mpc := (mpc m)(c := Taken)\<rparr>)"
| own: "mpc m c = Taken \<Longrightarrow> mstep c m (m\<lparr>mlock := (mlock m)\<lparr>lcpu := Some c\<rparr>, mpc := (mpc m)(c := Critical)\<rparr>)"
| leave: "mpc m c = Critical \<Longrightarrow> holds (mlock m) c \<Longrightarrow>
    mstep c m (m\<lparr>mlock := (mlock m)\<lparr>lcpu := None\<rparr>, mpc := (mpc m)(c := Leaving)\<rparr>)"
| leave_panic: "mpc m c = Critical \<Longrightarrow> \<not> holds (mlock m) c \<Longrightarrow> mstep c m (m\<lparr>mpc := (mpc m)(c := Panicked)\<rparr>)"
| free: "mpc m c = Leaving \<Longrightarrow> mstep c m (m\<lparr>mlock := (mlock m)\<lparr>locked := 0\<rparr>, mpc := (mpc m)(c := Outside)\<rparr>)"

inductive_cases mstepE: "mstep c m m'"

text \<open>Any number of steps of any CPUs.\<close>

inductive mrun :: "mstate \<Rightarrow> mstate \<Rightarrow> bool" where
  stop: "mrun m m"
| step: "mrun m m' \<Longrightarrow> mstep c m' m'' \<Longrightarrow> mrun m m''"

lemma mrun_trans: "mrun m' m'' \<Longrightarrow> mrun m m' \<Longrightarrow> mrun m m''"
  by (induction rule: mrun.induct) (auto intro: mrun.intros)

lemma mrun_step: "mstep c m m' \<Longrightarrow> mrun m m'"
  by (rule mrun.step [OF mrun.stop])

section \<open>The steps are those of the functions\<close>

definition solo :: "nat \<Rightarrow> mpc \<Rightarrow> spinlock \<Rightarrow> (nat \<Rightarrow> mpc) \<Rightarrow> mstate" where
  "solo c p k f = \<lparr>mlock = k, mpc = f(c := p)\<rparr>"

text \<open>
  A CPU that takes the lock with \<open>acquire\<close> goes from outside to the critical section by steps, with the same effect
  on the lock, and one that gives it back with \<open>release\<close> goes outside again.
\<close>

lemma acquire_steps:
  assumes "cpu_ok s c" "lk_free s l"
  shows "\<exists>t. acquire l s = Inr t \<and> mrun (solo c Outside (locks s l) f) (solo c Critical (locks t l) f)"
proof -
  let ?k = "locks s l"
  have k: "locked ?k = 0" "\<not> holds ?k c" using assms(2) by (simp_all add: lk_free_def holds_def)
  have "mstep c (solo c Outside ?k f) (solo c Spinning ?k f)"
    using mstep.enter [of "solo c Outside ?k f" c] k(2) by (simp add: solo_def)
  moreover have "mstep c (solo c Spinning ?k f) (solo c Taken (?k\<lparr>locked := 1\<rparr>) f)"
    using mstep.take [of "solo c Spinning ?k f" c] k(1) by (simp add: solo_def)
  moreover have "mstep c (solo c Taken (?k\<lparr>locked := 1\<rparr>) f) (solo c Critical (?k\<lparr>locked := 1, lcpu := Some c\<rparr>) f)"
    using mstep.own [of "solo c Taken (?k\<lparr>locked := 1\<rparr>) f" c] by (simp add: solo_def)
  moreover have "locks (acquired c l s) l = ?k\<lparr>locked := 1, lcpu := Some c\<rparr>" by (simp add: lock_defs)
  ultimately show ?thesis using acquire_ok [OF assms] by (metis mrun.step mrun.stop)
qed

lemma release_steps:
  assumes "cpu_ok s c" "lk_held s c l" "0 < ncli (cpus s c)"
  shows "\<exists>t. release l s = Inr t \<and> mrun (solo c Critical (locks s l) f) (solo c Outside (locks t l) f)"
proof -
  let ?k = "locks s l"
  have k: "holds ?k c" using assms(2) by (simp add: lk_held_def holds_def)
  have "mstep c (solo c Critical ?k f) (solo c Leaving (?k\<lparr>lcpu := None\<rparr>) f)"
    using mstep.leave [of "solo c Critical ?k f" c] k by (simp add: solo_def)
  moreover have "mstep c (solo c Leaving (?k\<lparr>lcpu := None\<rparr>) f) (solo c Outside (?k\<lparr>lcpu := None, locked := 0\<rparr>) f)"
    using mstep.free [of "solo c Leaving (?k\<lparr>lcpu := None\<rparr>) f" c] by (simp add: solo_def)
  moreover have "locks (released c l s) l = ?k\<lparr>lcpu := None, locked := 0\<rparr>" by (simp add: lock_defs)
  ultimately show ?thesis using release_ok [OF assms] by (metis mrun.step mrun.stop)
qed

section \<open>Mutual exclusion\<close>

definition minit :: "string \<Rightarrow> mstate" where
  "minit name = \<lparr>mlock = \<lparr>locked = 0, lname = name, lcpu = None\<rparr>, mpc = (\<lambda>c. Outside)\<rparr>"

text \<open>The CPUs that have the lock.\<close>

definition owners :: "mstate \<Rightarrow> nat set" where
  "owners m = {c. mpc m c \<in> {Taken, Critical, Leaving}}"

text \<open>The lock is free and nobody has it, or it is taken and one CPU has it; its field \<open>cpu\<close> names that CPU in the critical section.\<close>

definition minv :: "mstate \<Rightarrow> bool" where
  "minv m \<longleftrightarrow> (\<forall>c. mpc m c \<noteq> Panicked) \<and>
     (locked (mlock m) = 0 \<and> owners m = {} \<and> lcpu (mlock m) = None \<or>
      (\<exists>c. locked (mlock m) = 1 \<and> owners m = {c} \<and> lcpu (mlock m) = (if mpc m c = Critical then Some c else None)))"

lemma owners_upd: "owners (m\<lparr>mpc := (mpc m)(c := p)\<rparr>) = (if p \<in> {Taken, Critical, Leaving} then insert c (owners m) else owners m - {c})"
  "owners (m\<lparr>mlock := k\<rparr>) = owners m"
  "owners (m\<lparr>mlock := k, mpc := (mpc m)(c := p)\<rparr>) = (if p \<in> {Taken, Critical, Leaving} then insert c (owners m) else owners m - {c})"
  by (auto simp: owners_def)

lemma minv_init: "minv (minit name)"
  by (simp add: minv_def minit_def owners_def)

lemma minv_step: "mstep c m m' \<Longrightarrow> minv m \<Longrightarrow> minv m'"
proof (induction rule: mstep.induct)
  case (enter m c)
  then have "c \<notin> owners m" by (simp add: owners_def)
  then show ?case using enter by (auto simp: minv_def owners_upd)
next
  case (enter_panic m c)
  then have False by (auto simp: minv_def holds_def owners_def split: if_splits)
  then show ?case ..
next
  case (spin m c)
  then show ?case by (auto simp: minv_def owners_upd)
next
  case (take m c)
  then show ?case by (auto simp: minv_def owners_upd owners_def)
next
  case (own m c)
  then have "c \<in> owners m" by (simp add: owners_def)
  then show ?case using own by (auto simp: minv_def owners_upd)
next
  case (leave m c)
  then have "c \<in> owners m" by (simp add: owners_def)
  then show ?case using leave by (auto simp: minv_def owners_upd)
next
  case (leave_panic m c)
  then have "c \<in> owners m" by (simp add: owners_def)
  then have False using leave_panic by (auto simp: minv_def holds_def)
  then show ?case ..
next
  case (free m c)
  then have "c \<in> owners m" by (simp add: owners_def)
  then show ?case using free by (auto simp: minv_def owners_upd)
qed

lemma minv_run: "mrun m m' \<Longrightarrow> minv m \<Longrightarrow> minv m'"
  by (induction rule: mrun.induct) (auto intro: minv_step)

text \<open>
  C10. A spin lock excludes. However the steps of the CPUs that acquire and release it are interleaved, at most one CPU
  is between the exchange that read 0 and the store that frees the lock; in its critical section the lock is set
  and names that CPU; and neither the panic of \<open>acquire\<close> nor that of \<open>release\<close> is ever reached.
\<close>

theorem mutual_exclusion:
  assumes "mrun (minit name) m"
  shows "(\<forall>c d. c \<in> owners m \<and> d \<in> owners m \<longrightarrow> c = d) \<and> (\<forall>c. mpc m c \<noteq> Panicked) \<and>
    (\<forall>c. mpc m c = Critical \<longrightarrow> locked (mlock m) = 1 \<and> lcpu (mlock m) = Some c)"
proof -
  have "minv m" by (rule minv_run [OF assms minv_init])
  moreover have "mpc m c = Critical \<Longrightarrow> c \<in> owners m" for c by (simp add: owners_def)
  ultimately show ?thesis by (auto simp: minv_def)
qed

text \<open>A run in which CPU 0 takes the lock and CPU 1 spins.\<close>

lemma mutex_run:
  fixes name :: string
  defines "k \<equiv> \<lparr>locked = 0, lname = name, lcpu = None\<rparr>" and "f \<equiv> (\<lambda>c :: nat. Outside)(1 := Spinning)"
  shows "mrun (minit name) (solo 0 Critical (k\<lparr>locked := 1, lcpu := Some 0\<rparr>) f)"
proof -
  have "f(0 := Outside) = f" by (auto simp: f_def)
  then have s1: "mstep 1 (minit name) (solo 0 Outside k f)"
    using mstep.enter [of "minit name" 1] by (simp add: minit_def solo_def k_def holds_def) (simp add: f_def)
  have s2: "mstep 0 (solo 0 Outside k f) (solo 0 Spinning k f)"
    using mstep.enter [of "solo 0 Outside k f" 0] by (simp add: solo_def k_def holds_def)
  have s3: "mstep 0 (solo 0 Spinning k f) (solo 0 Taken (k\<lparr>locked := 1\<rparr>) f)"
    using mstep.take [of "solo 0 Spinning k f" 0] by (simp add: solo_def k_def)
  have s4: "mstep 1 (solo 0 Taken (k\<lparr>locked := 1\<rparr>) f) (solo 0 Taken (k\<lparr>locked := 1\<rparr>) f)"
    using mstep.spin [of "solo 0 Taken (k\<lparr>locked := 1\<rparr>) f" 1] by (simp add: solo_def k_def f_def)
  have s5: "mstep 0 (solo 0 Taken (k\<lparr>locked := 1\<rparr>) f) (solo 0 Critical (k\<lparr>locked := 1, lcpu := Some 0\<rparr>) f)"
    using mstep.own [of "solo 0 Taken (k\<lparr>locked := 1\<rparr>) f" 0] by (simp add: solo_def)
  show ?thesis by (rule mrun.step [OF mrun.step [OF mrun.step [OF mrun.step [OF mrun.step [OF mrun.stop s1] s2] s3] s4] s5])
qed

theorem mutual_exclusion_witness:
  "1 \<notin> owners (solo 0 Critical \<lparr>locked = 1, lname = ''kmem'', lcpu = Some 0\<rparr> ((\<lambda>c. Outside)(1 := Spinning)))"
proof -
  let ?m = "solo 0 Critical \<lparr>locked = 1, lname = ''kmem'', lcpu = Some 0\<rparr> ((\<lambda>c. Outside)(1 := Spinning))"
  have "mrun (minit ''kmem'') ?m" using mutex_run [of "''kmem''"] by simp
  from mutual_exclusion [OF this] have "0 \<in> owners ?m \<and> 1 \<in> owners ?m \<longrightarrow> (0 :: nat) = 1" by blast
  moreover have "0 \<in> owners ?m" by (simp add: owners_def solo_def)
  ultimately show ?thesis by simp
qed

end
