(* ===== verification/Ioapic.thy ===== *)
theory Ioapic
  imports Console
begin

text \<open>
  The I/O APIC, src/source/ioapic.c. Its registers are a function of the index; \<open>ioapicread\<close> and \<open>ioapicwrite\<close> select
  a register and read or write it.
\<close>

abbreviation (input) REG_ID :: uint where "REG_ID \<equiv> 0x00"
abbreviation (input) REG_VER :: uint where "REG_VER \<equiv> 0x01"
abbreviation (input) REG_TABLE :: uint where "REG_TABLE \<equiv> 0x10"
abbreviation (input) INT_DISABLED :: uint where "INT_DISABLED \<equiv> 0x00010000"

definition ioapicread :: "uint \<Rightarrow> (uint \<Rightarrow> uint) \<Rightarrow> uint" where
  "ioapicread reg io = io reg"

definition ioapicwrite :: "uint \<Rightarrow> uint \<Rightarrow> (uint \<Rightarrow> uint) \<Rightarrow> (uint \<Rightarrow> uint)" where
  "ioapicwrite reg data io = io(reg := data)"

text \<open>The vector of the first interrupt is \<open>T_IRQ0\<close>, 32.\<close>

definition ioapic_mask :: "nat \<Rightarrow> (uint \<Rightarrow> uint) \<Rightarrow> (uint \<Rightarrow> uint)" where
  "ioapic_mask i io =
     ioapicwrite (REG_TABLE + 2 * of_nat i + 1) 0 (ioapicwrite (REG_TABLE + 2 * of_nat i) (INT_DISABLED OR (32 + of_nat i)) io)"

definition ioapicinit :: "uchar \<Rightarrow> (uint \<Rightarrow> uint) \<Rightarrow> 'z consv_scheme \<Rightarrow> ((uint \<Rightarrow> uint) \<times> 'z consv_scheme) res" where
  "ioapicinit ioapicid io s =
     (let maxintr = unat (drop_bit 16 (ioapicread REG_VER io) AND 0xFF);
          id = drop_bit 24 (ioapicread REG_ID io) in
      bindE (if id \<noteq> ucast ioapicid then cprintf ''ioapicinit: id isn't equal to ioapicid; not a MP\<newline>'' [] s else Inr s) (\<lambda>s.
        Inr (fold ioapic_mask [0..<Suc maxintr] io, s)))"

definition ioapicenable :: "uint \<Rightarrow> uint \<Rightarrow> (uint \<Rightarrow> uint) \<Rightarrow> (uint \<Rightarrow> uint)" where
  "ioapicenable irq cpunum io =
     ioapicwrite (REG_TABLE + 2 * irq + 1) (push_bit 24 cpunum) (ioapicwrite (REG_TABLE + 2 * irq) (32 + irq) io)"

text \<open>An interrupt is disabled by bit 16 of its entry in the redirection table.\<close>

definition io_masked :: "(uint \<Rightarrow> uint) \<Rightarrow> nat \<Rightarrow> bool" where
  "io_masked io i \<longleftrightarrow> bit (io (REG_TABLE + 2 * of_nat i)) 16"

lemma table_reg_inj:
  assumes "i < 256" "j < 256"
  shows "REG_TABLE + 2 * of_nat i = (REG_TABLE + 2 * of_nat j :: uint) \<longleftrightarrow> i = j"
    "REG_TABLE + 2 * of_nat i + 1 \<noteq> (REG_TABLE + 2 * of_nat j :: uint)"
proof -
  have u: "unat (REG_TABLE + 2 * of_nat k :: uint) = 16 + 2 * k" "unat (REG_TABLE + 2 * of_nat k + 1 :: uint) = 17 + 2 * k" if "k < 256" for k
    using that by (simp_all add: unat_word_ariths unat_of_nat)
  show "REG_TABLE + 2 * of_nat i = (REG_TABLE + 2 * of_nat j :: uint) \<longleftrightarrow> i = j"
    using u(1) [OF assms(1)] u(1) [OF assms(2)] by (metis add_left_cancel mult_left_cancel zero_neq_numeral)
  show "REG_TABLE + 2 * of_nat i + 1 \<noteq> (REG_TABLE + 2 * of_nat j :: uint)"
  proof
    assume "REG_TABLE + 2 * of_nat i + 1 = (REG_TABLE + 2 * of_nat j :: uint)"
    then have "17 + 2 * i = 16 + 2 * j" using u(2) [OF assms(1)] u(1) [OF assms(2)] by metis
    then show False by presburger
  qed
qed

lemma ioapic_mask_one: "n < 256 \<Longrightarrow> j < 256 \<Longrightarrow> io_masked (ioapic_mask n io) j \<longleftrightarrow> j = n \<or> io_masked io j"
proof -
  have "bit (INT_DISABLED OR (32 + of_nat n) :: uint) 16" by (simp add: bit_or_iff bit_numeral_rec)
  then show "n < 256 \<Longrightarrow> j < 256 \<Longrightarrow> io_masked (ioapic_mask n io) j \<longleftrightarrow> j = n \<or> io_masked io j"
    using table_reg_inj [of n j] table_reg_inj [of j n] by (auto simp: io_masked_def ioapic_mask_def ioapicwrite_def)
qed

lemma ioapic_mask_all: "n \<le> 256 \<Longrightarrow> \<forall>i < n. io_masked (fold ioapic_mask [0..<n] io) i"
  by (induction n) (auto simp: ioapic_mask_one less_Suc_eq)

text \<open>
  After \<open>ioapicinit\<close> every interrupt is disabled; \<open>ioapicenable\<close> sends one to a CPU with its vector and leaves the others
  as they are.
\<close>

lemma ioapicinit_masks:
  assumes "ioapicinit ioapicid io s = Inr (io', t)" "i \<le> unat (drop_bit 16 (io REG_VER) AND 0xFF)"
  shows "io_masked io' i"
proof -
  let ?n = "unat (drop_bit 16 (io REG_VER) AND 0xFF)"
  have "drop_bit 16 (io REG_VER) AND 0xFF \<le> 0xFF" by (rule word_and_le1)
  then have "?n < 256" by (simp add: word_le_nat_alt)
  then show ?thesis using ioapic_mask_all [of "Suc ?n" io] assms by (auto simp: ioapicinit_def ioapicread_def Let_def res_iff)
qed

lemma ioapicenable_one:
  assumes "irq < 224" "j < 224" "j \<noteq> irq"
  shows "\<not> io_masked (ioapicenable (of_nat irq) cpunum io) irq"
    "ioapicenable (of_nat irq) cpunum io (REG_TABLE + 2 * of_nat irq) = 32 + of_nat irq"
    "ioapicenable (of_nat irq) cpunum io (REG_TABLE + 2 * of_nat irq + 1) = push_bit 24 cpunum"
    "io_masked (ioapicenable (of_nat irq) cpunum io) j = io_masked io j"
proof -
  have "unat (32 + of_nat irq :: uint) = 32 + irq" using assms(1) by (simp add: unat_word_ariths unat_of_nat)
  then have "\<not> bit (32 + of_nat irq :: uint) 16" using assms(1) bit_unsigned_iff [where 'a = nat, of "32 + of_nat irq :: uint" 16] by (simp add: bit_iff_odd)
  then show "\<not> io_masked (ioapicenable (of_nat irq) cpunum io) irq"
    using table_reg_inj(2) [of irq irq] assms(1) by (auto simp: io_masked_def ioapicenable_def ioapicwrite_def)
  show "ioapicenable (of_nat irq) cpunum io (REG_TABLE + 2 * of_nat irq) = 32 + of_nat irq"
    "ioapicenable (of_nat irq) cpunum io (REG_TABLE + 2 * of_nat irq + 1) = push_bit 24 cpunum"
    by (simp_all add: ioapicenable_def ioapicwrite_def)
  show "io_masked (ioapicenable (of_nat irq) cpunum io) j = io_masked io j"
    using table_reg_inj [of irq j] table_reg_inj [of j irq] assms by (auto simp: io_masked_def ioapicenable_def ioapicwrite_def)
qed

end
