(* ===== verification/Ide.thy ===== *)
theory Ide
  imports Bio Ioapic
begin

text \<open>
  The disk driver, src/source/ide.c. The disk itself is not code of the kernel: what its status port and its data port
  deliver is given by the sequences \<open>ide_status\<close> and \<open>ide_blocks\<close>, and what is written to its ports is recorded in
  \<open>ide_out\<close>. The queue of requests goes through the \<open>qnext\<close> links of the buffers.
\<close>

section \<open>State\<close>

abbreviation (input) IDE_BSY :: uchar where "IDE_BSY \<equiv> 0x80"
abbreviation (input) IDE_DRDY :: uchar where "IDE_DRDY \<equiv> 0x40"
abbreviation (input) IDE_DF :: uchar where "IDE_DF \<equiv> 0x20"
abbreviation (input) IDE_ERR :: uchar where "IDE_ERR \<equiv> 0x01"
abbreviation (input) IDE_CMD_READ :: uchar where "IDE_CMD_READ \<equiv> 0x20"
abbreviation (input) IDE_CMD_WRITE :: uchar where "IDE_CMD_WRITE \<equiv> 0x30"
abbreviation (input) IDE_CMD_RDMUL :: uchar where "IDE_CMD_RDMUL \<equiv> 0xc4"
abbreviation (input) IDE_CMD_WRMUL :: uchar where "IDE_CMD_WRMUL \<equiv> 0xc5"

datatype pio = Outb uint uchar | Outsl uint block

record idev = bufv +
  idequeue :: "nat option"
  havedisk1 :: bool
  ide_status :: "nat \<Rightarrow> uchar"
  ide_reads :: nat
  ide_blocks :: "nat \<Rightarrow> block"
  ide_insl :: nat
  ide_out :: "pio list"
  ide_ioapic :: "uint \<Rightarrow> uint"

definition inb_status :: "'z idev_scheme \<Rightarrow> uchar \<times> 'z idev_scheme" where
  "inb_status s = (ide_status s (ide_reads s), s\<lparr>ide_reads := ide_reads s + 1\<rparr>)"

definition pout :: "pio list \<Rightarrow> 'z idev_scheme \<Rightarrow> 'z idev_scheme" where
  "pout ps s = s\<lparr>ide_out := ide_out s @ ps\<rparr>"

section \<open>The driver\<close>

text \<open>At most \<open>n\<close> polls. The result is \<open>True\<close> for 0 and \<open>False\<close> for -1.\<close>

fun idewait :: "nat \<Rightarrow> bool \<Rightarrow> 'z idev_scheme \<Rightarrow> (bool \<times> 'z idev_scheme) res" where
  "idewait 0 checkerr s = Inl Diverge"
| "idewait (Suc n) checkerr s =
     (let (r, s) = inb_status s in
      if r AND (IDE_BSY OR IDE_DRDY) \<noteq> IDE_DRDY then idewait n checkerr s
      else if checkerr \<and> r AND (IDE_DF OR IDE_ERR) \<noteq> 0 then Inr (False, s)
      else Inr (True, s))"

text \<open>The loop of \<open>ideinit\<close> that looks for disk 1.\<close>

fun ide_probe :: "nat \<Rightarrow> 'z idev_scheme \<Rightarrow> 'z idev_scheme" where
  "ide_probe 0 s = s"
| "ide_probe (Suc k) s = (let (r, s) = inb_status s in if r \<noteq> 0 then s\<lparr>havedisk1 := True\<rparr> else ide_probe k s)"

definition ideinit :: "nat \<Rightarrow> 'z idev_scheme \<Rightarrow> 'z idev_scheme res" where
  "ideinit n s =
     (let s = initlock Lk_ide ''ide'' s;
          s = s\<lparr>ide_ioapic := ioapicenable 14 (of_nat (ncpu s) - 1) (ide_ioapic s)\<rparr> in
      bindE (idewait n False s) (\<lambda>(_, s).
        let s = pout [Outb 0x1f6 (0xe0 OR push_bit 4 1)] s;
            s = ide_probe 1000 s
        in Inr (pout [Outb 0x1f6 (0xe0 OR push_bit 4 0)] s)))"

definition idestart :: "nat \<Rightarrow> nat option \<Rightarrow> 'z idev_scheme \<Rightarrow> 'z idev_scheme res" where
  "idestart n p s =
     (case p of
        None \<Rightarrow> Inl (Panic ''idestart'')
      | Some b \<Rightarrow>
          if b_blockno (bufs s b) \<ge> of_nat FSSIZE then Inl (Panic ''incorrect blockno'')
          else
            let sector_per_block = BSIZE div 512;
                sector = b_blockno (bufs s b) * of_nat sector_per_block;
                read_cmd = (if sector_per_block = 1 then IDE_CMD_READ else IDE_CMD_RDMUL);
                write_cmd = (if sector_per_block = 1 then IDE_CMD_WRITE else IDE_CMD_WRMUL) in
            if sector_per_block > 7 then Inl (Panic ''idestart'')
            else
              bindE (idewait n False s) (\<lambda>(_, s).
                let s = pout [Outb 0x3f6 0, Outb 0x1f2 (of_nat sector_per_block), Outb 0x1f3 (ucast (sector AND 0xff)),
                          Outb 0x1f4 (ucast (drop_bit 8 sector AND 0xff)), Outb 0x1f5 (ucast (drop_bit 16 sector AND 0xff)),
                          Outb 0x1f6 (0xe0 OR push_bit 4 (ucast (b_dev (bufs s b) AND 1)) OR ucast (drop_bit 24 sector AND 0x0f))] s in
                if b_flags (bufs s b) AND B_DIRTY \<noteq> 0
                then Inr (pout [Outb 0x1f7 write_cmd, Outsl 0x1f0 (b_data (bufs s b))] s)
                else Inr (pout [Outb 0x1f7 read_cmd] s)))"

definition ideintr :: "nat \<Rightarrow> 'z idev_scheme \<Rightarrow> 'z idev_scheme res" where
  "ideintr n s =
     bindE (acquire Lk_ide s) (\<lambda>s.
       case idequeue s of
         None \<Rightarrow> release Lk_ide s
       | Some b \<Rightarrow>
           let s = s\<lparr>idequeue := b_qnext (bufs s b)\<rparr> in
           bindE (if b_flags (bufs s b) AND B_DIRTY = 0
                  then bindE (idewait n True s) (\<lambda>(ok, s).
                    Inr (if ok then upd_buf b (\<lambda>x. x\<lparr>b_data := ide_blocks s (ide_insl s)\<rparr>) (s\<lparr>ide_insl := ide_insl s + 1\<rparr>) else s))
                  else Inr s) (\<lambda>s.
             let s = upd_buf b (\<lambda>x. x\<lparr>b_flags := b_flags x OR B_VALID\<rparr>) s;
                 s = upd_buf b (\<lambda>x. x\<lparr>b_flags := b_flags x AND NOT B_DIRTY\<rparr>) s in
             bindE (wakeup (Ch_buf b) s) (\<lambda>s.
             bindE (if idequeue s \<noteq> None then idestart n (idequeue s) s else Inr s) (release Lk_ide))))"

text \<open>The last buffer of the queue that starts with \<open>x\<close>; a queue of more than \<open>n\<close> buffers has a cycle.\<close>

fun queue_end :: "nat \<Rightarrow> (nat \<Rightarrow> buf) \<Rightarrow> nat \<Rightarrow> nat res" where
  "queue_end 0 bs x = Inl Diverge"
| "queue_end (Suc n) bs x = (case b_qnext (bs x) of None \<Rightarrow> Inr x | Some y \<Rightarrow> queue_end n bs y)"

definition ide_append :: "nat \<Rightarrow> 'z idev_scheme \<Rightarrow> 'z idev_scheme res" where
  "ide_append b s =
     (let s = upd_buf b (\<lambda>x. x\<lparr>b_qnext := None\<rparr>) s in
      case idequeue s of
        None \<Rightarrow> Inr (s\<lparr>idequeue := Some b\<rparr>)
      | Some x \<Rightarrow> bindE (queue_end NBUF (bufs s) x) (\<lambda>y. Inr (upd_buf y (\<lambda>z. z\<lparr>b_qnext := Some b\<rparr>) s)))"

text \<open>The loop that waits for the request, for at most \<open>k\<close> wakeups.\<close>

fun ide_await :: "nat \<Rightarrow> 'z idev_scheme env \<Rightarrow> nat \<Rightarrow> 'z idev_scheme \<Rightarrow> 'z idev_scheme res" where
  "ide_await k e b s =
     (if b_flags (bufs s b) AND (B_VALID OR B_DIRTY) \<noteq> B_VALID then
        case k of 0 \<Rightarrow> Inl Diverge
        | Suc m \<Rightarrow> bindE (sleep (e_sw e) (Ch_buf b) Lk_ide s) (ide_await m e b)
      else Inr s)"

declare ide_await.simps [simp del]

definition iderw_ide :: "'z idev_scheme env \<Rightarrow> nat \<Rightarrow> nat \<Rightarrow> 'z idev_scheme \<Rightarrow> 'z idev_scheme res" where
  "iderw_ide e n b s =
     bindE (holdingsleep (Sl_buf b) s) (\<lambda>(h, s).
       if \<not> h then Inl (Panic ''iderw: buf not locked'')
       else if b_flags (bufs s b) AND (B_VALID OR B_DIRTY) = B_VALID then Inl (Panic ''iderw: nothing to do'')
       else if b_dev (bufs s b) \<noteq> 0 \<and> \<not> havedisk1 s then Inl (Panic ''iderw: ide disk 1 not present'')
       else
         bindE (acquire Lk_ide s) (\<lambda>s.
         bindE (ide_append b s) (\<lambda>s.
         bindE (if idequeue s = Some b then idestart n (Some b) s else Inr s) (\<lambda>s.
         bindE (ide_await (e_fuel e) e b s) (release Lk_ide)))))"

end
