(* ===== verification/Ide_Props.thy ===== *)
theory Ide_Props
  imports Ide Fs_Example
begin

text \<open>
  The disk driver serves its requests in the order they came, and what it writes to the ports of the disk is the
  request at the head of its queue.
\<close>

section \<open>The queue\<close>

fun is_queue :: "(nat \<Rightarrow> buf) \<Rightarrow> nat option \<Rightarrow> nat list \<Rightarrow> bool" where
  "is_queue bs q [] = (q = None)"
| "is_queue bs q (x # xs) = (q = Some x \<and> is_queue bs (b_qnext (bs x)) xs)"

lemma is_queue_cong: "(\<And>x. x \<in> set xs \<Longrightarrow> b_qnext (bs x) = b_qnext (bs' x)) \<Longrightarrow> is_queue bs q xs = is_queue bs' q xs"
  by (induction xs arbitrary: q) auto

lemma queue_end_last: "is_queue bs (Some x) xs \<Longrightarrow> length xs \<le> n \<Longrightarrow> queue_end n bs x = Inr (last xs) \<and> xs \<noteq> []"
proof (induction xs arbitrary: x n)
  case (Cons y ys)
  then obtain m where n: "n = Suc m" by (cases n) auto
  show ?case
  proof (cases ys)
    case Nil
    then show ?thesis using Cons n by simp
  next
    case (Cons z zs)
    then show ?thesis using Cons.IH [of z m] Cons.prems n by auto
  qed
qed simp

lemma is_queue_append:
  assumes "is_queue bs q xs" "xs \<noteq> []" "distinct xs" "b \<notin> set xs" "b_qnext (bs b) = None"
  shows "is_queue (bs(last xs := (bs (last xs))\<lparr>b_qnext := Some b\<rparr>)) q (xs @ [b])"
  using assms
proof (induction xs arbitrary: q)
  case (Cons x xs)
  show ?case
  proof (cases "xs = []")
    case False
    then have "last xs \<noteq> x" using Cons.prems(3) by auto
    then show ?thesis using Cons False by auto
  qed (use Cons.prems in auto)
qed simp

text \<open>Buffers that differ only in their links.\<close>

definition same_but_links :: "(nat \<Rightarrow> buf) \<Rightarrow> (nat \<Rightarrow> buf) \<Rightarrow> bool" where
  "same_but_links bs bs' \<longleftrightarrow> (\<forall>i. (bs i)\<lparr>b_qnext := None\<rparr> = (bs' i)\<lparr>b_qnext := None\<rparr>)"

lemma same_but_linksD:
  assumes "same_but_links bs bs'"
  shows "b_flags (bs i) = b_flags (bs' i)" "b_blockno (bs i) = b_blockno (bs' i)" "b_dev (bs i) = b_dev (bs' i)" "b_data (bs i) = b_data (bs' i)"
  using assms [unfolded same_but_links_def, rule_format, of i] by (cases "bs i"; cases "bs' i"; simp)+

lemma ide_append_ok:
  assumes "is_queue (bufs s) (idequeue s) xs" "distinct xs" "b \<notin> set xs" "length xs \<le> NBUF"
  shows "\<exists>q bs. ide_append b s = Inr (s\<lparr>idequeue := q, bufs := bs\<rparr>) \<and> is_queue bs q (xs @ [b]) \<and> same_but_links bs (bufs s)"
proof (cases "idequeue s")
  case None
  then have "xs = []" using assms(1) by (cases xs) auto
  then show ?thesis using None
    by (intro exI [of _ "Some b"] exI [of _ "(bufs s)(b := (bufs s b)\<lparr>b_qnext := None\<rparr>)"])
      (simp add: ide_append_def upd_buf_def same_but_links_def Let_def)
next
  case (Some x)
  let ?bs = "(bufs s)(b := (bufs s b)\<lparr>b_qnext := None\<rparr>)"
  have q: "is_queue ?bs (Some x) xs" proof -
    have "is_queue (bufs s) (Some x) xs = is_queue ?bs (Some x) xs" by (rule is_queue_cong) (use assms(3) in auto)
    then show ?thesis using assms(1) Some by simp
  qed
  have e: "queue_end NBUF ?bs x = Inr (last xs)" "xs \<noteq> []" using queue_end_last [OF q assms(4)] by simp_all
  let ?cs = "?bs(last xs := (?bs (last xs))\<lparr>b_qnext := Some b\<rparr>)"
  have "is_queue ?cs (Some x) (xs @ [b])" by (rule is_queue_append [OF q e(2) assms(2,3)]) simp
  moreover have "ide_append b s = Inr (s\<lparr>idequeue := Some x, bufs := ?cs\<rparr>)"
    using Some e(1) by (cases s) (simp add: ide_append_def upd_buf_def Let_def)
  ultimately show ?thesis by (intro exI [of _ "Some x"] exI [of _ ?cs]) (simp add: same_but_links_def)
qed

section \<open>The ports\<close>

text \<open>The disk becomes ready within \<open>n\<close> polls.\<close>

definition disk_ready :: "nat \<Rightarrow> 'z idev_scheme \<Rightarrow> bool" where
  "disk_ready n s \<longleftrightarrow> (\<forall>m. \<exists>k < n. ide_status s (m + k) AND (IDE_BSY OR IDE_DRDY) = IDE_DRDY)"

definition disk_error :: "'z idev_scheme \<Rightarrow> bool" where
  "disk_error s \<longleftrightarrow> (\<exists>m. ide_status s m AND (IDE_DF OR IDE_ERR) \<noteq> 0)"

lemma idewait_poll:
  assumes "\<exists>k < n. ide_status s (ide_reads s + k) AND (IDE_BSY OR IDE_DRDY) = IDE_DRDY"
  shows "\<exists>ok r. idewait n chk s = Inr (ok, s\<lparr>ide_reads := r\<rparr>) \<and> (ok \<or> disk_error s)"
  using assms
proof (induction n arbitrary: s)
  case (Suc n)
  show ?case
  proof (cases "ide_status s (ide_reads s) AND (IDE_BSY OR IDE_DRDY) = IDE_DRDY")
    case True
    then show ?thesis by (auto simp: inb_status_def disk_error_def)
  next
    case False
    let ?t = "s\<lparr>ide_reads := ide_reads s + 1\<rparr>"
    obtain k where k: "k < Suc n" "ide_status s (ide_reads s + k) AND (IDE_BSY OR IDE_DRDY) = IDE_DRDY" using Suc.prems by blast
    then obtain j where "k = Suc j" using False by (cases k) auto
    then have "\<exists>k < n. ide_status ?t (ide_reads ?t + k) AND (IDE_BSY OR IDE_DRDY) = IDE_DRDY" using k by auto
    then have "\<exists>ok r. idewait n chk ?t = Inr (ok, ?t\<lparr>ide_reads := r\<rparr>) \<and> (ok \<or> disk_error ?t)" by (rule Suc.IH)
    then show ?thesis using False by (auto simp: inb_status_def disk_error_def)
  qed
qed simp

lemma idewait_ok: "disk_ready n s \<Longrightarrow> \<exists>ok r. idewait n chk s = Inr (ok, s\<lparr>ide_reads := r\<rparr>) \<and> (ok \<or> disk_error s)"
  by (rule idewait_poll) (auto simp: disk_ready_def)

text \<open>What the disk has been told: the last byte written to each register.\<close>

definition last_out :: "pio list \<Rightarrow> uint \<Rightarrow> uint" where
  "last_out ps r = (case find (\<lambda>p. case p of Outb q v \<Rightarrow> q = r | _ \<Rightarrow> False) (rev ps) of Some (Outb q v) \<Rightarrow> ucast v | _ \<Rightarrow> 0)"

definition lba_of :: "pio list \<Rightarrow> uint" where
  "lba_of ps = last_out ps 0x1f3 OR push_bit 8 (last_out ps 0x1f4) OR push_bit 16 (last_out ps 0x1f5) OR push_bit 24 (last_out ps 0x1f6 AND 0xf)"

definition drive_of :: "pio list \<Rightarrow> uint" where
  "drive_of ps = drop_bit 4 (last_out ps 0x1f6) AND 1"

text \<open>A request for a block: the drive, the sector, one sector, and the command with the data to be written.\<close>

definition asks_for :: "pio list \<Rightarrow> buf \<Rightarrow> bool" where
  "asks_for ps x \<longleftrightarrow> lba_of ps = b_blockno x \<and> drive_of ps = b_dev x AND 1 \<and> last_out ps 0x1f2 = 1 \<and>
     (if b_flags x AND B_DIRTY \<noteq> 0 then last_out ps 0x1f7 = 0x30 \<and> last ps = Outsl 0x1f0 (b_data x) else last_out ps 0x1f7 = 0x20)"

lemma sector_bytes:
  fixes x :: uint
  assumes "x < 1000"
  shows "ucast (ucast (x AND 0xff) :: uchar) OR push_bit 8 (ucast (ucast (drop_bit 8 x AND 0xff) :: uchar)) OR
    push_bit 16 (ucast (ucast (drop_bit 16 x AND 0xff) :: uchar)) = x" "drop_bit 24 x = 0"
proof -
  have m: "a AND 0xff = take_bit 8 a" for a :: uint by (simp add: take_bit_eq_mask mask_eq_exp_minus_1)
  have "unat x < 1024" using assms by (simp add: word_less_nat_alt)
  then have "take_bit 10 x = x" by (simp add: take_bit_eq_mod word_arith_nat_mod)
  then have b: "bit x n \<Longrightarrow> n < 10" for n by (metis bit_take_bit_iff)
  show "ucast (ucast (x AND 0xff) :: uchar) OR push_bit 8 (ucast (ucast (drop_bit 8 x AND 0xff) :: uchar)) OR
    push_bit 16 (ucast (ucast (drop_bit 16 x AND 0xff) :: uchar)) = x"
    unfolding m by (rule bit_word_eqI) (auto simp: bit_simps dest: b)
  show "drop_bit 24 x = 0" by (rule bit_word_eqI) (auto simp: bit_simps dest: b)
qed

text \<open>\<open>idestart\<close> writes the request and nothing else.\<close>

lemma idestart_ok:
  assumes "disk_ready n s" "b_blockno (bufs s b) < of_nat FSSIZE"
  shows "\<exists>r ps. idestart n (Some b) s = Inr (s\<lparr>ide_reads := r, ide_out := ide_out s @ ps\<rparr>) \<and> asks_for (ide_out s @ ps) (bufs s b)"
proof -
  let ?x = "b_blockno (bufs s b)" and ?d = "b_dev (bufs s b)"
  let ?regs = "[Outb 0x3f6 0, Outb 0x1f2 1, Outb 0x1f3 (ucast (?x AND 0xff)), Outb 0x1f4 (ucast (drop_bit 8 ?x AND 0xff)),
    Outb 0x1f5 (ucast (drop_bit 16 ?x AND 0xff)), Outb 0x1f6 (0xe0 OR push_bit 4 (ucast (?d AND 1)) OR ucast (drop_bit 24 ?x AND 0x0f))]"
  let ?cmd = "if b_flags (bufs s b) AND B_DIRTY \<noteq> 0 then [Outb 0x1f7 IDE_CMD_WRITE, Outsl 0x1f0 (b_data (bufs s b))] else [Outb 0x1f7 IDE_CMD_READ]"
  have x: "?x < 1000" using assms(2) by simp
  obtain ok r where w: "idewait n False s = Inr (ok, s\<lparr>ide_reads := r\<rparr>)" using idewait_ok [OF assms(1)] by blast
  have "idestart n (Some b) s = Inr (s\<lparr>ide_reads := r, ide_out := ide_out s @ ?regs @ ?cmd\<rparr>)"
    using x by (simp add: idestart_def w pout_def Let_def not_le [symmetric])
  moreover have o: "?d AND 1 = 0 \<or> ?d AND 1 = 1" by (simp add: and_one_eq mod_2_eq_odd)
  have "asks_for (ide_out s @ ?regs @ ?cmd) (bufs s b)"
    using o sector_bytes [OF x] by (auto simp: asks_for_def lba_of_def drive_of_def last_out_def)
  ultimately show ?thesis by blast
qed

section \<open>The interrupt\<close>

lemma ide_wakeup:
  assumes "cpu_ok s c" "lk_free s Lk_ide" "lk_free s Lk_ptable" "same_cpuv (acquired c Lk_ide s) b"
  shows "wakeup ch b = Inr (b\<lparr>procs := (\<lambda>i. if i < NPROC then woken ch (procs b i) else procs b i)\<rparr>)"
proof -
  let ?a = "acquired c Lk_ide s"
  let ?w = "b\<lparr>procs := (\<lambda>i. if i < NPROC then woken ch (procs b i) else procs b i)\<rparr>"
  have "cpu_ok ?a c" "lk_free ?a Lk_ptable" "0 < ncli (cpus ?a c)" using assms by (auto simp: lock_defs)
  then have b: "cpu_ok b c" "lk_free b Lk_ptable" "0 < ncli (cpus ?w c)"
    using same_cpuv_cong [OF assms(4)] assms(4) by (simp_all add: same_cpuv_def)
  then show ?thesis using wakeup_ok [OF b(1,2), of ch] touch_nested [OF b(3)] by simp
qed

text \<open>The buffer after its request: valid, not dirty, with the data of the disk when it was read.\<close>

definition completed :: "block \<Rightarrow> buf \<Rightarrow> buf \<Rightarrow> bool" where
  "completed d x y \<longleftrightarrow> b_flags y = (b_flags x OR B_VALID) AND NOT B_DIRTY \<and>
     y = x\<lparr>b_flags := b_flags y, b_data := b_data y\<rparr> \<and>
     (if b_flags x AND B_DIRTY = 0 then b_data y = d else b_data y = b_data x)"

lemma ide_transfer:
  assumes "disk_ready n s" "\<not> disk_error s"
  shows "\<exists>r k x. (if b_flags (bufs s b) AND B_DIRTY = 0
      then bindE (idewait n True s) (\<lambda>(ok, s).
        Inr (if ok then upd_buf b (\<lambda>x. x\<lparr>b_data := ide_blocks s (ide_insl s)\<rparr>) (s\<lparr>ide_insl := ide_insl s + 1\<rparr>) else s))
      else Inr s) = Inr (s\<lparr>ide_reads := r, ide_insl := k, bufs := (bufs s)(b := x)\<rparr>) \<and>
    completed (ide_blocks s (ide_insl s)) (bufs s b) (x\<lparr>b_flags := (b_flags x OR B_VALID) AND NOT B_DIRTY\<rparr>)"
proof (cases "b_flags (bufs s b) AND B_DIRTY = 0")
  case True
  obtain r where "idewait n True s = Inr (True, s\<lparr>ide_reads := r\<rparr>)" using idewait_ok [OF assms(1), of True] assms(2) by auto
  then show ?thesis using True
    by (intro exI [of _ r] exI [of _ "ide_insl s + 1"] exI [of _ "(bufs s b)\<lparr>b_data := ide_blocks s (ide_insl s)\<rparr>"])
      (simp add: upd_buf_def completed_def)
next
  case False
  then show ?thesis
    by (intro exI [of _ "ide_reads s"] exI [of _ "ide_insl s"] exI [of _ "bufs s b"]) (simp add: completed_def)
qed

lemma ideintr_ok:
  fixes s :: "'z idev_scheme"
  assumes cpu: "cpu_ok s c" "lk_free s Lk_ide" "lk_free s Lk_ptable" and dev: "disk_ready n s" "\<not> disk_error s"
    and q: "is_queue (bufs s) (idequeue s) (x # ys)" "distinct (x # ys)" and no: "\<forall>y \<in> set ys. b_blockno (bufs s y) < of_nat FSSIZE"
  shows "\<exists>t. ideintr n s = Inr t \<and> is_queue (bufs t) (idequeue t) ys \<and> completed (ide_blocks s (ide_insl s)) (bufs s x) (bufs t x) \<and>
    (\<forall>i. i \<noteq> x \<longrightarrow> bufs t i = bufs s i) \<and> procs t = (\<lambda>i. if i < NPROC then woken (Ch_buf x) (procs s i) else procs s i) \<and>
    (if ys = [] then ide_out t = ide_out s else asks_for (ide_out t) (bufs s (hd ys))) \<and> same_cpuv (touch c s) t"
proof -
  define a where "a = (acquired c Lk_ide s)\<lparr>idequeue := b_qnext (bufs s x)\<rparr>"
  have a: "bufs a = bufs s" "ide_out a = ide_out s" "procs a = procs s" "ide_status a = ide_status s" "ide_blocks a = ide_blocks s" "ide_insl a = ide_insl s"
    by (simp_all add: a_def lock_defs)
  have da: "disk_ready n a" "\<not> disk_error a" using dev by (simp_all add: disk_ready_def disk_error_def a)
  obtain r k z where tr: "(if b_flags (bufs a x) AND B_DIRTY = 0
      then bindE (idewait n True a) (\<lambda>(ok, s).
        Inr (if ok then upd_buf x (\<lambda>x. x\<lparr>b_data := ide_blocks s (ide_insl s)\<rparr>) (s\<lparr>ide_insl := ide_insl s + 1\<rparr>) else s))
      else Inr a) = Inr (a\<lparr>ide_reads := r, ide_insl := k, bufs := (bufs a)(x := z)\<rparr>)"
    "completed (ide_blocks s (ide_insl s)) (bufs s x) (z\<lparr>b_flags := (b_flags z OR B_VALID) AND NOT B_DIRTY\<rparr>)"
    using ide_transfer [OF da, of x] unfolding a by blast
  let ?z = "z\<lparr>b_flags := (b_flags z OR B_VALID) AND NOT B_DIRTY\<rparr>"
  define d where "d = a\<lparr>ide_reads := r, ide_insl := k, bufs := (bufs s)(x := ?z)\<rparr>"
  define w where "w = d\<lparr>procs := (\<lambda>i. if i < NPROC then woken (Ch_buf x) (procs s i) else procs s i)\<rparr>"
  have sd: "same_cpuv (acquired c Lk_ide s) d" "same_cpuv (acquired c Lk_ide s) w" by (simp_all add: same_cpuv_def w_def d_def a_def)
  have pd: "procs d = procs s" by (simp add: d_def a)
  have wk: "wakeup (Ch_buf x) d = Inr w" using ide_wakeup [OF cpu sd(1), of "Ch_buf x"] unfolding w_def pd .
  have hd: "idequeue w = b_qnext (bufs s x)" "bufs w = (bufs s)(x := ?z)" "ide_out w = ide_out s" "disk_ready n w"
    using da by (simp_all add: w_def d_def a disk_ready_def) (simp add: a_def)
  have qy: "is_queue (bufs s) (b_qnext (bufs s x)) ys" "x \<notin> set ys" using q by simp_all
  have qw: "is_queue (bufs w) (idequeue w) ys"
  proof -
    have "is_queue (bufs s) (idequeue w) ys = is_queue (bufs w) (idequeue w) ys" by (rule is_queue_cong) (use qy(2) in \<open>auto simp: hd\<close>)
    then show ?thesis using qy(1) hd(1) by simp
  qed
  have "\<exists>r out. (if idequeue w \<noteq> None then idestart n (idequeue w) w else Inr w) = Inr (w\<lparr>ide_reads := r, ide_out := out\<rparr>) \<and>
    (if ys = [] then out = ide_out s else asks_for out (bufs s (hd ys)))"
  proof (cases ys)
    case Nil
    then show ?thesis using qw by (intro exI [of _ "ide_reads w"] exI [of _ "ide_out w"]) (simp add: hd)
  next
    case (Cons y zs)
    then have y: "idequeue w = Some y" "bufs w y = bufs s y" "b_blockno (bufs w y) < of_nat FSSIZE" using qw qy(2) no by (auto simp: hd)
    then show ?thesis using idestart_ok [OF hd(4) y(3)] Cons by auto
  qed
  then obtain r' out where st: "(if idequeue w \<noteq> None then idestart n (idequeue w) w else Inr w) = Inr (w\<lparr>ide_reads := r', ide_out := out\<rparr>)"
    "if ys = [] then out = ide_out s else asks_for out (bufs s (hd ys))" by blast
  let ?u = "w\<lparr>ide_reads := r', ide_out := out\<rparr>"
  have "same_cpuv (acquired c Lk_ide s) ?u" using sd(2) by (simp add: same_cpuv_def)
  note rl = release_restores [OF cpu(1,2) this]
  have "ideintr n s = Inr (?u\<lparr>fl_if := fl_if s, cpus := cpus (touch c s), locks := locks s\<rparr>)"
  proof -
    have iq: "idequeue (acquired c Lk_ide s) = Some x" "bufs (acquired c Lk_ide s) = bufs s" using q(1) by (simp_all add: lock_defs)
    have ua: "upd_buf x (\<lambda>x. x\<lparr>b_flags := b_flags x AND NOT B_DIRTY\<rparr>) (upd_buf x (\<lambda>x. x\<lparr>b_flags := b_flags x OR B_VALID\<rparr>)
      (a\<lparr>ide_reads := r, ide_insl := k, bufs := (bufs a)(x := z)\<rparr>)) = d" by (simp add: d_def upd_buf_def a)
    show ?thesis
      unfolding ideintr_def acquire_ok [OF cpu(1,2)] bindE_Inr iq option.case Let_def a_def [symmetric] tr(1) ua wk st(1) rl ..
  qed
  moreover have "(bufs ?u) = (bufs s)(x := ?z)" "idequeue ?u = idequeue w" "procs ?u = (\<lambda>i. if i < NPROC then woken (Ch_buf x) (procs s i) else procs s i)"
    by (simp_all add: hd) (simp add: w_def)
  moreover have "lapicid ?u = lapicid s" "ncpu ?u = ncpu s" by (simp_all add: w_def d_def a_def lock_defs)
  ultimately show ?thesis using qw tr(2) st(2) hd(2) by (simp add: same_cpuv_def touch_def upd_cpu_def)
qed

section \<open>A request from start to end\<close>

text \<open>
  While the process sleeps, whoever runs next releases \<open>ptable.lock\<close>, the interrupt of the disk comes, and the
  process is switched to again with \<open>ptable.lock\<close> held.
\<close>

definition sw_intr :: "nat \<Rightarrow> 'z idev_scheme \<Rightarrow> 'z idev_scheme res" where
  "sw_intr n s = bindE (release Lk_ptable s) (\<lambda>s. bindE (ideintr n s) (acquire Lk_ptable))"

lemma flags_done: "((f OR B_VALID) AND NOT B_DIRTY) AND (B_VALID OR B_DIRTY) = (B_VALID :: uint)"
proof -
  have "((f OR B_VALID) AND NOT B_DIRTY) AND (B_VALID OR B_DIRTY) = (f OR B_VALID) AND B_VALID" by (simp add: and.assoc)
  also have "\<dots> = B_VALID" by (rule bit_word_eqI) (auto simp: bit_and_iff bit_or_iff)
  finally show ?thesis .
qed

lemma idev_frame:
  fixes s :: "'z idev_scheme"
  shows "bufs (acquired c l s) = bufs s" "idequeue (acquired c l s) = idequeue s" "ide_status (acquired c l s) = ide_status s"
    "ide_blocks (acquired c l s) = ide_blocks s" "ide_insl (acquired c l s) = ide_insl s" "ide_out (acquired c l s) = ide_out s"
    "bufs (released c l s) = bufs s" "idequeue (released c l s) = idequeue s" "ide_status (released c l s) = ide_status s"
    "ide_blocks (released c l s) = ide_blocks s" "ide_insl (released c l s) = ide_insl s" "ide_out (released c l s) = ide_out s"
  by (simp_all add: lock_defs)

lemma idev_asleep:
  fixes s :: "'z idev_scheme"
  shows "bufs (asleep c l i ch s) = bufs s" "idequeue (asleep c l i ch s) = idequeue s" "ide_status (asleep c l i ch s) = ide_status s"
    "ide_blocks (asleep c l i ch s) = ide_blocks s" "ide_insl (asleep c l i ch s) = ide_insl s" "ide_out (asleep c l i ch s) = ide_out s"
  by (simp_all add: asleep_def paused_def upd_proc_def Let_def idev_frame)

lemma asleep_locks:
  fixes j :: nat and ch :: chan
  assumes "cpu_ok s c" "lk_held s c lk" "ncli (cpus s c) = 1" "lk_free s Lk_ptable" "lk \<noteq> Lk_ptable"
  defines "a \<equiv> asleep c lk j ch s"
  shows "cpu_ok a c" "lk_held a c Lk_ptable" "ncli (cpus a c) = 1" "lk_free a lk"
  using released_acquired_other [OF assms(1-4)] assms(5) by (simp_all add: a_def asleep_def paused_def Let_def)

text \<open>The sleep of \<open>iderw\<close>, with the interrupt in it.\<close>

lemma ide_sleep:
  fixes s :: "'z idev_scheme"
  assumes "cpu_ok s c" "lk_held s c Lk_ide" "ncli (cpus s c) = 1" "cproc (cpus s c) = Some i" "lk_free s Lk_ptable"
    and "disk_ready n s" "\<not> disk_error s" "is_queue (bufs s) (idequeue s) [b]"
  shows "\<exists>v. sleep (sw_intr n) (Ch_buf b) Lk_ide s = Inr (acquired c Lk_ide v) \<and> cpu_ok v c \<and> lk_free v Lk_ide \<and> idequeue v = None \<and>
    completed (ide_blocks s (ide_insl s)) (bufs s b) (bufs v b) \<and> (\<forall>j. j \<noteq> b \<longrightarrow> bufs v j = bufs s j) \<and> ide_out v = ide_out s"
proof -
  define a where "a = asleep c Lk_ide i (Ch_buf b) s"
  have a: "cpu_ok a c" "lk_held a c Lk_ptable" "ncli (cpus a c) = 1" "lk_free a Lk_ide"
    unfolding a_def by (rule asleep_locks [OF assms(1-3,5)]; simp)+
  define r where "r = released c Lk_ptable a"
  have r: "cpu_ok r c" "lk_free r Lk_ptable" "lk_free r Lk_ide" "ncli (cpus r c) = 0" using a by (auto simp: r_def lock_defs)
  have fr: "bufs r = bufs s" "idequeue r = idequeue s" "ide_status r = ide_status s" "ide_blocks r = ide_blocks s" "ide_insl r = ide_insl s" "ide_out r = ide_out s"
    by (simp_all add: r_def a_def idev_frame idev_asleep)
  have dev: "disk_ready n r" "\<not> disk_error r" "is_queue (bufs r) (idequeue r) [b]" using assms(6-8) by (simp_all add: disk_ready_def disk_error_def fr)
  obtain t where t: "ideintr n r = Inr t" "is_queue (bufs t) (idequeue t) []" "completed (ide_blocks s (ide_insl s)) (bufs s b) (bufs t b)"
    "\<And>j. j \<noteq> b \<Longrightarrow> bufs t j = bufs s j" "ide_out t = ide_out s" "same_cpuv (touch c r) t"
    using ideintr_ok [OF r(1,3,2) dev] by (auto simp: fr)
  have tc: "cpu_ok t c" "lk_free t Lk_ptable" "lk_free t Lk_ide" using r by (simp_all add: same_cpuv_cong [OF t(6)])
  have "ncli (cpus t c) = 0" using t(6) r(4) by (simp add: same_cpuv_def touch_def upd_cpu_def)
  let ?u = "acquired c Lk_ptable t"
  have u: "cpu_ok ?u c" "ncli (cpus ?u c) = 1" "lk_held ?u c Lk_ptable" "lk_free ?u Lk_ide" using tc \<open>ncli (cpus t c) = 0\<close> by (auto simp: lock_defs)
  let ?v = "released c Lk_ptable (upd_proc i (\<lambda>q. q\<lparr>p_chan := None\<rparr>) (upd_cpu c (\<lambda>k. k\<lparr>intena := intena (cpus s c)\<rparr>) ?u))"
  have "release Lk_ptable a = Inr r" unfolding r_def using a by (intro release_ok) auto
  then have "sw_intr n a = Inr ?u" using t(1) acquire_ok [OF tc(1,2)] by (simp add: sw_intr_def)
  then have "sleep (sw_intr n) (Ch_buf b) Lk_ide s = Inr (acquired c Lk_ide ?v)"
    using sleep_ok [OF assms(1-4), of "sw_intr n" "Ch_buf b"] assms(5) sleep_resumes(1) [OF u, where i = i and ie = "intena (cpus s c)"] by (simp add: a_def [symmetric])
  moreover have "bufs ?v = bufs t" "idequeue ?v = idequeue t" "ide_out ?v = ide_out t" by (simp_all add: idev_frame upd_proc_def upd_cpu_def)
  ultimately show ?thesis using t sleep_resumes(2,3) [OF u, where i = i and ie = "intena (cpus s c)"] by (intro exI [of _ ?v]) simp
qed

lemma iderw_ide_ok:
  fixes s :: "'z idev_scheme"
  assumes "quiet c s" "ncli (cpus s c) = 0" "sl_locked (slocks s (Sl_buf b)) \<noteq> 0" "sl_pid (slocks s (Sl_buf b)) = mypid c s"
    and "havedisk1 s" "b_blockno (bufs s b) < of_nat FSSIZE"
    and "b_flags (bufs s b) AND (B_VALID OR B_DIRTY) \<noteq> B_VALID" "idequeue s = None" "disk_ready n s" "\<not> disk_error s"
    and "0 < e_fuel e" "e_sw e = sw_intr n"
  shows "\<exists>v bs. iderw_ide e n b s = Inr (touch c v) \<and> same_but_links bs (bufs s) \<and> idequeue v = None \<and> asks_for (ide_out v) (bs b) \<and>
    completed (ide_blocks s (ide_insl s)) (bs b) (bufs v b) \<and> (\<forall>j. j \<noteq> b \<longrightarrow> bufs v j = bs j)"
proof -
  let ?a = "acquired c Lk_ide s"
  obtain i where i: "cproc (cpus s c) = Some i" using assms(1) by (auto simp: quiet_def)
  have h: "holdingsleep (Sl_buf b) s = Inr (True, s)" using assms(3,4) by (simp add: holdingsleep_ok [OF assms(1)])
  obtain q bs where ap: "ide_append b ?a = Inr (?a\<lparr>idequeue := q, bufs := bs\<rparr>)" "is_queue bs q [b]" "same_but_links bs (bufs s)"
    using ide_append_ok [of ?a "[]" b] assms(8) by (auto simp: idev_frame)
  note bb = same_but_linksD [OF ap(3), of b]
  let ?q = "?a\<lparr>idequeue := q, bufs := bs\<rparr>"
  have "disk_ready n ?q" "b_blockno (bufs ?q b) < of_nat FSSIZE" using assms(6,9) bb by (simp_all add: disk_ready_def idev_frame)
  from idestart_ok [OF this] obtain r ps where st: "idestart n (Some b) ?q = Inr (?q\<lparr>ide_reads := r, ide_out := ide_out s @ ps\<rparr>)"
    "asks_for (ide_out s @ ps) (bs b)" by (auto simp: idev_frame)
  let ?w = "?q\<lparr>ide_reads := r, ide_out := ide_out s @ ps\<rparr>"
  have sw: "same_cpuv ?a ?w" by (simp add: same_cpuv_def)
  have "cpu_ok ?a c" "lk_held ?a c Lk_ide" "lk_free ?a Lk_ptable" using assms(1) quiet_acquired(2,4) [OF assms(1)] by (auto simp: quiet_def lock_defs)
  then have w: "cpu_ok ?w c" "lk_held ?w c Lk_ide" "lk_free ?w Lk_ptable" by (simp_all add: same_cpuv_cong [OF sw])
  have w2: "ncli (cpus ?w c) = 1" "cproc (cpus ?w c) = Some i" using assms(2) i by (simp_all add: lock_defs)
  have w3: "disk_ready n ?w" "\<not> disk_error ?w" "is_queue (bufs ?w) (idequeue ?w) [b]" "ide_blocks ?w (ide_insl ?w) = ide_blocks s (ide_insl s)"
    using assms(9,10) ap(2) by (simp_all add: disk_ready_def disk_error_def idev_frame)
  obtain v where v: "sleep (sw_intr n) (Ch_buf b) Lk_ide ?w = Inr (acquired c Lk_ide v)" "cpu_ok v c" "lk_free v Lk_ide" "idequeue v = None"
    "completed (ide_blocks s (ide_insl s)) (bs b) (bufs v b)" "\<And>j. j \<noteq> b \<Longrightarrow> bufs v j = bs j" "ide_out v = ide_out s @ ps"
    using ide_sleep [OF w(1,2) w2 w(3) w3(1-3)] unfolding w3(4) by auto
  obtain k where k: "e_fuel e = Suc k" using assms(11) by (cases "e_fuel e") auto
  have fv: "b_flags (bufs v b) AND (B_VALID OR B_DIRTY) = B_VALID" using v(5) flags_done by (simp add: completed_def)
  have "ide_await (e_fuel e) e b ?w = Inr (acquired c Lk_ide v)"
    unfolding k using assms(7) fv bb v(1) assms(12) by (subst ide_await.simps) (simp add: ide_await.simps [of k] idev_frame)
  moreover have "idequeue ?q = Some b" using ap(2) by simp
  ultimately have "iderw_ide e n b s = Inr (touch c v)"
    using h assms(5,7) ap(1) st(1) release_acquired [OF v(2,3)] quiet_acquired(1) [OF assms(1), of Lk_ide] by (simp add: iderw_ide_def)
  then show ?thesis using v ap(3) st(2) by metis
qed

text \<open>
  C9. The disk driver does what the memory disk does. For a buffer that the process has locked, when no other request is
  queued and the disk answers within the polls the driver makes, \<open>iderw\<close> of ide.c queues the buffer, writes to the
  ports a request for its drive, its block and, for a dirty buffer, with its data, sleeps, and returns after
  the interrupt with the queue empty; the buffers are then as \<open>iderw\<close> of memide.c leaves them, when the
  data port delivers the block of the disk.
\<close>

theorem ide_refines_memide:
  fixes s :: "'z idev_scheme"
  assumes "quiet c s" "ncli (cpus s c) = 0" "sl_locked (slocks s (Sl_buf b)) \<noteq> 0" "sl_pid (slocks s (Sl_buf b)) = mypid c s"
    and "b_dev (bufs s b) = 1" "havedisk1 s" "b_blockno (bufs s b) < of_nat FSSIZE" "b_blockno (bufs s b) < disksize s"
    and "b_flags (bufs s b) = 0 \<or> b_flags (bufs s b) = B_VALID OR B_DIRTY" "idequeue s = None"
    and "disk_ready n s" "\<not> disk_error s" "ide_blocks s (ide_insl s) = disk s (b_blockno (bufs s b))"
    and "0 < e_fuel e" "e_sw e = sw_intr n"
  shows "\<exists>t u. iderw_ide e n b s = Inr t \<and> iderw b s = Inr u \<and> same_but_links (bufs t) (bufs u) \<and>
    idequeue t = None \<and> asks_for (ide_out t) (bufs s b)"
proof -
  have f: "b_flags (bufs s b) AND (B_VALID OR B_DIRTY) \<noteq> B_VALID" using assms(9) by auto
  obtain v bs where v: "iderw_ide e n b s = Inr (touch c v)" "same_but_links bs (bufs s)" "idequeue v = None" "asks_for (ide_out v) (bs b)"
    "completed (disk s (b_blockno (bufs s b))) (bs b) (bufs v b)" "\<And>j. j \<noteq> b \<Longrightarrow> bufs v j = bs j"
    using iderw_ide_ok [OF assms(1-4,6,7) f assms(10-12,14,15)] unfolding assms(13) by blast
  note bb = same_but_linksD [OF v(2), of b]
  have c: "b_flags (bufs v b) = B_VALID" "b_data (bufs v b) = (if b_flags (bufs s b) = 0 then disk s (b_blockno (bufs s b)) else b_data (bufs s b))"
    using v(5) assms(9) bb by (auto simp: completed_def)
  have mem: "\<exists>u. iderw b s = Inr u \<and> bufs u = (bufs s)(b := (bufs s b)\<lparr>b_data := b_data (bufs v b), b_flags := B_VALID\<rparr>)"
    using assms(9)
  proof
    assume z: "b_flags (bufs s b) = 0"
    then show ?thesis using iderw_held(1) [OF assms(1,3,4,5,8)] c by (simp add: upd_buf_def)
  next
    assume z: "b_flags (bufs s b) = B_VALID OR B_DIRTY"
    then show ?thesis using iderw_held(2) [OF assms(1,3,4,5,8)] c by (simp add: upd_buf_def)
  qed
  then obtain u where u: "iderw b s = Inr u" "bufs u = (bufs s)(b := (bufs s b)\<lparr>b_data := b_data (bufs v b), b_flags := B_VALID\<rparr>)" by blast
  have "same_but_links (bufs v) (bufs u)"
    unfolding same_but_links_def
  proof
    fix j show "(bufs v j)\<lparr>b_qnext := None\<rparr> = (bufs u j)\<lparr>b_qnext := None\<rparr>"
    proof (cases "j = b")
      case True
      have "bufs v b = (bs b)\<lparr>b_flags := B_VALID, b_data := b_data (bufs v b)\<rparr>" using v(5) c(1) by (simp add: completed_def)
      then show ?thesis using True v(2) [unfolded same_but_links_def, rule_format, of b]
        by (cases "bs b"; cases "bufs s b"; cases "bufs v b") (simp add: u(2))
    next
      case False
      then show ?thesis using v(6) [OF False] v(2) by (simp add: u(2) same_but_links_def)
    qed
  qed
  moreover have "asks_for (ide_out v) (bufs s b)" using v(4) bb by (simp add: asks_for_def)
  moreover have "bufs (touch c v) = bufs v" "idequeue (touch c v) = idequeue v" "ide_out (touch c v) = ide_out v" by (simp_all add: touch_def upd_cpu_def)
  ultimately show ?thesis using v(1,3) u(1) by (intro exI [of _ "touch c v"] exI [of _ u]) simp
qed

section \<open>A concrete request\<close>

definition ix_state :: idev where
  "ix_state = bufv.extend (fx_bufv\<lparr>slocks := (\<lambda>l. \<lparr>sl_locked = 1, sl_name = [], sl_pid = mypid 0 px_state\<rparr>),
       bufs := (\<lambda>i. fx_buf\<lparr>b_dev := 1, b_blockno := 500\<rparr>)\<rparr>)
     (idev.fields None True (\<lambda>k. 0x40) 0 (\<lambda>k. fx_disk 500) 0 [] (\<lambda>r. 0))"

lemma ix_sel [simp]:
  "idequeue ix_state = None" "havedisk1 ix_state" "ide_status ix_state = (\<lambda>k. 0x40)" "ide_blocks ix_state = (\<lambda>k. fx_disk 500)" "ide_out ix_state = []"
  "bufs ix_state = (\<lambda>i. fx_buf\<lparr>b_dev := 1, b_blockno := 500\<rparr>)" "disk ix_state = fx_disk" "disksize ix_state = 1000"
  "slocks ix_state = (\<lambda>l. \<lparr>sl_locked = 1, sl_name = [], sl_pid = mypid 0 px_state\<rparr>)"
  by (simp_all add: ix_state_def fx_bufv_def idev.defs bufv.defs slpv.defs procv.defs)

lemma ix_same: "same_cpuv px_state ix_state" "procs ix_state = procs px_state"
  by (simp_all add: same_cpuv_def ix_state_def fx_bufv_def idev.defs bufv.defs slpv.defs procv.defs)

lemma ix_quiet: "quiet 0 ix_state" "ncli (cpus ix_state 0) = 0" "mypid 0 ix_state = mypid 0 px_state"
proof -
  have "quiet 0 px_state" by (auto simp: quiet_def px_state_def lock_defs px_cpus_def ex_locks_def px_procs_def px_unused_def)
  then show "quiet 0 ix_state" by (simp only: quiet_cong [OF ix_same])
  have c: "cpus ix_state = cpus px_state" using ix_same(1) by (simp add: same_cpuv_def)
  then show "ncli (cpus ix_state 0) = 0" by (simp add: px_state_def px_cpus_def)
  show "mypid 0 ix_state = mypid 0 px_state" by (simp add: mypid_def c ix_same(2))
qed

theorem ide_refines_memide_witness:
  "\<exists>t u. iderw_ide \<lparr>e_fuel = 1, e_sw = sw_intr 1\<rparr> 1 3 ix_state = Inr t \<and> iderw 3 ix_state = Inr u \<and>
     same_but_links (bufs t) (bufs u) \<and> lba_of (ide_out t) = 500"
proof -
  have "\<exists>t u. iderw_ide \<lparr>e_fuel = 1, e_sw = sw_intr 1\<rparr> 1 3 ix_state = Inr t \<and> iderw 3 ix_state = Inr u \<and> same_but_links (bufs t) (bufs u) \<and>
    idequeue t = None \<and> asks_for (ide_out t) (bufs ix_state 3)"
    by (rule ide_refines_memide [OF ix_quiet(1,2)]) (simp_all add: ix_quiet(3) fx_buf_def disk_ready_def disk_error_def)
  then show ?thesis by (auto simp: asks_for_def)
qed

end
