(* ===== verification/Spec2Isabelle.thy ===== *)
theory Spec2Isabelle
  imports Base_Props Vm_Props Cstring Procprint Cow_Props Proc_Props Sched_Props Trap Fs_Props Pipe_Props Grep Sh_Props Mp Mutex Ide_Props
begin

text \<open>
  A verification development for the xv6 kernel with copy-on-write fork (src/source).
\<close>

end
